(* ===== verification/NM_Prelude.thy ===== *)
theory NM_Prelude
  imports Complex_Main "HOL-Library.Multiset"
begin

text \<open>
  Shared vocabulary of the node-monitor development.

  \<^item> Python dictionaries.  A Python \<open>dict\<close> keeps its insertion order, and the source relies on
    it (record queue, batch plans, summary rows), so a dictionary is an association list with
    distinct keys: \<open>dget\<close> is \<open>d.get(k)\<close>, \<open>dset\<close> is \<open>d[k] = v\<close> (in place for a known key, at the
    end for a new one), \<open>dpop\<close> is \<open>d.pop(k, None)\<close>, \<open>dmerge\<close> is \<open>{**d, **e}\<close>.
  \<^item> Exceptions as values: \<open>'a res\<close> is either \<open>Inl\<close> of the raised error or \<open>Inr\<close> of the value.
  \<^item> Generic facts on lists and sums that several components use.
\<close>

named_theorems dict_simps \<open>rewrite rules for Python dictionaries\<close>
named_theorems wf_intros \<open>well-formedness is kept by an operation\<close>

subsection \<open>Errors\<close>

datatype py_error = ValueError string | KeyError string | RuntimeError string | OtherError string

type_synonym 'a res = "py_error + 'a"

fun is_err :: "'a res \<Rightarrow> bool" where
  "is_err (Inl _) = True"
| "is_err (Inr _) = False"

subsection \<open>Insertion-ordered dictionaries\<close>

type_synonym ('k, 'v) dict = "('k \<times> 'v) list"

abbreviation dget :: "('k, 'v) dict \<Rightarrow> 'k \<Rightarrow> 'v option" where
  "dget d k \<equiv> map_of d k"

abbreviation dkeys :: "('k, 'v) dict \<Rightarrow> 'k list" where
  "dkeys d \<equiv> map fst d"

abbreviation dvalues :: "('k, 'v) dict \<Rightarrow> 'v list" where
  "dvalues d \<equiv> map snd d"

definition dwf :: "('k, 'v) dict \<Rightarrow> bool" where
  "dwf d \<longleftrightarrow> distinct (dkeys d)"

fun dset :: "('k, 'v) dict \<Rightarrow> 'k \<Rightarrow> 'v \<Rightarrow> ('k, 'v) dict" where
  "dset [] k v = [(k, v)]"
| "dset ((k', v') # d) k v = (if k' = k then (k, v) # d else (k', v') # dset d k v)"

definition dpop :: "('k, 'v) dict \<Rightarrow> 'k \<Rightarrow> ('k, 'v) dict" where
  "dpop d k = filter (\<lambda>(k', _). k' \<noteq> k) d"

definition dget_or :: "('k, 'v) dict \<Rightarrow> 'k \<Rightarrow> 'v \<Rightarrow> 'v" where
  "dget_or d k v = (case dget d k of None \<Rightarrow> v | Some x \<Rightarrow> x)"

definition dsetdefault :: "('k, 'v) dict \<Rightarrow> 'k \<Rightarrow> 'v \<Rightarrow> ('k, 'v) dict" where
  "dsetdefault d k v = (case dget d k of None \<Rightarrow> dset d k v | Some _ \<Rightarrow> d)"

fun dmerge :: "('k, 'v) dict \<Rightarrow> ('k, 'v) dict \<Rightarrow> ('k, 'v) dict" where
  "dmerge d [] = d"
| "dmerge d ((k, v) # e) = dmerge (dset d k v) e"

lemma dget_dset [simp, dict_simps]: "dget (dset d k v) k' = (if k' = k then Some v else dget d k')"
  by (induction d) auto

lemma dget_dpop [simp, dict_simps]: "dget (dpop d k) k' = (if k' = k then None else dget d k')"
  by (induction d) (auto simp: dpop_def)

lemma dget_dsetdefault [dict_simps]:
  "dget (dsetdefault d k v) k' = (if k' = k then Some (dget_or d k v) else dget d k')"
  by (auto simp: dsetdefault_def dget_or_def split: option.splits)

lemma keys_dset [simp, dict_simps]: "fst ` set (dset d k v) = insert k (fst ` set d)"
  by (induction d k v rule: dset.induct) (simp_all add: insert_commute)

lemma dkeys_dset: "dkeys (dset d k v) = (if k \<in> fst ` set d then dkeys d else dkeys d @ [k])"
  by (induction d k v rule: dset.induct) auto

lemma dset_fresh [dict_simps]: "k \<notin> fst ` set d \<Longrightarrow> dset d k v = d @ [(k, v)]"
  by (induction d k v rule: dset.induct) auto

lemma keys_dpop [simp, dict_simps]: "fst ` set (dpop d k) = fst ` set d - {k}"
  by (auto simp: dpop_def)

lemma dwf_Nil [simp, wf_intros]: "dwf []"
  by (simp add: dwf_def)

lemma dwf_dset [wf_intros]: "dwf d \<Longrightarrow> dwf (dset d k v)"
  by (simp add: dwf_def dkeys_dset)

lemma dwf_dpop [wf_intros]: "dwf d \<Longrightarrow> dwf (dpop d k)"
  unfolding dwf_def dpop_def by (induction d) auto

lemma dwf_dsetdefault [wf_intros]: "dwf d \<Longrightarrow> dwf (dsetdefault d k v)"
  by (auto simp: dsetdefault_def dwf_dset split: option.splits)

lemma dwf_dmerge [wf_intros]: "dwf d \<Longrightarrow> dwf (dmerge d e)"
  by (induction d e rule: dmerge.induct) (auto intro: dwf_dset)

lemma dwf_mem_iff: "dwf d \<Longrightarrow> (k, v) \<in> set d \<longleftrightarrow> dget d k = Some v"
  by (auto simp: dwf_def map_of_eq_Some_iff)

text \<open>\<open>{**d, **e}\<close>: a key of \<open>e\<close> wins, every other key keeps its value.\<close>

lemma dget_dmerge [dict_simps]:
  "dwf e \<Longrightarrow> dget (dmerge d e) k = (case dget e k of None \<Rightarrow> dget d k | Some v \<Rightarrow> Some v)"
proof (induction e arbitrary: d)
  case Nil
  then show ?case by simp
next
  case (Cons p e)
  obtain k' v' where p: "p = (k', v')" by (cases p)
  from Cons.prems p have wf: "dwf e" and nin: "k' \<notin> fst ` set e"
    by (auto simp: dwf_def)
  from nin have "dget e k' = None" by (simp add: map_of_eq_None_iff)
  with Cons.IH [OF wf, of "dset d k' v'"] p show ?case
    by (auto split: option.splits)
qed

lemma keys_dmerge [dict_simps]: "fst ` set (dmerge d e) = fst ` set d \<union> fst ` set e"
  by (induction d e rule: dmerge.induct) simp_all

lemma dmerge_assoc_get:
  assumes "dwf e" "dwf f"
  shows "dget (dmerge (dmerge d e) f) k = dget (dmerge d (dmerge e f)) k"
  using assms by (simp add: dget_dmerge dwf_dmerge split: option.splits)

end
