(* ===== verification/Timestamps.thy ===== *)
theory Timestamps
  imports NM_Prelude
begin

text \<open>
  Receive times (\<open>pipeline/timestamps.py\<close>) and the Python \<open>datetime\<close> operations the pipeline
  uses on them.  A \<open>datetime\<close> is its wall-clock reading in microseconds together with its UTC
  offset in microseconds, \<open>None\<close> for a naive one.  Aware times are compared by \<open>instant\<close>, the
  UTC microsecond count, which is what Python compares and hashes.

  Python floats are modelled by exact rationals (\<open>rat\<close>): sums, quotients and roundings are the
  exact ones, so statements about them hold of the program up to floating-point rounding.
\<close>

datatype datetime = DateTime (dt_local: int) (dt_offset: "int option")

definition instant :: "datetime \<Rightarrow> int" where
  "instant t = dt_local t - (case dt_offset t of None \<Rightarrow> 0 | Some off \<Rightarrow> off)"

definition require_aware :: "datetime \<Rightarrow> datetime res" where
  "require_aware recv =
     (if dt_offset recv = None
      then Inl (ValueError ''receive time must be timezone-aware'')
      else Inr recv)"

definition utc :: "int \<Rightarrow> datetime" where
  "utc us = DateTime us (Some 0)"

text \<open>\<open>recv.replace(second=0, microsecond=0)\<close> acts on the wall-clock fields.\<close>

definition floor_minute :: "datetime \<Rightarrow> datetime" where
  "floor_minute recv = DateTime (dt_local recv - dt_local recv mod 60000000) (dt_offset recv)"

text \<open>\<open>now + timedelta(seconds=...)\<close> and \<open>(a - b).total_seconds()\<close>.\<close>

definition add_us :: "datetime \<Rightarrow> int \<Rightarrow> datetime" where
  "add_us t us = DateTime (dt_local t + us) (dt_offset t)"

definition secs_between :: "datetime \<Rightarrow> datetime \<Rightarrow> rat" where
  "secs_between a b = of_int (instant a - instant b) / 1000000"

subsection \<open>Rounding\<close>

text \<open>Python's \<open>round\<close>: to nearest, ties to even.\<close>

definition round_even :: "rat \<Rightarrow> int" where
  "round_even x =
     (let f = \<lfloor>x\<rfloor>; d = x - of_int f in
      if d < 1 / 2 then f
      else if d > 1 / 2 then f + 1
      else if even f then f else f + 1)"

definition round_digits :: "nat \<Rightarrow> rat \<Rightarrow> rat" where
  "round_digits n x = of_int (round_even (x * 10 ^ n)) / 10 ^ n"

definition timestamp :: "datetime \<Rightarrow> rat" where
  "timestamp t = of_int (instant t) / 1000000"

definition fromtimestamp :: "rat \<Rightarrow> datetime" where
  "fromtimestamp secs = utc (round_even (secs * 1000000))"

text \<open>Python's \<open>%\<close> on floats: the result has the sign of the divisor.\<close>

definition fmod :: "rat \<Rightarrow> rat \<Rightarrow> rat" where
  "fmod a b = a - b * of_int \<lfloor>a / b\<rfloor>"

text \<open>
  \<open>UsageAggregator._floor\<close> and \<open>NodePipeline._interval_start\<close>: the start of the interval of
  length \<open>interval\<close> seconds, aligned to the epoch, that holds \<open>recv\<close>.
\<close>

definition interval_floor :: "rat \<Rightarrow> datetime \<Rightarrow> datetime" where
  "interval_floor interval recv =
     (let secs = timestamp recv in fromtimestamp (secs - fmod secs interval))"

lemma round_even_of_int [simp]: "round_even (of_int n) = n"
  by (simp add: round_even_def)

lemma round_even_error: "\<bar>of_int (round_even x) - x\<bar> \<le> 1 / 2"
proof -
  have lo: "of_int \<lfloor>x\<rfloor> \<le> x" and hi: "x < of_int \<lfloor>x\<rfloor> + 1" by linarith+
  then show ?thesis
    by (auto simp: round_even_def Let_def abs_le_iff)
qed

lemma round_even_between: "of_int a \<le> x \<Longrightarrow> x \<le> of_int b \<Longrightarrow> a \<le> round_even x \<and> round_even x \<le> b"
proof -
  assume x: "of_int a \<le> x" "x \<le> of_int b"
  then have lo: "a \<le> \<lfloor>x\<rfloor>" by (simp add: le_floor_iff)
  have "\<lfloor>x\<rfloor> + 1 \<le> b" if "of_int \<lfloor>x\<rfloor> < x"
  proof -
    from that x(2) have "(of_int \<lfloor>x\<rfloor> :: rat) < of_int b" by linarith
    then show ?thesis by simp
  qed
  moreover have "\<lfloor>x\<rfloor> \<le> b" using x(2) by (metis floor_mono floor_of_int)
  ultimately show ?thesis using lo by (auto simp: round_even_def Let_def)
qed

lemma round_digits_between:
  assumes "of_int a \<le> x" "x \<le> of_int b"
  shows "of_int a \<le> round_digits n x \<and> round_digits n x \<le> of_int b"
proof -
  have p: "(0 :: rat) < 10 ^ n" by simp
  from assms p have "of_int (a * 10 ^ n) \<le> x * 10 ^ n" "x * 10 ^ n \<le> of_int (b * 10 ^ n)"
    by (simp_all add: mult_right_mono)
  from round_even_between [OF this] have
    "(of_int (a * 10 ^ n) :: rat) \<le> of_int (round_even (x * 10 ^ n))"
    "(of_int (round_even (x * 10 ^ n)) :: rat) \<le> of_int (b * 10 ^ n)"
    by (simp_all only: of_int_le_iff)
  with p show ?thesis by (simp add: round_digits_def pos_le_divide_eq pos_divide_le_eq)
qed

lemma instant_utc [simp]: "instant (utc us) = us"
  by (simp add: instant_def utc_def)

lemma instant_add_us [simp]: "instant (add_us t us) = instant t + us"
  by (simp add: instant_def add_us_def)

lemma require_aware_utc [simp]: "require_aware (utc us) = Inr (utc us)"
  by (simp add: require_aware_def utc_def)

lemma require_aware_Inr: "require_aware t = Inr u \<Longrightarrow> u = t \<and> dt_offset t \<noteq> None"
  by (simp add: require_aware_def split: if_splits)

lemma fmod_bounds: "0 < b \<Longrightarrow> 0 \<le> fmod a b \<and> fmod a b < b"
proof -
  assume b: "0 < b"
  have "of_int \<lfloor>a / b\<rfloor> * b \<le> a"
    using of_int_floor_le [of "a / b"] by (simp only: pos_le_divide_eq [OF b])
  moreover have "a < (of_int \<lfloor>a / b\<rfloor> + 1) * b"
    using floor_correct [of "a / b"] by (simp only: pos_divide_less_eq [OF b] of_int_add of_int_1)
  ultimately show ?thesis by (simp add: fmod_def algebra_simps)
qed

lemma fmod_of_int:
  assumes "0 < k"
  shows "fmod (of_int n) (of_int k) = of_int (n mod k)"
proof -
  have "\<lfloor>(of_int n :: rat) / of_int k\<rfloor> = n div k" by (rule floor_divide_of_int_eq)
  then show ?thesis by (simp add: fmod_def minus_div_mult_eq_mod [symmetric] mult.commute)
qed

text \<open>For an interval of a whole number of microseconds the floor is the integer one.\<close>

lemma fmod_scale: "c \<noteq> 0 \<Longrightarrow> fmod (a / c) (b / c) = fmod a b / c"
  by (simp add: fmod_def diff_divide_distrib)

lemma interval_floor_us:
  assumes "0 < k"
  shows "interval_floor (of_int k / 1000000) recv = utc (instant recv - instant recv mod k)"
proof -
  have "fmod (of_int (instant recv) / 1000000) (of_int k / 1000000) =
      of_int (instant recv mod k) / (1000000 :: rat)"
    using fmod_scale [of 1000000 "of_int (instant recv)" "of_int k"] assms
    by (simp add: fmod_of_int)
  then have "(timestamp recv - fmod (timestamp recv) (of_int k / 1000000)) * 1000000 =
      (of_int (instant recv - instant recv mod k) :: rat)"
    by (simp add: timestamp_def algebra_simps)
  then show ?thesis
    by (simp only: interval_floor_def Let_def fromtimestamp_def round_even_of_int)
qed

lemma instant_floor_minute:
  "instant (floor_minute t) \<le> instant t \<and> instant t < instant (floor_minute t) + 60000000"
  by (simp add: instant_def floor_minute_def pos_mod_bound)

lemma floor_minute_mono:
  "dt_offset a = dt_offset b \<Longrightarrow> instant a \<le> instant b \<Longrightarrow>
    instant (floor_minute a) \<le> instant (floor_minute b)"
proof -
  assume off: "dt_offset a = dt_offset b" and le: "instant a \<le> instant b"
  then have "dt_local a \<le> dt_local b" by (simp add: instant_def)
  then have "dt_local a div 60000000 \<le> dt_local b div 60000000" by (rule zdiv_mono1) simp
  with off show ?thesis
    by (simp add: instant_def floor_minute_def minus_mod_eq_mult_div)
qed

end
