(* ===== verification/Records.thy ===== *)
theory Records
  imports Timestamps
begin

text \<open>
  Storage records (\<open>pipeline/records.py\<close>) and the Python values their rows hold.  Strings are
  character lists whose characters stand for the code points below 256.
\<close>

datatype pyfloat = Fin rat | PosInf | NegInf | NaN

datatype pyval =
    VNone
  | VBool bool
  | VInt int
  | VFloat pyfloat
  | VStr string
  | VTime datetime
  | VList "pyval list"
  | VTuple "pyval list"
  | VDict "(string \<times> pyval) list"

type_synonym row = "(string, pyval) dict"

text \<open>\<open>Record = namedtuple("Record", "kind row")\<close>\<close>

datatype nm_record = Record (rkind: string) (rrow: row)

definition LIVE_PROCESSES :: string where "LIVE_PROCESSES = ''live_processes''"
definition LIVE_NODE :: string where "LIVE_NODE = ''live_node''"
definition NODE_METRICS_1M :: string where "NODE_METRICS_1M = ''node_metrics_1m''"
definition USER_USAGE_5M :: string where "USER_USAGE_5M = ''user_usage_5m''"
definition NODE_USAGE_5M :: string where "NODE_USAGE_5M = ''node_usage_5m''"
definition NODE_HARDWARE :: string where "NODE_HARDWARE = ''node_hardware''"
definition COLLECTION_EVENT :: string where "COLLECTION_EVENT = ''collection_event''"

lemmas kind_defs = LIVE_PROCESSES_def LIVE_NODE_def NODE_METRICS_1M_def USER_USAGE_5M_def
  NODE_USAGE_5M_def NODE_HARDWARE_def COLLECTION_EVENT_def

text \<open>\<open>spool.LIVE_KINDS\<close>: live rows only describe a node's current state.\<close>

definition is_live :: "nm_record \<Rightarrow> bool" where
  "is_live r \<longleftrightarrow> rkind r = LIVE_PROCESSES \<or> rkind r = LIVE_NODE"

text \<open>\<open>row.get(c)\<close> and \<open>row[c]\<close>.\<close>

definition rget :: "row \<Rightarrow> string \<Rightarrow> pyval" where
  "rget r c = dget_or r c VNone"

definition rindex :: "row \<Rightarrow> string \<Rightarrow> pyval res" where
  "rindex r c = (case dget r c of None \<Rightarrow> Inl (KeyError c) | Some v \<Rightarrow> Inr v)"

definition of_opt :: "('a \<Rightarrow> pyval) \<Rightarrow> 'a option \<Rightarrow> pyval" where
  "of_opt f x = (case x of None \<Rightarrow> VNone | Some v \<Rightarrow> f v)"

abbreviation vnum :: "rat \<Rightarrow> pyval" where
  "vnum q \<equiv> VFloat (Fin q)"

lemma of_opt_simps [simp]: "of_opt f None = VNone" "of_opt f (Some x) = f x"
  by (simp_all add: of_opt_def)

lemma kinds_distinct:
  "distinct [LIVE_PROCESSES, LIVE_NODE, NODE_METRICS_1M, USER_USAGE_5M, NODE_USAGE_5M,
     NODE_HARDWARE, COLLECTION_EVENT]"
  by (simp add: kind_defs)

lemma live_kinds_neq [simp]: "LIVE_NODE \<noteq> LIVE_PROCESSES" "LIVE_PROCESSES \<noteq> LIVE_NODE"
  by (simp_all add: kind_defs)

lemma rindex_Inr [simp]: "rindex r c = Inr v \<longleftrightarrow> dget r c = Some v"
  by (simp add: rindex_def split: option.splits)

lemma rindex_Inl: "rindex r c = Inl e \<longleftrightarrow> dget r c = None \<and> e = KeyError c"
  by (auto simp: rindex_def split: option.splits)

end
