(* ===== verification/Schema.thy ===== *)
theory Schema
  imports Records
begin

text \<open>The column tuples of the stored rows (\<open>pipeline/usage.py\<close>, \<open>node_metrics.py\<close>, \<open>enrich.py\<close>).\<close>

definition COMMON_COLUMNS :: "string list" where
  "COMMON_COLUMNS = [''interval_start'', ''process_count_avg'', ''process_count_max'', ''cpu_seconds'',
     ''rss_kb_avg'', ''rss_kb_max'', ''gpu_mem_mb_avg'', ''gpu_mem_mb_max'', ''threads_avg'',
     ''d_state_fraction'', ''interactive_fraction'', ''by_category'', ''by_activity'', ''by_dormancy'',
     ''by_category_dormancy'', ''sample_count'', ''expected_count'', ''unmeasured_count'']"

definition USER_DERIVED_MAPS :: "string list" where
  "USER_DERIVED_MAPS = [''by_category'', ''by_dormancy'']"

definition USER_USAGE_COLUMNS :: "string list" where
  "USER_USAGE_COLUMNS = ''username'' # filter (\<lambda>c. c \<notin> set USER_DERIVED_MAPS) COMMON_COLUMNS"

definition NODE_USAGE_COLUMNS :: "string list" where
  "NODE_USAGE_COLUMNS = COMMON_COLUMNS @ [''user_count_avg'', ''user_count_max'', ''active_user_count_avg'']"

definition NODE_METRICS_COLUMNS :: "string list" where
  "NODE_METRICS_COLUMNS = [''minute'', ''cpu_pct'', ''load1'', ''load5'', ''load15'', ''procs_running'',
     ''procs_total'', ''socket_count'', ''mem_total_kb'', ''mem_available_kb'', ''mem_cached_kb'',
     ''mem_shmem_kb'', ''mem_used_kb'', ''swap_used_kb'', ''network_rates'', ''lustre_md_rates'', ''gpus'',
     ''gpu_status'', ''sample_latency_sec'', ''clock_offset_sec'', ''probe_cpu_seconds'',
     ''probe_maxrss_kb'', ''probe_rss_kb'', ''sample_count'', ''expected_count'']"

definition LIVE_PROCESS_COLUMNS :: "string list" where
  "LIVE_PROCESS_COLUMNS = [''pid'', ''start_time'', ''uid'', ''username'', ''comm'', ''exe'', ''argv0'',
     ''cmdline'', ''ppid'', ''parent_comm'', ''parent_exe'', ''parent_kind'', ''category'', ''activity'',
     ''state'', ''threads'', ''rss_kb'', ''cpu_seconds'', ''cpu_state'', ''gpu_mem_mb'', ''interactive'',
     ''under_screen_or_tmux'', ''idle_for_sec'', ''idle_for_is_lower_bound'', ''idle_bucket'',
     ''owner_presence'', ''is_user_process'']"

end
