(* ===== verification/Calendar.thy ===== *)
theory Calendar
  imports Records
begin

text \<open>
  The proleptic Gregorian calendar as Python's \<open>datetime\<close> computes it, the ISO text form the
  spool stores (\<open>isoformat\<close> / \<open>fromisoformat\<close>) and zero-padded decimal numbers.
\<close>

subsection \<open>Decimal numbers\<close>

definition digit_char :: "nat \<Rightarrow> char" where
  "digit_char d = char_of (48 + d)"

definition is_digit :: "char \<Rightarrow> bool" where
  "is_digit c \<longleftrightarrow> 48 \<le> (of_char c :: nat) \<and> (of_char c :: nat) \<le> 57"

definition digit_val :: "char \<Rightarrow> nat" where
  "digit_val c = of_char c - 48"

text \<open>\<open>f"{n:0wd}"\<close> for a number that fits the width: exactly \<open>w\<close> digits.\<close>

fun pad :: "nat \<Rightarrow> nat \<Rightarrow> string" where
  "pad 0 n = []"
| "pad (Suc w) n = pad w (n div 10) @ [digit_char (n mod 10)]"

definition parse_digits :: "string \<Rightarrow> nat" where
  "parse_digits s = foldl (\<lambda>acc c. 10 * acc + digit_val c) 0 s"

fun num_width :: "nat \<Rightarrow> nat" where
  "num_width n = (if n < 10 then 1 else Suc (num_width (n div 10)))"

declare num_width.simps [simp del]

text \<open>\<open>str(n)\<close> and \<open>f"{n:06d}"\<close> of a natural number.\<close>

definition show_nat :: "nat \<Rightarrow> string" where
  "show_nat n = pad (num_width n) n"

definition show_int :: "int \<Rightarrow> string" where
  "show_int n = (if n < 0 then CHR ''-'' # show_nat (nat (- n)) else show_nat (nat n))"

definition show_padded :: "nat \<Rightarrow> nat \<Rightarrow> string" where
  "show_padded w n = pad (max w (num_width n)) n"

lemma is_digit_digit_char: "d < 10 \<Longrightarrow> is_digit (digit_char d)"
  by (simp add: is_digit_def digit_char_def)

lemma digit_val_digit_char: "d < 10 \<Longrightarrow> digit_val (digit_char d) = d"
  by (simp add: digit_val_def digit_char_def)

lemma length_pad [simp]: "length (pad w n) = w"
  by (induction w arbitrary: n) auto

lemma pad_numeral: "pad (numeral w) n = pad (pred_numeral w) (n div 10) @ [digit_char (n mod 10)]"
  unfolding numeral_eq_Suc [of w] by simp

lemma pad_digits: "list_all is_digit (pad w n)"
  by (induction w arbitrary: n) (auto simp: is_digit_digit_char)

lemma parse_pad: "parse_digits (pad w n) = n mod 10 ^ w"
proof (induction w arbitrary: n)
  case 0
  then show ?case by (simp add: parse_digits_def)
next
  case (Suc w)
  have "parse_digits (pad (Suc w) n) = 10 * (n div 10 mod 10 ^ w) + n mod 10"
    using Suc.IH [of "n div 10"] by (simp add: parse_digits_def digit_val_digit_char)
  also have "\<dots> = n mod (10 * 10 ^ w)" by (simp add: mod_mult2_eq)
  finally show ?case by simp
qed

lemma parse_pad_fits: "n < 10 ^ w \<Longrightarrow> parse_digits (pad w n) = n"
  by (simp add: parse_pad)

lemma num_width_bound: "n < 10 ^ num_width n"
proof (induction n rule: num_width.induct)
  case (1 n)
  show ?case
  proof (cases "n < 10")
    case True
    then show ?thesis by (subst num_width.simps) simp
  next
    case False
    with "1.IH" have "n div 10 < 10 ^ num_width (n div 10)" by simp
    then have "n < 10 * 10 ^ num_width (n div 10)" by (simp add: div_less_iff_less_mult)
    with False show ?thesis by (subst num_width.simps) simp
  qed
qed

lemma parse_show_nat: "parse_digits (show_nat n) = n"
  by (simp add: show_nat_def parse_pad_fits num_width_bound)

lemma num_width_le: "n < 10 ^ w \<Longrightarrow> 0 < w \<Longrightarrow> num_width n \<le> w"
proof (induction n arbitrary: w rule: num_width.induct)
  case (1 n)
  show ?case
  proof (cases "n < 10")
    case True
    with "1.prems" show ?thesis by (subst num_width.simps) simp
  next
    case False
    with "1.prems" obtain v where v: "w = Suc v" "0 < v"
      by (cases w; cases "w - 1") auto
    with "1.prems" have "n div 10 < 10 ^ v" by (simp add: less_mult_imp_div_less mult.commute)
    with "1.IH" [OF False] v have "num_width (n div 10) \<le> v" by simp
    with False v show ?thesis by (subst num_width.simps) simp
  qed
qed

lemma show_padded_fits: "n < 10 ^ w \<Longrightarrow> 0 < w \<Longrightarrow> show_padded w n = pad w n"
  by (simp add: show_padded_def num_width_le max_absorb1)

subsection \<open>Days and dates\<close>

definition is_leap :: "int \<Rightarrow> bool" where
  "is_leap y \<longleftrightarrow> y mod 4 = 0 \<and> (y mod 100 \<noteq> 0 \<or> y mod 400 = 0)"

definition days_before_year :: "int \<Rightarrow> int" where
  "days_before_year y =
     (let p = y - 1 in p * 365 + p div 4 - p div 100 + p div 400)"

definition month_days :: "int \<Rightarrow> nat list" where
  "month_days y = [31, if is_leap y then 29 else 28, 31, 30, 31, 30, 31, 31, 30, 31, 30, 31]"

definition days_before_month :: "int \<Rightarrow> nat \<Rightarrow> int" where
  "days_before_month y m = int (sum_list (take (m - 1) (month_days y)))"

record date =
  d_year :: int
  d_month :: nat
  d_day :: nat

definition toordinal :: "date \<Rightarrow> int" where
  "toordinal d = days_before_year (d_year d) + days_before_month (d_year d) (d_month d) + int (d_day d)"

definition date_ok :: "date \<Rightarrow> bool" where
  "date_ok d \<longleftrightarrow> 1 \<le> d_month d \<and> d_month d \<le> 12 \<and> 1 \<le> d_day d \<and>
     d_day d \<le> month_days (d_year d) ! (d_month d - 1)"

text \<open>The year holding day number \<open>n\<close>, by the 400, 100, 4 and 1 year cycles.\<close>

definition ord_year :: "int \<Rightarrow> int" where
  "ord_year n =
     (let m = n - 1; n400 = m div 146097; m = m mod 146097;
          n100 = m div 36524; m = m mod 36524;
          n4 = m div 1461; m = m mod 1461;
          n1 = m div 365;
          year = n400 * 400 + 1 + n100 * 100 + n4 * 4 + n1
      in if n1 = 4 \<or> n100 = 4 then year - 1 else year)"

fun month_scan :: "nat list \<Rightarrow> nat \<Rightarrow> nat \<Rightarrow> nat \<times> nat" where
  "month_scan [] m r = (m, r + 1)"
| "month_scan (l # ls) m r = (if r < l \<or> ls = [] then (m, r + 1) else month_scan ls (Suc m) (r - l))"

definition fromordinal :: "int \<Rightarrow> date" where
  "fromordinal n =
     (let y = ord_year n; (m, d) = month_scan (month_days y) 1 (nat (n - days_before_year y - 1))
      in \<lparr>d_year = y, d_month = m, d_day = d\<rparr>)"

lemma div_pred:
  fixes y k :: int
  assumes "0 < k"
  shows "y div k = (y - 1) div k + (if y mod k = 0 then 1 else 0)"
proof (cases "y mod k = 0")
  case True
  then have "y = k * (y div k)" using mult_div_mod_eq [of k y] by simp
  then have "y - 1 = k * (y div k - 1) + (k - 1)" by (simp add: right_diff_distrib)
  then have "(y - 1) div k = y div k - 1"
    using assms by (intro int_div_pos_eq [where r = "k - 1"]) auto
  with True show ?thesis by simp
next
  case False
  then have "0 < y mod k" "y mod k < k" using assms pos_mod_bound [of k y] pos_mod_sign [of k y]
    by linarith+
  moreover have "y - 1 = k * (y div k) + (y mod k - 1)" using mult_div_mod_eq [of k y] by simp
  ultimately have "(y - 1) div k = y div k"
    by (intro int_div_pos_eq [where r = "y mod k - 1"]) auto
  with False show ?thesis by simp
qed

lemma days_before_year_step:
  "days_before_year (y + 1) = days_before_year y + (if is_leap y then 366 else 365)"
proof -
  have p: "y mod 100 = 0 \<Longrightarrow> y mod 4 = 0" "y mod 400 = 0 \<Longrightarrow> y mod 100 = 0" by presburger+
  have shift: "y * 365 + a - b + c = (y - 1) * 365 + a' - b' + c' + 365 + i - j + k"
    if "a = a' + i" "b = b' + j" "c = c' + k" for a a' b b' c c' i j k :: int
    using that by simp
  have "days_before_year (y + 1) = days_before_year y + 365 + (if y mod 4 = 0 then 1 else 0) -
      (if y mod 100 = 0 then 1 else 0) + (if y mod 400 = 0 then 1 else 0)"
    unfolding days_before_year_def Let_def add_diff_cancel_right'
    by (rule shift) (rule div_pred, simp)+
  then show ?thesis unfolding is_leap_def using p
    by (cases "y mod 4 = 0"; cases "y mod 100 = 0"; cases "y mod 400 = 0") (simp_all only: if_True if_False simp_thms)
qed

lemma ord_year_cycles:
  fixes a b c d r :: int
  assumes "0 \<le> b" "b \<le> 3" "0 \<le> c" "c \<le> 24" "0 \<le> d" "d \<le> 3"
  shows "days_before_year (400 * a + 100 * b + 4 * c + d + 1) =
    146097 * a + 36524 * b + 1461 * c + 365 * d"
proof -
  let ?p = "400 * a + 100 * b + 4 * c + d"
  have "?p div 4 = 100 * a + 25 * b + c" using assms by (intro int_div_pos_eq [where r = d]) auto
  moreover have "?p div 100 = 4 * a + b"
    using assms by (intro int_div_pos_eq [where r = "4 * c + d"]) auto
  moreover have "?p div 400 = a"
    using assms by (intro int_div_pos_eq [where r = "100 * b + 4 * c + d"]) auto
  ultimately show ?thesis by (simp add: days_before_year_def)
qed

lemma ord_year_bounds:
  "days_before_year (ord_year n) < n \<and> n \<le> days_before_year (ord_year n + 1)"
proof -
  define a where "a = (n - 1) div 146097"
  define m1 where "m1 = (n - 1) mod 146097"
  define b where "b = m1 div 36524"
  define m2 where "m2 = m1 mod 36524"
  define c where "c = m2 div 1461"
  define m3 where "m3 = m2 mod 1461"
  define d where "d = m3 div 365"
  define r where "r = m3 mod 365"
  have n: "n = 146097 * a + 36524 * b + 1461 * c + 365 * d + r + 1"
  proof -
    have "n - 1 = 146097 * a + m1" by (simp add: a_def m1_def)
    moreover have "m1 = 36524 * b + m2" by (simp add: b_def m2_def)
    moreover have "m2 = 1461 * c + m3" by (simp add: c_def m3_def)
    moreover have "m3 = 365 * d + r" by (simp add: d_def r_def)
    ultimately show ?thesis by linarith
  qed
  have m1: "0 \<le> m1" "m1 < 146097" by (simp_all add: m1_def)
  have b: "0 \<le> b" "b \<le> 4" using m1 zdiv_mono1 [of m1 146096 36524] by (simp_all add: b_def)
  have m2: "0 \<le> m2" "m2 < 36524" by (simp_all add: m2_def)
  have c: "0 \<le> c" "c \<le> 24" using m2 zdiv_mono1 [of m2 36523 1461] by (simp_all add: c_def)
  have m3: "0 \<le> m3" "m3 < 1461" by (simp_all add: m3_def)
  have d: "0 \<le> d" "d \<le> 4" using m3 zdiv_mono1 [of m3 1460 365] by (simp_all add: d_def)
  have r: "0 \<le> r" "r < 365" by (simp_all add: r_def)
  have y: "ord_year n = (let year = a * 400 + 1 + b * 100 + c * 4 + d in
      if d = 4 \<or> b = 4 then year - 1 else year)"
    unfolding ord_year_def Let_def a_def b_def c_def d_def m1_def m2_def m3_def by simp
  show ?thesis
  proof (cases "b = 4 \<or> d = 4")
    case False
    with b d have "b \<le> 3" "d \<le> 3" by linarith+
    with b c d have e: "days_before_year (ord_year n) = 146097 * a + 36524 * b + 1461 * c + 365 * d"
      using ord_year_cycles [of b c d a] False y by (simp add: algebra_simps)
    with n r days_before_year_step [of "ord_year n"] show ?thesis by simp
  next
    case True
    have "n = days_before_year (ord_year n + 1)"
    proof (cases "b = 4")
      case True
      with m1 have "m1 = 146096" unfolding b_def by presburger
      then have "m2 = 0" "c = 0" "d = 0" "r = 0"
        by (simp_all add: m2_def c_def m3_def d_def r_def)
      with True n y show ?thesis using ord_year_cycles [of 0 0 0 "a + 1"] by (simp add: algebra_simps)
    next
      case False
      with True have d4: "d = 4" by simp
      with m3 have "m3 = 1460" unfolding d_def by presburger
      then have "r = 0" by (simp add: r_def)
      have "m2 = 1461 * c + 1460" using \<open>m3 = 1460\<close> unfolding m3_def c_def by presburger
      with m2 c have "c \<le> 23" by linarith
      with False b c d4 n y \<open>r = 0\<close> show ?thesis
        using ord_year_cycles [of b "c + 1" 0 a] by (simp add: algebra_simps)
    qed
    moreover have "days_before_year (ord_year n) < days_before_year (ord_year n + 1)"
      by (simp add: days_before_year_step)
    ultimately show ?thesis by linarith
  qed
qed

lemma month_scan_spec:
  assumes "ls \<noteq> []" and "r < sum_list ls"
  shows "\<exists>i < length ls. month_scan ls m r = (m + i, r - sum_list (take i ls) + 1) \<and>
    sum_list (take i ls) \<le> r \<and> r < sum_list (take (Suc i) ls)"
  using assms
proof (induction ls m r rule: month_scan.induct)
  case (1 m r)
  then show ?case by simp
next
  case (2 l ls m r)
  show ?case
  proof (cases "r < l \<or> ls = []")
    case True
    with 2(3) show ?thesis by (intro exI [of _ 0]) auto
  next
    case False
    with 2(3) have "r - l < sum_list ls" "ls \<noteq> []" by auto
    then obtain i where "i < length ls" "month_scan ls (Suc m) (r - l) = (Suc m + i, r - l - sum_list (take i ls) + 1)"
      "sum_list (take i ls) \<le> r - l" "r - l < sum_list (take (Suc i) ls)"
      using 2(1) [OF False] by blast
    with False show ?thesis by (intro exI [of _ "Suc i"]) auto
  qed
qed

lemma month_days_sum: "sum_list (month_days y) = (if is_leap y then 366 else 365)"
  by (simp add: month_days_def)

lemma length_month_days [simp]: "length (month_days y) = 12"
  by (simp add: month_days_def)

text \<open>\<open>date.fromordinal\<close> yields a valid date, and \<open>toordinal\<close> inverts it.\<close>

lemma fromordinal_spec: "toordinal (fromordinal n) = n \<and> date_ok (fromordinal n)"
proof -
  define y where "y = ord_year n"
  define r where "r = nat (n - days_before_year y - 1)"
  have b: "days_before_year y < n" "n \<le> days_before_year (y + 1)"
    using ord_year_bounds [of n] by (simp_all add: y_def)
  then have r: "int r = n - days_before_year y - 1" by (simp add: r_def)
  with b days_before_year_step [of y] have "r < sum_list (month_days y)"
    by (auto simp: month_days_sum split: if_splits)
  moreover have "month_days y \<noteq> []" by (simp add: month_days_def)
  ultimately obtain i where i: "i < 12"
      "month_scan (month_days y) 1 r = (1 + i, r - sum_list (take i (month_days y)) + 1)"
      "sum_list (take i (month_days y)) \<le> r" "r < sum_list (take (Suc i) (month_days y))"
    using month_scan_spec [of "month_days y" r 1] by auto
  have date: "fromordinal n =
      \<lparr>d_year = y, d_month = 1 + i, d_day = r - sum_list (take i (month_days y)) + 1\<rparr>"
    using i(2) by (simp add: fromordinal_def Let_def y_def r_def)
  have "sum_list (take (Suc i) (month_days y)) = sum_list (take i (month_days y)) + month_days y ! i"
    using i(1) by (simp add: take_Suc_conv_app_nth)
  with i date r show ?thesis
    by (auto simp: toordinal_def date_ok_def days_before_month_def)
qed

subsection \<open>Civil fields of a time\<close>

definition epoch_ordinal :: int where
  "epoch_ordinal = 719163"

definition us_per_day :: int where
  "us_per_day = 86400000000"

record civil =
  c_date :: date
  c_hour :: nat
  c_minute :: nat
  c_second :: nat
  c_us :: nat

definition civil_of :: "int \<Rightarrow> civil" where
  "civil_of local =
     (let rem = nat (local mod us_per_day) in
      \<lparr>c_date = fromordinal (local div us_per_day + epoch_ordinal),
       c_hour = rem div 3600000000,
       c_minute = rem div 60000000 mod 60,
       c_second = rem div 1000000 mod 60,
       c_us = rem mod 1000000\<rparr>)"

definition of_civil :: "civil \<Rightarrow> int" where
  "of_civil c = (toordinal (c_date c) - epoch_ordinal) * us_per_day +
     int (c_hour c) * 3600000000 + int (c_minute c) * 60000000 +
     int (c_second c) * 1000000 + int (c_us c)"

definition civil_ok :: "civil \<Rightarrow> bool" where
  "civil_ok c \<longleftrightarrow> date_ok (c_date c) \<and> c_hour c < 24 \<and> c_minute c < 60 \<and> c_second c < 60 \<and>
     c_us c < 1000000"

lemma clock_digits:
  fixes n :: nat
  shows "n = n div 3600000000 * 3600000000 + n div 60000000 mod 60 * 60000000 +
    n div 1000000 mod 60 * 1000000 + n mod 1000000"
proof -
  have "n div 60000000 = n div 1000000 div 60" "n div 3600000000 = n div 60000000 div 60"
    by (simp_all add: div_mult2_eq [symmetric])
  then show ?thesis
    using div_mult_mod_eq [of n 1000000] div_mult_mod_eq [of "n div 1000000" 60]
      div_mult_mod_eq [of "n div 60000000" 60] by linarith
qed

lemma of_civil_civil_of: "of_civil (civil_of l) = l"
proof -
  define n where "n = nat (l mod us_per_day)"
  have n: "int n = l mod us_per_day" by (simp add: n_def us_per_day_def)
  have "int n = int (n div 3600000000) * 3600000000 + int (n div 60000000 mod 60) * 60000000 +
      int (n div 1000000 mod 60) * 1000000 + int (n mod 1000000)"
    using arg_cong [OF clock_digits [of n], of int] by (simp only: of_nat_add of_nat_mult of_nat_numeral)
  then have "of_civil (civil_of l) = l div us_per_day * us_per_day + int n"
    unfolding of_civil_def civil_of_def Let_def n_def [symmetric]
    by (simp only: civil.simps fromordinal_spec add_diff_cancel_right' add.assoc)
  then show ?thesis by (simp only: n div_mult_mod_eq)
qed

lemma civil_ok_civil_of: "civil_ok (civil_of l)"
proof -
  have "nat (l mod us_per_day) < 86400000000" by (simp add: us_per_day_def)
  then have "nat (l mod us_per_day) div 3600000000 < 24" by (simp add: less_mult_imp_div_less)
  then show ?thesis using fromordinal_spec by (simp add: civil_ok_def civil_of_def Let_def)
qed

subsection \<open>ISO text\<close>

definition show_clock :: "nat \<Rightarrow> nat \<Rightarrow> string" where
  "show_clock h m = pad 2 h @ '':'' @ pad 2 m"

text \<open>\<open>.ffffff\<close>, printed only when the microseconds are not zero.\<close>

definition show_us :: "nat \<Rightarrow> string" where
  "show_us us = (if us = 0 then [] else ''.'' @ pad 6 us)"

definition show_offset :: "int option \<Rightarrow> string" where
  "show_offset off = (case off of None \<Rightarrow> []
     | Some us \<Rightarrow>
         let n = nat \<bar>us\<bar>; s = n div 1000000 mod 60; f = n mod 1000000 in
         (if us < 0 then ''-'' else ''+'') @ show_clock (n div 3600000000) (n div 60000000 mod 60) @
         (if s = 0 \<and> f = 0 then [] else '':'' @ pad 2 s @ show_us f))"

definition isoformat :: "datetime \<Rightarrow> string" where
  "isoformat t =
     (let c = civil_of (dt_local t); d = c_date c in
      pad 4 (nat (d_year d)) @ ''-'' @ pad 2 (d_month d) @ ''-'' @ pad 2 (d_day d) @ ''T'' @
      show_clock (c_hour c) (c_minute c) @ '':'' @ pad 2 (c_second c) @ show_us (c_us c) @
      show_offset (dt_offset t))"

text \<open>The parser accepts the forms \<open>isoformat\<close> prints; anything else is a \<open>ValueError\<close>.\<close>

definition scan_num :: "nat \<Rightarrow> string \<Rightarrow> (nat \<times> string) option" where
  "scan_num w s =
     (if w \<le> length s \<and> list_all is_digit (take w s)
      then Some (parse_digits (take w s), drop w s) else None)"

fun scan_char :: "char \<Rightarrow> string \<Rightarrow> string option" where
  "scan_char c (c' # s) = (if c = c' then Some s else None)"
| "scan_char c [] = None"

definition scan_clock :: "string \<Rightarrow> ((nat \<times> nat) \<times> string) option" where
  "scan_clock s =
     Option.bind (scan_num 2 s) (\<lambda>(h, s).
     Option.bind (scan_char CHR '':'' s) (\<lambda>s.
     Option.bind (scan_num 2 s) (\<lambda>(m, s). Some ((h, m), s))))"

definition scan_us :: "string \<Rightarrow> (nat \<times> string) option" where
  "scan_us s = (case scan_char CHR ''.'' s of None \<Rightarrow> Some (0, s) | Some s' \<Rightarrow> scan_num 6 s')"

definition scan_seconds :: "string \<Rightarrow> ((nat \<times> nat) \<times> string) option" where
  "scan_seconds s =
     (case scan_char CHR '':'' s of None \<Rightarrow> Some ((0, 0), s)
      | Some s' \<Rightarrow>
          Option.bind (scan_num 2 s') (\<lambda>(sec, s).
          Option.bind (scan_us s) (\<lambda>(us, s). Some ((sec, us), s))))"

definition scan_offset :: "string \<Rightarrow> int option option" where
  "scan_offset s =
     (if s = [] then Some None
      else if hd s = CHR ''+'' \<or> hd s = CHR ''-'' then
        Option.bind (scan_clock (tl s)) (\<lambda>((h, m), s').
        Option.bind (scan_seconds s') (\<lambda>((sec, us), s').
        let n = int (h * 3600000000 + m * 60000000 + sec * 1000000 + us) in
        if s' = [] \<and> h < 24 \<and> m < 60 \<and> sec < 60 then Some (Some (if hd s = CHR ''-'' then - n else n))
        else None))
      else None)"

definition fromisoformat :: "string \<Rightarrow> datetime option" where
  "fromisoformat s =
     Option.bind (scan_num 4 s) (\<lambda>(y, s).
     Option.bind (scan_char CHR ''-'' s) (\<lambda>s.
     Option.bind (scan_num 2 s) (\<lambda>(mo, s).
     Option.bind (scan_char CHR ''-'' s) (\<lambda>s.
     Option.bind (scan_num 2 s) (\<lambda>(d, s).
     Option.bind (scan_char CHR ''T'' s) (\<lambda>s.
     Option.bind (scan_clock s) (\<lambda>((h, mi), s).
     Option.bind (scan_char CHR '':'' s) (\<lambda>s.
     Option.bind (scan_num 2 s) (\<lambda>(sec, s).
     Option.bind (scan_us s) (\<lambda>(us, s).
     Option.bind (scan_offset s) (\<lambda>off.
     let c = \<lparr>c_date = \<lparr>d_year = int y, d_month = mo, d_day = d\<rparr>, c_hour = h, c_minute = mi,
         c_second = sec, c_us = us\<rparr> in
     if 1 \<le> y \<and> civil_ok c then Some (DateTime (of_civil c) off) else None)))))))))))"

text \<open>Times Python can represent: years 1 to 9999 and an offset of less than a day.\<close>

definition dt_ok :: "datetime \<Rightarrow> bool" where
  "dt_ok t \<longleftrightarrow>
     1 \<le> d_year (c_date (civil_of (dt_local t))) \<and> d_year (c_date (civil_of (dt_local t))) \<le> 9999 \<and>
     (case dt_offset t of None \<Rightarrow> True | Some off \<Rightarrow> \<bar>off\<bar> < us_per_day)"

lemma scan_num_pad [simp]: "n < 10 ^ w \<Longrightarrow> scan_num w (pad w n @ s) = Some (n, s)"
  by (simp add: scan_num_def pad_digits parse_pad_fits)

lemma scan_num_pad_end [simp]: "n < 10 ^ w \<Longrightarrow> scan_num w (pad w n) = Some (n, [])"
  using scan_num_pad [of n w "[]"] by simp

lemma scan_clock_show [simp]:
  "h < 100 \<Longrightarrow> m < 100 \<Longrightarrow> scan_clock (show_clock h m @ s) = Some ((h, m), s)"
  by (simp add: scan_clock_def show_clock_def)

lemma scan_us_show:
  assumes "us < 1000000" and "s = [] \<or> hd s \<noteq> CHR ''.''"
  shows "scan_us (show_us us @ s) = Some (us, s)"
  using assms by (cases s) (auto simp: scan_us_def show_us_def)

lemma scan_offset_show:
  assumes "case off of None \<Rightarrow> True | Some us \<Rightarrow> \<bar>us\<bar> < us_per_day"
  shows "scan_offset (show_offset off) = Some off"
proof (cases off)
  case None
  then show ?thesis by (simp add: scan_offset_def show_offset_def)
next
  case (Some us)
  define n where "n = nat \<bar>us\<bar>"
  with assms Some have n: "n < 86400000000" "int n = \<bar>us\<bar>" by (auto simp: us_per_day_def)
  then have h: "n div 3600000000 < 24" by (simp add: less_mult_imp_div_less)
  define s f where "s = n div 1000000 mod 60" and "f = n mod 1000000"
  define rest where "rest = (if s = 0 \<and> f = 0 then [] else '':'' @ pad 2 s @ show_us f)"
  have sf: "s < 60" "f < 1000000" by (simp_all add: s_def f_def)
  then have tail: "scan_seconds rest = Some ((s, f), [])"
    using scan_us_show [of f "[]"] by (auto simp: scan_seconds_def rest_def)
  have str: "show_offset off = (if us < 0 then CHR ''-'' else CHR ''+'') #
      show_clock (n div 3600000000) (n div 60000000 mod 60) @ rest"
    using Some by (simp add: show_offset_def Let_def n_def s_def f_def rest_def)
  have "int (n div 3600000000 * 3600000000 + n div 60000000 mod 60 * 60000000 + s * 1000000 + f) = \<bar>us\<bar>"
    using clock_digits [of n] n(2) by (simp add: s_def f_def)
  with h Some sf show ?thesis
    unfolding scan_offset_def str by (cases "us < 0") (simp_all add: tail Let_def)
qed

lemma show_offset_hd: "show_offset off = [] \<or> hd (show_offset off) \<noteq> CHR ''.''"
  by (simp add: show_offset_def Let_def split: option.splits)

lemma fromisoformat_isoformat_gen:
  assumes "dt_ok t"
  shows "fromisoformat (isoformat t) = Some t"
proof -
  let ?c = "civil_of (dt_local t)"
  have ok: "civil_ok ?c" by (rule civil_ok_civil_of)
  then have m: "d_month (c_date ?c) < 100" and d: "d_day (c_date ?c) < 100"
    by (auto simp: civil_ok_def date_ok_def month_days_def nth_Cons split: nat.splits if_splits)
  have y: "nat (d_year (c_date ?c)) < 10000" "1 \<le> nat (d_year (c_date ?c))"
    "int (nat (d_year (c_date ?c))) = d_year (c_date ?c)"
    using assms by (auto simp: dt_ok_def)
  have off: "scan_offset (show_offset (dt_offset t)) = Some (dt_offset t)"
    using assms by (intro scan_offset_show) (simp add: dt_ok_def)
  have us: "scan_us (show_us (c_us ?c) @ show_offset (dt_offset t)) = Some (c_us ?c, show_offset (dt_offset t))"
    using ok by (intro scan_us_show show_offset_hd) (simp add: civil_ok_def)
  have h: "c_hour ?c < 100" "c_minute ?c < 100" "c_second ?c < 100"
    using ok by (auto simp: civil_ok_def)
  have eta: "\<lparr>c_date = \<lparr>d_year = d_year (c_date c), d_month = d_month (c_date c), d_day = d_day (c_date c)\<rparr>,
      c_hour = c_hour c, c_minute = c_minute c, c_second = c_second c, c_us = c_us c\<rparr> = c" for c :: civil
    by (cases c; cases "c_date c") simp
  show ?thesis
    using ok m d y off us h of_civil_civil_of [of "dt_local t"]
    by (simp add: isoformat_def fromisoformat_def Let_def eta)
qed

end
