(* ===== verification/Codec.thy ===== *)
theory Codec
  imports Calendar
begin

text \<open>
  Value encoding for SQL parameters and for the disk spool (\<open>database/codec.py\<close>).

  A raised exception of the decoder (\<open>ValueError\<close> of \<open>fromisoformat\<close>, \<open>KeyError\<close> or \<open>TypeError\<close>
  of a malformed document) is \<open>None\<close>.  \<open>Jsonb\<close> is psycopg's wrapper around a container parameter.
\<close>

fun is_finite :: "pyfloat \<Rightarrow> bool" where
  "is_finite (Fin _) = True"
| "is_finite _ = False"

definition DT :: string where "DT = ''$dt''"

text \<open>
  \<open>_clean_str\<close> on strings of code points below 256: there is no surrogate among them, so the
  UTF-8 encoding succeeds and only NUL characters are removed.
\<close>

definition clean_str :: "string \<Rightarrow> string" where
  "clean_str s = filter (\<lambda>c. c \<noteq> CHR 0x00) s"

text \<open>A dict comprehension: a later entry with an equal key replaces the value.\<close>

abbreviation dict_of :: "('k \<times> 'v) list \<Rightarrow> ('k, 'v) dict" where
  "dict_of kvs \<equiv> dmerge [] kvs"

fun clean :: "pyval \<Rightarrow> pyval" where
  "clean (VStr s) = VStr (clean_str s)"
| "clean (VFloat f) = (if is_finite f then VFloat f else VNone)"
| "clean (VDict d) = VDict (dict_of (map (\<lambda>(k, v). (clean_str k, clean v)) d))"
| "clean (VList vs) = VList (map clean vs)"
| "clean (VTuple vs) = VList (map clean vs)"
| "clean v = v"

datatype dbval = Jsonb pyval | Plain pyval

fun to_db_value :: "pyval \<Rightarrow> dbval" where
  "to_db_value (VDict d) = Jsonb (clean (VDict d))"
| "to_db_value (VList vs) = Jsonb (clean (VList vs))"
| "to_db_value (VTuple vs) = Jsonb (clean (VTuple vs))"
| "to_db_value v = Plain (clean v)"

fun encode :: "pyval \<Rightarrow> pyval" where
  "encode (VTime t) = VDict [(DT, VStr (isoformat t))]"
| "encode (VDict d) = VDict (map (\<lambda>(k, v). (k, encode v)) d)"
| "encode (VList vs) = VList (map encode vs)"
| "encode (VTuple vs) = VList (map encode vs)"
| "encode (VFloat f) = (if is_finite f then VFloat f else VNone)"
| "encode v = v"

text \<open>\<open>len(value) == 1 and isinstance(value.get("$dt"), str)\<close>\<close>

definition dt_marker :: "(string \<times> pyval) list \<Rightarrow> string option" where
  "dt_marker d = (case d of [(k, VStr s)] \<Rightarrow> if k = DT then Some s else None | _ \<Rightarrow> None)"

fun seq_opt :: "'a option list \<Rightarrow> 'a list option" where
  "seq_opt [] = Some []"
| "seq_opt (None # _) = None"
| "seq_opt (Some x # xs) = map_option (Cons x) (seq_opt xs)"

fun decode :: "pyval \<Rightarrow> pyval option" where
  "decode (VDict d) =
     (case dt_marker d of
        Some s \<Rightarrow> map_option VTime (fromisoformat s)
      | None \<Rightarrow> map_option (\<lambda>vs. VDict (zip (map fst d) vs)) (seq_opt (map (\<lambda>(k, v). decode v) d)))"
| "decode (VList vs) = map_option VList (seq_opt (map decode vs))"
| "decode v = Some v"

definition encode_record :: "nm_record \<Rightarrow> pyval" where
  "encode_record r = VDict [(''kind'', VStr (rkind r)), (''row'', encode (VDict (rrow r)))]"

text \<open>A document whose \<open>kind\<close> is no string or whose \<open>row\<close> is no dictionary is taken as malformed.\<close>

definition decode_record :: "pyval \<Rightarrow> nm_record option" where
  "decode_record v = (case v of VDict d \<Rightarrow>
       (case (dget d ''kind'', map_option decode (dget d ''row'')) of
          (Some (VStr k), Some (Some (VDict row))) \<Rightarrow> Some (Record k row)
        | _ \<Rightarrow> None)
     | _ \<Rightarrow> None)"

subsection \<open>What survives the spool\<close>

text \<open>Tuples come back as lists and non-finite floats as \<open>None\<close>.\<close>

fun spooled :: "pyval \<Rightarrow> pyval" where
  "spooled (VDict d) = VDict (map (\<lambda>(k, v). (k, spooled v)) d)"
| "spooled (VList vs) = VList (map spooled vs)"
| "spooled (VTuple vs) = VList (map spooled vs)"
| "spooled (VFloat f) = (if is_finite f then VFloat f else VNone)"
| "spooled v = v"

text \<open>
  Values the spool can represent: representable times, and no dictionary that looks like the
  marker of an encoded time.
\<close>

fun spool_safe :: "pyval \<Rightarrow> bool" where
  "spool_safe (VTime t) = dt_ok t"
| "spool_safe (VDict d) = (dt_marker (map (\<lambda>(k, v). (k, encode v)) d) = None \<and> list_all (\<lambda>(k, v). spool_safe v) d)"
| "spool_safe (VList vs) = list_all spool_safe vs"
| "spool_safe (VTuple vs) = list_all spool_safe vs"
| "spool_safe v = True"

fun plain_value :: "pyval \<Rightarrow> bool" where
  "plain_value (VDict d) = list_all (\<lambda>(k, v). plain_value v) d"
| "plain_value (VList vs) = list_all plain_value vs"
| "plain_value (VTuple vs) = False"
| "plain_value (VFloat f) = is_finite f"
| "plain_value v = True"

lemma seq_opt_map_Some: "(\<And>x. x \<in> set xs \<Longrightarrow> f x = Some (g x)) \<Longrightarrow> seq_opt (map f xs) = Some (map g xs)"
  by (induction xs) auto

lemma zip_fst_map: "zip (map fst d) (map (\<lambda>(k, v). g v) d) = map (\<lambda>(k, v). (k, g v)) d"
  by (induction d) auto

lemma decode_encode: "spool_safe v \<Longrightarrow> decode (encode v) = Some (spooled v)"
proof (induction v rule: encode.induct)
  case (1 t)
  then show ?case by (simp add: dt_marker_def fromisoformat_isoformat_gen)
next
  case (2 d)
  then have "seq_opt (map (\<lambda>(k, v). decode (encode v)) d) = Some (map (\<lambda>(k, v). spooled v) d)"
    by (intro seq_opt_map_Some) (fastforce simp: list_all_iff)
  moreover have "(\<lambda>(k :: string, v). decode v) \<circ> (\<lambda>(k, v). (k, encode v)) = (\<lambda>(k, v). decode (encode v))"
    "fst \<circ> (\<lambda>(k :: string, v). (k, encode v)) = fst"
    by (auto simp: fun_eq_iff)
  ultimately show ?case using "2.prems" by (simp add: zip_fst_map)
next
  case (3 vs)
  then have "seq_opt (map (\<lambda>v. decode (encode v)) vs) = Some (map spooled vs)"
    by (intro seq_opt_map_Some) (auto simp: list_all_iff)
  then show ?case by (simp add: comp_def)
next
  case (4 vs)
  then have "seq_opt (map (\<lambda>v. decode (encode v)) vs) = Some (map spooled vs)"
    by (intro seq_opt_map_Some) (auto simp: list_all_iff)
  then show ?case by (simp add: comp_def)
qed (auto split: if_splits)

lemma spooled_plain: "plain_value v \<Longrightarrow> spooled v = v"
proof (induction v rule: spooled.induct)
  case (1 d)
  have "map (\<lambda>(k, v). (k, spooled v)) d = map id d"
    using 1 by (intro map_cong) (auto simp: list_all_iff split: prod.splits)
  then show ?case by simp
next
  case (2 vs)
  then show ?case by (simp add: list_all_iff map_idI)
qed auto

definition record_safe :: "nm_record \<Rightarrow> bool" where
  "record_safe r \<longleftrightarrow> spool_safe (VDict (rrow r)) \<and> plain_value (VDict (rrow r))"

lemma decode_encode_record: "record_safe r \<Longrightarrow> decode_record (encode_record r) = Some r"
  using decode_encode [of "VDict (rrow r)"] spooled_plain [of "VDict (rrow r)"]
  by (simp add: record_safe_def encode_record_def decode_record_def del: encode.simps spooled.simps)

subsection \<open>What PostgreSQL can store\<close>

text \<open>No NaN or infinity and no NUL character at any depth, keys included; no tuples.\<close>

fun storable :: "pyval \<Rightarrow> bool" where
  "storable (VStr s) = (CHR 0x00 \<notin> set s)"
| "storable (VFloat f) = is_finite f"
| "storable (VDict d) = list_all (\<lambda>(k, v). CHR 0x00 \<notin> set k \<and> storable v) d"
| "storable (VList vs) = list_all storable vs"
| "storable (VTuple vs) = False"
| "storable v = True"

lemma set_dset: "set (dset d k v) \<subseteq> insert (k, v) (set d)"
  by (induction d k v rule: dset.induct) auto

lemma set_dmerge: "set (dmerge d e) \<subseteq> set d \<union> set e"
  by (induction d e rule: dmerge.induct) (use set_dset in fastforce)+

lemma clean_str_no_nul: "CHR 0x00 \<notin> set (clean_str s)"
  by (simp add: clean_str_def)

lemma clean_storable: "storable (clean v)"
proof (induction v rule: clean.induct)
  case (3 d)
  have "(k, v) \<in> set (dict_of (map (\<lambda>(k, v). (clean_str k, clean v)) d)) \<Longrightarrow>
      CHR 0x00 \<notin> set k \<and> storable v" for k v
    using set_dmerge [of "[]" "map (\<lambda>(k, v). (clean_str k, clean v)) d"] 3
    by (fastforce simp: clean_str_no_nul)
  then show ?case by (auto simp: list_all_iff)
qed (auto simp: clean_str_no_nul list_all_iff)

lemma clean_str_id: "CHR 0x00 \<notin> set s \<Longrightarrow> clean_str s = s"
  by (auto simp: clean_str_def filter_id_conv)

lemma dict_of_id: "dwf (d @ e) \<Longrightarrow> dmerge d e = d @ e"
proof (induction d e rule: dmerge.induct)
  case (1 d)
  then show ?case by simp
next
  case (2 d k v e)
  then have "k \<notin> fst ` set d" by (auto simp: dwf_def)
  with 2 show ?case by (simp add: dset_fresh)
qed

text \<open>Dictionaries at every depth have distinct keys, as every Python dictionary has.\<close>

fun dict_wf :: "pyval \<Rightarrow> bool" where
  "dict_wf (VDict d) = (dwf d \<and> list_all (\<lambda>(k, v). dict_wf v) d)"
| "dict_wf (VList vs) = list_all dict_wf vs"
| "dict_wf (VTuple vs) = list_all dict_wf vs"
| "dict_wf v = True"

lemma clean_id: "storable v \<Longrightarrow> dict_wf v \<Longrightarrow> clean v = v"
proof (induction v rule: clean.induct)
  case (3 d)
  have "map (\<lambda>(k, v). (clean_str k, clean v)) d = map id d"
    using 3 by (intro map_cong) (auto simp: list_all_iff clean_str_id split: prod.splits)
  with "3.prems" show ?case by (simp add: dict_of_id)
next
  case (4 vs)
  then show ?case by (simp add: list_all_iff map_idI)
qed (auto simp: clean_str_id)

subsection \<open>Properties\<close>

text \<open>
  A record written to the spool and read back is the same record, times with their offset
  included, whenever its row holds what the pipeline puts there: representable times, no tuples,
  no non-finite floats, and no dictionary that imitates the marker of an encoded time.
\<close>

theorem record_roundtrip:
  assumes "record_safe r"
  shows "decode_record (encode_record r) = Some r"
  using assms by (rule decode_encode_record)

theorem record_roundtrip_witness:
  "decode_record (encode_record (Record NODE_USAGE_5M [(''node'', VStr ''uan1''),
      (''by_category'', VDict [(''idle'', VList [VInt 1, VFloat (Fin (1 / 2))])])])) =
    Some (Record NODE_USAGE_5M [(''node'', VStr ''uan1''),
      (''by_category'', VDict [(''idle'', VList [VInt 1, VFloat (Fin (1 / 2))])])])"
  using record_roundtrip [of "Record NODE_USAGE_5M [(''node'', VStr ''uan1''),
      (''by_category'', VDict [(''idle'', VList [VInt 1, VFloat (Fin (1 / 2))])])]"]
  by (simp add: record_safe_def dt_marker_def)

text \<open>
  Every SQL parameter is storable: at any depth it holds no NaN, no infinity, no NUL
  character (keys included) and no tuple; and a value that was storable already is passed
  unchanged.
\<close>

theorem sql_parameter_storable:
  "(case to_db_value v of Jsonb w \<Rightarrow> storable w | Plain w \<Rightarrow> storable w) \<and>
   (storable v \<and> dict_wf v \<longrightarrow> to_db_value v = Jsonb v \<or> to_db_value v = Plain v)"
proof
  have "to_db_value v = Jsonb (clean v) \<or> to_db_value v = Plain (clean v)"
    by (cases v) simp_all
  then show "case to_db_value v of Jsonb w \<Rightarrow> storable w | Plain w \<Rightarrow> storable w"
    and "storable v \<and> dict_wf v \<longrightarrow> to_db_value v = Jsonb v \<or> to_db_value v = Plain v"
    using clean_storable [of v] clean_id [of v] by auto
qed

theorem sql_parameter_storable_witness:
  "to_db_value (VDict [(''a'', VInt 1)]) = Jsonb (VDict [(''a'', VInt 1)])"
proof -
  have "storable (VDict [(''a'', VInt 1)]) \<and> dict_wf (VDict [(''a'', VInt 1)])" by (simp add: dwf_def)
  with sql_parameter_storable [of "VDict [(''a'', VInt 1)]"] show ?thesis by auto
qed

end
