(* ===== verification/Maintenance.thy ===== *)
theory Maintenance
  imports Codec "HOL-Library.List_Lexorder" "HOL-Library.Char_ord"
begin

text \<open>
  Monthly partitions of the time-series tables (\<open>database/maintenance.py\<close>).

  The catalogue of the database is the list of attached partitions, each a pair of its table and
  its name.  The argument \<open>locked\<close> says which relations another session holds for longer than the
  lock timeout, which the server reports as \<open>LockNotAvailable\<close>.
\<close>

record retention =
  node_metrics_days :: nat
  usage_summary_days :: nat
  collection_events_days :: nat

type_synonym catalog = "(string \<times> string) list"

definition PARTITIONED :: "(string, retention \<Rightarrow> nat) dict" where
  "PARTITIONED = [(''node_metrics_1m'', node_metrics_days), (''user_usage_5m'', usage_summary_days),
     (''node_usage_5m'', usage_summary_days), (''collection_events'', collection_events_days)]"

definition PARTITION_KEY :: "(string, string) dict" where
  "PARTITION_KEY = [(''node_metrics_1m'', ''minute''), (''user_usage_5m'', ''interval_start''),
     (''node_usage_5m'', ''interval_start''), (''collection_events'', ''ts'')]"

definition lock_not_available :: py_error where
  "lock_not_available = OtherError ''LockNotAvailable''"

subsection \<open>Months\<close>

definition month_start :: "int \<Rightarrow> nat \<Rightarrow> datetime" where
  "month_start y m =
     utc (of_civil \<lparr>c_date = \<lparr>d_year = y, d_month = m, d_day = 1\<rparr>, c_hour = 0, c_minute = 0, c_second = 0, c_us = 0\<rparr>)"

definition utc_date :: "datetime \<Rightarrow> date" where
  "utc_date t = c_date (civil_of (instant t))"

definition month_floor :: "datetime \<Rightarrow> datetime res" where
  "month_floor ts =
     (case require_aware ts of Inl e \<Rightarrow> Inl e
      | Inr ts \<Rightarrow> Inr (month_start (d_year (utc_date ts)) (d_month (utc_date ts))))"

definition next_month :: "datetime \<Rightarrow> datetime" where
  "next_month start =
     (let d = utc_date start in
      if d_month d = 12 then month_start (d_year d + 1) 1 else month_start (d_year d) (d_month d + 1))"

text \<open>\<open>%Y\<close> is printed with four digits, as it is from the year 1000 on.\<close>

definition month_suffix :: "datetime \<Rightarrow> string" where
  "month_suffix start = ''_y'' @ pad 4 (nat (d_year (utc_date start))) @ ''m'' @ pad 2 (d_month (utc_date start))"

definition partition_name :: "string \<Rightarrow> datetime \<Rightarrow> string res" where
  "partition_name table ts = (case month_floor ts of Inl e \<Rightarrow> Inl e | Inr start \<Rightarrow> Inr (table @ month_suffix start))"

subsection \<open>Creating partitions\<close>

definition ensure_partition :: "(string \<Rightarrow> bool) \<Rightarrow> string \<Rightarrow> datetime \<Rightarrow> catalog \<Rightarrow> (bool \<times> catalog) res" where
  "ensure_partition locked table ts cat =
     (case partition_name table ts of
        Inl e \<Rightarrow> Inl e
      | Inr name \<Rightarrow>
          if locked table then Inl lock_not_available
          else if name \<in> snd ` set cat then Inr (False, cat)
          else Inr (True, cat @ [(table, name)]))"

fun ensure_all :: "(string \<Rightarrow> bool) \<Rightarrow> (string \<times> datetime) list \<Rightarrow> catalog \<Rightarrow> (string list \<times> catalog) res" where
  "ensure_all locked [] cat = Inr ([], cat)"
| "ensure_all locked ((table, start) # todo) cat =
     (case ensure_partition locked table start cat of
        Inl e \<Rightarrow> Inl e
      | Inr (made, cat) \<Rightarrow>
          (case ensure_all locked todo cat of
             Inl e \<Rightarrow> Inl e
           | Inr (created, cat) \<Rightarrow>
               (case partition_name table start of
                  Inl e \<Rightarrow> Inl e
                | Inr name \<Rightarrow> Inr ((if made then [name] else []) @ created, cat))))"

fun months_from :: "datetime \<Rightarrow> nat \<Rightarrow> datetime list" where
  "months_from month 0 = [month]"
| "months_from month (Suc n) = month # months_from (next_month month) n"

definition ensure_partitions :: "(string \<Rightarrow> bool) \<Rightarrow> datetime \<Rightarrow> nat \<Rightarrow> catalog \<Rightarrow> (string list \<times> catalog) res" where
  "ensure_partitions locked now months_ahead cat =
     (case month_floor now of
        Inl e \<Rightarrow> Inl e
      | Inr month \<Rightarrow>
          ensure_all locked (List.product (dkeys PARTITIONED) (months_from month months_ahead)) cat)"

subsection \<open>Retention\<close>

definition attached_partitions :: "catalog \<Rightarrow> string \<Rightarrow> string list" where
  "attached_partitions cat table = sort (map snd (filter (\<lambda>(t, _). t = table) cat))"

text \<open>\<open>_PARTITION_SUFFIX.fullmatch(name[len(table):])\<close> for a name that starts with \<open>table + "_y"\<close>.\<close>

definition parse_suffix :: "string \<Rightarrow> string \<Rightarrow> (nat \<times> nat) option" where
  "parse_suffix table name =
     (if take (length table + 2) name \<noteq> table @ ''_y'' then None
      else
        Option.bind (scan_num 4 (drop (length table + 2) name)) (\<lambda>(y, s).
        Option.bind (scan_char CHR ''m'' s) (\<lambda>s.
        Option.bind (scan_num 2 s) (\<lambda>(m, s). if s = [] then Some (y, m) else None))))"

text \<open>\<open>datetime(y, m, 1)\<close> raises for a year or month out of range.\<close>

definition first_of :: "nat \<Rightarrow> nat \<Rightarrow> datetime res" where
  "first_of y m =
     (if 1 \<le> y \<and> 1 \<le> m \<and> m \<le> 12 then Inr (month_start (int y) m) else Inl (ValueError ''month out of range''))"

definition days_us :: "nat \<Rightarrow> int" where
  "days_us n = int n * us_per_day"

definition cutoff :: "datetime \<Rightarrow> nat \<Rightarrow> datetime" where
  "cutoff now n = add_us now (- days_us n)"

record retention_result =
  rt_dropped :: "string list"
  rt_skipped :: "string list"

fun drop_expired :: "(string \<Rightarrow> bool) \<Rightarrow> datetime \<Rightarrow> datetime \<Rightarrow> string \<Rightarrow> string list \<Rightarrow>
    retention_result \<times> catalog \<Rightarrow> (retention_result \<times> catalog) res" where
  "drop_expired locked current limit table [] (res, cat) = Inr (res, cat)"
| "drop_expired locked current limit table (name # names) (res, cat) =
     (case parse_suffix table name of
        None \<Rightarrow> drop_expired locked current limit table names (res, cat)
      | Some (y, m) \<Rightarrow>
          (case first_of y m of
             Inl e \<Rightarrow> Inl e
           | Inr start \<Rightarrow>
               if instant current \<le> instant start \<or> instant limit < instant (next_month start)
               then drop_expired locked current limit table names (res, cat)
               else if locked name
               then drop_expired locked current limit table names (res\<lparr>rt_skipped := rt_skipped res @ [name]\<rparr>, cat)
               else drop_expired locked current limit table names
                 (res\<lparr>rt_dropped := rt_dropped res @ [name]\<rparr>, filter (\<lambda>(_, n). n \<noteq> name) cat)))"

fun retain_tables :: "(string \<Rightarrow> bool) \<Rightarrow> datetime \<Rightarrow> retention \<Rightarrow> datetime \<Rightarrow> (string, retention \<Rightarrow> nat) dict \<Rightarrow>
    retention_result \<times> catalog \<Rightarrow> (retention_result \<times> catalog) res" where
  "retain_tables locked now ret current [] acc = Inr acc"
| "retain_tables locked now ret current ((table, days) # rest) acc =
     (case drop_expired locked current (cutoff now (days ret)) table (attached_partitions (snd acc) table) acc of
        Inl e \<Rightarrow> Inl e
      | Inr acc \<Rightarrow> retain_tables locked now ret current rest acc)"

definition apply_retention :: "(string \<Rightarrow> bool) \<Rightarrow> datetime \<Rightarrow> retention \<Rightarrow> catalog \<Rightarrow> (retention_result \<times> catalog) res" where
  "apply_retention locked now ret cat =
     (case month_floor now of
        Inl e \<Rightarrow> Inl e
      | Inr current \<Rightarrow> retain_tables locked now ret current PARTITIONED (\<lparr>rt_dropped = [], rt_skipped = []\<rparr>, cat))"

definition run_maintenance :: "(string \<Rightarrow> bool) \<Rightarrow> datetime \<Rightarrow> retention \<Rightarrow> catalog \<Rightarrow>
    (string list \<times> retention_result \<times> catalog) res" where
  "run_maintenance locked now ret cat =
     (case ensure_partitions locked now 2 cat of
        Inl e \<Rightarrow> Inl e
      | Inr (created, cat) \<Rightarrow>
          (case apply_retention locked now ret cat of
             Inl e \<Rightarrow> Inl e
           | Inr (res, cat) \<Rightarrow> Inr (created, res, cat)))"

subsection \<open>Heartbeat\<close>

record heartbeat =
  hb_collector_host :: string
  hb_version :: string
  hb_started_at :: datetime
  hb_last_seen :: datetime
  hb_status :: dbval

definition write_heartbeat :: "string \<Rightarrow> string \<Rightarrow> string \<Rightarrow> datetime \<Rightarrow> datetime \<Rightarrow> pyval \<Rightarrow>
    (string, heartbeat) dict \<Rightarrow> (string, heartbeat) dict res" where
  "write_heartbeat sys host version started_at now status tbl =
     (case require_aware started_at of Inl e \<Rightarrow> Inl e
      | Inr _ \<Rightarrow>
          (case require_aware now of Inl e \<Rightarrow> Inl e
           | Inr _ \<Rightarrow> Inr (dset tbl sys \<lparr>hb_collector_host = host, hb_version = version, hb_started_at = started_at,
                hb_last_seen = now, hb_status = to_db_value status\<rparr>)))"

subsection \<open>Months tile the time line\<close>

lemma instant_month_start: "instant (month_start y m) = (days_before_year y + days_before_month y m + 1 - epoch_ordinal) * us_per_day"
  by (simp add: month_start_def of_civil_def toordinal_def)

lemma days_before_month_step:
  assumes "1 \<le> m" "m \<le> 12"
  shows "days_before_month y (Suc m) = days_before_month y m + int (month_days y ! (m - 1))"
proof -
  have "take m (month_days y) = take (m - 1) (month_days y) @ [month_days y ! (m - 1)]"
    using assms take_Suc_conv_app_nth [of "m - 1" "month_days y"] by simp
  then show ?thesis by (simp add: days_before_month_def)
qed

lemma days_before_month_1 [simp]: "days_before_month y (Suc 0) = 0"
  by (simp add: days_before_month_def)

lemma days_before_month_13: "days_before_month y 13 = (if is_leap y then 366 else 365)"
  using month_days_sum [of y] by (simp add: days_before_month_def)

lemma date_in_month:
  assumes "date_ok d"
  shows "days_before_month (d_year d) (d_month d) + 1 \<le> days_before_month (d_year d) (d_month d) + int (d_day d)"
    and "int (d_day d) + days_before_month (d_year d) (d_month d) \<le> days_before_month (d_year d) (Suc (d_month d))"
  using assms days_before_month_step [of "d_month d" "d_year d"] by (auto simp: date_ok_def)

lemma days_before_month_mono:
  assumes "m \<le> n" "1 \<le> m" "n \<le> 13"
  shows "days_before_month y m \<le> days_before_month y n"
  using assms
proof (induction n)
  case 0
  then show ?case by simp
next
  case (Suc n)
  then show ?case using days_before_month_step [of n y] by (cases "m = Suc n") auto
qed

lemma days_before_year_mono: "y \<le> z \<Longrightarrow> days_before_year y \<le> days_before_year z"
proof (induction rule: int_ge_induct)
  case base
  then show ?case by simp
next
  case (step i)
  then show ?case using days_before_year_step [of i] by simp
qed

text \<open>A date is determined by its day number.\<close>

lemma date_year_bounds:
  assumes "date_ok d"
  shows "days_before_year (d_year d) < toordinal d" "toordinal d \<le> days_before_year (d_year d + 1)"
proof -
  have m: "1 \<le> d_month d" "d_month d \<le> 12" using assms by (auto simp: date_ok_def)
  have "0 \<le> days_before_month (d_year d) (d_month d)" by (simp add: days_before_month_def)
  with date_in_month(1) [OF assms] show "days_before_year (d_year d) < toordinal d" by (simp add: toordinal_def)
  have "days_before_month (d_year d) (Suc (d_month d)) \<le> days_before_month (d_year d) 13"
    using m by (intro days_before_month_mono) auto
  with date_in_month(2) [OF assms] days_before_year_step [of "d_year d"]
  show "toordinal d \<le> days_before_year (d_year d + 1)"
    by (simp add: toordinal_def days_before_month_13 split: if_splits)
qed

lemma date_year_unique:
  assumes "date_ok d" "date_ok e" "toordinal d = toordinal e"
  shows "d_year d = d_year e"
proof (rule ccontr)
  assume "d_year d \<noteq> d_year e"
  then consider "d_year d + 1 \<le> d_year e" | "d_year e + 1 \<le> d_year d" by linarith
  then show False
    using days_before_year_mono date_year_bounds [OF assms(1)] date_year_bounds [OF assms(2)] assms(3)
    by cases (smt (verit, best))+
qed

lemma date_month_unique:
  assumes "date_ok d" "date_ok e" "toordinal d = toordinal e"
  shows "d_month d = d_month e"
proof (rule ccontr)
  have y: "d_year d = d_year e" using date_year_unique assms by blast
  assume "d_month d \<noteq> d_month e"
  then consider "Suc (d_month d) \<le> d_month e" | "Suc (d_month e) \<le> d_month d" by linarith
  then show False
    using days_before_month_mono [of "Suc (d_month d)" "d_month e" "d_year d"]
      days_before_month_mono [of "Suc (d_month e)" "d_month d" "d_year d"]
      date_in_month [OF assms(1)] date_in_month [OF assms(2)] assms y
    by cases (auto simp: toordinal_def date_ok_def)
qed

lemma utc_date_ok: "date_ok (utc_date t)"
  using civil_ok_civil_of [of "instant t"] by (simp add: utc_date_def civil_ok_def)

lemma utc_date_ordinal: "toordinal (utc_date t) = instant t div us_per_day + epoch_ordinal"
  using fromordinal_spec by (simp add: utc_date_def civil_of_def Let_def)

lemma utc_date_month_start:
  assumes "1 \<le> m" "m \<le> 12"
  shows "utc_date (month_start y m) = \<lparr>d_year = y, d_month = m, d_day = 1\<rparr>"
proof -
  let ?d = "\<lparr>d_year = y, d_month = m, d_day = 1\<rparr>"
  have "m - 1 \<in> {0..<12}" using assms by auto
  then have "1 \<le> month_days y ! (m - 1)"
    by (auto simp: month_days_def nth_Cons' numeral_eq_Suc)
  then have ok: "date_ok ?d" using assms by (simp add: date_ok_def)
  have "toordinal (utc_date (month_start y m)) = toordinal ?d"
    unfolding utc_date_ordinal instant_month_start by (simp add: us_per_day_def toordinal_def)
  with ok utc_date_ok have "d_year (utc_date (month_start y m)) = y" "d_month (utc_date (month_start y m)) = m"
    and "toordinal (utc_date (month_start y m)) = toordinal ?d"
    using date_year_unique [of _ ?d] date_month_unique [of _ ?d] by fastforce+
  then show ?thesis by (simp add: toordinal_def)
qed

lemma mult_le_iff_le_div:
  fixes k n x :: int
  assumes "0 < k"
  shows "n * k \<le> x \<longleftrightarrow> n \<le> x div k"
proof
  assume "n * k \<le> x"
  with assms zdiv_mono1 [of "n * k" x k] show "n \<le> x div k" by simp
next
  assume "n \<le> x div k"
  with assms have "n * k \<le> x div k * k" by (simp add: mult_right_mono)
  then show "n * k \<le> x" using div_mult_mod_eq [of x k] pos_mod_sign [OF assms, of x] by linarith
qed

text \<open>A time lies in the month that \<open>month_floor\<close> starts.\<close>

lemma month_floor_bounds:
  assumes "month_floor t = Inr s"
  shows "instant s \<le> instant t" "instant t < instant (next_month s)"
proof -
  let ?d = "utc_date t"
  have m: "1 \<le> d_month ?d" "d_month ?d \<le> 12" using utc_date_ok [of t] by (auto simp: date_ok_def)
  have s: "s = month_start (d_year ?d) (d_month ?d)"
    using assms by (auto simp: month_floor_def require_aware_def split: if_splits)
  have day: "instant t div us_per_day = toordinal ?d - epoch_ordinal" by (simp add: utc_date_ordinal)
  have u: "0 < us_per_day" by (simp add: us_per_day_def)
  have div: "n * us_per_day \<le> instant t \<longleftrightarrow> n \<le> instant t div us_per_day" for n
    by (rule mult_le_iff_le_div [OF u])
  show "instant s \<le> instant t"
    using date_in_month(1) [OF utc_date_ok [of t]]
    by (simp add: s instant_month_start div day toordinal_def)
  have n: "next_month s = (if d_month ?d = 12 then month_start (d_year ?d + 1) 1 else month_start (d_year ?d) (d_month ?d + 1))"
    using m by (simp add: next_month_def s utc_date_month_start)
  have dec: "days_before_month (d_year ?d) (Suc (d_month ?d)) = (if is_leap (d_year ?d) then 366 else 365)"
    if "d_month ?d = 12" using that days_before_month_13 by (simp add: eval_nat_numeral)
  have "instant (next_month s) =
      (days_before_year (d_year ?d) + days_before_month (d_year ?d) (Suc (d_month ?d)) + 1 - epoch_ordinal) * us_per_day"
    using days_before_year_step [of "d_year ?d"] dec by (simp add: n instant_month_start)
  moreover have "\<not> (days_before_year (d_year ?d) + days_before_month (d_year ?d) (Suc (d_month ?d)) + 1 - epoch_ordinal)
      \<le> instant t div us_per_day"
    using date_in_month(2) [OF utc_date_ok [of t]] by (simp add: day toordinal_def)
  ultimately show "instant t < instant (next_month s)" using div by (metis not_le)
qed

lemma month_floor_aware: "dt_offset t \<noteq> None \<Longrightarrow> \<exists>s. month_floor t = Inr s"
  by (simp add: month_floor_def require_aware_def)

subsection \<open>What maintenance creates and drops\<close>

lemma ensure_partition_spec:
  assumes "ensure_partition locked table ts cat = Inr (made, cat')"
  shows "\<exists>name. partition_name table ts = Inr name \<and> name \<in> snd ` set cat' \<and> set cat \<subseteq> set cat' \<and>
    (made \<longleftrightarrow> name \<notin> snd ` set cat) \<and> cat' = cat @ (if made then [(table, name)] else [])"
  using assms by (auto simp: ensure_partition_def split: sum.splits if_splits)

lemma ensure_all_spec:
  assumes "ensure_all locked todo cat = Inr (created, cat')"
  shows "(\<forall>(table, start) \<in> set todo. \<exists>name. partition_name table start = Inr name \<and> name \<in> snd ` set cat') \<and>
    map snd cat' = map snd cat @ created \<and> (distinct (map snd cat) \<longrightarrow> distinct (map snd cat'))"
  using assms
proof (induction todo arbitrary: cat created)
  case Nil
  then show ?case by auto
next
  case (Cons p todo)
  obtain table start where p: "p = (table, start)" by (cases p)
  from Cons.prems p obtain made cat1 name created1 where
    e: "ensure_partition locked table start cat = Inr (made, cat1)" and
    r: "ensure_all locked todo cat1 = Inr (created1, cat')" and
    n: "partition_name table start = Inr name" and
    c: "created = (if made then [name] else []) @ created1"
    by (auto split: sum.splits)
  from ensure_partition_spec [OF e] n have s: "name \<in> snd ` set cat1" "made \<longleftrightarrow> name \<notin> snd ` set cat"
    "cat1 = cat @ (if made then [(table, name)] else [])" by auto
  from Cons.IH [OF r] have IH: "\<forall>(table, start) \<in> set todo. \<exists>name. partition_name table start = Inr name \<and> name \<in> snd ` set cat'"
    "map snd cat' = map snd cat1 @ created1" "distinct (map snd cat1) \<longrightarrow> distinct (map snd cat')" by blast+
  have "name \<in> set (map snd cat1)" using s(1) by simp
  then have "name \<in> set (map snd cat')" unfolding IH(2) by simp
  then have all: "\<forall>(table, start) \<in> set (p # todo). \<exists>name. partition_name table start = Inr name \<and> name \<in> snd ` set cat'"
    using IH(1) n p by simp
  have cat1: "map snd cat1 = map snd cat @ (if made then [name] else [])" using s(3) by simp
  have d: "distinct (map snd cat1)" if "distinct (map snd cat)" unfolding cat1 using s(2) that by simp
  have "map snd cat' = map snd cat @ created" unfolding IH(2) cat1 c by simp
  with all d IH(3) show ?case by (intro conjI impI) simp_all
qed

lemma months_from_head: "month \<in> set (months_from month n)"
  by (cases n) auto

text \<open>The partition \<open>n\<close> covers a whole month that lies before \<open>current\<close> and ends by \<open>limit\<close>.\<close>

definition expired :: "datetime \<Rightarrow> datetime \<Rightarrow> string \<Rightarrow> string \<Rightarrow> bool" where
  "expired current limit table n = (case parse_suffix table n of None \<Rightarrow> False
     | Some (y, m) \<Rightarrow> instant (month_start (int y) m) < instant current \<and>
         instant (next_month (month_start (int y) m)) \<le> instant limit)"

definition droppable :: "(string \<Rightarrow> bool) \<Rightarrow> datetime \<Rightarrow> datetime \<Rightarrow> string \<Rightarrow> string list \<Rightarrow> string list" where
  "droppable locked current limit table names = filter (\<lambda>n. expired current limit table n \<and> \<not> locked n) names"

definition blocked :: "(string \<Rightarrow> bool) \<Rightarrow> datetime \<Rightarrow> datetime \<Rightarrow> string \<Rightarrow> string list \<Rightarrow> string list" where
  "blocked locked current limit table names = filter (\<lambda>n. expired current limit table n \<and> locked n) names"

lemma drop_expired_spec:
  assumes "drop_expired locked current limit table names (res, cat) = Inr (res', cat')"
  shows "rt_dropped res' = rt_dropped res @ droppable locked current limit table names \<and>
    rt_skipped res' = rt_skipped res @ blocked locked current limit table names \<and>
    cat' = filter (\<lambda>(_, n). n \<notin> set (droppable locked current limit table names)) cat"
  using assms
proof (induction names arbitrary: res cat)
  case Nil
  then show ?case by (simp add: droppable_def blocked_def)
next
  case (Cons n names)
  consider "expired current limit table n" "locked n" | "expired current limit table n" "\<not> locked n"
    | "\<not> expired current limit table n" by blast
  then show ?case
  proof cases
    case 1
    with Cons.prems have "drop_expired locked current limit table names
        (res\<lparr>rt_skipped := rt_skipped res @ [n]\<rparr>, cat) = Inr (res', cat')"
      by (auto simp: expired_def split: option.splits sum.splits if_splits) (auto simp: first_of_def split: if_splits)
    from Cons.IH [OF this] 1 show ?thesis by (simp add: droppable_def blocked_def)
  next
    case 2
    with Cons.prems have "drop_expired locked current limit table names
        (res\<lparr>rt_dropped := rt_dropped res @ [n]\<rparr>, filter (\<lambda>(_, m). m \<noteq> n) cat) = Inr (res', cat')"
      by (auto simp: expired_def split: option.splits sum.splits if_splits) (auto simp: first_of_def split: if_splits)
    from Cons.IH [OF this] 2 show ?thesis
      by (auto simp: droppable_def blocked_def intro!: filter_cong)
  next
    case 3
    with Cons.prems have "drop_expired locked current limit table names (res, cat) = Inr (res', cat')"
      by (auto simp: expired_def first_of_def split: option.splits sum.splits if_splits)
    from Cons.IH [OF this] 3 show ?thesis by (simp add: droppable_def blocked_def)
  qed
qed

subsection \<open>Months in order\<close>

text \<open>The months counted from the year 0: \<open>next_month\<close> is the successor.\<close>

definition nth_month :: "int \<Rightarrow> datetime" where
  "nth_month k = month_start (k div 12) (Suc (nat (k mod 12)))"

lemma nth_month_date:
  "d_year (utc_date (nth_month k)) = k div 12" "d_month (utc_date (nth_month k)) = Suc (nat (k mod 12))"
proof -
  have "nat (k mod 12) < 12" by simp
  then show "d_year (utc_date (nth_month k)) = k div 12" "d_month (utc_date (nth_month k)) = Suc (nat (k mod 12))"
    by (simp_all add: nth_month_def utc_date_month_start)
qed

lemma next_month_nth: "next_month (nth_month k) = nth_month (k + 1)"
proof -
  define q r where "q = k div 12" and "r = k mod 12"
  have k: "k = 12 * q + r" "0 \<le> r" "r < 12" by (simp_all add: q_def r_def)
  show ?thesis
  proof (cases "r = 11")
    case True
    with k have "k + 1 = 12 * (q + 1)" by simp
    then have "(k + 1) div 12 = q + 1" "(k + 1) mod 12 = 0" by (simp_all del: distrib_left_numeral)
    with True show ?thesis
      by (simp add: next_month_def nth_month_date flip: q_def r_def) (simp add: nth_month_def)
  next
    case False
    with k have "(k + 1) div 12 = q" "(k + 1) mod 12 = r + 1"
      using int_div_pos_eq [of "k + 1" 12 q "r + 1"] int_mod_pos_eq [of "k + 1" 12 q "r + 1"] by auto
    moreover have "nat r \<noteq> 11" using k False by linarith
    ultimately show ?thesis using k
      by (simp add: next_month_def nth_month_date flip: q_def r_def) (simp add: nth_month_def nat_add_distrib)
  qed
qed

lemma month_floor_nth: "month_floor t = Inr s \<Longrightarrow> \<exists>k. s = nth_month k"
proof -
  assume "month_floor t = Inr s"
  then have s: "s = month_start (d_year (utc_date t)) (d_month (utc_date t))"
    by (auto simp: month_floor_def require_aware_def split: if_splits)
  have m: "1 \<le> d_month (utc_date t)" "d_month (utc_date t) \<le> 12" using utc_date_ok [of t] by (auto simp: date_ok_def)
  let ?k = "12 * d_year (utc_date t) + (int (d_month (utc_date t)) - 1)"
  have "?k div 12 = d_year (utc_date t)" "?k mod 12 = int (d_month (utc_date t)) - 1" using m by auto
  then have "s = nth_month ?k" using m s by (simp add: nth_month_def nat_diff_distrib')
  then show ?thesis by blast
qed

lemma month_floor_nth_month: "month_floor (nth_month k) = Inr (nth_month k)"
proof -
  have "require_aware (nth_month k) = Inr (nth_month k)" by (simp add: nth_month_def month_start_def)
  then show ?thesis unfolding month_floor_def by (simp add: nth_month_date) (simp add: nth_month_def)
qed

lemma nth_month_step: "instant (nth_month k) < instant (nth_month (k + 1))"
proof -
  from month_floor_bounds(2) [OF month_floor_nth_month] show ?thesis by (simp add: next_month_nth)
qed

lemma nth_month_less: "j < k \<Longrightarrow> instant (nth_month j) < instant (nth_month k)"
proof (induction rule: int_gr_induct)
  case base
  show ?case by (rule nth_month_step)
next
  case (step i)
  with nth_month_step [of i] show ?case by simp
qed

lemma nth_month_less_iff: "instant (nth_month j) < instant (nth_month k) \<longleftrightarrow> j < k"
  using nth_month_less [of j k] nth_month_less [of k j] by (cases j k rule: linorder_cases) auto

lemma months_from_nth: "set (months_from (nth_month k) n) = nth_month ` {k..k + int n}"
proof (induction n arbitrary: k)
  case 0
  then show ?case by simp
next
  case (Suc n)
  have "{k..k + int (Suc n)} = insert k {k + 1..k + 1 + int n}" by auto
  then show ?case using Suc [of "k + 1"] by (simp add: next_month_nth)
qed

lemma month_floor_between:
  assumes "instant (nth_month k) \<le> instant t" and "instant t < instant (nth_month (k + int n + 1))"
    and "dt_offset t \<noteq> None"
  shows "\<exists>s \<in> set (months_from (nth_month k) n). month_floor t = Inr s"
proof -
  obtain s where s: "month_floor t = Inr s" using month_floor_aware assms(3) by blast
  with month_floor_nth obtain j where j: "s = nth_month j" by blast
  from month_floor_bounds [OF s] have "instant (nth_month j) \<le> instant t" "instant t < instant (nth_month (j + 1))"
    by (simp_all add: j next_month_nth)
  with assms have "instant (nth_month k) < instant (nth_month (j + 1))"
    "instant (nth_month j) < instant (nth_month (k + int n + 1))" by linarith+
  then have "k \<le> j \<and> j \<le> k + int n" by (simp add: nth_month_less_iff)
  with s j show ?thesis by (auto simp: months_from_nth)
qed

subsection \<open>Names and dates\<close>

lemma partition_name_month_floor:
  assumes "month_floor ts = Inr s"
  shows "partition_name table ts = Inr (table @ month_suffix s) \<and> partition_name table s = Inr (table @ month_suffix s)"
proof -
  obtain k where k: "s = nth_month k" using month_floor_nth [OF assms] by blast
  have "month_floor s = Inr s" unfolding k by (rule month_floor_nth_month)
  with assms show ?thesis by (simp add: partition_name_def)
qed

lemma parse_suffix_name:
  assumes "month_floor ts = Inr s" and "0 \<le> d_year (utc_date s)" "d_year (utc_date s) < 10000"
  shows "parse_suffix table (table @ month_suffix s) = Some (nat (d_year (utc_date s)), d_month (utc_date s)) \<and>
    s = month_start (d_year (utc_date s)) (d_month (utc_date s))"
proof -
  obtain k where k: "s = nth_month k" using month_floor_nth [OF assms(1)] by blast
  have "nat (k mod 12) < 12" by simp
  then have m: "d_month (utc_date s) < 10 ^ 2" by (simp add: k nth_month_date)
  have y: "nat (d_year (utc_date s)) < 10 ^ 4" using assms(2,3) by simp
  have "parse_suffix table (table @ month_suffix s) = Some (nat (d_year (utc_date s)), d_month (utc_date s))"
    using scan_num_pad [OF y] scan_num_pad_end [OF m] by (simp add: parse_suffix_def month_suffix_def)
  moreover have "s = month_start (d_year (utc_date s)) (d_month (utc_date s))"
    unfolding k nth_month_date by (simp add: nth_month_def)
  ultimately show ?thesis by blast
qed

lemma scan_num_length: "scan_num w s = Some (n, t) \<Longrightarrow> length s = w + length t"
  by (auto simp: scan_num_def split: if_splits)

lemma scan_char_length: "scan_char c s = Some t \<Longrightarrow> length s = Suc (length t)"
  by (cases s) (auto split: if_splits)

lemma parse_suffix_length:
  assumes "parse_suffix table n = Some ym"
  shows "length n = length table + 9 \<and> take (length table) n = table"
proof -
  from assms have t: "take (length table + 2) n = table @ ''_y''"
    by (auto simp: parse_suffix_def split: if_splits)
  then have "length table + 2 \<le> length n" by (metis length_append length_take list.size(3,4) min.cobounded1 min_def
        add_2_eq_Suc' One_nat_def add.commute numeral_2_eq_2 plus_1_eq_Suc)
  moreover from assms have "length (drop (length table + 2) n) = 7"
    by (auto simp: parse_suffix_def bind_eq_Some_conv split: if_splits
        dest!: scan_num_length scan_char_length)
  moreover have "take (length table) (take (length table + 2) n) = table" unfolding t by simp
  ultimately show ?thesis by simp
qed

lemma retain_tables_dropped:
  assumes "retain_tables locked now ret current tabs (res, cat) = Inr (res', cat')"
    and "n \<in> set (rt_dropped res')"
  shows "n \<in> set (rt_dropped res) \<or>
    (\<exists>table days. (table, days) \<in> set tabs \<and> expired current (cutoff now (days ret)) table n)"
  using assms
proof (induction tabs arbitrary: res cat)
  case Nil
  then show ?case by simp
next
  case (Cons td tabs)
  obtain table days where td: "td = (table, days)" by (cases td)
  from Cons.prems(1) td obtain res1 cat1 where
    d: "drop_expired locked current (cutoff now (days ret)) table (attached_partitions cat table) (res, cat) = Inr (res1, cat1)"
    and r: "retain_tables locked now ret current tabs (res1, cat1) = Inr (res', cat')"
    by (auto split: sum.splits)
  from Cons.IH [OF r Cons.prems(2)] drop_expired_spec [OF d] td show ?case
    by (auto simp: droppable_def)
qed

lemma expired_table:
  assumes "expired current limit table n" and "n = table' @ month_suffix s"
  shows "table' = table"
proof -
  from assms(1) obtain ym where "parse_suffix table n = Some ym" by (auto simp: expired_def split: option.splits)
  from parse_suffix_length [OF this] assms(2) show ?thesis by (auto simp: month_suffix_def)
qed

lemma expired_before:
  assumes "expired current limit table (table @ month_suffix s)" and "month_floor ts = Inr s"
    and "0 \<le> d_year (utc_date s)" "d_year (utc_date s) < 10000"
  shows "instant ts < instant limit"
  using assms parse_suffix_name [OF assms(2-4), of table] month_floor_bounds(2) [OF assms(2)]
  by (simp add: expired_def)

lemma PARTITIONED_functional:
  "(table, d1) \<in> set PARTITIONED \<Longrightarrow> (table, d2) \<in> set PARTITIONED \<Longrightarrow> d1 = d2"
  by (auto simp: PARTITIONED_def)

subsection \<open>Properties\<close>

definition ex_retention :: retention where
  "ex_retention = \<lparr>node_metrics_days = 30, usage_summary_days = 730, collection_events_days = 90\<rparr>"

text \<open>
  C8.  Retention never drops a partition that can hold a row still within retention: every time
  whose partition (by \<open>partition_name\<close>) was dropped is older than the table's cutoff.
\<close>

theorem retention_drops_only_expired:
  assumes "apply_retention locked now ret cat = Inr (res, cat')" and "n \<in> set (rt_dropped res)"
    and "(table, days) \<in> set PARTITIONED" and "partition_name table ts = Inr n"
    and "0 \<le> d_year (utc_date ts)" and "d_year (utc_date ts) < 10000"
  shows "instant ts < instant (cutoff now (days ret))"
proof -
  from assms(1) obtain current where c:
    "retain_tables locked now ret current PARTITIONED (\<lparr>rt_dropped = [], rt_skipped = []\<rparr>, cat) = Inr (res, cat')"
    by (auto simp: apply_retention_def split: sum.splits)
  from retain_tables_dropped [OF c assms(2)] obtain table' days' where
    t: "(table', days') \<in> set PARTITIONED" "expired current (cutoff now (days' ret)) table' n" by auto
  from assms(4) obtain s where s: "month_floor ts = Inr s" "n = table @ month_suffix s"
    by (auto simp: partition_name_def split: sum.splits)
  from expired_table [OF t(2) s(2)] have "table = table'" .
  moreover from this t(1) assms(3) have "days' = days" using PARTITIONED_functional by blast
  moreover have "utc_date s = \<lparr>d_year = d_year (utc_date ts), d_month = d_month (utc_date ts), d_day = 1\<rparr>"
    using s(1) utc_date_ok [of ts]
    by (auto simp: month_floor_def require_aware_def date_ok_def utc_date_month_start split: if_splits)
  ultimately show ?thesis using expired_before [of current _ table s ts] t(2) s assms(5,6) by simp
qed

text \<open>
  After \<open>ensure_partitions\<close> succeeds, every aware time from the start of the current month
  up to the end of the month \<open>months_ahead\<close> later has its partition, in every table; the list it
  returns is exactly what was added to the catalogue, and no partition is attached twice.
\<close>

theorem ensure_partitions_covers:
  assumes "ensure_partitions locked now ahead cat = Inr (created, cat')" and "month_floor now = Inr (nth_month k)"
    and "table \<in> set (dkeys PARTITIONED)" and "dt_offset ts \<noteq> None"
    and "instant (nth_month k) \<le> instant ts" and "instant ts < instant (nth_month (k + int ahead + 1))"
  shows "(\<exists>name. partition_name table ts = Inr name \<and> name \<in> snd ` set cat') \<and>
    map snd cat' = map snd cat @ created \<and> (distinct (map snd cat) \<longrightarrow> distinct (map snd cat'))"
proof -
  from assms(1,2) have e: "ensure_all locked (List.product (dkeys PARTITIONED) (months_from (nth_month k) ahead)) cat = Inr (created, cat')"
    by (simp add: ensure_partitions_def)
  from month_floor_between [OF assms(5,6,4)] obtain s where
    s: "s \<in> set (months_from (nth_month k) ahead)" "month_floor ts = Inr s" by blast
  with assms(3) have "(table, s) \<in> set (List.product (dkeys PARTITIONED) (months_from (nth_month k) ahead))" by simp
  with ensure_all_spec [OF e] obtain name where "partition_name table s = Inr name" "name \<in> snd ` set cat'" by blast
  with partition_name_month_floor [OF s(2), of table]
  have "\<exists>name. partition_name table ts = Inr name \<and> name \<in> snd ` set cat'" by auto
  with ensure_all_spec [OF e] show ?thesis by blast
qed

text \<open>A maintenance run on 1 November 2026 with one partition from two years before.\<close>

definition ex_now_m :: datetime where "ex_now_m = month_start 2026 11"
definition ex_cat :: catalog where "ex_cat = [(''node_metrics_1m'', ''node_metrics_1m_y2024m06'')]"
definition ex_ts_m :: datetime where "ex_ts_m = month_start 2024 6"

lemma month_floor_month_start:
  "1 \<le> m \<Longrightarrow> m \<le> 12 \<Longrightarrow> month_floor (month_start y m) = Inr (month_start y m)"
proof -
  assume m: "1 \<le> m" "m \<le> 12"
  have "require_aware (month_start y m) = Inr (month_start y m)" by (simp add: month_start_def)
  with m show ?thesis unfolding month_floor_def by (simp add: utc_date_month_start)
qed

lemma ex_names:
  "partition_name ''node_metrics_1m'' ex_ts_m = Inr ''node_metrics_1m_y2024m06''"
  by (simp add: partition_name_def ex_ts_m_def month_floor_month_start month_suffix_def utc_date_month_start
      pad_numeral digit_char_def; code_simp)

lemma ex_dropped:
  "\<exists>res cat'. apply_retention (\<lambda>_. False) ex_now_m ex_retention ex_cat = Inr (res, cat') \<and>
     ''node_metrics_1m_y2024m06'' \<in> set (rt_dropped res)"
proof -
  have p: "parse_suffix ''node_metrics_1m'' ''node_metrics_1m_y2024m06'' = Some (2024, 6)"
    by (simp add: parse_suffix_def scan_num_def parse_digits_def digit_val_def is_digit_def)
  have n: "next_month (month_start 2024 6) = month_start 2024 7" by (simp add: next_month_def utc_date_month_start)
  have i: "instant (month_start 2024 6) < instant (month_start 2026 11)"
    "instant (month_start 2024 7) \<le> instant (cutoff (month_start 2026 11) 30)"
    by (simp_all add: instant_month_start days_before_year_def days_before_month_def month_days_def is_leap_def
        epoch_ordinal_def us_per_day_def cutoff_def days_us_def)
  have m: "month_floor (month_start 2026 11) = Inr (month_start 2026 11)" by (simp add: month_floor_month_start)
  have a: "attached_partitions ex_cat ''node_metrics_1m'' = [''node_metrics_1m_y2024m06'']"
    "filter (\<lambda>(_, n). n \<noteq> ''node_metrics_1m_y2024m06'') ex_cat = []"
    "attached_partitions [] t = []" for t
    by (simp_all add: attached_partitions_def ex_cat_def)
  show ?thesis
    unfolding apply_retention_def ex_now_m_def m
    using i by (simp add: PARTITIONED_def a p first_of_def n ex_retention_def)
qed

theorem retention_drops_only_expired_witness:
  "instant ex_ts_m < instant (cutoff ex_now_m 30)"
proof -
  obtain res cat' where r: "apply_retention (\<lambda>_. False) ex_now_m ex_retention ex_cat = Inr (res, cat')"
    "''node_metrics_1m_y2024m06'' \<in> set (rt_dropped res)" using ex_dropped by blast
  from retention_drops_only_expired [OF r _ ex_names, of node_metrics_days]
  show ?thesis by (simp add: PARTITIONED_def ex_ts_m_def utc_date_month_start ex_retention_def)
qed

lemma ensure_all_total:
  "\<forall>p \<in> set todo. dt_offset (snd p) \<noteq> None \<Longrightarrow> \<exists>r. ensure_all (\<lambda>_. False) todo cat = Inr r"
proof (induction todo arbitrary: cat)
  case Nil
  then show ?case by simp
next
  case (Cons p todo)
  obtain table s where p: "p = (table, s)" by (cases p)
  with Cons.prems obtain m where "month_floor s = Inr m" using month_floor_aware by force
  then have n: "partition_name table s = Inr (table @ month_suffix m)" by (simp add: partition_name_def)
  then obtain made cat1 where "ensure_partition (\<lambda>_. False) table s cat = Inr (made, cat1)"
    by (cases "table @ month_suffix m \<in> snd ` set cat") (auto simp: ensure_partition_def)
  moreover obtain r where "ensure_all (\<lambda>_. False) todo cat1 = Inr r" using Cons by force
  ultimately show ?case using n p by (cases r) simp
qed

theorem ensure_partitions_covers_witness:
  "\<exists>created cat'. ensure_partitions (\<lambda>_. False) (nth_month 24322) 2 [] = Inr (created, cat') \<and>
     map snd cat' = created \<and> distinct created"
proof -
  have aware: "dt_offset s \<noteq> None" if "s \<in> set (months_from (nth_month 24322) 2)" for s
    using that unfolding months_from_nth by (auto simp: nth_month_def month_start_def utc_def)
  have "\<exists>r. ensure_all (\<lambda>_. False) todo cat = Inr r" if "\<forall>p \<in> set todo. dt_offset (snd p) \<noteq> None" for todo cat
    using that by (rule ensure_all_total)
  from this [of "List.product (dkeys PARTITIONED) (months_from (nth_month 24322) 2)" "[]"] aware
  have "\<exists>r. ensure_all (\<lambda>_. False) (List.product (dkeys PARTITIONED) (months_from (nth_month 24322) 2)) [] = Inr r"
    by (metis (no_types, lifting) SigmaE set_product snd_conv)
  then obtain created cat' where e: "ensure_partitions (\<lambda>_. False) (nth_month 24322) 2 [] = Inr (created, cat')"
    by (auto simp: ensure_partitions_def month_floor_nth_month)
  from ensure_partitions_covers [OF e month_floor_nth_month, of "''node_usage_5m''" "nth_month 24322"]
  have "map snd cat' = created \<and> distinct (map snd cat')"
    using nth_month_less [of 24322 24325] aware [OF months_from_head] by (simp add: PARTITIONED_def del: distinct_map, metis)
  with e show ?thesis by auto
qed

end
