(* ===== verification/Spool.thy ===== *)
theory Spool
  imports Codec "HOL-Library.List_Lexorder" "HOL-Library.Char_ord"
begin

text \<open>
  The on-disk store of record batches used while PostgreSQL is unreachable
  (\<open>database/spool.py\<close>).

  The spool directory is part of the state: \<open>sp_files\<close> maps the names of its regular files to
  their lines, \<open>sp_corrupt\<close> those of its \<open>corrupt/\<close> subdirectory.  A line is a JSON document, a
  blank line or junk the JSON parser rejects.  What the operating system decides is the argument
  \<open>env\<close>: which calls fail, and the time stamps names start with; \<open>sz\<close> gives the bytes of a line.
  Every failure is a result, never an error value: no operation of this theory can raise.
\<close>

datatype line = Doc pyval | Blank | Junk

datatype write_outcome = WriteOk | WriteNotFound | WriteOSError

record fs_env =
  fs_mkdir_ok :: bool
  fs_list_ok :: bool
  fs_stat_ok :: "string \<Rightarrow> bool"
  fs_read_ok :: "string \<Rightarrow> bool"
  fs_unlink_ok :: "string \<Rightarrow> bool"
  fs_move_ok :: "string \<Rightarrow> bool"
  fs_corrupt_ok :: bool
  fs_write :: "nat \<Rightarrow> write_outcome"
  fs_stamp :: "nat \<Rightarrow> string"

record spool =
  sp_max_bytes :: nat
  sp_seq :: nat
  sp_dir :: bool
  sp_files :: "(string, line list) dict"
  sp_corrupt :: "(string, line list) dict"
  sp_quarantined :: "(string \<times> string) list"
  sp_stuck :: "string list"

definition SUFFIX :: string where "SUFFIX = ''.jsonl''"
definition LIVE_MARK :: string where "LIVE_MARK = ''-L''"

definition endswith :: "string \<Rightarrow> string \<Rightarrow> bool" where
  "endswith s t \<longleftrightarrow> length t \<le> length s \<and> drop (length s - length t) s = t"

definition startswith :: "string \<Rightarrow> string \<Rightarrow> bool" where
  "startswith s t \<longleftrightarrow> take (length t) s = t"

definition is_live_only :: "string \<Rightarrow> bool" where
  "is_live_only name \<longleftrightarrow> endswith name (LIVE_MARK @ SUFFIX)"

text \<open>\<open>_NAME_RE\<close>: \<open>^\d{8}T\d{6}\.\d{6}-(\d{6})(?:-L)?\.jsonl$\<close>; its group as a number.\<close>

definition name_seq :: "string \<Rightarrow> nat option" where
  "name_seq n =
     Option.bind (scan_num 8 n) (\<lambda>(_, s).
     Option.bind (scan_char CHR ''T'' s) (\<lambda>s.
     Option.bind (scan_num 6 s) (\<lambda>(_, s).
     Option.bind (scan_char CHR ''.'' s) (\<lambda>s.
     Option.bind (scan_num 6 s) (\<lambda>(_, s).
     Option.bind (scan_char CHR ''-'' s) (\<lambda>s.
     Option.bind (scan_num 6 s) (\<lambda>(q, s).
     if s = SUFFIX \<or> s = LIVE_MARK @ SUFFIX then Some q else None)))))))"

record spool_result =
  sr_stored :: bool
  sr_dropped_batches :: nat
  sr_dropped_records :: nat
  sr_error :: "string option"

definition result_ok :: "nat \<Rightarrow> nat \<Rightarrow> spool_result" where
  "result_ok b r = \<lparr>sr_stored = True, sr_dropped_batches = b, sr_dropped_records = r, sr_error = None\<rparr>"

definition result_failed :: "nat \<Rightarrow> nat \<Rightarrow> string \<Rightarrow> spool_result" where
  "result_failed b r e =
     \<lparr>sr_stored = False, sr_dropped_batches = b, sr_dropped_records = r, sr_error = Some e\<rparr>"

subsection \<open>Directory listing and sizes\<close>

definition is_batch_name :: "string \<Rightarrow> bool" where
  "is_batch_name n \<longleftrightarrow> endswith n SUFFIX \<and> \<not> startswith n ''.''"

definition batch_files :: "fs_env \<Rightarrow> spool \<Rightarrow> string list" where
  "batch_files env sp =
     (if sp_dir sp \<and> fs_list_ok env then filter is_batch_name (sort (dkeys (sp_files sp))) else [])"

definition lines_of :: "spool \<Rightarrow> string \<Rightarrow> line list" where
  "lines_of sp n = dget_or (sp_files sp) n []"

definition data_size :: "(line \<Rightarrow> nat) \<Rightarrow> line list \<Rightarrow> nat" where
  "data_size sz ls = sum_list (map sz ls)"

definition file_size :: "fs_env \<Rightarrow> (line \<Rightarrow> nat) \<Rightarrow> spool \<Rightarrow> string \<Rightarrow> nat" where
  "file_size env sz sp n = (if fs_stat_ok env n then data_size sz (lines_of sp n) else 0)"

definition size_bytes :: "fs_env \<Rightarrow> (line \<Rightarrow> nat) \<Rightarrow> spool \<Rightarrow> nat" where
  "size_bytes env sz sp = sum_list (map (file_size env sz sp) (batch_files env sp))"

definition batch_count :: "fs_env \<Rightarrow> spool \<Rightarrow> nat" where
  "batch_count env sp = length (batch_files env sp)"

definition count_records :: "fs_env \<Rightarrow> spool \<Rightarrow> string \<Rightarrow> nat" where
  "count_records env sp n =
     (if fs_read_ok env n then length (filter (\<lambda>l. l \<noteq> Blank) (lines_of sp n)) else 0)"

definition ensure_directory :: "fs_env \<Rightarrow> spool \<Rightarrow> string option \<times> spool" where
  "ensure_directory env sp =
     (if \<not> fs_mkdir_ok env then (Some ''OSError: spool directory unusable'', sp)
      else
        (let sp = sp\<lparr>sp_dir := True\<rparr>;
             seqs = List.map_filter name_seq (batch_files env sp)
         in (None, sp\<lparr>sp_seq := fold max seqs (sp_seq sp)\<rparr>)))"

subsection \<open>Eviction\<close>

definition drop_batch :: "fs_env \<Rightarrow> spool \<Rightarrow> string \<Rightarrow> nat option \<times> spool" where
  "drop_batch env sp n =
     (let count = count_records env sp n in
      if fs_unlink_ok env n then (Some count, sp\<lparr>sp_files := dpop (sp_files sp) n\<rparr>)
      else (None, sp))"

fun evict :: "fs_env \<Rightarrow> (string \<Rightarrow> nat) \<Rightarrow> nat \<Rightarrow> nat \<Rightarrow> nat \<times> nat \<Rightarrow> spool \<Rightarrow> string list \<Rightarrow> (nat \<times> nat) \<times> spool" where
  "evict env sizes needed tot (batches, records) sp [] = ((batches, records), sp)"
| "evict env sizes needed tot (batches, records) sp (p # ps) =
     (if tot + needed \<le> sp_max_bytes sp then ((batches, records), sp)
      else (case drop_batch env sp p of
          (None, sp') \<Rightarrow> evict env sizes needed tot (batches, records) sp' ps
        | (Some n, sp') \<Rightarrow> evict env sizes needed (tot - sizes p) (batches + 1, records + n) sp' ps))"

definition make_room :: "fs_env \<Rightarrow> (line \<Rightarrow> nat) \<Rightarrow> spool \<Rightarrow> nat \<Rightarrow> (nat \<times> nat) \<times> spool" where
  "make_room env sz sp needed =
     (let files = batch_files env sp; sizes = file_size env sz sp; tot = sum_list (map sizes files) in
      if tot + needed \<le> sp_max_bytes sp then ((0, 0), sp)
      else evict env sizes needed tot (0, 0) sp
        (filter is_live_only files @ filter (\<lambda>p. \<not> is_live_only p) files))"

subsection \<open>Writing\<close>

definition batch_lines :: "nm_record list \<Rightarrow> line list" where
  "batch_lines rs = map (\<lambda>r. Doc (encode_record r)) rs"

definition live_only_batch :: "nm_record list \<Rightarrow> bool" where
  "live_only_batch rs \<longleftrightarrow> list_all is_live rs"

definition batch_name :: "string \<Rightarrow> nat \<Rightarrow> bool \<Rightarrow> string" where
  "batch_name stamp n live =
     stamp @ ''-'' @ show_padded 6 n @ (if live then LIVE_MARK else []) @ SUFFIX"

text \<open>
  The two attempts of \<open>_append\<close>: the sequence number advances before the write, and a
  \<open>FileNotFoundError\<close> means the directory was removed, files included; it is created again once.
\<close>

fun write_attempts :: "fs_env \<Rightarrow> line list \<Rightarrow> bool \<Rightarrow> nat \<Rightarrow> nat \<Rightarrow> nat \<times> nat \<Rightarrow> spool \<Rightarrow> spool_result \<times> spool" where
  "write_attempts env ls live attempt 0 (b, r) sp = (result_failed b r ''FileNotFoundError'', sp)"
| "write_attempts env ls live attempt (Suc left) (b, r) sp =
     (let sp = sp\<lparr>sp_seq := Suc (sp_seq sp)\<rparr>;
          name = batch_name (fs_stamp env attempt) (sp_seq sp) live
      in case fs_write env attempt of
           WriteOk \<Rightarrow> (result_ok b r, sp\<lparr>sp_files := dset (sp_files sp) name ls\<rparr>)
         | WriteOSError \<Rightarrow> (result_failed b r ''OSError'', sp)
         | WriteNotFound \<Rightarrow>
             (let sp = sp\<lparr>sp_dir := False, sp_files := []\<rparr> in
              if left = 0 then (result_failed b r ''FileNotFoundError'', sp)
              else (case ensure_directory env sp of
                  (Some e, sp) \<Rightarrow> (result_failed b r ''FileNotFoundError'', sp)
                | (None, sp) \<Rightarrow> write_attempts env ls live (Suc attempt) left (b, r) sp)))"

definition append_batch :: "fs_env \<Rightarrow> (line \<Rightarrow> nat) \<Rightarrow> spool \<Rightarrow> nm_record list \<Rightarrow> spool_result \<times> spool" where
  "append_batch env sz sp rs =
     (if rs = [] then (result_ok 0 0, sp)
      else
        (let ls = batch_lines rs; n = data_size sz ls in
         if n > sp_max_bytes sp then (result_failed 0 0 ''batch exceeds spool max_bytes'', sp)
         else
           (case (if sp_dir sp then (None, sp) else ensure_directory env sp) of
              (Some e, sp) \<Rightarrow> (result_failed 0 0 e, sp)
            | (None, sp) \<Rightarrow>
                (case make_room env sz sp n of (dropped, sp) \<Rightarrow>
                   write_attempts env ls (live_only_batch rs) 1 2 dropped sp))))"

subsection \<open>Quarantine, reading and removal\<close>

definition quarantine :: "fs_env \<Rightarrow> spool \<Rightarrow> string \<Rightarrow> bool \<times> spool" where
  "quarantine env sp n =
     (if fs_move_ok env n \<and> n \<in> set (dkeys (sp_files sp))
      then (True, sp\<lparr>sp_files := dpop (sp_files sp) n, sp_corrupt := dset (sp_corrupt sp) n (lines_of sp n)\<rparr>)
      else (False, sp))"

definition quarantine_records :: "fs_env \<Rightarrow> spool \<Rightarrow> nm_record list \<Rightarrow> string option \<times> spool" where
  "quarantine_records env sp rs =
     (if \<not> fs_corrupt_ok env then (None, sp)
      else
        (let sp = sp\<lparr>sp_seq := Suc (sp_seq sp)\<rparr>;
             name = batch_name (fs_stamp env 1) (sp_seq sp) (live_only_batch rs)
         in case fs_write env 1 of
              WriteOk \<Rightarrow> (Some name, sp\<lparr>sp_corrupt := dset (sp_corrupt sp) name (batch_lines rs)\<rparr>)
            | _ \<Rightarrow> (None, sp)))"

definition take_quarantined :: "spool \<Rightarrow> (string \<times> string) list \<times> spool" where
  "take_quarantined sp = (sp_quarantined sp, sp\<lparr>sp_quarantined := []\<rparr>)"

fun decode_lines :: "line list \<Rightarrow> nm_record list option" where
  "decode_lines [] = Some []"
| "decode_lines (Blank # ls) = decode_lines ls"
| "decode_lines (Junk # ls) = None"
| "decode_lines (Doc v # ls) =
     (case decode_record v of None \<Rightarrow> None | Some r \<Rightarrow> map_option (Cons r) (decode_lines ls))"

definition read_batch :: "fs_env \<Rightarrow> spool \<Rightarrow> string \<Rightarrow> nm_record list option \<times> spool" where
  "read_batch env sp n =
     (if n \<in> set (sp_stuck sp) then (None, sp)
      else
        (case (if fs_read_ok env n \<and> n \<in> set (dkeys (sp_files sp)) then decode_lines (lines_of sp n) else None) of
           Some rs \<Rightarrow> (Some rs, sp)
         | None \<Rightarrow>
             (case quarantine env sp n of
                (True, sp) \<Rightarrow> (None, sp\<lparr>sp_quarantined := sp_quarantined sp @ [(n, ''unreadable'')]\<rparr>)
              | (False, sp) \<Rightarrow>
                  (None, sp\<lparr>sp_stuck := n # sp_stuck sp,
                     sp_quarantined := sp_quarantined sp @ [(n, ''unreadable (could not be moved to corrupt/)'')]\<rparr>))))"

definition remove_batch :: "fs_env \<Rightarrow> spool \<Rightarrow> string \<Rightarrow> spool" where
  "remove_batch env sp n =
     (if fs_unlink_ok env n then sp\<lparr>sp_files := dpop (sp_files sp) n\<rparr> else sp)"

text \<open>\<open>pending\<close>: the generator run to its end, with what it yields.\<close>

fun pending_loop :: "fs_env \<Rightarrow> spool \<Rightarrow> string list \<Rightarrow> (string \<times> nm_record list) list \<times> spool" where
  "pending_loop env sp [] = ([], sp)"
| "pending_loop env sp (p # ps) =
     (case read_batch env sp p of
        (None, sp) \<Rightarrow> pending_loop env sp ps
      | (Some batch, sp) \<Rightarrow> (case pending_loop env sp ps of (out, sp) \<Rightarrow> ((p, batch) # out, sp)))"

definition pending :: "fs_env \<Rightarrow> spool \<Rightarrow> (string \<times> nm_record list) list \<times> spool" where
  "pending env sp = pending_loop env sp (batch_files env sp)"

definition new_spool :: "fs_env \<Rightarrow> nat \<Rightarrow> bool \<Rightarrow> (string, line list) dict \<Rightarrow> spool" where
  "new_spool env max_bytes dir files =
     snd (ensure_directory env \<lparr>sp_max_bytes = max_bytes, sp_seq = 0, sp_dir = dir, sp_files = files,
       sp_corrupt = [], sp_quarantined = [], sp_stuck = []\<rparr>)"

lemmas spool_defs = ensure_directory_def drop_batch_def make_room_def append_batch_def
  quarantine_def quarantine_records_def take_quarantined_def read_batch_def remove_batch_def

subsection \<open>Names sort in write order\<close>

definition stamp_ok :: "string \<Rightarrow> bool" where
  "stamp_ok s \<longleftrightarrow> length s = 22 \<and> list_all is_digit (take 8 s) \<and> s ! 8 = CHR ''T'' \<and>
     list_all is_digit (take 6 (drop 9 s)) \<and> s ! 15 = CHR ''.'' \<and> list_all is_digit (drop 16 s)"

lemma less_append_same: "(xs @ ys < xs @ zs) \<longleftrightarrow> (ys < (zs :: 'a::linorder list))"
  by (induction xs) auto

lemma less_append_longer: "length xs = length xs' \<Longrightarrow> xs < xs' \<Longrightarrow> xs @ ys < xs' @ (zs :: 'a::linorder list)"
  by (induction xs xs' rule: list_induct2) auto

lemma digit_char_less: "a < b \<Longrightarrow> b < 10 \<Longrightarrow> digit_char a < digit_char b"
  by (simp add: digit_char_def less_char_def)

lemma pad_less: "n < m \<Longrightarrow> m < 10 ^ w \<Longrightarrow> pad w n < pad w m"
proof (induction w arbitrary: n m)
  case 0
  then show ?case by simp
next
  case (Suc w)
  show ?case
  proof (cases "n div 10 = m div 10")
    case True
    with Suc.prems(1) have "n mod 10 < m mod 10"
      by (metis div_mult_mod_eq nat_add_left_cancel_less)
    with True show ?thesis by (simp add: less_append_same digit_char_less)
  next
    case False
    with Suc.prems have "n div 10 < m div 10" "m div 10 < 10 ^ w"
      by (auto simp: div_le_mono le_neq_implies_less less_mult_imp_div_less mult.commute)
    with Suc.IH show ?thesis by (simp add: less_append_longer)
  qed
qed

lemma batch_name_less_gen:
  assumes "length s1 = length s2" and "s1 < s2 \<or> s1 = s2 \<and> n1 < n2" and "n1 < 1000000" "n2 < 1000000"
  shows "batch_name s1 n1 l1 < batch_name s2 n2 l2"
proof (cases "s1 = s2")
  case True
  with assms have "pad 6 n1 < pad 6 n2" by (intro pad_less) auto
  then have "pad 6 n1 @ t1 < pad 6 n2 @ t2" for t1 t2 by (intro less_append_longer) auto
  with True assms show ?thesis
    unfolding batch_name_def less_append_same by (simp add: show_padded_fits less_append_same)
next
  case False
  with assms show ?thesis unfolding batch_name_def by (intro less_append_longer) auto
qed

lemma name_seq_batch_name:
  assumes "stamp_ok s" and "n < 1000000"
  shows "name_seq (batch_name s n live) = Some n"
proof -
  have split: "s = take 8 s @ [s ! 8] @ take 6 (drop 9 s) @ [s ! 15] @ drop 16 s"
    using assms(1) id_take_nth_drop [of 8 s] id_take_nth_drop [of 6 "drop 9 s"]
    by (simp add: stamp_ok_def)
  define a b c where "a = take 8 s" and "b = take 6 (drop 9 s)" and "c = drop 16 s"
  have len: "length a = 8" "length b = 6" "length c = 6" and
      dig: "list_all is_digit a" "list_all is_digit b" "list_all is_digit c"
    using assms(1) by (auto simp: stamp_ok_def a_def b_def c_def)
  have s: "s = a @ CHR ''T'' # b @ CHR ''.'' # c"
    using split assms(1) by (simp add: stamp_ok_def a_def b_def c_def)
  have scan: "scan_num 8 (a @ t) = Some (parse_digits a, t)" "scan_num 6 (b @ t) = Some (parse_digits b, t)"
    "scan_num 6 (c @ t) = Some (parse_digits c, t)" for t
    using len dig by (simp_all add: scan_num_def)
  show ?thesis
    using assms(2) unfolding s batch_name_def name_seq_def
    by (simp add: scan show_padded_fits)
qed

lemma is_batch_name_batch_name:
  assumes "stamp_ok s"
  shows "is_batch_name (batch_name s n live)"
proof -
  have "s \<noteq> []" "hd s \<noteq> CHR ''.''"
    using assms by (auto simp: stamp_ok_def is_digit_def take_Suc hd_conv_nth numeral_eq_Suc)
      (cases s; auto simp: is_digit_def)+
  then show ?thesis
    by (cases s) (auto simp: is_batch_name_def endswith_def startswith_def batch_name_def SUFFIX_def)
qed

subsection \<open>Invariants\<close>

text \<open>
  \<open>spool_wf\<close>: file names are unique, and the sequence number is at least that of every stored
  batch, so the next name is fresh.
\<close>

definition spool_wf :: "spool \<Rightarrow> bool" where
  "spool_wf sp \<longleftrightarrow> dwf (sp_files sp) \<and> (\<not> sp_dir sp \<longrightarrow> sp_files sp = []) \<and>
     (\<forall>n \<in> fst ` set (sp_files sp). \<forall>q. is_batch_name n \<longrightarrow> name_seq n = Some q \<longrightarrow> q \<le> sp_seq sp)"

text \<open>An environment in which no call on the spool directory fails.\<close>

definition healthy :: "fs_env \<Rightarrow> bool" where
  "healthy env \<longleftrightarrow> fs_mkdir_ok env \<and> fs_list_ok env \<and> (\<forall>n. fs_stat_ok env n \<and> fs_read_ok env n \<and>
     fs_unlink_ok env n \<and> fs_move_ok env n) \<and> (\<forall>k. fs_write env k = WriteOk) \<and> (\<forall>k. stamp_ok (fs_stamp env k))"

lemma fold_max_ge: "x \<le> fold max xs (x :: nat)" "y \<in> set xs \<Longrightarrow> y \<le> fold max xs (x :: nat)"
proof -
  show ge: "x \<le> fold max xs x" for x :: nat and xs by (induction xs arbitrary: x) (auto intro: order_trans [OF max.cobounded2])
  show "y \<in> set xs \<Longrightarrow> y \<le> fold max xs x"
  proof (induction xs arbitrary: x)
    case (Cons a xs)
    then show ?case using ge [of "max a x" xs] by auto
  qed simp
qed

lemma set_map_filter: "set (List.map_filter f xs) = {y. \<exists>x \<in> set xs. f x = Some y}"
  by (induction xs) (auto simp: List.map_filter_simps split: option.splits)

lemma ensure_directory_wf [wf_intros]: "spool_wf sp \<Longrightarrow> spool_wf (snd (ensure_directory env sp))"
  by (auto simp: ensure_directory_def spool_wf_def Let_def intro: order_trans [OF _ fold_max_ge(1)])

text \<open>A spool opened on a directory left by an earlier process never reuses a name.\<close>

lemma ensure_directory_reseeds:
  assumes "fs_mkdir_ok env" "fs_list_ok env" "n \<in> fst ` set (sp_files sp)" "is_batch_name n" "name_seq n = Some q"
  shows "q \<le> sp_seq (snd (ensure_directory env sp))"
  using assms
  by (auto simp: ensure_directory_def Let_def batch_files_def set_map_filter intro!: fold_max_ge(2) rev_bexI)

lemma new_spool_wf:
  assumes "fs_mkdir_ok env" "fs_list_ok env" "dwf files"
  shows "spool_wf (new_spool env m dir files)"
  unfolding new_spool_def
proof -
  let ?sp = "\<lparr>sp_max_bytes = m, sp_seq = 0, sp_dir = dir, sp_files = files, sp_corrupt = [],
    sp_quarantined = [], sp_stuck = []\<rparr>"
  have "sp_files (snd (ensure_directory env ?sp)) = files" "sp_dir (snd (ensure_directory env ?sp))"
    using assms by (auto simp: ensure_directory_def Let_def)
  then show "spool_wf (snd (ensure_directory env ?sp))"
    using assms ensure_directory_reseeds [of env _ ?sp] by (auto simp: spool_wf_def)
qed

lemma spool_wf_pop: "spool_wf sp \<Longrightarrow> spool_wf (sp\<lparr>sp_files := dpop (sp_files sp) n\<rparr>)"
  by (auto simp: spool_wf_def dwf_dpop) (auto simp: dpop_def)

lemma drop_batch_wf [wf_intros]: "spool_wf sp \<Longrightarrow> spool_wf (snd (drop_batch env sp n))"
  by (simp add: drop_batch_def Let_def spool_wf_pop)

lemma evict_wf [wf_intros]: "spool_wf sp \<Longrightarrow> spool_wf (snd (evict env sizes needed tot br sp ps))"
proof (induction env sizes needed tot br sp ps rule: evict.induct)
  case (2 env sizes needed tot b r sp p ps)
  obtain x sp' where d: "drop_batch env sp p = (x, sp')" by (cases "drop_batch env sp p")
  with "2.prems" have "spool_wf sp'" using drop_batch_wf [of sp env p] by simp
  with 2 d show ?case by (cases x) auto
qed simp

lemma make_room_wf [wf_intros]: "spool_wf sp \<Longrightarrow> spool_wf (snd (make_room env sz sp n))"
  by (simp add: make_room_def Let_def evict_wf)

subsection \<open>Eviction in a healthy environment\<close>

definition without :: "spool \<Rightarrow> string list \<Rightarrow> spool" where
  "without sp ns = sp\<lparr>sp_files := filter (\<lambda>(n, _). n \<notin> set ns) (sp_files sp)\<rparr>"

lemma without_Nil [simp]: "without sp [] = sp"
  by (simp add: without_def case_prod_unfold)

lemma without_Cons: "without (sp\<lparr>sp_files := dpop (sp_files sp) p\<rparr>) ns = without sp (p # ns)"
  by (simp add: without_def dpop_def case_prod_unfold conj_commute)

lemma lines_of_pop:
  "lines_of (sp\<lparr>sp_files := dpop (sp_files sp) p\<rparr>) q = (if q = p then [] else lines_of sp q)"
  by (simp add: lines_of_def dget_or_def)

lemma evict_healthy:
  assumes "healthy env" and "distinct ps"
  shows "\<exists>k \<le> length ps. evict env sizes needed tot (b, r) sp ps =
      ((b + k, r + sum_list (map (count_records env sp) (take k ps))), without sp (take k ps)) \<and>
    (k < length ps \<longrightarrow> tot - sum_list (map sizes (take k ps)) + needed \<le> sp_max_bytes sp) \<and>
    (\<forall>j < k. \<not> tot - sum_list (map sizes (take j ps)) + needed \<le> sp_max_bytes sp)"
  using assms(2)
proof (induction ps arbitrary: tot b r sp)
  case Nil
  then show ?case by simp
next
  case (Cons p ps)
  show ?case
  proof (cases "tot + needed \<le> sp_max_bytes sp")
    case True
    then show ?thesis by (intro exI [of _ 0]) simp
  next
    case False
    let ?sp = "sp\<lparr>sp_files := dpop (sp_files sp) p\<rparr>"
    have "fs_unlink_ok env p" using assms(1) by (simp add: healthy_def)
    then have step: "evict env sizes needed tot (b, r) sp (p # ps) =
        evict env sizes needed (tot - sizes p) (b + 1, r + count_records env sp p) ?sp ps"
      using False by (simp add: drop_batch_def Let_def)
    from Cons obtain k where k: "k \<le> length ps"
      "evict env sizes needed (tot - sizes p) (b + 1, r + count_records env sp p) ?sp ps =
        ((b + 1 + k, r + count_records env sp p + sum_list (map (count_records env ?sp) (take k ps))), without ?sp (take k ps))"
      "k < length ps \<longrightarrow> tot - sizes p - sum_list (map sizes (take k ps)) + needed \<le> sp_max_bytes sp"
      "\<forall>j < k. \<not> tot - sizes p - sum_list (map sizes (take j ps)) + needed \<le> sp_max_bytes sp"
      using Cons.IH [of "tot - sizes p" "b + 1" "r + count_records env sp p" ?sp] by auto
    have "map (count_records env ?sp) (take k ps) = map (count_records env sp) (take k ps)"
      using Cons.prems by (intro map_cong) (auto simp: count_records_def lines_of_pop dest!: in_set_takeD)
    with k False step show ?thesis
      by (intro exI [of _ "Suc k"]) (auto simp: without_Cons less_Suc_eq_0_disj diff_diff_left)
  qed
qed

lemma batch_files_without: "batch_files env (without sp ns) = filter (\<lambda>n. n \<notin> set ns) (batch_files env sp)"
proof -
  have "map fst (filter (\<lambda>(n, _). n \<notin> set ns) fs) = filter (\<lambda>n. n \<notin> set ns) (map fst fs)"
    for fs :: "(string, line list) dict"
    by (simp add: filter_map comp_def case_prod_unfold)
  then show ?thesis
    by (simp add: batch_files_def without_def filter_sort [symmetric] conj_commute)
qed

lemma lines_of_without: "n \<notin> set ns \<Longrightarrow> lines_of (without sp ns) n = lines_of sp n"
proof -
  assume "n \<notin> set ns"
  then have "map_of (filter (\<lambda>(m, _). m \<notin> set ns) d) n = map_of d n" for d :: "(string, line list) dict"
    by (induction d) auto
  then show ?thesis by (simp add: lines_of_def without_def dget_or_def)
qed

lemma distinct_batch_files: "spool_wf sp \<Longrightarrow> distinct (batch_files env sp)"
  by (simp add: batch_files_def spool_wf_def dwf_def)

lemma sum_list_filter_split:
  fixes f :: "'a \<Rightarrow> nat"
  assumes "distinct xs" "distinct ys" "set ys \<subseteq> set xs"
  shows "sum_list (map f (filter (\<lambda>x. x \<notin> set ys) xs)) = sum_list (map f xs) - sum_list (map f ys)"
proof -
  have "sum_list (map f (filter (\<lambda>x. x \<notin> set ys) xs)) = sum f (set xs - set ys)"
    using assms(1) by (simp add: sum_list_distinct_conv_sum_set set_diff_eq)
  also have "\<dots> = sum f (set xs) - sum f (set ys)"
    using assms(3) by (intro sum_diff_nat) auto
  finally show ?thesis using assms by (simp add: sum_list_distinct_conv_sum_set)
qed

text \<open>The order in which batches are dropped: live-only ones first, each group oldest first.\<close>

definition evict_order :: "string list \<Rightarrow> string list" where
  "evict_order files = filter is_live_only files @ filter (\<lambda>p. \<not> is_live_only p) files"

lemma set_evict_order [simp]: "set (evict_order files) = set files"
  by (auto simp: evict_order_def)

lemma distinct_evict_order: "distinct files \<Longrightarrow> distinct (evict_order files)"
  by (auto simp: evict_order_def)

lemma length_evict_order: "length (evict_order files) = length files"
  by (simp add: evict_order_def sum_length_filter_compl)

lemma make_room_healthy:
  assumes "healthy env" and "spool_wf sp" and "needed \<le> sp_max_bytes sp"
  shows "\<exists>k. make_room env sz sp needed =
      ((k, sum_list (map (count_records env sp) (take k (evict_order (batch_files env sp))))),
       without sp (take k (evict_order (batch_files env sp)))) \<and>
    size_bytes env sz (without sp (take k (evict_order (batch_files env sp)))) + needed \<le> sp_max_bytes sp \<and>
    (\<forall>j < k. sp_max_bytes sp <
      size_bytes env sz (without sp (take j (evict_order (batch_files env sp)))) + needed)"
proof -
  let ?fs = "batch_files env sp" and ?o = "evict_order (batch_files env sp)"
  let ?f = "file_size env sz sp"
  let ?tot = "sum_list (map ?f ?fs)"
  have dist: "distinct ?fs" using assms(2) by (rule distinct_batch_files)
  have size: "size_bytes env sz (without sp (take k ?o)) = ?tot - sum_list (map ?f (take k ?o))" for k
  proof -
    have m: "map (file_size env sz (without sp (take k ?o))) (filter (\<lambda>n. n \<notin> set (take k ?o)) ?fs) =
        map ?f (filter (\<lambda>n. n \<notin> set (take k ?o)) ?fs)"
      by (intro map_cong) (auto simp: file_size_def lines_of_without)
    have "set (take k ?o) \<subseteq> set ?fs" using set_take_subset [of k ?o] by simp
    then show ?thesis
      unfolding size_bytes_def batch_files_without m
      by (intro sum_list_filter_split dist distinct_take distinct_evict_order)
  qed
  show ?thesis
  proof (cases "?tot + needed \<le> sp_max_bytes sp")
    case True
    then show ?thesis using size [of 0] by (intro exI [of _ 0]) (simp add: make_room_def Let_def)
  next
    case False
    then have e: "make_room env sz sp needed = evict env ?f needed ?tot (0, 0) sp ?o"
      by (simp add: make_room_def Let_def evict_order_def)
    obtain k where k: "k \<le> length ?o" "evict env ?f needed ?tot (0, 0) sp ?o =
        ((k, sum_list (map (count_records env sp) (take k ?o))), without sp (take k ?o))"
      "k < length ?o \<longrightarrow> ?tot - sum_list (map ?f (take k ?o)) + needed \<le> sp_max_bytes sp"
      "\<forall>j < k. \<not> ?tot - sum_list (map ?f (take j ?o)) + needed \<le> sp_max_bytes sp"
      using evict_healthy [OF assms(1) distinct_evict_order [OF dist], of ?f needed ?tot 0 0 sp] by auto
    have "?tot - sum_list (map ?f (take k ?o)) + needed \<le> sp_max_bytes sp"
    proof (cases "k < length ?o")
      case False
      with k(1) have "take k ?o = ?o" by simp
      moreover have "sum_list (map ?f ?o) = ?tot"
        using dist distinct_evict_order [OF dist] by (simp add: sum_list_distinct_conv_sum_set)
      ultimately show ?thesis using assms(3) by simp
    qed (use k in simp)
    with k e size show ?thesis by (intro exI [of _ k]) (simp add: not_le)
  qed
qed

subsection \<open>Appending a batch\<close>

text \<open>\<open>added env sp rs\<close> is the spool with the batch \<open>rs\<close> stored under its next name.\<close>

definition next_name :: "fs_env \<Rightarrow> spool \<Rightarrow> nm_record list \<Rightarrow> string" where
  "next_name env sp rs = batch_name (fs_stamp env 1) (Suc (sp_seq sp)) (live_only_batch rs)"

definition added :: "fs_env \<Rightarrow> spool \<Rightarrow> nm_record list \<Rightarrow> spool" where
  "added env sp rs = sp\<lparr>sp_seq := Suc (sp_seq sp),
     sp_files := dset (sp_files sp) (next_name env sp rs) (batch_lines rs)\<rparr>"

lemma write_attempts_ok:
  "fs_write env (Suc 0) = WriteOk \<Longrightarrow>
    write_attempts env (batch_lines rs) (live_only_batch rs) (Suc 0) 2 (b, r) sp = (result_ok b r, added env sp rs)"
  by (simp add: numeral_2_eq_2 Let_def added_def next_name_def)

lemma without_wf: "spool_wf sp \<Longrightarrow> spool_wf (without sp ns)"
  by (auto simp: spool_wf_def without_def dwf_def distinct_map inj_on_def)

lemma without_fields [simp]:
  "sp_seq (without sp ns) = sp_seq sp" "sp_max_bytes (without sp ns) = sp_max_bytes sp"
  "sp_dir (without sp ns) = sp_dir sp"
  by (simp_all add: without_def)

lemma append_healthy:
  assumes "healthy env" "spool_wf sp" "rs \<noteq> []" "data_size sz (batch_lines rs) \<le> sp_max_bytes sp"
    and "sp_dir sp"
  obtains k where "append_batch env sz sp rs =
      (result_ok k (sum_list (map (count_records env sp) (take k (evict_order (batch_files env sp))))),
       added env (without sp (take k (evict_order (batch_files env sp)))) rs)"
    and "size_bytes env sz (without sp (take k (evict_order (batch_files env sp)))) +
      data_size sz (batch_lines rs) \<le> sp_max_bytes sp"
    and "\<forall>j < k. sp_max_bytes sp <
      size_bytes env sz (without sp (take j (evict_order (batch_files env sp)))) + data_size sz (batch_lines rs)"
proof -
  obtain k where k: "make_room env sz sp (data_size sz (batch_lines rs)) =
      ((k, sum_list (map (count_records env sp) (take k (evict_order (batch_files env sp))))),
       without sp (take k (evict_order (batch_files env sp))))"
    "size_bytes env sz (without sp (take k (evict_order (batch_files env sp)))) +
      data_size sz (batch_lines rs) \<le> sp_max_bytes sp"
    "\<forall>j < k. sp_max_bytes sp <
      size_bytes env sz (without sp (take j (evict_order (batch_files env sp)))) + data_size sz (batch_lines rs)"
    using make_room_healthy [OF assms(1,2,4)] by blast
  have "fs_write env (Suc 0) = WriteOk" using assms(1) by (simp add: healthy_def)
  with k(1) assms(3-5) have "append_batch env sz sp rs =
      (result_ok k (sum_list (map (count_records env sp) (take k (evict_order (batch_files env sp))))),
       added env (without sp (take k (evict_order (batch_files env sp)))) rs)"
    by (simp add: append_batch_def Let_def write_attempts_ok del: write_attempts.simps)
  then show thesis using k(2,3) by (rule that)
qed

text \<open>The next name is fresh, so storing a batch overwrites nothing.\<close>

lemma next_name_fresh:
  assumes "spool_wf sp" "stamp_ok (fs_stamp env 1)" "Suc (sp_seq sp) < 1000000"
  shows "next_name env sp rs \<notin> fst ` set (sp_files sp)"
proof
  assume "next_name env sp rs \<in> fst ` set (sp_files sp)"
  moreover have "is_batch_name (next_name env sp rs)" "name_seq (next_name env sp rs) = Some (Suc (sp_seq sp))"
    using assms by (simp_all add: next_name_def is_batch_name_batch_name name_seq_batch_name)
  ultimately have "Suc (sp_seq sp) \<le> sp_seq sp" using assms(1) unfolding spool_wf_def by blast
  then show False by simp
qed

lemma added_wf [wf_intros]:
  assumes "spool_wf sp" "sp_dir sp" "stamp_ok (fs_stamp env 1)" "Suc (sp_seq sp) < 1000000"
  shows "spool_wf (added env sp rs)"
  using assms
  by (auto simp: spool_wf_def added_def dwf_dset next_name_def name_seq_batch_name le_SucI)

lemma decode_batch_lines: "list_all record_safe rs \<Longrightarrow> decode_lines (batch_lines rs) = Some rs"
  by (induction rs) (auto simp: batch_lines_def decode_encode_record)

lemma read_added:
  assumes "list_all record_safe rs" "fs_read_ok env' (next_name env sp rs)" "next_name env sp rs \<notin> set (sp_stuck sp)"
  shows "read_batch env' (added env sp rs) (next_name env sp rs) = (Some rs, added env sp rs)"
  using assms
  by (simp add: read_batch_def added_def lines_of_def dget_or_def decode_batch_lines)

text \<open>A batch stored at a time not before the others' is the last one replayed.\<close>

lemma sort_snoc_last: "(\<And>y. y \<in> set xs \<Longrightarrow> y < x) \<Longrightarrow> sort (xs @ [x]) = sort xs @ [x :: 'a::linorder]"
proof -
  assume "\<And>y. y \<in> set xs \<Longrightarrow> y < x"
  then have "sorted (sort xs @ [x])" by (auto simp: sorted_append intro: less_imp_le)
  then show ?thesis by (intro properties_for_sort) simp_all
qed

lemma batch_files_added:
  assumes "spool_wf sp" "stamp_ok (fs_stamp env 1)" "Suc (sp_seq sp) < 1000000" "sp_dir sp" "fs_list_ok env'"
    and "\<And>n. n \<in> fst ` set (sp_files sp) \<Longrightarrow> n < next_name env sp rs"
  shows "batch_files env' (added env sp rs) = batch_files env' sp @ [next_name env sp rs]"
proof -
  have "sp_files (added env sp rs) = sp_files sp @ [(next_name env sp rs, batch_lines rs)]"
    using next_name_fresh [OF assms(1-3)] by (simp add: added_def dset_fresh)
  moreover have "sort (map fst (sp_files sp) @ [next_name env sp rs]) = sort (map fst (sp_files sp)) @ [next_name env sp rs]"
    using assms(6) by (intro sort_snoc_last) auto
  moreover have "is_batch_name (next_name env sp rs)"
    using assms(2) by (simp add: next_name_def is_batch_name_batch_name)
  ultimately show ?thesis using assms(4,5) by (simp add: batch_files_def added_def)
qed

lemma size_bytes_added:
  assumes "spool_wf sp" "stamp_ok (fs_stamp env 1)" "Suc (sp_seq sp) < 1000000" "sp_dir sp" "healthy env'"
  shows "size_bytes env' sz (added env sp rs) = size_bytes env' sz sp + data_size sz (batch_lines rs)"
proof -
  let ?n = "next_name env sp rs"
  have fresh: "?n \<notin> fst ` set (sp_files sp)" using next_name_fresh [OF assms(1-3)] .
  have files: "sp_files (added env sp rs) = sp_files sp @ [(?n, batch_lines rs)]"
    using fresh by (simp add: added_def dset_fresh)
  have bn: "is_batch_name ?n" using assms(2) by (simp add: next_name_def is_batch_name_batch_name)
  have mset: "mset (batch_files env' (added env sp rs)) = add_mset ?n (mset (batch_files env' sp))"
    using assms(4,5) bn by (simp add: batch_files_def files healthy_def) (simp add: added_def)
  have "?n \<notin> set (batch_files env' sp)" using fresh by (auto simp: batch_files_def)
  then have same: "image_mset (file_size env' sz (added env sp rs)) (mset (batch_files env' sp)) =
      image_mset (file_size env' sz sp) (mset (batch_files env' sp))"
    by (intro image_mset_cong) (auto simp: file_size_def lines_of_def dget_or_def added_def)
  have new: "file_size env' sz (added env sp rs) ?n = data_size sz (batch_lines rs)"
    using assms(5) by (simp add: file_size_def healthy_def lines_of_def dget_or_def added_def)
  have "size_bytes env' sz (added env sp rs) = sum_mset (image_mset (file_size env' sz (added env sp rs)) (mset (batch_files env' (added env sp rs))))"
    unfolding size_bytes_def by (simp flip: sum_mset_sum_list)
  also have "\<dots> = data_size sz (batch_lines rs) + size_bytes env' sz sp"
    unfolding mset by (simp add: new same size_bytes_def flip: sum_mset_sum_list)
  finally show ?thesis by simp
qed

subsection \<open>Properties\<close>

text \<open>A concrete environment, spool and batch for the witnesses.\<close>

definition ex_env :: fs_env where
  "ex_env = \<lparr>fs_mkdir_ok = True, fs_list_ok = True, fs_stat_ok = (\<lambda>_. True), fs_read_ok = (\<lambda>_. True),
     fs_unlink_ok = (\<lambda>_. True), fs_move_ok = (\<lambda>_. True), fs_corrupt_ok = True,
     fs_write = (\<lambda>_. WriteOk), fs_stamp = (\<lambda>_. ''20261101T000000.000000'')\<rparr>"

definition ex_spool :: spool where
  "ex_spool = \<lparr>sp_max_bytes = 25, sp_seq = 2, sp_dir = True,
     sp_files = [(''20261031T000000.000000-000001.jsonl'', [Doc VNone]),
                 (''20261031T000001.000000-000002-L.jsonl'', [Doc VNone])],
     sp_corrupt = [], sp_quarantined = [], sp_stuck = []\<rparr>"

definition ex_batch :: "nm_record list" where
  "ex_batch = [Record COLLECTION_EVENT [(''system'', VStr ''polaris'')]]"

lemma ex_healthy: "healthy ex_env"
  by (simp add: healthy_def ex_env_def stamp_ok_def is_digit_def)

lemma ex_spool_wf: "spool_wf ex_spool"
  by (simp add: spool_wf_def ex_spool_def dwf_def name_seq_def scan_num_def parse_digits_def digit_val_def
      is_digit_def)

lemma ex_batch_size: "data_size (\<lambda>_. 10) (batch_lines ex_batch) = 10"
  by (simp add: data_size_def batch_lines_def ex_batch_def)

text \<open>
  C13. Storing a batch in a working spool directory succeeds, leaves at most \<open>max_bytes\<close> of batches
  on disk, keeps file names unique and keeps the sequence number ahead of every stored batch.
\<close>

theorem spool_append_within_limit:
  assumes "healthy env" and "spool_wf sp" and "sp_dir sp" and "Suc (sp_seq sp) < 1000000"
    and "rs \<noteq> []" and "data_size sz (batch_lines rs) \<le> sp_max_bytes sp"
  shows "sr_stored (fst (append_batch env sz sp rs)) \<and>
    size_bytes env sz (snd (append_batch env sz sp rs)) \<le> sp_max_bytes sp \<and>
    spool_wf (snd (append_batch env sz sp rs))"
proof -
  obtain k where k: "append_batch env sz sp rs =
      (result_ok k (sum_list (map (count_records env sp) (take k (evict_order (batch_files env sp))))),
       added env (without sp (take k (evict_order (batch_files env sp)))) rs)"
    "size_bytes env sz (without sp (take k (evict_order (batch_files env sp)))) +
      data_size sz (batch_lines rs) \<le> sp_max_bytes sp"
    using append_healthy [OF assms(1,2,5,6,3)] by metis
  let ?w = "without sp (take k (evict_order (batch_files env sp)))"
  have w: "spool_wf ?w" "sp_dir ?w" "Suc (sp_seq ?w) < 1000000" "stamp_ok (fs_stamp env 1)"
    using assms by (simp_all add: without_wf healthy_def)
  have "size_bytes env sz (added env ?w rs) \<le> sp_max_bytes sp"
    using size_bytes_added [OF w(1) w(4) w(3) w(2) assms(1)] k(2) by simp
  moreover have "spool_wf (added env ?w rs)" using added_wf [OF w(1,2,4,3)] .
  ultimately show ?thesis using k(1) by (simp add: result_ok_def)
qed

theorem spool_append_within_limit_witness:
  "sr_stored (fst (append_batch ex_env (\<lambda>_. 10) ex_spool ex_batch)) \<and>
    size_bytes ex_env (\<lambda>_. 10) (snd (append_batch ex_env (\<lambda>_. 10) ex_spool ex_batch)) \<le> sp_max_bytes ex_spool \<and>
    spool_wf (snd (append_batch ex_env (\<lambda>_. 10) ex_spool ex_batch))"
  by (rule spool_append_within_limit [OF ex_healthy ex_spool_wf])
    (simp_all add: ex_batch_size, simp_all add: ex_spool_def ex_batch_def)

text \<open>
  C13. Eviction drops no more than it must, in the documented order: the batches removed are a
  shortest prefix of the live-only batches (oldest first) followed by the others (oldest first)
  that makes room, every other batch is kept, and the result reports exactly how many batches and
  records were dropped.
\<close>

theorem spool_evicts_minimal_prefix:
  assumes "healthy env" and "spool_wf sp" and "sp_dir sp" and "Suc (sp_seq sp) < 1000000"
    and "rs \<noteq> []" and "data_size sz (batch_lines rs) \<le> sp_max_bytes sp"
  shows "\<exists>k. let order = evict_order (batch_files env sp); res = append_batch env sz sp rs in
    sr_dropped_batches (fst res) = k \<and>
    sr_dropped_records (fst res) = sum_list (map (count_records env sp) (take k order)) \<and>
    set (batch_files env (snd res)) = insert (next_name env sp rs) (set (drop k order)) \<and>
    (\<forall>j < k. sp_max_bytes sp < size_bytes env sz (without sp (take j order)) + data_size sz (batch_lines rs))"
proof -
  let ?o = "evict_order (batch_files env sp)"
  obtain k where k: "append_batch env sz sp rs =
      (result_ok k (sum_list (map (count_records env sp) (take k ?o))), added env (without sp (take k ?o)) rs)"
    "\<forall>j < k. sp_max_bytes sp < size_bytes env sz (without sp (take j ?o)) + data_size sz (batch_lines rs)"
    using append_healthy [OF assms(1,2,5,6,3)] by metis
  have dist: "distinct ?o" using assms(2) by (simp add: distinct_evict_order distinct_batch_files)
  have "set ?o = set (take k ?o) \<union> set (drop k ?o)"
    by (simp only: set_append [symmetric] append_take_drop_id)
  moreover have "set (take k ?o) \<inter> set (drop k ?o) = {}"
    using set_take_disj_set_drop_if_distinct [OF dist order_refl] .
  ultimately have "set (batch_files env sp) - set (take k ?o) = set (drop k ?o)"
    unfolding set_evict_order by blast
  moreover have "set (batch_files env (added env (without sp (take k ?o)) rs)) =
      insert (next_name env sp rs) (set (batch_files env (without sp (take k ?o))))"
    using assms(1,3)
    by (auto simp: batch_files_def added_def next_name_def healthy_def is_batch_name_batch_name)
  ultimately show ?thesis
    using k by (intro exI [of _ k]) (auto simp: Let_def result_ok_def batch_files_without)
qed

theorem spool_evicts_minimal_prefix_witness:
  "\<exists>k. let order = evict_order (batch_files ex_env ex_spool);
      res = append_batch ex_env (\<lambda>_. 10) ex_spool ex_batch in
    sr_dropped_batches (fst res) = k \<and>
    sr_dropped_records (fst res) = sum_list (map (count_records ex_env ex_spool) (take k order)) \<and>
    set (batch_files ex_env (snd res)) = insert (next_name ex_env ex_spool ex_batch) (set (drop k order)) \<and>
    (\<forall>j < k. sp_max_bytes ex_spool <
      size_bytes ex_env (\<lambda>_. 10) (without ex_spool (take j order)) + data_size (\<lambda>_. 10) (batch_lines ex_batch))"
  by (rule spool_evicts_minimal_prefix [OF ex_healthy ex_spool_wf])
    (simp_all add: ex_batch_size, simp_all add: ex_spool_def ex_batch_def)



end
