(* ===== verification/Buffered.thy ===== *)
theory Buffered
  imports Spool "HOL-Library.Sublist"
begin

text \<open>
  \<open>BufferedWriter\<close> (\<open>database/buffered.py\<close>): writes batches through a database writer and spools
  them to disk during an outage.

  The database writer is the pair of operations \<open>ops\<close> over an abstract database state; a write
  ends with the rows beyond retention, with an outage (\<open>DatabaseUnavailable\<close>), or with any other
  error.  \<open>clk i\<close> is the \<open>i\<close>-th reading of the monotonic clock in one \<open>submit\<close>.  The fields
  \<open>bw_events\<close> and \<open>bw_beyond\<close> hold the local variables \<open>events\<close> and \<open>beyond\<close> of \<open>submit\<close>, which
  the methods it calls update in place.
\<close>

datatype write_result = Wrote "(string, nat) dict" | Unavailable string | Rejected string

record 'db writer_ops =
  w_write :: "'db \<Rightarrow> nm_record list \<Rightarrow> datetime \<Rightarrow> write_result \<times> 'db"
  w_ping :: "'db \<Rightarrow> bool \<times> 'db"

record 'db buffered =
  bw_db :: 'db
  bw_spool :: spool
  bw_system :: string
  bw_backoff :: "rat \<times> rat"
  bw_max_replay_attempts :: nat
  bw_budget :: rat
  bw_replay_failures :: "(string, nat) dict"
  bw_connected :: bool
  bw_outage_since :: "datetime option"
  bw_next_retry :: "datetime option"
  bw_delay :: "rat option"
  bw_replayed_batches :: nat
  bw_replayed_records :: nat
  bw_superseded_batches :: nat
  bw_event_counts :: "(string, nat) dict"
  bw_carried :: "nm_record list"
  bw_skip :: "string list"
  bw_events :: "nm_record list"
  bw_beyond :: "(string, nat) dict"

definition new_buffered :: "'db \<Rightarrow> spool \<Rightarrow> string \<Rightarrow> rat \<times> rat \<Rightarrow> nat \<Rightarrow> rat \<Rightarrow> 'db buffered" where
  "new_buffered db sp sys backoff attempts budget =
     \<lparr>bw_db = db, bw_spool = sp, bw_system = sys, bw_backoff = backoff,
      bw_max_replay_attempts = attempts, bw_budget = budget, bw_replay_failures = [],
      bw_connected = False, bw_outage_since = None, bw_next_retry = None, bw_delay = None,
      bw_replayed_batches = 0, bw_replayed_records = 0, bw_superseded_batches = 0,
      bw_event_counts = [], bw_carried = [], bw_skip = [], bw_events = [], bw_beyond = []\<rparr>"

subsection \<open>Events\<close>

text \<open>\<open>events.append(self._event(now, event_type, detail))\<close>\<close>

definition event_row :: "string \<Rightarrow> pyval \<Rightarrow> datetime \<Rightarrow> string \<Rightarrow> row \<Rightarrow> row" where
  "event_row sys node ts event_type detail =
     [(''system'', VStr sys), (''node'', node), (''ts'', VTime ts), (''event_type'', VStr event_type),
      (''detail'', VDict detail)]"

definition emit :: "datetime \<Rightarrow> string \<Rightarrow> row \<Rightarrow> 'db buffered \<Rightarrow> 'db buffered" where
  "emit now event_type detail bw =
     (let nth = dget_or (bw_event_counts bw) event_type 0 in
      bw\<lparr>bw_event_counts := dset (bw_event_counts bw) event_type (Suc nth),
         bw_events := bw_events bw @
           [Record COLLECTION_EVENT (event_row (bw_system bw) VNone (add_us now (int nth)) event_type detail)]\<rparr>)"

definition counter_update :: "(string, nat) dict \<Rightarrow> (string, nat) dict \<Rightarrow> (string, nat) dict" where
  "counter_update c d = foldl (\<lambda>c (k, n). dset c k (dget_or c k 0 + n)) c d"

definition beyond_event :: "datetime \<Rightarrow> 'db buffered \<Rightarrow> 'db buffered" where
  "beyond_event now bw =
     (if bw_beyond bw = [] then bw
      else emit now ''rows_beyond_retention'' (map (\<lambda>(t, n). (t, VInt (int n))) (bw_beyond bw)) bw)"

definition finish :: "datetime \<Rightarrow> 'db buffered \<Rightarrow> 'db buffered" where
  "finish now bw =
     (case take_quarantined (bw_spool bw) of (taken, sp) \<Rightarrow>
        beyond_event now
          (foldl (\<lambda>bw (name, reason). emit now ''spool_batch_quarantined''
             [(''file'', VStr name), (''error'', VStr reason)] bw) (bw\<lparr>bw_spool := sp\<rparr>) taken))"

subsection \<open>Spooling and the outage state\<close>

definition store :: "fs_env \<Rightarrow> (line \<Rightarrow> nat) \<Rightarrow> nm_record list \<Rightarrow> datetime \<Rightarrow> 'db buffered \<Rightarrow> 'db buffered" where
  "store env sz rs now bw =
     (if rs = [] then bw
      else
        (case append_batch env sz (bw_spool bw) rs of (res, sp) \<Rightarrow>
           (let bw = bw\<lparr>bw_spool := sp\<rparr>;
                bw = (if sr_dropped_batches res \<noteq> 0
                      then emit now ''spool_dropped''
                        [(''batches'', VInt (int (sr_dropped_batches res))),
                         (''records'', VInt (int (sr_dropped_records res)))] bw
                      else bw)
            in if sr_stored res then bw
               else emit now ''spool_write_failed'' [(''error'', of_opt VStr (sr_error res))] bw)))"

definition after_delay :: "datetime \<Rightarrow> rat \<Rightarrow> datetime" where
  "after_delay now secs = add_us now (round_even (secs * 1000000))"

text \<open>
  \<open>_fail\<close>; during an outage \<open>_delay\<close> is set (\<open>outage_inv\<close> below), so doubling it cannot raise.
\<close>

definition fail :: "fs_env \<Rightarrow> (line \<Rightarrow> nat) \<Rightarrow> string \<Rightarrow> nm_record list \<Rightarrow> datetime \<Rightarrow> 'db buffered \<Rightarrow> 'db buffered" where
  "fail env sz exc rs now bw =
     (let bw = bw\<lparr>bw_connected := False\<rparr>;
          bw = (if bw_outage_since bw = None
                then emit now ''database_unavailable'' [(''error'', VStr exc)]
                  (bw\<lparr>bw_outage_since := Some now,
                      bw_delay := Some (min (fst (bw_backoff bw)) (snd (bw_backoff bw)))\<rparr>)
                else bw\<lparr>bw_delay := map_option (\<lambda>d. min (d * 2) (snd (bw_backoff bw))) (bw_delay bw)\<rparr>)
      in store env sz rs now (bw\<lparr>bw_next_retry := map_option (after_delay now) (bw_delay bw)\<rparr>))"

definition recover :: "datetime \<Rightarrow> 'db buffered \<Rightarrow> 'db buffered" where
  "recover now bw =
     (let bw = (if bw_outage_since bw \<noteq> None \<or> bw_replayed_batches bw \<noteq> 0 \<or> bw_superseded_batches bw \<noteq> 0
                then emit now ''database_recovered''
                  [(''outage_sec'', of_opt (\<lambda>since. vnum (secs_between now since)) (bw_outage_since bw)),
                   (''replayed_batches'', VInt (int (bw_replayed_batches bw))),
                   (''replayed_records'', VInt (int (bw_replayed_records bw))),
                   (''superseded_batches'', VInt (int (bw_superseded_batches bw)))] bw
                else bw)
      in bw\<lparr>bw_connected := True, bw_outage_since := None, bw_next_retry := None, bw_delay := None,
            bw_replayed_batches := 0, bw_replayed_records := 0, bw_superseded_batches := 0\<rparr>)"

subsection \<open>Replay\<close>

definition file_exists :: "'db buffered \<Rightarrow> string \<Rightarrow> bool" where
  "file_exists bw p \<longleftrightarrow> p \<in> set (dkeys (sp_files (bw_spool bw)))"

definition skip_if_exists :: "string \<Rightarrow> 'db buffered \<Rightarrow> 'db buffered" where
  "skip_if_exists p bw = (if file_exists bw p then bw\<lparr>bw_skip := p # bw_skip bw\<rparr> else bw)"

definition drop_superseded :: "fs_env \<Rightarrow> string \<Rightarrow> 'db buffered \<Rightarrow> 'db buffered" where
  "drop_superseded env p bw =
     (let bw = bw\<lparr>bw_replay_failures := dpop (bw_replay_failures bw) p,
                  bw_spool := remove_batch env (bw_spool bw) p\<rparr>
      in if file_exists bw p then bw\<lparr>bw_skip := p # bw_skip bw\<rparr>
         else bw\<lparr>bw_superseded_batches := bw_superseded_batches bw + 1\<rparr>)"

definition quarantine_spooled :: "fs_env \<Rightarrow> string \<Rightarrow> datetime \<Rightarrow> row \<Rightarrow> 'db buffered \<Rightarrow> 'db buffered" where
  "quarantine_spooled env p now detail bw =
     (let bw = bw\<lparr>bw_replay_failures := dpop (bw_replay_failures bw) p,
                  bw_spool := snd (quarantine env (bw_spool bw) p)\<rparr>
      in emit now ''spool_batch_quarantined'' ((''file'', VStr p) # detail) (skip_if_exists p bw))"

definition quarantine_fresh :: "fs_env \<Rightarrow> nm_record list \<Rightarrow> string \<Rightarrow> datetime \<Rightarrow> 'db buffered \<Rightarrow> 'db buffered" where
  "quarantine_fresh env rs exc now bw =
     (if rs = [] then bw
      else if list_all is_live rs then
        emit now ''spool_batch_quarantined''
          [(''file'', VNone), (''reason'', VStr ''live-only batch not kept''), (''error'', VStr exc)] bw
      else
        (case quarantine_records env (bw_spool bw) rs of (name, sp) \<Rightarrow>
           emit now ''spool_batch_quarantined'' [(''file'', of_opt VStr name), (''error'', VStr exc)]
             (bw\<lparr>bw_spool := sp\<rparr>)))"

text \<open>\<open>self._replay_failures.pop(path, None); self._spool.remove(path); ...\<close> after a write.\<close>

definition replayed :: "fs_env \<Rightarrow> string \<Rightarrow> nm_record list \<Rightarrow> (string, nat) dict \<Rightarrow> 'db buffered \<Rightarrow> 'db buffered" where
  "replayed env p batch b bw =
     (let bw = skip_if_exists p
           (bw\<lparr>bw_replay_failures := dpop (bw_replay_failures bw) p,
               bw_spool := remove_batch env (bw_spool bw) p\<rparr>)
      in bw\<lparr>bw_replayed_batches := bw_replayed_batches bw + 1,
            bw_replayed_records := bw_replayed_records bw + length batch,
            bw_beyond := counter_update (bw_beyond bw) b\<rparr>)"

datatype replay_result = Drained bool | OutOfTime bool | ReplayFailed string

fun replay_loop :: "'db writer_ops \<Rightarrow> fs_env \<Rightarrow> (nat \<Rightarrow> rat) \<Rightarrow> datetime \<Rightarrow> string list \<Rightarrow> nat \<Rightarrow> bool \<Rightarrow>
    string list \<Rightarrow> 'db buffered \<Rightarrow> replay_result \<times> 'db buffered" where
  "replay_loop ops env clk now superseded i wrote [] bw = (Drained wrote, bw)"
| "replay_loop ops env clk now superseded i wrote (p # ps) bw =
     (if bw_budget bw \<le> clk (Suc i) - clk 0 then (OutOfTime wrote, bw)
      else if p \<in> set superseded then
        replay_loop ops env clk now superseded (Suc i) wrote ps (drop_superseded env p bw)
      else
        (case read_batch env (bw_spool bw) p of
           (None, sp) \<Rightarrow>
             replay_loop ops env clk now superseded (Suc i) wrote ps (bw\<lparr>bw_spool := sp\<rparr>)
         | (Some batch, sp) \<Rightarrow>
             (case w_write ops (bw_db bw) batch now of
                (Wrote b, db) \<Rightarrow>
                  replay_loop ops env clk now superseded (Suc i) True ps
                    (replayed env p batch b (bw\<lparr>bw_spool := sp, bw_db := db\<rparr>))
              | (Rejected e, db) \<Rightarrow>
                  replay_loop ops env clk now superseded (Suc i) wrote ps
                    (quarantine_spooled env p now [(''error'', VStr e)] (bw\<lparr>bw_spool := sp, bw_db := db\<rparr>))
              | (Unavailable e, db) \<Rightarrow>
                  (case w_ping ops db of
                     (False, db) \<Rightarrow> (ReplayFailed e, bw\<lparr>bw_spool := sp, bw_db := db\<rparr>)
                   | (True, db) \<Rightarrow>
                       (let failures = dget_or (bw_replay_failures bw) p 0 + 1;
                            bw = bw\<lparr>bw_spool := sp, bw_db := db\<rparr>
                        in if failures < bw_max_replay_attempts bw
                           then (ReplayFailed e,
                             bw\<lparr>bw_replay_failures := dset (bw_replay_failures bw) p failures\<rparr>)
                           else replay_loop ops env clk now superseded (Suc i) wrote ps
                             (quarantine_spooled env p now
                               [(''error'', VStr e),
                                (''reason'', VStr ''repeated failure while the database answered''),
                                (''attempts'', VInt (int failures))] bw))))))"

definition replay_files :: "fs_env \<Rightarrow> 'db buffered \<Rightarrow> string list" where
  "replay_files env bw = filter (\<lambda>p. p \<notin> set (bw_skip bw)) (batch_files env (bw_spool bw))"

definition replay :: "'db writer_ops \<Rightarrow> fs_env \<Rightarrow> (nat \<Rightarrow> rat) \<Rightarrow> datetime \<Rightarrow> 'db buffered \<Rightarrow> replay_result \<times> 'db buffered" where
  "replay ops env clk now bw =
     (let files = replay_files env bw; superseded = butlast (filter is_live_only files) in
      replay_loop ops env clk now superseded 0 False files bw)"

subsection \<open>Submitting a batch\<close>

definition attempt :: "'db writer_ops \<Rightarrow> fs_env \<Rightarrow> (line \<Rightarrow> nat) \<Rightarrow> (nat \<Rightarrow> rat) \<Rightarrow> nm_record list \<Rightarrow> datetime \<Rightarrow>
    'db buffered \<Rightarrow> string option \<times> 'db buffered" where
  "attempt ops env sz clk rs now bw =
     (case replay ops env clk now bw of
        (ReplayFailed e, bw) \<Rightarrow> (None, fail env sz e rs now bw)
      | (OutOfTime wrote, bw) \<Rightarrow>
          (None, store env sz rs now (if wrote then bw\<lparr>bw_connected := True, bw_next_retry := None\<rparr> else bw))
      | (Drained wrote, bw) \<Rightarrow>
          (if rs \<noteq> [] \<or> (bw_outage_since bw \<noteq> None \<and> \<not> wrote) then
             (case w_write ops (bw_db bw) rs now of
                (Unavailable e, db) \<Rightarrow> (None, fail env sz e rs now (bw\<lparr>bw_db := db\<rparr>))
              | (Rejected e, db) \<Rightarrow>
                  (let bw = bw\<lparr>bw_db := db\<rparr>; bw = (if wrote then recover now bw else bw)
                   in (Some e, quarantine_fresh env rs e now bw))
              | (Wrote b, db) \<Rightarrow>
                  (None, recover now (bw\<lparr>bw_db := db, bw_beyond := counter_update (bw_beyond bw) b\<rparr>)))
           else (None, if wrote then recover now bw else bw)))"

definition begin_submit :: "'db buffered \<Rightarrow> 'db buffered" where
  "begin_submit bw = bw\<lparr>bw_event_counts := [], bw_events := bw_carried bw, bw_carried := [], bw_beyond := []\<rparr>"

text \<open>
  The result is the events to be passed back in the next \<open>submit\<close>, or the error that the batch
  itself caused; the events of a call that raised are carried over to the next one.
\<close>

definition submit :: "'db writer_ops \<Rightarrow> fs_env \<Rightarrow> (line \<Rightarrow> nat) \<Rightarrow> (nat \<Rightarrow> rat) \<Rightarrow> nm_record list \<Rightarrow> datetime \<Rightarrow>
    'db buffered \<Rightarrow> nm_record list res \<times> 'db buffered" where
  "submit ops env sz clk rs now bw =
     (case require_aware now of
        Inl e \<Rightarrow> (Inl e, bw)
      | Inr now \<Rightarrow>
          (let bw = begin_submit bw in
           case (case bw_next_retry bw of
                   Some retry \<Rightarrow>
                     if instant now < instant retry then (None, store env sz rs now bw)
                     else attempt ops env sz clk rs now bw
                 | None \<Rightarrow> attempt ops env sz clk rs now bw) of
             (None, bw) \<Rightarrow> (let bw = finish now bw in (Inr (bw_events bw), bw))
           | (Some e, bw) \<Rightarrow>
               (let bw = finish now bw in (Inl (OtherError e), bw\<lparr>bw_carried := bw_events bw\<rparr>))))"

subsection \<open>What each step leaves alone\<close>

named_theorems bw_frame \<open>fields a step of the buffered writer does not change\<close>

lemma emit_frame [simp, bw_frame]:
  "bw_db (emit now t d bw) = bw_db bw" "bw_spool (emit now t d bw) = bw_spool bw"
  "bw_backoff (emit now t d bw) = bw_backoff bw" "bw_budget (emit now t d bw) = bw_budget bw"
  "bw_max_replay_attempts (emit now t d bw) = bw_max_replay_attempts bw"
  "bw_outage_since (emit now t d bw) = bw_outage_since bw" "bw_delay (emit now t d bw) = bw_delay bw"
  "bw_next_retry (emit now t d bw) = bw_next_retry bw" "bw_connected (emit now t d bw) = bw_connected bw"
  "bw_skip (emit now t d bw) = bw_skip bw" "bw_carried (emit now t d bw) = bw_carried bw"
  "bw_beyond (emit now t d bw) = bw_beyond bw" "bw_system (emit now t d bw) = bw_system bw"
  by (simp_all add: emit_def Let_def)

text \<open>The part of the state that describes the outage.\<close>

definition outage_state :: "'db buffered \<Rightarrow> datetime option \<times> datetime option \<times> rat option \<times> rat \<times> rat" where
  "outage_state bw = (bw_outage_since bw, bw_next_retry bw, bw_delay bw, bw_backoff bw)"

lemma outage_state_frame [simp, bw_frame]:
  "outage_state (emit now t d bw) = outage_state bw"
  "outage_state (store env sz rs now bw) = outage_state bw"
  "outage_state (skip_if_exists p bw) = outage_state bw"
  "outage_state (drop_superseded env p bw) = outage_state bw"
  "outage_state (quarantine_spooled env p now d bw) = outage_state bw"
  "outage_state (quarantine_fresh env rs e now bw) = outage_state bw"
  "outage_state (replayed env p batch b bw) = outage_state bw"
  "outage_state (beyond_event now bw) = outage_state bw"
  "outage_state (bw\<lparr>bw_spool := sp\<rparr>) = outage_state bw" "outage_state (bw\<lparr>bw_db := db\<rparr>) = outage_state bw"
  "outage_state (bw\<lparr>bw_replay_failures := fl\<rparr>) = outage_state bw"
  "outage_state (bw\<lparr>bw_beyond := by\<rparr>) = outage_state bw" "outage_state (bw\<lparr>bw_carried := ca\<rparr>) = outage_state bw"
  by (simp_all add: outage_state_def store_def skip_if_exists_def drop_superseded_def quarantine_spooled_def
      quarantine_fresh_def replayed_def beyond_event_def Let_def split: prod.splits)

lemma finish_outage_state [simp, bw_frame]: "outage_state (finish now bw) = outage_state bw"
proof -
  have *: "outage_state (foldl (\<lambda>bw (name, reason). emit now t (d name reason) bw) bw taken) = outage_state bw"
    for t d taken and bw :: "'a buffered"
    by (induction taken arbitrary: bw) auto
  obtain taken sp where "take_quarantined (bw_spool bw) = (taken, sp)" by force
  then show ?thesis
    using * [of "''spool_batch_quarantined''" "\<lambda>name reason. [(''file'', VStr name), (''error'', VStr reason)]"
        "bw\<lparr>bw_spool := sp\<rparr>" taken]
    by (simp add: finish_def)
qed

lemma replay_loop_outage_state [bw_frame]:
  "outage_state (snd (replay_loop ops env clk now spd i wrote ps bw)) = outage_state bw"
  by (induction ops env clk now spd i wrote ps bw rule: replay_loop.induct)
    (simp_all add: Let_def split: prod.splits option.splits write_result.splits bool.splits)

lemma replay_outage_state [bw_frame]: "replay ops env clk now bw = (r, bw') \<Longrightarrow> outage_state bw' = outage_state bw"
  using replay_loop_outage_state [of ops env clk now _ 0 False "replay_files env bw" bw]
  by (metis replay_def snd_conv)

subsection \<open>The outage invariant\<close>

text \<open>
  During an outage, and only then, there is a delay, and it lies between the smaller bound and the
  ceiling; a retry is only ever scheduled during an outage.
\<close>

definition outage_ok :: "datetime option \<times> datetime option \<times> rat option \<times> rat \<times> rat \<Rightarrow> bool" where
  "outage_ok = (\<lambda>(since, retry, delay, lo, hi).
     (since = None \<longleftrightarrow> delay = None) \<and> (retry \<noteq> None \<longrightarrow> since \<noteq> None) \<and>
     (case delay of None \<Rightarrow> True | Some d \<Rightarrow> min lo hi \<le> d \<and> d \<le> hi) \<and> 0 \<le> lo \<and> 0 \<le> hi)"

definition outage_inv :: "'db buffered \<Rightarrow> bool" where
  "outage_inv bw \<longleftrightarrow> outage_ok (outage_state bw)"

lemma outage_inv_cong: "outage_state bw' = outage_state bw \<Longrightarrow> outage_inv bw \<Longrightarrow> outage_inv bw'"
  by (simp add: outage_inv_def)

lemma fail_outage_inv: "outage_inv bw \<Longrightarrow> outage_inv (fail env sz e rs now bw)"
  by (auto simp: outage_inv_def fail_def Let_def) (auto simp: outage_state_def outage_ok_def min_def split: option.splits)

lemma recover_outage_inv: "outage_inv bw \<Longrightarrow> outage_inv (recover now bw)"
  by (auto simp: outage_inv_def recover_def Let_def outage_state_def outage_ok_def)

lemma attempt_outage_inv: "outage_inv bw \<Longrightarrow> outage_inv (snd (attempt ops env sz clk rs now bw))"
proof -
  assume inv: "outage_inv bw"
  obtain r bw1 where r: "replay ops env clk now bw = (r, bw1)" by (cases "replay ops env clk now bw")
  then have inv1: "outage_inv bw1" using inv replay_outage_state outage_inv_cong by blast
  have db: "outage_inv (bw1\<lparr>bw_db := db\<rparr>)" "outage_inv (bw1\<lparr>bw_db := db, bw_beyond := b\<rparr>)" for db b
    using inv1 by (simp_all add: outage_inv_def)
  have budget: "outage_inv (store env sz rs now (bw1\<lparr>bw_connected := True, bw_next_retry := None\<rparr>))"
    "outage_inv (store env sz rs now bw1)"
    using inv1 by (simp_all add: outage_inv_def) (simp add: outage_state_def outage_ok_def)
  have fresh: "outage_inv (quarantine_fresh env rs e now bw2)" if "outage_inv bw2" for e and bw2 :: "'a buffered"
    using that by (simp add: outage_inv_def)
  show ?thesis
    using r inv1 budget
    by (auto simp: attempt_def Let_def
        intro!: fail_outage_inv recover_outage_inv fresh db
        split: replay_result.splits prod.splits write_result.splits)
qed

lemma begin_submit_outage_state: "outage_state (begin_submit bw) = outage_state bw"
  by (simp add: begin_submit_def outage_state_def)

lemma submit_outage_inv: "outage_inv bw \<Longrightarrow> outage_inv (snd (submit ops env sz clk rs now bw))"
proof -
  assume inv: "outage_inv bw"
  let ?bw = "begin_submit bw"
  have b: "outage_inv ?bw" using inv begin_submit_outage_state by (rule outage_inv_cong [rotated])
  then have a: "outage_inv (snd (attempt ops env sz clk rs now ?bw))" by (rule attempt_outage_inv)
  have s: "outage_inv (store env sz rs now ?bw)" using b by (simp add: outage_inv_def)
  show ?thesis
    using inv a s
    by (auto simp: submit_def Let_def require_aware_def outage_inv_def
        split: option.splits prod.splits if_splits)
qed

subsection \<open>What replay does to the files and to the database\<close>

definition batch_at :: "spool \<Rightarrow> string \<Rightarrow> nm_record list" where
  "batch_at sp p = (case decode_lines (lines_of sp p) of None \<Rightarrow> [] | Some rs \<Rightarrow> rs)"

text \<open>Nothing about the file \<open>q\<close> differs between two states of the spool.\<close>

definition same_file :: "spool \<Rightarrow> spool \<Rightarrow> string \<Rightarrow> bool" where
  "same_file sp sp' q \<longleftrightarrow> dget (sp_files sp') q = dget (sp_files sp) q \<and>
     dget (sp_corrupt sp') q = dget (sp_corrupt sp) q"

lemma same_file_refl [simp]: "same_file sp sp q"
  by (simp add: same_file_def)

lemma same_file_trans: "same_file a b q \<Longrightarrow> same_file b c q \<Longrightarrow> same_file a c q"
  by (simp add: same_file_def)

lemma same_file_batch: "same_file sp sp' q \<Longrightarrow> batch_at sp' q = batch_at sp q"
  by (simp add: same_file_def batch_at_def lines_of_def dget_or_def)

lemma same_file_other [simp]:
  "q \<noteq> p \<Longrightarrow> same_file sp (remove_batch env sp p) q"
  "q \<noteq> p \<Longrightarrow> same_file sp (snd (quarantine env sp p)) q"
  "q \<noteq> p \<Longrightarrow> same_file sp (snd (read_batch env sp p)) q"
  by (auto simp: same_file_def remove_batch_def quarantine_def read_batch_def split: option.splits)

text \<open>
  The fate of a spooled file: it is still there, it was written (\<open>qs\<close>), it was superseded
  (\<open>spd\<close>), or it is now in \<open>corrupt/\<close>.
\<close>

definition fate :: "string list \<Rightarrow> string list \<Rightarrow> spool \<Rightarrow> spool \<Rightarrow> string \<Rightarrow> bool" where
  "fate spd qs sp sp' q \<longleftrightarrow> dget (sp_files sp') q = dget (sp_files sp) q \<or> q \<in> set qs \<or> q \<in> set spd \<or>
     dget (sp_corrupt sp') q = dget (sp_files sp) q"

lemma fate_quarantine [simp]: "fate spd qs sp (snd (quarantine env sp p)) p"
  by (auto simp: fate_def quarantine_def lines_of_def dget_or_def map_of_eq_None_iff split: option.splits)

lemma fate_read [simp]: "fate spd qs sp (snd (read_batch env sp p)) p"
  using fate_quarantine [of spd qs sp env p]
  by (auto simp: read_batch_def fate_def split: option.splits prod.splits bool.splits)

lemma read_batch_Some: "read_batch env sp p = (Some rs, sp') \<Longrightarrow> sp' = sp \<and> rs = batch_at sp p"
  by (auto simp: read_batch_def batch_at_def split: if_splits option.splits prod.splits bool.splits)

lemma step_spools [simp]:
  "bw_spool (drop_superseded env p bw) = remove_batch env (bw_spool bw) p"
  "bw_spool (quarantine_spooled env p now d bw) = snd (quarantine env (bw_spool bw) p)"
  "bw_spool (replayed env p batch b bw) = remove_batch env (bw_spool bw) p"
  "bw_db (drop_superseded env p bw) = bw_db bw" "bw_db (quarantine_spooled env p now d bw) = bw_db bw"
  "bw_db (replayed env p batch b bw) = bw_db bw" "bw_db (skip_if_exists p bw) = bw_db bw"
  "bw_spool (skip_if_exists p bw) = bw_spool bw"
  by (simp_all add: drop_superseded_def quarantine_spooled_def replayed_def skip_if_exists_def Let_def)

text \<open>
  \<open>trace content commit now spd ps bw bw' qs\<close>: from \<open>bw\<close> to \<open>bw'\<close> the database went through
  exactly the batches of the files \<open>qs\<close>, a subsequence of \<open>ps\<close>, in that order; the files of \<open>ps\<close>
  met one of the fates above and no other file was touched.
\<close>

definition trace :: "('db \<Rightarrow> 'c) \<Rightarrow> (nm_record list \<Rightarrow> datetime \<Rightarrow> 'c \<Rightarrow> 'c) \<Rightarrow> datetime \<Rightarrow> string list \<Rightarrow> string list \<Rightarrow>
    'db buffered \<Rightarrow> 'db buffered \<Rightarrow> string list \<Rightarrow> bool" where
  "trace content commit now spd ps bw bw' qs \<longleftrightarrow>
     subseq qs ps \<and> (\<forall>q \<in> set qs. q \<notin> set spd) \<and>
     content (bw_db bw') = fold (\<lambda>q. commit (batch_at (bw_spool bw) q) now) qs (content (bw_db bw)) \<and>
     (\<forall>q \<in> set ps. fate spd qs (bw_spool bw) (bw_spool bw') q) \<and>
     (\<forall>q. q \<notin> set ps \<longrightarrow> same_file (bw_spool bw) (bw_spool bw') q)"

lemma trace_stop:
  assumes "bw_spool bw' = bw_spool bw" and "content (bw_db bw') = content (bw_db bw)"
  shows "trace content commit now spd ps bw bw' []"
  using assms by (simp add: trace_def fate_def)

lemma trace_stop_written:
  assumes "bw_spool bw' = bw_spool bw" and "p \<notin> set spd"
    and "content (bw_db bw') = commit (batch_at (bw_spool bw) p) now (content (bw_db bw))"
  shows "trace content commit now spd (p # ps) bw bw' [p]"
  using assms by (simp add: trace_def fate_def)

lemma fold_batch_cong:
  assumes "\<And>q. q \<in> set qs \<Longrightarrow> same_file sp sp' q"
  shows "fold (\<lambda>q. commit (batch_at sp' q) now) qs c = fold (\<lambda>q. commit (batch_at sp q) now) qs c"
  by (intro fold_cong) (simp_all add: same_file_batch [OF assms])

lemma trace_cons:
  assumes t: "trace content commit now spd ps bw2 bw' qs" and p: "p \<notin> set ps"
    and w: "w = [] \<or> w = [p] \<and> p \<notin> set spd"
    and db: "content (bw_db bw2) = fold (\<lambda>q. commit (batch_at (bw_spool bw) q) now) w (content (bw_db bw))"
    and other: "\<And>q. q \<noteq> p \<Longrightarrow> same_file (bw_spool bw) (bw_spool bw2) q"
    and fp: "fate spd w (bw_spool bw) (bw_spool bw2) p"
  shows "trace content commit now spd (p # ps) bw bw' (w @ qs)"
  unfolding trace_def
proof (intro conjI ballI allI impI)
  have qs: "subseq qs ps" "p \<notin> set qs" using t p by (auto simp: trace_def dest: list_emb_set)
  show "subseq (w @ qs) (p # ps)" using qs(1) w by auto
  show "q \<notin> set spd" if "q \<in> set (w @ qs)" for q using that t w by (auto simp: trace_def)
  have "fold (\<lambda>q. commit (batch_at (bw_spool bw2) q) now) qs c = fold (\<lambda>q. commit (batch_at (bw_spool bw) q) now) qs c" for c
    using qs(2) other by (intro fold_batch_cong) metis
  then show "content (bw_db bw') = fold (\<lambda>q. commit (batch_at (bw_spool bw) q) now) (w @ qs) (content (bw_db bw))"
    using t db by (simp add: trace_def)
  have same: "same_file (bw_spool bw2) (bw_spool bw') q" if "q \<notin> set ps" for q
    using that t by (simp add: trace_def)
  show "same_file (bw_spool bw) (bw_spool bw') q" if "q \<notin> set (p # ps)" for q
    using that same [of q] other [of q] same_file_trans by auto
  show "fate spd (w @ qs) (bw_spool bw) (bw_spool bw') q" if "q \<in> set (p # ps)" for q
  proof (cases "q = p")
    case True
    then show ?thesis using True fp same [OF p] by (auto simp: fate_def same_file_def)
  next
    case False
    with that have "q \<in> set ps" by simp
    then have "fate spd qs (bw_spool bw2) (bw_spool bw') q" using t by (simp add: trace_def)
    then show ?thesis using other [OF False] by (auto simp: fate_def same_file_def)
  qed
qed

lemmas trace_skip = trace_cons [where w = "[]", simplified]

lemma trace_write:
  assumes "trace content commit now spd ps bw2 bw' qs" and "p \<notin> set ps" and "p \<notin> set spd"
    and "content (bw_db bw2) = commit (batch_at (bw_spool bw) p) now (content (bw_db bw))"
    and "\<And>q. q \<noteq> p \<Longrightarrow> same_file (bw_spool bw) (bw_spool bw2) q"
  shows "trace content commit now spd (p # ps) bw bw' (p # qs)"
  using trace_cons [OF assms(1,2), where w = "[p]" and bw = bw] assms(3-) by (simp add: fate_def)

definition superseded_files :: "fs_env \<Rightarrow> 'db buffered \<Rightarrow> string list" where
  "superseded_files env bw = butlast (filter is_live_only (replay_files env bw))"

definition drains :: "'db writer_ops \<Rightarrow> fs_env \<Rightarrow> (nat \<Rightarrow> rat) \<Rightarrow> datetime \<Rightarrow> 'db buffered \<Rightarrow> bool" where
  "drains ops env clk now bw \<longleftrightarrow> (\<exists>wrote. fst (replay ops env clk now bw) = Drained wrote)"

lemma distinct_replay_files: "dwf (sp_files (bw_spool bw)) \<Longrightarrow> distinct (replay_files env bw)"
  by (simp add: replay_files_def batch_files_def dwf_def)

lemma store_db [simp, bw_frame]: "bw_db (store env sz rs now bw) = bw_db bw"
  by (simp add: store_def Let_def split: prod.splits)

lemma begin_submit_frame [simp, bw_frame]:
  "bw_db (begin_submit bw) = bw_db bw" "bw_spool (begin_submit bw) = bw_spool bw"
  "replay_files env (begin_submit bw) = replay_files env bw"
  by (simp_all add: begin_submit_def replay_files_def)

lemma outer_db [simp, bw_frame]:
  "bw_db (fail env sz e rs now bw) = bw_db bw" "bw_db (recover now bw) = bw_db bw"
  "bw_db (quarantine_fresh env rs e now bw) = bw_db bw" "bw_db (beyond_event now bw) = bw_db bw"
  by (simp_all add: fail_def recover_def quarantine_fresh_def beyond_event_def Let_def split: prod.splits)

lemma emit_events: "set (bw_events bw) \<subseteq> set (bw_events (emit now t d bw))"
  by (auto simp: emit_def Let_def)

lemma finish_fold:
  "\<exists>n. finish now bw = beyond_event now n \<and> bw_db n = bw_db bw \<and>
     bw_spool n = snd (take_quarantined (bw_spool bw)) \<and> set (bw_events bw) \<subseteq> set (bw_events n)"
proof -
  have "bw_db (foldl (\<lambda>bw (name, reason). emit now t (d name reason) bw) bw taken) = bw_db bw \<and>
    bw_spool (foldl (\<lambda>bw (name, reason). emit now t (d name reason) bw) bw taken) = bw_spool bw \<and>
    set (bw_events bw) \<subseteq> set (bw_events (foldl (\<lambda>bw (name, reason). emit now t (d name reason) bw) bw taken))"
    for t d taken and bw :: "'a buffered"
    by (induction taken arbitrary: bw) (auto dest: subsetD [OF emit_events])
  note * = this [of "''spool_batch_quarantined''" "\<lambda>name reason. [(''file'', VStr name), (''error'', VStr reason)]"]
  obtain taken sp where t: "take_quarantined (bw_spool bw) = (taken, sp)" by force
  then show ?thesis using * [of "bw\<lparr>bw_spool := sp\<rparr>" taken] unfolding finish_def by (simp, blast)
qed

lemma finish_db [simp, bw_frame]: "bw_db (finish now bw) = bw_db bw"
  using finish_fold [of now bw] by auto

lemma submit_db:
  "bw_db (snd (submit ops env sz clk rs now bw)) = bw_db bw \<or>
   bw_db (snd (submit ops env sz clk rs now bw)) = bw_db (snd (attempt ops env sz clk rs now (begin_submit bw)))"
  by (auto simp: submit_def require_aware_def Let_def split: option.splits prod.splits)

subsection \<open>The database writer as the buffered writer sees it\<close>

text \<open>
  The contract of a transactional writer: a successful write commits the batch, a rejected one
  leaves the content alone, and an outage may hit before or after the commit (a lost
  acknowledgement).  A ping changes nothing.
\<close>

locale tx_writer =
  fixes ops :: "'db writer_ops" and content :: "'db \<Rightarrow> 'c"
    and commit :: "nm_record list \<Rightarrow> datetime \<Rightarrow> 'c \<Rightarrow> 'c"
  assumes wrote: "w_write ops db rs now = (Wrote b, db') \<Longrightarrow> content db' = commit rs now (content db)"
    and unavailable: "w_write ops db rs now = (Unavailable e, db') \<Longrightarrow>
      content db' = content db \<or> content db' = commit rs now (content db)"
    and rejected: "w_write ops db rs now = (Rejected e, db') \<Longrightarrow> content db' = content db"
    and pinged: "w_ping ops db = (ok, db') \<Longrightarrow> content db' = content db"
begin

lemma replay_loop_trace:
  assumes "distinct ps"
  shows "\<exists>qs. trace content commit now spd ps bw (snd (replay_loop ops env clk now spd i wrote ps bw)) qs"
  using assms
proof (induction ps arbitrary: i wrote bw)
  case Nil
  then show ?case by (auto intro!: exI [of _ "[]"] trace_stop)
next
  case (Cons p ps)
  then have p: "p \<notin> set ps" and d: "distinct ps" by auto
  note skipped = trace_skip [OF _ p] and written = trace_write [OF _ p]
  have next_skip: "\<exists>qs. trace content commit now spd (p # ps) bw (snd (replay_loop ops env clk now spd i w ps bw2)) qs"
    if "content (bw_db bw2) = content (bw_db bw)" and "\<And>q. q \<noteq> p \<Longrightarrow> same_file (bw_spool bw) (bw_spool bw2) q"
      and "fate spd [] (bw_spool bw) (bw_spool bw2) p" for i w bw2
    using Cons.IH [OF d] that by (meson skipped)
  have next_write: "\<exists>qs. trace content commit now spd (p # ps) bw (snd (replay_loop ops env clk now spd i w ps bw2)) qs"
    if "p \<notin> set spd" and "content (bw_db bw2) = commit (batch_at (bw_spool bw) p) now (content (bw_db bw))"
      and "\<And>q. q \<noteq> p \<Longrightarrow> same_file (bw_spool bw) (bw_spool bw2) q" for i w bw2
    using Cons.IH [OF d] that by (meson written)
  show ?case
  proof (cases "bw_budget bw \<le> clk (Suc i) - clk 0 \<or> p \<in> set spd")
    case True
    then show ?thesis
      by (auto intro!: next_skip simp: fate_def) (auto intro!: exI [of _ "[]"] trace_stop)
  next
    case go: False
    obtain m sp where r: "read_batch env (bw_spool bw) p = (m, sp)" by force
    show ?thesis
    proof (cases m)
      case None
      with go r show ?thesis
        using fate_read [of spd "[]" "bw_spool bw" env p] same_file_other(3) [of _ p "bw_spool bw" env]
        by (auto intro!: next_skip)
    next
      case (Some batch)
      with r have sp: "sp = bw_spool bw" "batch = batch_at (bw_spool bw) p" by (auto dest: read_batch_Some)
      obtain w db where w: "w_write ops (bw_db bw) batch now = (w, db)" by force
      obtain ok db2 where ping: "w_ping ops db = (ok, db2)" by force
      note c = pinged [OF ping]
      have stop: "\<exists>qs. trace content commit now spd (p # ps) bw bw' qs"
        if "bw_spool bw' = bw_spool bw" "content (bw_db bw') = content (bw_db bw)" for bw'
        using that by (auto intro!: exI [of _ "[]"] trace_stop)
      have stop_written: "\<exists>qs. trace content commit now spd (p # ps) bw bw' qs"
        if "bw_spool bw' = bw_spool bw" "content (bw_db bw') = commit (batch_at (bw_spool bw) p) now (content (bw_db bw))"
        for bw' using that go by (auto intro!: exI [of _ "[p]"] trace_stop_written)
      show ?thesis
      proof (cases w)
        case (Wrote b)
        with w go r Some sp show ?thesis by (auto intro!: next_write dest: wrote)
      next
        case (Rejected e)
        with w go r Some sp show ?thesis by (auto intro!: next_skip dest: rejected)
      next
        case (Unavailable e)
        with w have "content db = content (bw_db bw) \<or> content db = commit batch now (content (bw_db bw))"
          by (auto dest: unavailable)
        then have db2: "content db2 = content (bw_db bw) \<or>
            content db2 = commit (batch_at (bw_spool bw) p) now (content (bw_db bw))"
          using c sp by simp
        show ?thesis
        proof (cases "ok \<and> \<not> dget_or (bw_replay_failures bw) p 0 + 1 < bw_max_replay_attempts bw")
          case True
          from db2 show ?thesis
          proof
            assume "content db2 = content (bw_db bw)"
            with True w go r Some sp Unavailable ping show ?thesis by (auto simp: Let_def intro!: next_skip)
          next
            assume "content db2 = commit (batch_at (bw_spool bw) p) now (content (bw_db bw))"
            with True w go r Some sp Unavailable ping show ?thesis by (auto simp: Let_def intro!: next_write)
          qed
        next
          case False
          with w go r Some sp Unavailable ping have
            "bw_spool (snd (replay_loop ops env clk now spd i wrote (p # ps) bw)) = bw_spool bw"
            "bw_db (snd (replay_loop ops env clk now spd i wrote (p # ps) bw)) = db2"
            by (cases ok; auto simp: Let_def)+
          with db2 stop stop_written show ?thesis by metis
        qed
      qed
    qed
  qed
qed

lemma replay_trace:
  assumes "dwf (sp_files (bw_spool bw))" and "replay ops env clk now bw = (r, bw')"
  shows "\<exists>qs. trace content commit now (superseded_files env bw) (replay_files env bw) bw bw' qs"
  using replay_loop_trace [where ps = "replay_files env bw" and spd = "superseded_files env bw" and bw = bw
      and env = env and clk = clk and now = now and i = 0 and wrote = False]
    distinct_replay_files [OF assms(1)] assms(2)
  by (simp add: replay_def superseded_files_def Let_def)

lemma attempt_content:
  assumes "dwf (sp_files (bw_spool bw))"
  shows "\<exists>qs fresh. subseq qs (replay_files env bw) \<and> (fresh = [] \<or> fresh = [rs] \<and> drains ops env clk now bw) \<and>
    content (bw_db (snd (attempt ops env sz clk rs now bw))) =
      fold (\<lambda>b. commit b now) (map (batch_at (bw_spool bw)) qs @ fresh) (content (bw_db bw))"
proof -
  obtain r bw1 where r: "replay ops env clk now bw = (r, bw1)" by force
  from replay_trace [OF assms r] obtain qs where qs: "subseq qs (replay_files env bw)" and
    c: "content (bw_db bw1) = fold (\<lambda>b. commit b now) (map (batch_at (bw_spool bw)) qs) (content (bw_db bw))"
    by (auto simp: trace_def fold_map comp_def)
  let ?c = "content (bw_db (snd (attempt ops env sz clk rs now bw)))"
  have "?c = content (bw_db bw1) \<or> ?c = commit rs now (content (bw_db bw1)) \<and> drains ops env clk now bw"
  proof (cases r)
    case (Drained w)
    obtain res db where "w_write ops (bw_db bw1) rs now = (res, db)" by force
    with Drained r show ?thesis
      by (cases res) (auto simp: attempt_def drains_def Let_def dest: wrote unavailable rejected)
  qed (use r in \<open>auto simp: attempt_def\<close>)
  then show ?thesis
  proof
    assume "?c = content (bw_db bw1)"
    with qs c show ?thesis by (intro exI [of _ qs] exI [of _ "[]"]) simp
  next
    assume "?c = commit rs now (content (bw_db bw1)) \<and> drains ops env clk now bw"
    with qs c show ?thesis by (intro exI [of _ qs] exI [of _ "[rs]"]) simp
  qed
qed

theorem submit_content:
  assumes "dwf (sp_files (bw_spool bw))"
  shows "\<exists>qs fresh. subseq qs (replay_files env bw) \<and> (fresh = [] \<or> fresh = [rs] \<and> drains ops env clk now (begin_submit bw)) \<and>
    content (bw_db (snd (submit ops env sz clk rs now bw))) =
      fold (\<lambda>b. commit b now) (map (batch_at (bw_spool bw)) qs @ fresh) (content (bw_db bw))"
proof -
  let ?bw = "begin_submit bw"
  have none: ?thesis if "bw_db (snd (submit ops env sz clk rs now bw)) = bw_db bw"
    using that by (intro exI [of _ "[]"]) simp
  have att: ?thesis
    if "bw_db (snd (submit ops env sz clk rs now bw)) = bw_db (snd (attempt ops env sz clk rs now ?bw))"
    using that attempt_content [of ?bw env rs clk now sz] assms by simp
  show ?thesis using submit_db none att by metis
qed

end

subsection \<open>Events of one call\<close>

definition event_key :: "nm_record \<Rightarrow> pyval \<times> pyval" where
  "event_key r = (rget (rrow r) ''ts'', rget (rrow r) ''event_type'')"

definition has_event :: "string \<Rightarrow> nm_record list \<Rightarrow> bool" where
  "has_event t es \<longleftrightarrow> (\<exists>r \<in> set es. rkind r = COLLECTION_EVENT \<and> rget (rrow r) ''event_type'' = VStr t)"

text \<open>
  The events this call has added to \<open>base\<close> have distinct keys, each stamped below the count of
  its type.
\<close>

definition events_ok :: "datetime \<Rightarrow> nm_record list \<Rightarrow> 'db buffered \<Rightarrow> bool" where
  "events_ok now base bw \<longleftrightarrow> (\<exists>es. bw_events bw = base @ es \<and> distinct (map event_key es) \<and>
     (\<forall>r \<in> set es. \<exists>t n. event_key r = (VTime (add_us now (int n)), VStr t) \<and>
        n < dget_or (bw_event_counts bw) t 0))"

lemma event_key_row [simp]: "event_key (Record k (event_row sys node ts t d)) = (VTime ts, VStr t)"
  by (simp add: event_key_def event_row_def rget_def dget_or_def)

lemma emit_events_ok [intro!]: "events_ok now base bw \<Longrightarrow> events_ok now base (emit now t d bw)"
proof -
  assume "events_ok now base bw"
  then obtain es where es: "bw_events bw = base @ es" "distinct (map event_key es)"
    "\<And>r. r \<in> set es \<Longrightarrow> \<exists>t n. event_key r = (VTime (add_us now (int n)), VStr t) \<and>
        n < dget_or (bw_event_counts bw) t 0"
    by (auto simp: events_ok_def)
  let ?n = "dget_or (bw_event_counts bw) t 0"
  let ?r = "Record COLLECTION_EVENT (event_row (bw_system bw) VNone (add_us now (int ?n)) t d)"
  have inj: "n = m" if "add_us now (int n) = add_us now (int m)" for n m
    using that by (simp add: add_us_def)
  have "event_key ?r \<notin> event_key ` set es" using es(3) by (fastforce dest: inj)
  moreover have "\<exists>t' n. event_key r = (VTime (add_us now (int n)), VStr t') \<and>
      n < dget_or (bw_event_counts (emit now t d bw)) t' 0" if "r \<in> set (es @ [?r])" for r
    using that es(3) [of r] by (fastforce simp: emit_def Let_def dget_or_def)
  moreover have "bw_events (emit now t d bw) = base @ es @ [?r]" using es(1) by (simp add: emit_def Let_def)
  ultimately show ?thesis using es(2) unfolding events_ok_def by (intro exI [of _ "es @ [?r]"]) auto
qed

lemma events_ok_frame [simp, bw_frame]:
  "events_ok now base (bw\<lparr>bw_spool := sp\<rparr>) = events_ok now base bw"
  "events_ok now base (bw\<lparr>bw_db := db\<rparr>) = events_ok now base bw"
  "events_ok now base (bw\<lparr>bw_skip := sk\<rparr>) = events_ok now base bw"
  "events_ok now base (bw\<lparr>bw_replay_failures := rf\<rparr>) = events_ok now base bw"
  "events_ok now base (bw\<lparr>bw_beyond := be\<rparr>) = events_ok now base bw"
  "events_ok now base (bw\<lparr>bw_connected := c\<rparr>) = events_ok now base bw"
  "events_ok now base (bw\<lparr>bw_next_retry := r\<rparr>) = events_ok now base bw"
  "events_ok now base (bw\<lparr>bw_delay := dl\<rparr>) = events_ok now base bw"
  "events_ok now base (bw\<lparr>bw_outage_since := os\<rparr>) = events_ok now base bw"
  "events_ok now base (bw\<lparr>bw_replayed_batches := rb\<rparr>) = events_ok now base bw"
  "events_ok now base (bw\<lparr>bw_replayed_records := rr\<rparr>) = events_ok now base bw"
  "events_ok now base (bw\<lparr>bw_superseded_batches := sb\<rparr>) = events_ok now base bw"
  by (simp_all add: events_ok_def)

lemma step_events_ok [intro!]:
  "events_ok now base bw \<Longrightarrow> events_ok now base (store env sz rs now bw)"
  "events_ok now base bw \<Longrightarrow> events_ok now base (skip_if_exists p bw)"
  "events_ok now base bw \<Longrightarrow> events_ok now base (drop_superseded env p bw)"
  "events_ok now base bw \<Longrightarrow> events_ok now base (quarantine_fresh env rs e now bw)"
  "events_ok now base bw \<Longrightarrow> events_ok now base (recover now bw)"
  "events_ok now base bw \<Longrightarrow> events_ok now base (beyond_event now bw)"
  by (auto simp: store_def skip_if_exists_def drop_superseded_def quarantine_fresh_def recover_def
      beyond_event_def Let_def split: prod.splits)

lemma replay_step_events_ok [intro!]:
  "events_ok now base bw \<Longrightarrow> events_ok now base (quarantine_spooled env p now d bw)"
  "events_ok now base bw \<Longrightarrow> events_ok now base (replayed env p batch b bw)"
  "events_ok now base bw \<Longrightarrow> events_ok now base (fail env sz e rs now bw)"
  by (auto simp: quarantine_spooled_def replayed_def fail_def Let_def step_events_ok(2))

lemma replay_loop_events_ok:
  "events_ok now base bw \<Longrightarrow> events_ok now base (snd (replay_loop ops env clk now spd i wrote ps bw))"
proof (induction ps arbitrary: i wrote bw)
  case Nil
  then show ?case by simp
next
  case (Cons p ps)
  then show ?case
    by (auto simp: Let_def intro!: Cons.IH
        split: prod.splits option.splits write_result.splits bool.splits)
qed

lemma attempt_events_ok:
  assumes "events_ok now base bw"
  shows "events_ok now base (snd (attempt ops env sz clk rs now bw))"
proof -
  obtain r bw1 where r: "replay ops env clk now bw = (r, bw1)" by force
  then have "events_ok now base bw1"
    using replay_loop_events_ok [OF assms, of ops env clk "superseded_files env bw" 0 False "replay_files env bw"]
    by (simp add: replay_def superseded_files_def Let_def)
  with r show ?thesis
    by (auto simp: attempt_def Let_def split: replay_result.splits prod.splits write_result.splits)
qed

lemma finish_events_ok:
  assumes "events_ok now base bw"
  shows "events_ok now base (finish now bw)"
proof -
  have "events_ok now base (foldl (\<lambda>bw (name, reason). emit now t (d name reason) bw) bw taken)"
    if "events_ok now base bw" for t d taken and bw :: "'a buffered"
    using that by (induction taken arbitrary: bw) auto
  from this [of "bw\<lparr>bw_spool := snd (take_quarantined (bw_spool bw))\<rparr>" "''spool_batch_quarantined''"
      "\<lambda>name reason. [(''file'', VStr name), (''error'', VStr reason)]" "fst (take_quarantined (bw_spool bw))"] assms
  show ?thesis by (auto simp: finish_def split: prod.splits)
qed

lemma submit_cases:
  assumes "submit ops env sz clk rs now bw = (res, bw')" and "dt_offset now \<noteq> None"
  obtains (backoff) retry where "bw_next_retry bw = Some retry" "instant now < instant retry"
      "bw' = finish now (store env sz rs now (begin_submit bw))" "res = Inr (bw_events bw')"
  | (attempted) err bw2 where "attempt ops env sz clk rs now (begin_submit bw) = (err, bw2)"
      "err = None" "bw' = finish now bw2" "res = Inr (bw_events bw')"
  | (raised) e bw2 where "attempt ops env sz clk rs now (begin_submit bw) = (Some e, bw2)"
      "bw' = (finish now bw2)\<lparr>bw_carried := bw_events (finish now bw2)\<rparr>" "res = Inl (OtherError e)"
proof -
  have n: "bw_next_retry (begin_submit bw) = bw_next_retry bw" by (simp add: begin_submit_def)
  obtain err bw2 where a: "attempt ops env sz clk rs now (begin_submit bw) = (err, bw2)" by force
  show thesis
  proof (cases "\<exists>retry. bw_next_retry bw = Some retry \<and> instant now < instant retry")
    case True
    then obtain retry where r: "bw_next_retry bw = Some retry" "instant now < instant retry" by blast
    with assms n show thesis by (intro backoff [OF r]) (auto simp: submit_def require_aware_def Let_def)
  next
    case False
    then have go: "submit ops env sz clk rs now bw =
      (case (err, bw2) of (None, bw) \<Rightarrow> (let bw = finish now bw in (Inr (bw_events bw), bw))
       | (Some e, bw) \<Rightarrow> (let bw = finish now bw in (Inl (OtherError e), bw\<lparr>bw_carried := bw_events bw\<rparr>)))"
      using assms(2) n a by (auto simp: submit_def require_aware_def Let_def split: option.splits)
    show thesis
    proof (cases err)
      case None
      with go assms(1) a show thesis by (intro attempted) (auto simp: Let_def)
    next
      case (Some e)
      with go assms(1) a show thesis by (intro raised) (auto simp: Let_def)
    qed
  qed
qed

subsection \<open>A batch is never lost silently\<close>

definition in_spool :: "nm_record list \<Rightarrow> 'db buffered \<Rightarrow> bool" where
  "in_spool rs bw \<longleftrightarrow> (\<exists>n. dget (sp_files (bw_spool bw)) n = Some (batch_lines rs))"

definition in_corrupt :: "nm_record list \<Rightarrow> 'db buffered \<Rightarrow> bool" where
  "in_corrupt rs bw \<longleftrightarrow> (\<exists>n. dget (sp_corrupt (bw_spool bw)) n = Some (batch_lines rs))"

lemma emit_has_event [simp]: "has_event t (bw_events (emit now t d bw))"
  by (simp add: has_event_def emit_def Let_def event_row_def rget_def dget_or_def)

lemma has_event_mono: "has_event t es \<Longrightarrow> set es \<subseteq> set es' \<Longrightarrow> has_event t es'"
  by (auto simp: has_event_def)

lemma write_attempts_stored:
  "sr_stored (fst (write_attempts env ls live k m br sp)) \<Longrightarrow>
   \<exists>n. dget (sp_files (snd (write_attempts env ls live k m br sp))) n = Some ls"
  by (induction env ls live k m br sp rule: write_attempts.induct)
    (auto simp: result_failed_def Let_def split: write_outcome.splits prod.splits option.splits if_splits)

lemma append_stored:
  "append_batch env sz sp rs = (res, sp') \<Longrightarrow> sr_stored res \<Longrightarrow> rs \<noteq> [] \<Longrightarrow>
   \<exists>n. dget (sp_files sp') n = Some (batch_lines rs)"
  using write_attempts_stored [of env "batch_lines rs" "live_only_batch rs" 1 2]
  by (auto simp: append_batch_def result_failed_def Let_def split: if_splits prod.splits option.splits)
    (metis fst_conv snd_conv)+

lemma store_accounted:
  "rs \<noteq> [] \<Longrightarrow> in_spool rs (store env sz rs now bw) \<or>
     has_event ''spool_write_failed'' (bw_events (store env sz rs now bw))"
  by (auto simp: store_def in_spool_def Let_def split: prod.splits dest: append_stored)

lemma fail_accounted:
  "rs \<noteq> [] \<Longrightarrow> in_spool rs (fail env sz e rs now bw) \<or>
     has_event ''spool_write_failed'' (bw_events (fail env sz e rs now bw))"
  unfolding fail_def Let_def by (rule store_accounted)

definition corrupt_usable :: "fs_env \<Rightarrow> bool" where
  "corrupt_usable env \<longleftrightarrow> fs_corrupt_ok env \<and> fs_write env 1 = WriteOk"

lemma quarantine_fresh_accounted:
  assumes "rs \<noteq> []"
  shows "has_event ''spool_batch_quarantined'' (bw_events (quarantine_fresh env rs e now bw)) \<and>
    (live_only_batch rs \<or> \<not> corrupt_usable env \<or> in_corrupt rs (quarantine_fresh env rs e now bw))"
  using assms by (auto simp: quarantine_fresh_def quarantine_records_def in_corrupt_def corrupt_usable_def
      live_only_batch_def Let_def split: prod.splits write_outcome.splits)

lemma attempt_accounted:
  assumes "attempt ops env sz clk rs now bw = (err, bw')" and "rs \<noteq> []"
  shows "case err of
      None \<Rightarrow> (\<exists>db b. w_write ops db rs now = (Wrote b, bw_db bw')) \<or> in_spool rs bw' \<or>
        has_event ''spool_write_failed'' (bw_events bw')
    | Some e \<Rightarrow> has_event ''spool_batch_quarantined'' (bw_events bw') \<and>
        (live_only_batch rs \<or> \<not> corrupt_usable env \<or> in_corrupt rs bw')"
  using assms(1) fail_accounted [OF assms(2)] store_accounted [OF assms(2)]
    quarantine_fresh_accounted [OF assms(2)] assms(2)
  by (auto simp: attempt_def Let_def split: replay_result.splits prod.splits write_result.splits if_splits) blast+

lemma beyond_event_frame [simp]: "bw_spool (beyond_event now bw) = bw_spool bw"
  by (simp add: beyond_event_def)

lemma finish_keeps:
  "in_spool rs (finish now bw) = in_spool rs bw" "in_corrupt rs (finish now bw) = in_corrupt rs bw"
  "has_event t (bw_events bw) \<Longrightarrow> has_event t (bw_events (finish now bw))"
proof -
  obtain n where n: "finish now bw = beyond_event now n" "bw_spool n = snd (take_quarantined (bw_spool bw))"
    "set (bw_events bw) \<subseteq> set (bw_events n)"
    using finish_fold [of now bw] by blast
  then show "in_spool rs (finish now bw) = in_spool rs bw" "in_corrupt rs (finish now bw) = in_corrupt rs bw"
    by (simp_all add: in_spool_def in_corrupt_def take_quarantined_def)
  have "set (bw_events n) \<subseteq> set (bw_events (beyond_event now n))"
    by (simp add: beyond_event_def emit_events)
  with n show "has_event t (bw_events bw) \<Longrightarrow> has_event t (bw_events (finish now bw))"
    by (auto intro: has_event_mono)
qed

lemma events_start: "events_ok now (bw_carried bw) (begin_submit bw)"
  by (simp add: events_ok_def begin_submit_def)

subsection \<open>Properties\<close>

text \<open>
  For the witnesses: a database that answers each write with the next entry of a script, and
  answers every ping.
\<close>

definition ex_ops :: "write_result list writer_ops" where
  "ex_ops = \<lparr>w_write = (\<lambda>db rs now. case db of [] \<Rightarrow> (Wrote [], []) | r # db \<Rightarrow> (r, db)), w_ping = (\<lambda>db. (True, db))\<rparr>"

definition ex_now :: datetime where "ex_now = utc 1000000"

definition ex_bw :: "write_result list \<Rightarrow> write_result list buffered" where
  "ex_bw script = new_buffered script ex_spool ''polaris'' (5, 300) 3 20"

text \<open>
  Every call of \<open>submit\<close>, whatever the database and the file system do, keeps the outage
  state consistent: a retry delay exists exactly during an outage, it lies between the smaller of
  the two backoff bounds and the ceiling, and a retry time is set only during an outage.
\<close>

theorem submit_keeps_outage_inv:
  "outage_inv bw \<Longrightarrow> outage_inv (snd (submit ops env sz clk rs now bw))"
  by (rule submit_outage_inv)

theorem submit_keeps_outage_inv_witness:
  "outage_inv (ex_bw [Unavailable ''down'']) \<and>
   outage_inv (snd (submit ex_ops ex_env (\<lambda>_. 10) (\<lambda>_. 0) ex_batch ex_now (ex_bw [Unavailable ''down''])))"
proof -
  have "outage_inv (ex_bw [Unavailable ''down''])"
    by (simp add: ex_bw_def new_buffered_def outage_inv_def outage_state_def outage_ok_def)
  with submit_keeps_outage_inv show ?thesis by blast
qed

text \<open>
  Before the retry time of an outage, \<open>submit\<close> does not touch the database: it stores the
  batch in the spool, leaves the outage state as it is, and returns normally.
\<close>

theorem submit_backs_off:
  assumes "dt_offset now \<noteq> None" and "bw_next_retry bw = Some retry" and "instant now < instant retry"
    and "submit ops env sz clk rs now bw = (res, bw')"
  shows "res = Inr (bw_events bw') \<and> bw_db bw' = bw_db bw \<and> outage_state bw' = outage_state bw \<and>
    sp_files (bw_spool bw') = sp_files (snd (append_batch env sz (bw_spool bw) rs))"
proof -
  have n: "bw_next_retry (begin_submit bw) = bw_next_retry bw" by (simp add: begin_submit_def)
  from assms n have s: "bw' = finish now (store env sz rs now (begin_submit bw))" "res = Inr (bw_events bw')"
    by (auto simp: submit_def require_aware_def Let_def)
  have "sp_files (bw_spool (finish now b)) = sp_files (bw_spool b)" for b :: "'a buffered"
    using finish_fold [of now b] by (auto simp: take_quarantined_def)
  with s show ?thesis
    by (auto simp: begin_submit_outage_state store_def append_batch_def Let_def split: prod.splits)
qed

theorem submit_backs_off_witness:
  "case submit ex_ops ex_env (\<lambda>_. 10) (\<lambda>_. 0) ex_batch ex_now ((ex_bw [])\<lparr>bw_next_retry := Some (utc 2000000)\<rparr>) of
     (res, bw') \<Rightarrow> bw_db bw' = [] \<and> sp_files (bw_spool bw') = sp_files (snd (append_batch ex_env (\<lambda>_. 10) ex_spool ex_batch))"
proof -
  let ?bw = "(ex_bw [])\<lparr>bw_next_retry := Some (utc 2000000)\<rparr>"
  obtain res bw' where s: "submit ex_ops ex_env (\<lambda>_. 10) (\<lambda>_. 0) ex_batch ex_now ?bw = (res, bw')" by force
  from submit_backs_off [OF _ _ _ s, of "utc 2000000"] have
    "bw_db bw' = bw_db ?bw \<and> sp_files (bw_spool bw') = sp_files (snd (append_batch ex_env (\<lambda>_. 10) (bw_spool ?bw) ex_batch))"
    by (simp add: ex_now_def utc_def instant_def)
  with s show ?thesis by (simp add: ex_bw_def new_buffered_def)
qed

lemma submit_accounted:
  assumes "rs \<noteq> []" and "dt_offset now \<noteq> None" and "submit ops env sz clk rs now bw = (res, bw')"
  shows "case res of
      Inr es \<Rightarrow> (\<exists>db b. w_write ops db rs now = (Wrote b, bw_db bw')) \<or> in_spool rs bw' \<or>
        has_event ''spool_write_failed'' es
    | Inl e \<Rightarrow> has_event ''spool_batch_quarantined'' (bw_carried bw') \<and>
        (live_only_batch rs \<or> \<not> corrupt_usable env \<or> in_corrupt rs bw')"
  using assms(3,2)
proof (cases rule: submit_cases)
  case (backoff retry)
  then show ?thesis
    using store_accounted [OF assms(1), of env sz now "begin_submit bw"]
    by (auto simp: finish_keeps(1,2) intro: finish_keeps(3))
next
  case (attempted err bw2)
  then show ?thesis using attempt_accounted [OF attempted(1) assms(1)]
    by (auto simp: finish_keeps(1,2) intro: finish_keeps(3))
next
  case (raised e bw2)
  have "in_corrupt rs (bw\<lparr>bw_carried := c\<rparr>) = in_corrupt rs bw" for c and bw :: "'a buffered"
    by (simp add: in_corrupt_def)
  with raised show ?thesis using attempt_accounted [OF raised(1) assms(1)]
    by (auto simp: finish_keeps(1,2) intro: finish_keeps(3))
qed

text \<open>
  C4.  A submitted batch is never lost silently.  When \<open>submit\<close> returns, the database is in the
  state a successful write of the batch produced, or the batch is a file of the spool, or the
  returned events say that spooling it failed.  When \<open>submit\<close> raises, the events carried to the
  next call say that the batch was quarantined, and it is in \<open>corrupt/\<close> unless it holds live rows
  only or \<open>corrupt/\<close> cannot be written.
\<close>

theorem submit_accounts_for_batch:
  assumes "rs \<noteq> []" and "dt_offset now \<noteq> None" and "submit ops env sz clk rs now bw = (res, bw')"
  shows "case res of
      Inr es \<Rightarrow> (\<exists>db b. w_write ops db rs now = (Wrote b, bw_db bw')) \<or> in_spool rs bw' \<or>
        has_event ''spool_write_failed'' es
    | Inl e \<Rightarrow> has_event ''spool_batch_quarantined'' (bw_carried bw') \<and>
        (live_only_batch rs \<or> \<not> corrupt_usable env \<or> in_corrupt rs bw')"
  using assms by (rule submit_accounted)

theorem submit_accounts_for_batch_witness:
  "case submit ex_ops ex_env (\<lambda>_. 10) (\<lambda>_. 0) ex_batch ex_now (ex_bw [Unavailable ''down'']) of
     (Inr es, bw') \<Rightarrow> (\<exists>db b. w_write ex_ops db ex_batch ex_now = (Wrote b, bw_db bw')) \<or>
        in_spool ex_batch bw' \<or> has_event ''spool_write_failed'' es
   | (Inl e, bw') \<Rightarrow> has_event ''spool_batch_quarantined'' (bw_carried bw')"
proof -
  obtain res bw' where "submit ex_ops ex_env (\<lambda>_. 10) (\<lambda>_. 0) ex_batch ex_now (ex_bw [Unavailable ''down'']) = (res, bw')"
    by force
  with submit_accounts_for_batch [OF _ _ this] show ?thesis
    by (auto simp: ex_batch_def ex_now_def utc_def split: sum.splits)
qed

text \<open>
  The events of one \<open>submit\<close> follow those carried over from a call that raised, and no two
  of them share time and type: the natural key of the events table keeps them all.
\<close>

theorem submit_events_distinct:
  assumes "dt_offset now \<noteq> None" and "submit ops env sz clk rs now bw = (res, bw')"
  shows "\<exists>es. (case res of Inr out \<Rightarrow> out | Inl _ \<Rightarrow> bw_carried bw') = bw_carried bw @ es \<and>
    distinct (map event_key es)"
proof -
  have ok: "events_ok now (bw_carried bw) (finish now (snd (attempt ops env sz clk rs now (begin_submit bw))))"
    "events_ok now (bw_carried bw) (finish now (store env sz rs now (begin_submit bw)))"
    by (intro finish_events_ok attempt_events_ok step_events_ok events_start)+
  from assms(2,1) show ?thesis
  proof (cases rule: submit_cases)
    case (backoff retry)
    with ok(2) show ?thesis by (auto simp: events_ok_def)
  next
    case (attempted err bw2)
    with ok(1) show ?thesis by (auto simp: events_ok_def)
  next
    case (raised e bw2)
    with ok(1) show ?thesis by (auto simp: events_ok_def)
  qed
qed

theorem submit_events_distinct_witness:
  "\<exists>es. (case submit ex_ops ex_env (\<lambda>_. 10) (\<lambda>_. 0) ex_batch ex_now (ex_bw [Unavailable ''down'']) of
      (Inr out, _) \<Rightarrow> out | (Inl _, bw') \<Rightarrow> bw_carried bw') = es \<and> distinct (map event_key es)"
proof -
  obtain res bw' where s: "submit ex_ops ex_env (\<lambda>_. 10) (\<lambda>_. 0) ex_batch ex_now (ex_bw [Unavailable ''down'']) = (res, bw')"
    by force
  from submit_events_distinct [OF _ s] show ?thesis
    using s by (auto simp: ex_now_def utc_def ex_bw_def new_buffered_def split: sum.splits)
qed

end
