(* ===== verification/Writer.thy ===== *)
theory Writer
  imports Schema Maintenance Buffered "HOL-Library.Product_Lexorder"
begin

text \<open>
  \<open>DatabaseWriter\<close> (\<open>database/writer.py\<close>) and the classification of database errors
  (\<open>database/connect.py\<close>).

  The server is state: its tables, its partitions, and a script of faults, one entry consumed by
  each interaction (opening a connection, one transaction).  Which rows the server accepts (column
  types, \<open>NOT NULL\<close>) is the argument \<open>dc_accepts\<close>.  A transaction that fails leaves the tables
  alone; \<open>LostAck\<close> is a commit whose acknowledgement never reached the client.
\<close>

subsection \<open>Errors of the database\<close>

datatype db_exn =
    DatabaseUnavailableExn string
  | PgError (pg_operational: bool) (pg_sqlstate: "string option") (pg_text: string)
  | PyExn py_error

fun is_unavailable :: "db_exn \<Rightarrow> bool" where
  "is_unavailable (DatabaseUnavailableExn _) = True"
| "is_unavailable (PyExn _) = False"
| "is_unavailable (PgError operational state _) =
     (if state = Some ''25006'' then True
      else if \<not> operational then False
      else (let s = (case state of None \<Rightarrow> [] | Some s \<Rightarrow> s) in
        \<not> (startswith s ''54'' \<or> s = ''57014'')))"

definition lost_connection :: db_exn where
  "lost_connection = PgError True None ''server closed the connection unexpectedly''"

definition lock_timeout_exn :: db_exn where
  "lock_timeout_exn = PgError True (Some ''55P03'') ''canceling statement due to lock timeout''"

definition missing_partition_exn :: db_exn where
  "missing_partition_exn = PgError False (Some ''23514'') ''no partition of relation''"

subsection \<open>Tables\<close>

text \<open>
  A stored timestamp is its instant; comparing with \<open>NULL\<close> is never true.
\<close>

type_synonym sqlrow = "(string, dbval) dict"

fun stored_value :: "dbval \<Rightarrow> dbval" where
  "stored_value (Plain (VTime t)) = Plain (VTime (utc (instant t)))"
| "stored_value v = v"

fun sql_key :: "dbval \<Rightarrow> int option" where
  "sql_key (Plain (VTime t)) = Some (instant t)"
| "sql_key (Plain (VInt n)) = Some n"
| "sql_key _ = None"

definition sql_le :: "dbval \<Rightarrow> dbval \<Rightarrow> bool" where
  "sql_le a b = (case (sql_key a, sql_key b) of (Some x, Some y) \<Rightarrow> x \<le> y | _ \<Rightarrow> False)"

definition col :: "sqlrow \<Rightarrow> string \<Rightarrow> dbval" where
  "col r c = dget_or r c (Plain VNone)"

definition key_of :: "string list \<Rightarrow> sqlrow \<Rightarrow> dbval list" where
  "key_of key r = map (col r) key"

record node_entry =
  ne_label :: dbval
  ne_first_seen :: dbval
  ne_last_seen :: dbval
  ne_boot_id :: dbval

record tables =
  tb_summaries :: "string \<times> dbval list \<Rightarrow> sqlrow option"
  tb_events :: "dbval list \<Rightarrow> dbval option"
  tb_hardware :: "dbval list \<Rightarrow> sqlrow option"
  tb_nodes :: "dbval list \<Rightarrow> node_entry option"
  tb_live_nodes :: "dbval list \<Rightarrow> (string \<Rightarrow> dbval) option"
  tb_snapshots :: "dbval list \<Rightarrow> dbval option"
  tb_processes :: "dbval list \<Rightarrow> sqlrow list"

definition empty_tables :: tables where
  "empty_tables = \<lparr>tb_summaries = (\<lambda>_. None), tb_events = (\<lambda>_. None), tb_hardware = (\<lambda>_. None),
     tb_nodes = (\<lambda>_. None), tb_live_nodes = (\<lambda>_. None), tb_snapshots = (\<lambda>_. None), tb_processes = (\<lambda>_. [])\<rparr>"

definition IDENTITY :: "string list" where "IDENTITY = [''system'', ''node'']"

definition TABLE :: "(string, string) dict" where
  "TABLE = [(LIVE_PROCESSES, ''live_processes''), (LIVE_NODE, ''live_nodes''), (NODE_HARDWARE, ''node_hardware''),
     (NODE_METRICS_1M, ''node_metrics_1m''), (USER_USAGE_5M, ''user_usage_5m''),
     (NODE_USAGE_5M, ''node_usage_5m''), (COLLECTION_EVENT, ''collection_events'')]"

definition SUMMARIES :: "(string, string list \<times> string list) dict" where
  "SUMMARIES =
     [(''node_metrics_1m'', (NODE_METRICS_COLUMNS, [''system'', ''node'', ''minute''])),
      (''user_usage_5m'', (USER_USAGE_COLUMNS, [''system'', ''node'', ''username'', ''interval_start''])),
      (''node_usage_5m'', (NODE_USAGE_COLUMNS, [''system'', ''node'', ''interval_start'']))]"

definition LIVE_NODE_COLUMNS :: "string list" where
  "LIVE_NODE_COLUMNS = [''label'', ''updated_at'', ''session_state'', ''boot_id'', ''probe_version'', ''load1'',
     ''mem_used_kb'', ''mem_total_kb'', ''procs_total'', ''last_census_at'']"

definition LIVE_NODE_REQUIRED :: "string list" where
  "LIVE_NODE_REQUIRED = [''updated_at'', ''session_state'']"

definition HARDWARE_COLUMNS :: "string list" where
  "HARDWARE_COLUMNS = [''boot_id'', ''btime'', ''collected_at'', ''probe_version'', ''python_version'',
     ''hostname_fqdn'', ''cpu_model'', ''cpu_logical'', ''sockets'', ''cores_per_socket'',
     ''cpu_max_freq_khz'', ''numa_nodes'', ''mem_total_kb'', ''swap_total_kb'', ''hugepage_size_kb'',
     ''kernel_release'', ''os_pretty_name'', ''net_fs_mounts'', ''net_ifaces'', ''gpus'']"

definition UNKNOWN_BOOT_ID :: string where "UNKNOWN_BOOT_ID = ''unknown''"

definition EVENT_COLUMNS :: "string list" where
  "EVENT_COLUMNS = [''ts'', ''system'', ''node'', ''event_type'', ''detail'']"

text \<open>The row an \<open>INSERT\<close> of \<open>params\<close> into \<open>columns\<close> forms.\<close>

definition sql_row :: "string list \<Rightarrow> dbval list \<Rightarrow> sqlrow" where
  "sql_row columns params = zip columns (map stored_value params)"

subsection \<open>Statements\<close>

text \<open>
  What \<open>INSERT ... ON CONFLICT\<close> does to the entry stored under the row's key.

  \<^item> summaries: replaced when \<open>EXCLUDED.sample_count >= sample_count\<close>;
  \<^item> events and hardware: \<open>DO NOTHING\<close>;
  \<^item> live nodes: the columns given are set when \<open>updated_at <= EXCLUDED.updated_at\<close>;
  \<^item> snapshots: replaced when \<open>ts <= EXCLUDED.ts\<close>;
  \<^item> nodes: label and boot id follow the newest record.
\<close>

definition summary_upsert :: "sqlrow \<Rightarrow> sqlrow option \<Rightarrow> sqlrow option" where
  "summary_upsert r s = (case s of None \<Rightarrow> Some r
     | Some old \<Rightarrow> if sql_le (col old ''sample_count'') (col r ''sample_count'') then Some r else Some old)"

definition insert_once :: "'r \<Rightarrow> 'r option \<Rightarrow> 'r option" where
  "insert_once r s = (case s of None \<Rightarrow> Some r | Some old \<Rightarrow> Some old)"

definition live_node_upsert :: "sqlrow \<Rightarrow> (string \<Rightarrow> dbval) option \<Rightarrow> (string \<Rightarrow> dbval) option" where
  "live_node_upsert r s = (case s of None \<Rightarrow> Some (col r)
     | Some old \<Rightarrow>
         if sql_le (old ''updated_at'') (col r ''updated_at'')
         then Some (\<lambda>c. if c \<in> set (dkeys r) then col r c else old c) else Some old)"

definition snapshot_upsert :: "dbval \<Rightarrow> dbval option \<Rightarrow> dbval option" where
  "snapshot_upsert ts s = (case s of None \<Rightarrow> Some ts
     | Some old \<Rightarrow> if sql_le old ts then Some ts else Some old)"

record node_params =
  np_system :: dbval
  np_node :: dbval
  np_label :: dbval
  np_has_label :: bool
  np_seen :: dbval
  np_boot_id :: dbval

definition node_upsert :: "node_params \<Rightarrow> node_entry option \<Rightarrow> node_entry option" where
  "node_upsert p s = (case s of
       None \<Rightarrow> Some \<lparr>ne_label = np_label p, ne_first_seen = np_seen p, ne_last_seen = np_seen p, ne_boot_id = np_boot_id p\<rparr>
     | Some n \<Rightarrow> Some
         \<lparr>ne_label = (if np_has_label p \<and> sql_le (ne_last_seen n) (np_seen p) then np_label p else ne_label n),
          ne_first_seen = (if sql_le (np_seen p) (ne_first_seen n) then np_seen p else ne_first_seen n),
          ne_last_seen = (if sql_le (ne_last_seen n) (np_seen p) then np_seen p else ne_last_seen n),
          ne_boot_id = (if np_boot_id p \<noteq> Plain VNone \<and> sql_le (ne_last_seen n) (np_seen p)
                        then np_boot_id p else ne_boot_id n)\<rparr>)"

definition upsert :: "('r \<Rightarrow> 'v \<Rightarrow> 'v) \<Rightarrow> 'k \<times> 'r \<Rightarrow> ('k \<Rightarrow> 'v) \<Rightarrow> 'k \<Rightarrow> 'v" where
  "upsert f kr m = m(fst kr := f (snd kr) (m (fst kr)))"

text \<open>Rows affected by such a statement: none when the \<open>WHERE\<close> clause or \<open>DO NOTHING\<close> skipped it.\<close>

definition touched :: "bool \<Rightarrow> nat" where
  "touched b = (if b then 1 else 0)"

subsection \<open>Preparing a batch\<close>

record plan =
  pl_snapshots :: "(pyval \<times> pyval, row) dict"
  pl_live_nodes :: "row list"
  pl_hardware :: "row list"
  pl_summaries :: "(string, dbval list list) dict"
  pl_events :: "dbval list list"
  pl_months :: "(string \<times> string, datetime) dict"
  pl_beyond :: "(string, nat) dict"

definition empty_plan :: plan where
  "empty_plan = \<lparr>pl_snapshots = [], pl_live_nodes = [], pl_hardware = [], pl_summaries = [], pl_events = [],
     pl_months = [], pl_beyond = []\<rparr>"

definition type_error :: py_error where "type_error = OtherError ''TypeError''"

text \<open>\<open>row["ts"] >= current["ts"]\<close>\<close>

fun py_ge :: "pyval \<Rightarrow> pyval \<Rightarrow> bool res" where
  "py_ge (VTime a) (VTime b) =
     (if (dt_offset a = None) \<noteq> (dt_offset b = None) then Inl type_error else Inr (instant b \<le> instant a))"
| "py_ge (VInt a) (VInt b) = Inr (b \<le> a)"
| "py_ge _ _ = Inl type_error"

definition aware_time :: "pyval \<Rightarrow> datetime res" where
  "aware_time v = (case v of VTime t \<Rightarrow> require_aware t | _ \<Rightarrow> Inl type_error)"

text \<open>
  The part of \<open>_plan\<close> for the partitioned tables: \<open>None\<close> when the row is beyond retention, which
  counts it; otherwise its month is noted.
\<close>

definition plan_partition :: "retention \<Rightarrow> datetime \<Rightarrow> string \<Rightarrow> string \<Rightarrow> row \<Rightarrow> plan \<Rightarrow> (bool \<times> plan) res" where
  "plan_partition ret now kind table row pl =
     (case (dget PARTITIONED table, dget PARTITION_KEY table) of
        (Some days, Some column) \<Rightarrow>
          (if rget row column = VNone then Inl (ValueError (kind @ '' record without '' @ column))
           else
             (case aware_time (rget row column) of
                Inl e \<Rightarrow> Inl e
              | Inr ts \<Rightarrow>
                  if instant ts < instant (cutoff now (days ret))
                  then Inr (False, pl\<lparr>pl_beyond := dset (pl_beyond pl) table (dget_or (pl_beyond pl) table 0 + 1)\<rparr>)
                  else
                    (case partition_name table ts of
                       Inl e \<Rightarrow> Inl e
                     | Inr name \<Rightarrow> Inr (True, pl\<lparr>pl_months := dsetdefault (pl_months pl) (table, name) ts\<rparr>))))
      | _ \<Rightarrow> Inr (True, pl))"

definition plan_snapshot :: "row \<Rightarrow> plan \<Rightarrow> plan res" where
  "plan_snapshot row pl =
     (case (rindex row ''system'', rindex row ''node'') of
        (Inr sys, Inr node) \<Rightarrow>
          (case dget (pl_snapshots pl) (sys, node) of
             None \<Rightarrow> Inr (pl\<lparr>pl_snapshots := dset (pl_snapshots pl) (sys, node) row\<rparr>)
           | Some current \<Rightarrow>
               (case (rindex row ''ts'', rindex current ''ts'') of
                  (Inr a, Inr b) \<Rightarrow>
                    (case py_ge a b of
                       Inl e \<Rightarrow> Inl e
                     | Inr newer \<Rightarrow>
                         Inr (if newer then pl\<lparr>pl_snapshots := dset (pl_snapshots pl) (sys, node) row\<rparr> else pl))
                | (Inl e, _) \<Rightarrow> Inl e
                | (_, Inl e) \<Rightarrow> Inl e))
      | (Inl e, _) \<Rightarrow> Inl e
      | (_, Inl e) \<Rightarrow> Inl e)"

definition plan_live_node :: "row \<Rightarrow> plan \<Rightarrow> plan res" where
  "plan_live_node row pl =
     (case filter (\<lambda>c. rget row c = VNone) LIVE_NODE_REQUIRED of
        c # _ \<Rightarrow> Inl (ValueError (''live_node record without '' @ c))
      | [] \<Rightarrow> Inr (pl\<lparr>pl_live_nodes := pl_live_nodes pl @ [row]\<rparr>))"

definition event_detail :: "row \<Rightarrow> dbval" where
  "event_detail row = to_db_value (if rget row ''detail'' = VNone then VDict [] else rget row ''detail'')"

definition event_params :: "row \<Rightarrow> dbval list res" where
  "event_params row =
     (case (rindex row ''ts'', rindex row ''system'', rindex row ''event_type'') of
        (Inr ts, Inr sys, Inr typ) \<Rightarrow> Inr [Plain ts, Plain sys, Plain (rget row ''node''), Plain typ, event_detail row]
      | (Inl e, _, _) \<Rightarrow> Inl e
      | (_, Inl e, _) \<Rightarrow> Inl e
      | (_, _, Inl e) \<Rightarrow> Inl e)"

definition summary_params :: "string \<Rightarrow> row \<Rightarrow> dbval list" where
  "summary_params table row =
     map (\<lambda>c. to_db_value (rget row c)) (IDENTITY @ fst (dget_or SUMMARIES table ([], [])))"

definition plan_row :: "string \<Rightarrow> string \<Rightarrow> row \<Rightarrow> plan \<Rightarrow> plan res" where
  "plan_row kind table row pl =
     (if kind = LIVE_PROCESSES then plan_snapshot row pl
      else if kind = LIVE_NODE then plan_live_node row pl
      else if kind = NODE_HARDWARE then Inr (pl\<lparr>pl_hardware := pl_hardware pl @ [row]\<rparr>)
      else if kind = COLLECTION_EVENT then
        (case event_params row of Inl e \<Rightarrow> Inl e | Inr ps \<Rightarrow> Inr (pl\<lparr>pl_events := pl_events pl @ [ps]\<rparr>))
      else
        Inr (pl\<lparr>pl_summaries := dset (pl_summaries pl) table
               (dget_or (pl_summaries pl) table [] @ [summary_params table row])\<rparr>))"

fun plan_loop :: "retention \<Rightarrow> datetime \<Rightarrow> nm_record list \<Rightarrow> plan \<Rightarrow> plan res" where
  "plan_loop ret now [] pl = Inr pl"
| "plan_loop ret now (rec # recs) pl =
     (case dget TABLE (rkind rec) of
        None \<Rightarrow> Inl (KeyError (rkind rec))
      | Some table \<Rightarrow>
          (case plan_partition ret now (rkind rec) table (rrow rec) pl of
             Inl e \<Rightarrow> Inl e
           | Inr (False, pl) \<Rightarrow> plan_loop ret now recs pl
           | Inr (True, pl) \<Rightarrow>
               (case plan_row (rkind rec) table (rrow rec) pl of
                  Inl e \<Rightarrow> Inl e
                | Inr pl \<Rightarrow> plan_loop ret now recs pl)))"

definition make_plan :: "retention \<Rightarrow> nm_record list \<Rightarrow> datetime \<Rightarrow> plan res" where
  "make_plan ret recs now =
     (case require_aware now of
        Inl e \<Rightarrow> Inl e
      | Inr now \<Rightarrow>
          (case filter (\<lambda>r. rkind r \<notin> set (dkeys TABLE)) recs of
             r # _ \<Rightarrow> Inl (ValueError (''unknown record kind '' @ rkind r))
           | [] \<Rightarrow> plan_loop ret now recs empty_plan))"

subsection \<open>Applying a plan in one transaction\<close>

type_synonym accepts = "string \<Rightarrow> sqlrow \<Rightarrow> bool"

definition row_rejected :: "string \<Rightarrow> db_exn" where
  "row_rejected table = PgError False (Some ''23502'') (''row rejected by '' @ table)"

definition in_partition :: "catalog \<Rightarrow> string \<Rightarrow> sqlrow \<Rightarrow> bool" where
  "in_partition cat table r =
     (case dget PARTITION_KEY table of
        None \<Rightarrow> True
      | Some column \<Rightarrow>
          (case col r column of
             Plain (VTime t) \<Rightarrow> (case partition_name table t of Inl _ \<Rightarrow> False | Inr name \<Rightarrow> (table, name) \<in> set cat)
           | _ \<Rightarrow> False))"

text \<open>What the server checks before it stores the row \<open>r\<close>.\<close>

definition server_check :: "accepts \<Rightarrow> catalog \<Rightarrow> string \<Rightarrow> sqlrow \<Rightarrow> db_exn option" where
  "server_check acc cat table r =
     (if \<not> acc table r then Some (row_rejected table)
      else if \<not> in_partition cat table r then Some missing_partition_exn else None)"

definition summary_row :: "string \<Rightarrow> dbval list \<Rightarrow> sqlrow" where
  "summary_row table params = sql_row (IDENTITY @ fst (dget_or SUMMARIES table ([], []))) params"

definition summary_key :: "string \<Rightarrow> sqlrow \<Rightarrow> string \<times> dbval list" where
  "summary_key table r = (table, key_of (snd (dget_or SUMMARIES table ([], []))) r)"

definition exec_summary :: "accepts \<Rightarrow> catalog \<Rightarrow> string \<Rightarrow> dbval list \<Rightarrow> tables \<Rightarrow> db_exn + tables \<times> nat" where
  "exec_summary acc cat table params t =
     (let r = summary_row table params; k = summary_key table r in
      case server_check acc cat table r of
        Some e \<Rightarrow> Inl e
      | None \<Rightarrow> Inr (t\<lparr>tb_summaries := upsert summary_upsert (k, r) (tb_summaries t)\<rparr>,
          touched (case tb_summaries t k of None \<Rightarrow> True
            | Some old \<Rightarrow> sql_le (col old ''sample_count'') (col r ''sample_count''))))"

definition event_sql_key :: "sqlrow \<Rightarrow> dbval list" where
  "event_sql_key r = key_of [''system'', ''node'', ''ts'', ''event_type''] r"

definition exec_event :: "accepts \<Rightarrow> catalog \<Rightarrow> dbval list \<Rightarrow> tables \<Rightarrow> db_exn + tables \<times> nat" where
  "exec_event acc cat params t =
     (let r = sql_row EVENT_COLUMNS params; k = event_sql_key r in
      case server_check acc cat ''collection_events'' r of
        Some e \<Rightarrow> Inl e
      | None \<Rightarrow> Inr (t\<lparr>tb_events := upsert insert_once (k, col r ''detail'') (tb_events t)\<rparr>, touched (tb_events t k = None)))"

definition node_params_of :: "row \<Rightarrow> string \<Rightarrow> bool \<Rightarrow> node_params res" where
  "node_params_of row seen label_present =
     (case (rindex row ''system'', rindex row ''node'', rindex row seen) of
        (Inr sys, Inr node, Inr seen_at) \<Rightarrow>
          Inr \<lparr>np_system = Plain sys, np_node = Plain node, np_label = Plain (rget row ''label''),
               np_has_label = label_present, np_seen = stored_value (Plain seen_at), np_boot_id = Plain (rget row ''boot_id'')\<rparr>
      | (Inl e, _, _) \<Rightarrow> Inl e
      | (_, Inl e, _) \<Rightarrow> Inl e
      | (_, _, Inl e) \<Rightarrow> Inl e)"

definition node_sql_row :: "node_params \<Rightarrow> sqlrow" where
  "node_sql_row p = [(''system'', np_system p), (''node'', np_node p), (''label'', np_label p),
     (''first_seen'', np_seen p), (''last_seen'', np_seen p), (''boot_id'', np_boot_id p)]"

definition exec_node :: "accepts \<Rightarrow> row \<Rightarrow> string \<Rightarrow> bool \<Rightarrow> tables \<Rightarrow> db_exn + tables" where
  "exec_node acc row seen label_present t =
     (case node_params_of row seen label_present of
        Inl e \<Rightarrow> Inl (PyExn e)
      | Inr p \<Rightarrow>
          if \<not> acc ''nodes'' (node_sql_row p) then Inl (row_rejected ''nodes'')
          else Inr (t\<lparr>tb_nodes := upsert node_upsert ([np_system p, np_node p], p) (tb_nodes t)\<rparr>))"

definition hardware_row :: "row \<Rightarrow> sqlrow" where
  "hardware_row row =
     (let values = (if rget row ''boot_id'' = VNone then dset row ''boot_id'' (VStr UNKNOWN_BOOT_ID) else row) in
      sql_row (IDENTITY @ HARDWARE_COLUMNS) (map (\<lambda>c. to_db_value (rget values c)) (IDENTITY @ HARDWARE_COLUMNS)))"

definition hardware_key :: "sqlrow \<Rightarrow> dbval list" where
  "hardware_key r = key_of [''system'', ''node'', ''boot_id''] r"

definition write_hardware :: "accepts \<Rightarrow> row \<Rightarrow> tables \<Rightarrow> db_exn + tables \<times> nat" where
  "write_hardware acc row t =
     (let r = hardware_row row; inserted = touched (tb_hardware t (hardware_key r) = None) in
      if \<not> acc ''node_hardware'' r then Inl (row_rejected ''node_hardware'')
      else
        (case exec_node acc row ''collected_at'' False
                (t\<lparr>tb_hardware := upsert insert_once (hardware_key r, r) (tb_hardware t)\<rparr>) of
           Inl e \<Rightarrow> Inl e
         | Inr t \<Rightarrow> Inr (t, inserted)))"

definition live_node_row :: "row \<Rightarrow> sqlrow res" where
  "live_node_row row =
     (let columns = IDENTITY @ filter (\<lambda>c. c \<in> set (dkeys row)) LIVE_NODE_COLUMNS in
      case filter (\<lambda>c. c \<notin> set (dkeys row)) IDENTITY of
        c # _ \<Rightarrow> Inl (KeyError c)
      | [] \<Rightarrow> Inr (sql_row columns (map (\<lambda>c. to_db_value (rget row c)) columns)))"

definition write_live_node :: "accepts \<Rightarrow> row \<Rightarrow> tables \<Rightarrow> db_exn + tables \<times> nat" where
  "write_live_node acc row t =
     (case live_node_row row of
        Inl e \<Rightarrow> Inl (PyExn e)
      | Inr r \<Rightarrow>
          if \<not> acc ''live_nodes'' r then Inl (row_rejected ''live_nodes'')
          else
            (let k = key_of IDENTITY r;
                 updated = touched (case tb_live_nodes t k of None \<Rightarrow> True
                   | Some old \<Rightarrow> sql_le (old ''updated_at'') (col r ''updated_at''))
             in case exec_node acc row ''updated_at'' (''label'' \<in> set (dkeys row))
                       (t\<lparr>tb_live_nodes := upsert live_node_upsert (k, r) (tb_live_nodes t)\<rparr>) of
                  Inl e \<Rightarrow> Inl e
                | Inr t \<Rightarrow> Inr (t, updated)))"

fun process_of :: "pyval \<Rightarrow> row option" where
  "process_of (VDict d) = Some d"
| "process_of _ = None"

definition process_list :: "pyval \<Rightarrow> row list res" where
  "process_list v =
     (case v of
        VList ps \<Rightarrow> (case seq_opt (map process_of ps) of None \<Rightarrow> Inl (OtherError ''AttributeError'') | Some ds \<Rightarrow> Inr ds)
      | _ \<Rightarrow> Inl type_error)"

definition process_row :: "pyval \<Rightarrow> pyval \<Rightarrow> pyval \<Rightarrow> row \<Rightarrow> sqlrow" where
  "process_row sys node ts p =
     sql_row (IDENTITY @ [''ts''] @ LIVE_PROCESS_COLUMNS)
       ([Plain sys, Plain node, Plain ts] @ map (\<lambda>c. to_db_value (rget p c)) LIVE_PROCESS_COLUMNS)"

text \<open>\<open>{(p.get("pid"), p.get("start_time")): p for p in row["processes"]}\<close>\<close>

definition process_dict :: "row list \<Rightarrow> (pyval \<times> pyval, row) dict" where
  "process_dict ps = dict_of (map (\<lambda>p. ((rget p ''pid'', rget p ''start_time''), p)) ps)"

definition write_snapshot :: "accepts \<Rightarrow> row \<Rightarrow> tables \<Rightarrow> db_exn + tables \<times> nat" where
  "write_snapshot acc row t =
     (case (rindex row ''system'', rindex row ''node'', rindex row ''ts'') of
        (Inr sys, Inr node, Inr ts) \<Rightarrow>
          (let k = [Plain sys, Plain node]; tsv = stored_value (Plain ts) in
           if \<not> acc ''live_snapshots'' [(''system'', Plain sys), (''node'', Plain node), (''ts'', tsv)]
           then Inl (row_rejected ''live_snapshots'')
           else if \<not> (case tb_snapshots t k of None \<Rightarrow> True | Some old \<Rightarrow> sql_le old tsv) then Inr (t, 0)
           else
             (let t = t\<lparr>tb_snapshots := upsert snapshot_upsert (k, tsv) (tb_snapshots t)\<rparr> in
              case rindex row ''processes'' of
                Inl e \<Rightarrow> Inl (PyExn e)
              | Inr v \<Rightarrow>
                  (case process_list v of
                     Inl e \<Rightarrow> Inl (PyExn e)
                   | Inr ps \<Rightarrow>
                       (let rows = map (process_row sys node ts) (dvalues (process_dict ps)) in
                        if list_all (acc ''live_processes'') rows
                        then Inr (t\<lparr>tb_processes := (tb_processes t)(k := rows)\<rparr>, length rows)
                        else Inl (row_rejected ''live_processes'')))))
      | (Inl e, _, _) \<Rightarrow> Inl (PyExn e)
      | (_, Inl e, _) \<Rightarrow> Inl (PyExn e)
      | (_, _, Inl e) \<Rightarrow> Inl (PyExn e))"

fun exec_list :: "('p \<Rightarrow> tables \<Rightarrow> db_exn + tables \<times> nat) \<Rightarrow> string \<Rightarrow> 'p list \<Rightarrow> tables \<times> (string, nat) dict \<Rightarrow>
    db_exn + tables \<times> (string, nat) dict" where
  "exec_list f table [] (t, w) = Inr (t, w)"
| "exec_list f table (p # ps) (t, w) =
     (case f p t of
        Inl e \<Rightarrow> Inl e
      | Inr (t, n) \<Rightarrow> exec_list f table ps (t, dset w table (dget_or w table 0 + n)))"

fun exec_summaries :: "accepts \<Rightarrow> catalog \<Rightarrow> (string, dbval list list) dict \<Rightarrow> tables \<times> (string, nat) dict \<Rightarrow>
    db_exn + tables \<times> (string, nat) dict" where
  "exec_summaries acc cat [] tw = Inr tw"
| "exec_summaries acc cat ((table, params) # rest) tw =
     (case exec_list (exec_summary acc cat table) table params tw of
        Inl e \<Rightarrow> Inl e
      | Inr tw \<Rightarrow> exec_summaries acc cat rest tw)"

definition sbind :: "'e + 'a \<Rightarrow> ('a \<Rightarrow> 'e + 'b) \<Rightarrow> 'e + 'b" where
  "sbind m f = (case m of Inl e \<Rightarrow> Inl e | Inr x \<Rightarrow> f x)"

definition apply_plan :: "accepts \<Rightarrow> catalog \<Rightarrow> plan \<Rightarrow> tables \<Rightarrow> db_exn + tables \<times> (string, nat) dict" where
  "apply_plan acc cat pl t =
     sbind (exec_summaries acc cat (pl_summaries pl) (t, [])) (\<lambda>tw.
     sbind (exec_list (exec_event acc cat) ''collection_events'' (pl_events pl) tw) (\<lambda>tw.
     sbind (exec_list (write_hardware acc) ''node_hardware'' (pl_hardware pl) tw) (\<lambda>tw.
     sbind (exec_list (write_live_node acc) ''live_nodes'' (pl_live_nodes pl) tw) (\<lambda>tw.
     exec_list (write_snapshot acc) ''live_processes'' (dvalues (pl_snapshots pl)) tw))))"

subsection \<open>Writing a batch\<close>

text \<open>\<open>Fails e dead\<close>: the interaction raises \<open>e\<close> and leaves the connection unusable or not.\<close>

datatype fault = NoFault | Fails db_exn bool | LostAck

record pg =
  pg_tables :: tables
  pg_catalog :: catalog
  pg_conn :: bool
  pg_faults :: "fault list"

record writer_cfg =
  dc_retention :: retention
  dc_accepts :: accepts
  dc_locked :: "string \<Rightarrow> bool"

record write_ok =
  wr_rows_written :: "(string, nat) dict"
  wr_rows_beyond_retention :: "(string, nat) dict"
  wr_partitions_created :: "string list"

definition next_fault :: "pg \<Rightarrow> fault \<times> pg" where
  "next_fault db = (case pg_faults db of [] \<Rightarrow> (NoFault, db) | f # fs \<Rightarrow> (f, db\<lparr>pg_faults := fs\<rparr>))"

definition connection :: "pg \<Rightarrow> (db_exn \<times> bool) option \<times> pg" where
  "connection db =
     (if pg_conn db then (None, db)
      else (case next_fault db of
              (NoFault, db) \<Rightarrow> (None, db\<lparr>pg_conn := True\<rparr>)
            | (Fails e dead, db) \<Rightarrow> (Some (e, dead), db)
            | (LostAck, db) \<Rightarrow> (Some (lost_connection, True), db)))"

definition discard_if_unusable :: "bool \<Rightarrow> bool \<Rightarrow> pg \<Rightarrow> pg" where
  "discard_if_unusable force dead db = (if force \<or> dead then db\<lparr>pg_conn := False\<rparr> else db)"

definition try_apply :: "writer_cfg \<Rightarrow> plan \<Rightarrow> pg \<Rightarrow> ((db_exn \<times> bool) + (string, nat) dict) \<times> pg" where
  "try_apply cfg pl db =
     (case next_fault db of
        (Fails e dead, db) \<Rightarrow> (Inl (e, dead), db)
      | (f, db) \<Rightarrow>
          (case apply_plan (dc_accepts cfg) (pg_catalog db) pl (pg_tables db) of
             Inl e \<Rightarrow> (Inl (e, False), db)
           | Inr (t, w) \<Rightarrow>
               (let db = db\<lparr>pg_tables := t\<rparr> in
                if f = LostAck then (Inl (lost_connection, True), db) else (Inr w, db))))"

text \<open>
  \<open>for (table, name), ts in sorted(plan.months.items())\<close>, in one transaction: the catalogue is
  left alone when one of them fails.
\<close>

definition create_partitions :: "writer_cfg \<Rightarrow> plan \<Rightarrow> pg \<Rightarrow> ((db_exn \<times> bool) + string list) \<times> pg" where
  "create_partitions cfg pl db =
     (case next_fault db of
        (Fails e dead, db) \<Rightarrow> (Inl (e, dead), db)
      | (f, db) \<Rightarrow>
          (case ensure_all (dc_locked cfg)
                  (map (\<lambda>((table, name), ts). (table, ts)) (sort_key fst (pl_months pl))) (pg_catalog db) of
             Inl e \<Rightarrow> (Inl (if e = lock_not_available then lock_timeout_exn else PyExn e, False), db)
           | Inr (created, cat) \<Rightarrow>
               (let db = db\<lparr>pg_catalog := cat\<rparr> in
                if f = LostAck then (Inl (lost_connection, True), db) else (Inr created, db))))"

definition is_missing_partition :: "db_exn \<Rightarrow> bool" where
  "is_missing_partition e = (case e of
      PgError _ state text \<Rightarrow> state = Some ''23514'' \<and> (\<exists>i \<le> length text. startswith (drop i text) ''no partition of relation'')
    | _ \<Rightarrow> False)"

definition write_planned :: "writer_cfg \<Rightarrow> plan \<Rightarrow> pg \<Rightarrow> ((db_exn \<times> bool) + (string, nat) dict \<times> string list) \<times> pg" where
  "write_planned cfg pl db =
     (case connection db of
        (Some e, db) \<Rightarrow> (Inl e, db)
      | (None, db) \<Rightarrow>
          (case try_apply cfg pl db of
             (Inr w, db) \<Rightarrow> (Inr (w, []), db)
           | (Inl (e, dead), db) \<Rightarrow>
               if \<not> is_missing_partition e then (Inl (e, dead), db)
               else
                 (case create_partitions cfg pl db of
                    (Inl e, db) \<Rightarrow> (Inl e, db)
                  | (Inr created, db) \<Rightarrow>
                      (case try_apply cfg pl db of
                         (Inr w, db) \<Rightarrow> (Inr (w, created), db)
                       | (Inl e, db) \<Rightarrow> (Inl e, db)))))"

definition dw_write :: "writer_cfg \<Rightarrow> pg \<Rightarrow> nm_record list \<Rightarrow> datetime \<Rightarrow> (db_exn + write_ok) \<times> pg" where
  "dw_write cfg db recs now =
     (case make_plan (dc_retention cfg) recs now of
        Inl e \<Rightarrow> (Inl (PyExn e), db)
      | Inr pl \<Rightarrow>
          (case write_planned cfg pl db of
             (Inl (e, dead), db) \<Rightarrow>
               (let outage = is_unavailable e; db = discard_if_unusable outage dead db in
                (Inl (if outage then DatabaseUnavailableExn ''database unavailable'' else e), db))
           | (Inr (w, created), db) \<Rightarrow>
               (Inr \<lparr>wr_rows_written = w, wr_rows_beyond_retention = pl_beyond pl, wr_partitions_created = created\<rparr>, db)))"

definition dw_ping :: "pg \<Rightarrow> bool \<times> pg" where
  "dw_ping db =
     (case connection db of
        (Some _, db) \<Rightarrow> (False, discard_if_unusable True True db)
      | (None, db) \<Rightarrow>
          (case next_fault db of
             (NoFault, db) \<Rightarrow> (True, db)
           | (_, db) \<Rightarrow> (False, discard_if_unusable True True db)))"

definition dw_close :: "pg \<Rightarrow> pg" where
  "dw_close db = db\<lparr>pg_conn := False\<rparr>"

text \<open>The writer as \<open>BufferedWriter\<close> uses it.\<close>

definition describe :: "db_exn \<Rightarrow> string" where
  "describe e = (case e of DatabaseUnavailableExn m \<Rightarrow> m | PgError _ _ m \<Rightarrow> m | PyExn _ \<Rightarrow> ''error'')"

definition dw_ops :: "writer_cfg \<Rightarrow> pg writer_ops" where
  "dw_ops cfg =
     \<lparr>w_write = (\<lambda>db recs now.
        case dw_write cfg db recs now of
          (Inr ok, db) \<Rightarrow> (Wrote (wr_rows_beyond_retention ok), db)
        | (Inl (DatabaseUnavailableExn m), db) \<Rightarrow> (Unavailable m, db)
        | (Inl e, db) \<Rightarrow> (Rejected (describe e), db)),
      w_ping = dw_ping\<rparr>"

end
