(* ===== verification/Upserts.thy ===== *)
theory Upserts
  imports Writer
begin

text \<open>
  Replaying a batch changes nothing (\<open>database/writer.py\<close>: every statement is idempotent).

  An upsert acts on the entry stored under the row's key, so a list of them acts on each entry by
  the rows with that key, in order.  \<open>ranked_upsert\<close> is the shape the statements with a \<open>WHERE\<close>
  clause share: entry and row have a rank, and a row of lower rank is skipped.
\<close>

lemma fold_upsert_at:
  "fold (upsert f) xs m k = fold f (map snd (filter (\<lambda>kr. fst kr = k) xs)) (m k)"
  by (induction xs arbitrary: m) (auto simp: upsert_def)

definition absorbing :: "('r \<Rightarrow> 'v \<Rightarrow> 'v) \<Rightarrow> bool" where
  "absorbing f \<longleftrightarrow> (\<forall>xs s. fold f xs (fold f xs s) = fold f xs s)"

lemma table_replay:
  assumes "absorbing f" and "ys = filter (\<lambda>kr. P (fst kr)) xs"
  shows "fold (upsert f) ys (fold (upsert f) xs m) = fold (upsert f) xs m"
proof
  fix k
  have "filter (\<lambda>kr. fst kr = k) ys = (if P k then filter (\<lambda>kr. fst kr = k) xs else [])"
    unfolding assms(2) filter_filter by (auto intro!: filter_cong simp: filter_empty_conv)
  with assms(1) show "fold (upsert f) ys (fold (upsert f) xs m) k = fold (upsert f) xs m k"
    by (auto simp: fold_upsert_at absorbing_def)
qed

text \<open>An entry made of independent parts absorbs when every part does.\<close>

lemma absorbing_parts:
  assumes f: "absorbing g" "absorbing h"
    and g: "\<And>r s. p (f r s) = g r (p s)" and h: "\<And>r s. q (f r s) = h r (q s)"
    and inj: "\<And>s s'. p s = p s' \<Longrightarrow> q s = q s' \<Longrightarrow> s = s'"
  shows "absorbing f"
proof -
  have pf: "p (fold f xs s) = fold g xs (p s)" and qf: "q (fold f xs s) = fold h xs (q s)" for xs s
    by (induction xs arbitrary: s) (simp_all add: g h)
  show ?thesis
    using f unfolding absorbing_def by (intro allI inj) (simp_all add: pf qf)
qed

definition rank_le :: "int option \<Rightarrow> int option \<Rightarrow> bool" where
  "rank_le a b = (case (a, b) of (Some x, Some y) \<Rightarrow> x \<le> y | _ \<Rightarrow> False)"

lemma sql_le_rank: "sql_le a b = rank_le (sql_key a) (sql_key b)"
  by (simp add: sql_le_def rank_le_def)

lemma rank_le_Some [simp]: "rank_le (Some a) (Some b) \<longleftrightarrow> a \<le> b" "rank_le None q = False" "rank_le p None = False"
  by (auto simp: rank_le_def split: option.splits)

locale ranked_upsert =
  fixes f :: "'r \<Rightarrow> 'v option \<Rightarrow> 'v option" and ins :: "'r \<Rightarrow> 'v" and app :: "'r \<Rightarrow> 'v \<Rightarrow> 'v"
    and rank_row :: "'r \<Rightarrow> int option" and rank :: "'v \<Rightarrow> int option"
  assumes f_None: "f r None = Some (ins r)"
    and f_Some: "f r (Some v) = Some (if rank_le (rank v) (rank_row r) then app r v else v)"
    and rank_ins: "rank (ins r) = rank_row r"
    and rank_app: "rank_le (rank v) (rank_row r) \<Longrightarrow> rank (app r v) = rank_row r"
    and app_ins: "app r (ins r) = ins r"
    and app_idem: "app r (app r v) = app r v"
    and app_cong: "app x v = app x v' \<Longrightarrow> app x (app y v) = app x (app y v')"
begin

lemma fold_Some: "\<exists>v'. fold f ys (Some v) = Some v'"
  by (induction ys arbitrary: v) (auto simp: f_Some)

lemma fold_rank: "fold f ys (Some v) = Some v' \<Longrightarrow>
   (case rank v of None \<Rightarrow> v' = v | Some a \<Rightarrow> \<exists>b. rank v' = Some b \<and> a \<le> b)"
proof (induction ys arbitrary: v)
  case Nil
  then show ?case by (auto split: option.splits)
next
  case (Cons y ys)
  show ?case
  proof (cases "rank_le (rank v) (rank_row y)")
    case True
    then obtain a c where "rank v = Some a" "rank_row y = Some c" "a \<le> c"
      by (cases "rank v"; cases "rank_row y") auto
    with Cons.IH [of "app y v"] Cons.prems True rank_app [OF True] show ?thesis by (force simp: f_Some)
  next
    case False
    with Cons.IH [of v] Cons.prems show ?thesis by (simp add: f_Some)
  qed
qed

text \<open>Every row folded in ranks at most as high as the result.\<close>

lemma fold_bounds:
  assumes "fold f ys s = Some v" and "y \<in> set ys" and "rank v = Some a" and "rank_row y = Some b"
  shows "b \<le> a"
  using assms
proof (induction ys arbitrary: s)
  case Nil
  then show ?case by simp
next
  case (Cons x ys)
  show ?case
  proof (cases "y = x")
    case True
    obtain u where u: "f x s = Some u" by (cases s) (simp_all add: f_None f_Some)
    with Cons.prems have "fold f ys (Some u) = Some v" by simp
    from fold_rank [OF this] Cons.prems(3) have ru: "rank u \<noteq> None" "\<And>c. rank u = Some c \<Longrightarrow> c \<le> a"
      by (auto split: option.splits)
    have "\<exists>c. rank u = Some c \<and> b \<le> c"
    proof (cases s)
      case None
      with u True Cons.prems(4) show ?thesis by (auto simp: f_None rank_ins)
    next
      case (Some w)
      with u True Cons.prems(4) ru(1) rank_app [of w x] show ?thesis
        by (cases "rank w") (auto simp: f_Some split: if_splits)
    qed
    with ru(2) show ?thesis by force
  next
    case False
    with Cons show ?thesis by (auto intro: Cons.IH)
  qed
qed

lemma fold_skip:
  assumes "rank v = Some a" and "\<And>y b. y \<in> set ys \<Longrightarrow> rank_row y = Some b \<Longrightarrow> b < a"
  shows "fold f ys (Some v) = Some v"
proof -
  have "f y (Some v) = Some v" if "y \<in> set ys" for y
    using assms that by (cases "rank_row y") (auto simp: f_Some dest: assms(2))
  then show ?thesis by (induction ys) auto
qed

text \<open>Rows of the top rank act alike on entries that \<open>x\<close> makes equal.\<close>

lemma fold_cong_rank:
  assumes "rank u = Some a" "rank v = Some a" "app x u = app x v"
    and "\<forall>y \<in> set ys. \<forall>b. rank_row y = Some b \<longrightarrow> b \<le> a"
  shows "\<exists>u' v'. fold f ys (Some u) = Some u' \<and> fold f ys (Some v) = Some v' \<and> app x u' = app x v' \<and>
    rank u' = Some a \<and> rank v' = Some a"
  using assms
proof (induction ys arbitrary: u v)
  case Nil
  then show ?case by simp
next
  case (Cons y ys)
  show ?case
  proof (cases "rank_row y = Some a")
    case True
    with Cons.prems have "rank (app y u) = Some a" "rank (app y v) = Some a" "app x (app y u) = app x (app y v)"
      using rank_app [of u y] rank_app [of v y] app_cong [OF Cons.prems(3)] by simp_all
    from Cons.IH [OF this] Cons.prems True show ?thesis by (simp add: f_Some)
  next
    case False
    have "\<not> rank_le (Some a) (rank_row y)"
    proof
      assume "rank_le (Some a) (rank_row y)"
      then obtain b where "rank_row y = Some b" "a \<le> b" by (cases "rank_row y") auto
      with Cons.prems(4) False show False by auto
    qed
    with Cons.IH [OF Cons.prems(1-3)] Cons.prems show ?thesis by (simp add: f_Some)
  qed
qed

lemma fold_again: "fold f xs (fold f xs s) = fold f xs s"
proof (induction xs arbitrary: s rule: rev_induct)
  case Nil
  then show ?case by simp
next
  case (snoc x ys)
  define u where "u = fold f ys s"
  have IH: "fold f ys u = u" using snoc u_def by simp
  have "f x (fold f ys (f x u)) = f x u"
  proof (cases u)
    case None
    have "ys = []"
    proof (cases ys)
      case (Cons a zs)
      with None IH fold_Some [of zs "ins a"] show ?thesis by (auto simp: f_None)
    qed
    with None show ?thesis by (simp add: f_None f_Some app_ins)
  next
    case (Some v)
    show ?thesis
    proof (cases "rank_le (rank v) (rank_row x)")
      case False
      with IH Some show ?thesis by (simp add: f_Some)
    next
      case True
      then obtain a c where r: "rank v = Some a" "rank_row x = Some c" "a \<le> c"
        by (cases "rank v"; cases "rank_row x") auto
      have fx: "f x u = Some (app x v)" and rx: "rank (app x v) = Some c"
        using True Some r by (simp_all add: f_Some rank_app)
      have le: "b \<le> a" if "y \<in> set ys" "rank_row y = Some b" for y b
        using fold_bounds [of ys s v y a b] that r Some u_def by simp
      show ?thesis
      proof (cases "a = c")
        case eq: True
        have "\<forall>y \<in> set ys. \<forall>b. rank_row y = Some b \<longrightarrow> b \<le> a" using le by blast
        from fold_cong_rank [OF r(1) _ _ this, of "app x v" x] rx eq IH Some app_idem
        obtain w where "fold f ys (Some (app x v)) = Some w" "app x v = app x w" "rank w = Some a"
          by (metis option.inject)
        with fx r eq show ?thesis by (simp add: f_Some)
      next
        case False
        with r le have "fold f ys (Some (app x v)) = Some (app x v)"
          by (intro fold_skip [OF rx]) force
        with fx rx r show ?thesis by (simp add: f_Some app_idem)
      qed
    qed
  qed
  then show ?case by (simp add: u_def)
qed

lemma absorbs: "absorbing f"
  by (simp add: absorbing_def fold_again)

text \<open>A table only ever moves forward in rank.\<close>

lemma table_forward:
  assumes "m k = Some v" and "rank v = Some a"
  shows "\<exists>v' b. fold (upsert f) xs m k = Some v' \<and> rank v' = Some b \<and> a \<le> b"
proof -
  let ?ys = "map snd (filter (\<lambda>kr. fst kr = k) xs)"
  obtain v' where v': "fold f ?ys (Some v) = Some v'" using fold_Some by blast
  with fold_rank [OF this] assms show ?thesis by (auto simp: fold_upsert_at)
qed

end

interpretation summaries: ranked_upsert summary_upsert "\<lambda>r. r" "\<lambda>r _. r"
    "\<lambda>r. sql_key (col r ''sample_count'')" "\<lambda>r. sql_key (col r ''sample_count'')"
  by unfold_locales (auto simp: summary_upsert_def sql_le_rank)

interpretation live_nodes: ranked_upsert live_node_upsert col "\<lambda>r old c. if c \<in> set (dkeys r) then col r c else old c"
    "\<lambda>r. sql_key (col r ''updated_at'')" "\<lambda>v. sql_key (v ''updated_at'')"
proof unfold_locales
  have col_out: "c \<notin> set (dkeys r) \<Longrightarrow> col r c = Plain VNone" for r c
    by (simp add: col_def dget_or_def flip: map_of_eq_None_iff)
  show "sql_key ((\<lambda>c. if c \<in> set (dkeys r) then col r c else v c) ''updated_at'') = sql_key (col r ''updated_at'')"
    if "rank_le (sql_key (v ''updated_at'')) (sql_key (col r ''updated_at''))" for v r
    using that col_out [of "''updated_at''" r] by (auto split: if_splits)
  show "(\<lambda>c. if c \<in> set (dkeys x) then col x c else (if c \<in> set (dkeys y) then col y c else v c)) =
      (\<lambda>c. if c \<in> set (dkeys x) then col x c else (if c \<in> set (dkeys y) then col y c else v' c))"
    if "(\<lambda>c. if c \<in> set (dkeys x) then col x c else v c) = (\<lambda>c. if c \<in> set (dkeys x) then col x c else v' c)"
    for x y v v'
  proof
    fix c
    show "(if c \<in> set (dkeys x) then col x c else (if c \<in> set (dkeys y) then col y c else v c)) =
        (if c \<in> set (dkeys x) then col x c else (if c \<in> set (dkeys y) then col y c else v' c))"
      using fun_cong [OF that, of c] by (simp split: if_splits)
  qed
qed (auto simp: live_node_upsert_def sql_le_rank)

interpretation once: ranked_upsert insert_once "\<lambda>r. r" "\<lambda>_ v. v" "\<lambda>_. None" "\<lambda>_. None"
  by unfold_locales (auto simp: insert_once_def)

text \<open>A node entry is its first time and, apart from it, what follows the newest record.\<close>

definition first_upsert :: "node_params \<Rightarrow> dbval option \<Rightarrow> dbval option" where
  "first_upsert p s = (case s of None \<Rightarrow> Some (np_seen p)
     | Some a \<Rightarrow> Some (if sql_le (np_seen p) a then np_seen p else a))"

definition newest_app :: "node_params \<Rightarrow> dbval \<times> dbval \<times> dbval \<Rightarrow> dbval \<times> dbval \<times> dbval" where
  "newest_app p v = (case v of (label, seen, boot) \<Rightarrow>
     (if np_has_label p then np_label p else label, np_seen p, if np_boot_id p \<noteq> Plain VNone then np_boot_id p else boot))"

definition newest_upsert :: "node_params \<Rightarrow> (dbval \<times> dbval \<times> dbval) option \<Rightarrow> (dbval \<times> dbval \<times> dbval) option" where
  "newest_upsert p s = (case s of None \<Rightarrow> Some (np_label p, np_seen p, np_boot_id p)
     | Some v \<Rightarrow> Some (if sql_le (fst (snd v)) (np_seen p) then newest_app p v else v))"

lemma rank_le_uminus: "rank_le (map_option uminus a) (map_option uminus b) = rank_le b a"
  by (simp add: rank_le_def split: option.splits)

interpretation first_seen: ranked_upsert first_upsert np_seen "\<lambda>p _. np_seen p"
    "\<lambda>p. map_option uminus (sql_key (np_seen p))" "\<lambda>v. map_option uminus (sql_key v)"
  by unfold_locales (auto simp: first_upsert_def sql_le_rank rank_le_uminus)

interpretation newest: ranked_upsert newest_upsert "\<lambda>p. (np_label p, np_seen p, np_boot_id p)" newest_app
    "\<lambda>p. sql_key (np_seen p)" "\<lambda>v. sql_key (fst (snd v))"
  by unfold_locales (auto simp: newest_upsert_def newest_app_def sql_le_rank split: if_splits)

lemma node_upsert_absorbs: "absorbing node_upsert"
proof (rule absorbing_parts [OF first_seen.absorbs newest.absorbs])
  show "map_option ne_first_seen (node_upsert r s) = first_upsert r (map_option ne_first_seen s)" for r s
    by (auto simp: node_upsert_def first_upsert_def split: option.splits)
  show "map_option (\<lambda>n. (ne_label n, ne_last_seen n, ne_boot_id n)) (node_upsert r s) =
      newest_upsert r (map_option (\<lambda>n. (ne_label n, ne_last_seen n, ne_boot_id n)) s)" for r s
    by (auto simp: node_upsert_def newest_upsert_def newest_app_def split: option.splits)
  show "s = s'" if "map_option ne_first_seen s = map_option ne_first_seen s'"
    "map_option (\<lambda>n. (ne_label n, ne_last_seen n, ne_boot_id n)) s =
     map_option (\<lambda>n. (ne_label n, ne_last_seen n, ne_boot_id n)) s'" for s s' :: "node_entry option"
    using that by (cases s; cases s') auto
qed

subsection \<open>What a plan does to the tables\<close>

definition summary_items :: "plan \<Rightarrow> ((string \<times> dbval list) \<times> sqlrow) list" where
  "summary_items pl = concat (map (\<lambda>(table, pss). map (\<lambda>ps. (summary_key table (summary_row table ps), summary_row table ps)) pss)
     (pl_summaries pl))"

definition event_item :: "dbval list \<Rightarrow> dbval list \<times> dbval" where
  "event_item ps = (event_sql_key (sql_row EVENT_COLUMNS ps), col (sql_row EVENT_COLUMNS ps) ''detail'')"

definition hardware_item :: "row \<Rightarrow> dbval list \<times> sqlrow" where
  "hardware_item row = (hardware_key (hardware_row row), hardware_row row)"

definition live_item :: "row \<Rightarrow> (dbval list \<times> sqlrow) list" where
  "live_item row = (case live_node_row row of Inl _ \<Rightarrow> [] | Inr r \<Rightarrow> [(key_of IDENTITY r, r)])"

definition node_item :: "string \<Rightarrow> bool \<Rightarrow> row \<Rightarrow> (dbval list \<times> node_params) list" where
  "node_item seen label row = (case node_params_of row seen label of Inl _ \<Rightarrow> []
     | Inr p \<Rightarrow> [([np_system p, np_node p], p)])"

definition node_items :: "plan \<Rightarrow> (dbval list \<times> node_params) list" where
  "node_items pl = concat (map (node_item ''collected_at'' False) (pl_hardware pl)) @
     concat (map (\<lambda>row. node_item ''updated_at'' (''label'' \<in> set (dkeys row)) row) (pl_live_nodes pl))"

text \<open>The snapshot of a node and its process rows, as one entry.\<close>

definition snap_upsert :: "dbval \<times> sqlrow list \<Rightarrow> dbval option \<times> sqlrow list \<Rightarrow> dbval option \<times> sqlrow list" where
  "snap_upsert x s = (case fst s of None \<Rightarrow> (Some (fst x), snd x)
     | Some old \<Rightarrow> if sql_le old (fst x) then (Some (fst x), snd x) else s)"

definition snap_item :: "row \<Rightarrow> dbval list \<times> dbval \<times> sqlrow list" where
  "snap_item row =
     ([Plain (rget row ''system''), Plain (rget row ''node'')], stored_value (Plain (rget row ''ts'')),
      map (process_row (rget row ''system'') (rget row ''node'') (rget row ''ts''))
        (dvalues (process_dict (case process_list (rget row ''processes'') of Inl _ \<Rightarrow> [] | Inr ps \<Rightarrow> ps))))"

definition commit_plan :: "plan \<Rightarrow> tables \<Rightarrow> tables" where
  "commit_plan pl t =
     (let snaps = fold (upsert snap_upsert) (map snap_item (dvalues (pl_snapshots pl)))
            (\<lambda>k. (tb_snapshots t k, tb_processes t k))
      in \<lparr>tb_summaries = fold (upsert summary_upsert) (summary_items pl) (tb_summaries t),
          tb_events = fold (upsert insert_once) (map event_item (pl_events pl)) (tb_events t),
          tb_hardware = fold (upsert insert_once) (map hardware_item (pl_hardware pl)) (tb_hardware t),
          tb_nodes = fold (upsert node_upsert) (node_items pl) (tb_nodes t),
          tb_live_nodes = fold (upsert live_node_upsert) (concat (map live_item (pl_live_nodes pl))) (tb_live_nodes t),
          tb_snapshots = (\<lambda>k. fst (snaps k)), tb_processes = (\<lambda>k. snd (snaps k))\<rparr>)"

lemma exec_list_fold:
  assumes "exec_list f table ps (t, w) = Inr (t', w')" and "\<And>p t t' n. f p t = Inr (t', n) \<Longrightarrow> t' = g p t"
  shows "t' = fold g ps t"
  using assms(1)
proof (induction ps arbitrary: t w)
  case Nil
  then show ?case by simp
next
  case (Cons p ps)
  then obtain t1 n where "f p t = Inr (t1, n)" "exec_list f table ps (t1, dset w table (dget_or w table 0 + n)) = Inr (t', w')"
    by (auto split: sum.splits)
  with Cons.IH assms(2) show ?case by fastforce
qed

lemma exec_summaries_fold:
  assumes "exec_summaries acc cat d (t, w) = Inr (t', w')"
  shows "t' = t\<lparr>tb_summaries := fold (upsert summary_upsert)
    (concat (map (\<lambda>(table, pss). map (\<lambda>ps. (summary_key table (summary_row table ps), summary_row table ps)) pss) d))
    (tb_summaries t)\<rparr>"
  using assms
proof (induction d arbitrary: t w)
  case Nil
  then show ?case by simp
next
  case (Cons e d)
  obtain table pss where e: "e = (table, pss)" by (cases e)
  with Cons.prems obtain t1 w1 where 1: "exec_list (exec_summary acc cat table) table pss (t, w) = Inr (t1, w1)"
    and 2: "exec_summaries acc cat d (t1, w1) = Inr (t', w')" by (auto split: sum.splits)
  have "t1 = fold (\<lambda>ps t. t\<lparr>tb_summaries := upsert summary_upsert (summary_key table (summary_row table ps), summary_row table ps) (tb_summaries t)\<rparr>) pss t"
    using 1 by (rule exec_list_fold) (auto simp: exec_summary_def Let_def split: option.splits)
  also have "\<dots> = t\<lparr>tb_summaries := fold (upsert summary_upsert) (map (\<lambda>ps. (summary_key table (summary_row table ps), summary_row table ps)) pss) (tb_summaries t)\<rparr>"
    by (induction pss arbitrary: t) simp_all
  finally show ?case using Cons.IH [OF 2] e by simp
qed

lemma exec_events_fold:
  assumes "exec_list (exec_event acc cat) table pss (t, w) = Inr (t', w')"
  shows "t' = t\<lparr>tb_events := fold (upsert insert_once) (map event_item pss) (tb_events t)\<rparr>"
proof -
  have "t' = fold (\<lambda>ps t. t\<lparr>tb_events := upsert insert_once (event_item ps) (tb_events t)\<rparr>) pss t"
    using assms by (rule exec_list_fold) (auto simp: exec_event_def event_item_def Let_def split: option.splits)
  also have "\<dots> = t\<lparr>tb_events := fold (upsert insert_once) (map event_item pss) (tb_events t)\<rparr>"
    by (induction pss arbitrary: t) simp_all
  finally show ?thesis .
qed

lemma exec_node_fold:
  "exec_node acc row seen label t = Inr t' \<Longrightarrow>
   t' = t\<lparr>tb_nodes := fold (upsert node_upsert) (node_item seen label row) (tb_nodes t)\<rparr>"
  by (auto simp: exec_node_def node_item_def split: sum.splits if_splits)

lemma exec_hardware_fold:
  assumes "exec_list (write_hardware acc) table rows (t, w) = Inr (t', w')"
  shows "t' = t\<lparr>tb_hardware := fold (upsert insert_once) (map hardware_item rows) (tb_hardware t),
    tb_nodes := fold (upsert node_upsert) (concat (map (node_item ''collected_at'' False) rows)) (tb_nodes t)\<rparr>"
proof -
  let ?g = "\<lambda>row t. t\<lparr>tb_hardware := upsert insert_once (hardware_item row) (tb_hardware t),
    tb_nodes := fold (upsert node_upsert) (node_item ''collected_at'' False row) (tb_nodes t)\<rparr>"
  have "t' = fold ?g rows t"
    using assms by (rule exec_list_fold)
      (auto simp: write_hardware_def hardware_item_def Let_def split: sum.splits if_splits dest!: exec_node_fold)
  also have "\<dots> = t\<lparr>tb_hardware := fold (upsert insert_once) (map hardware_item rows) (tb_hardware t),
    tb_nodes := fold (upsert node_upsert) (concat (map (node_item ''collected_at'' False) rows)) (tb_nodes t)\<rparr>"
    by (induction rows arbitrary: t) simp_all
  finally show ?thesis .
qed

lemma exec_live_fold:
  assumes "exec_list (write_live_node acc) table rows (t, w) = Inr (t', w')"
  shows "t' = t\<lparr>tb_live_nodes := fold (upsert live_node_upsert) (concat (map live_item rows)) (tb_live_nodes t),
    tb_nodes := fold (upsert node_upsert)
      (concat (map (\<lambda>row. node_item ''updated_at'' (''label'' \<in> set (dkeys row)) row) rows)) (tb_nodes t)\<rparr>"
proof -
  let ?n = "\<lambda>row. node_item ''updated_at'' (''label'' \<in> set (dkeys row)) row"
  let ?g = "\<lambda>row t. t\<lparr>tb_live_nodes := fold (upsert live_node_upsert) (live_item row) (tb_live_nodes t),
    tb_nodes := fold (upsert node_upsert) (?n row) (tb_nodes t)\<rparr>"
  have "t' = fold ?g rows t"
    using assms by (rule exec_list_fold)
      (auto simp: write_live_node_def live_item_def Let_def split: sum.splits if_splits dest!: exec_node_fold)
  also have "\<dots> = t\<lparr>tb_live_nodes := fold (upsert live_node_upsert) (concat (map live_item rows)) (tb_live_nodes t),
    tb_nodes := fold (upsert node_upsert) (concat (map ?n rows)) (tb_nodes t)\<rparr>"
    by (induction rows arbitrary: t) simp_all
  finally show ?thesis .
qed

definition snap_state :: "tables \<Rightarrow> dbval list \<Rightarrow> dbval option \<times> sqlrow list" where
  "snap_state t k = (tb_snapshots t k, tb_processes t k)"

definition with_snaps :: "tables \<Rightarrow> (dbval list \<Rightarrow> dbval option \<times> sqlrow list) \<Rightarrow> tables" where
  "with_snaps t s = t\<lparr>tb_snapshots := (\<lambda>k. fst (s k)), tb_processes := (\<lambda>k. snd (s k))\<rparr>"

lemma with_snaps_simps [simp]: "snap_state (with_snaps t s) = s" "with_snaps (with_snaps t s) s' = with_snaps t s'"
  "with_snaps t (snap_state t) = t"
  by (auto simp: snap_state_def with_snaps_def)

lemma with_snaps_upsert:
  "with_snaps t (upsert f (k, x) (snap_state t)) =
   t\<lparr>tb_snapshots := (tb_snapshots t)(k := fst (f x (snap_state t k))),
     tb_processes := (tb_processes t)(k := snd (f x (snap_state t k)))\<rparr>"
proof -
  have "(\<lambda>j. fst (upsert f (k, x) (snap_state t) j)) = (tb_snapshots t)(k := fst (f x (snap_state t k)))"
    "(\<lambda>j. snd (upsert f (k, x) (snap_state t) j)) = (tb_processes t)(k := snd (f x (snap_state t k)))"
    by (auto simp: upsert_def snap_state_def)
  then show ?thesis unfolding with_snaps_def by simp
qed

lemma write_snapshot_pure:
  assumes "write_snapshot acc row t = Inr (t', n)"
  shows "t' = with_snaps t (upsert snap_upsert (snap_item row) (snap_state t))"
proof -
  from assms obtain sys node ts where r: "dget row ''system'' = Some sys" "dget row ''node'' = Some node" "dget row ''ts'' = Some ts"
    by (auto simp: write_snapshot_def rindex_def split: option.splits)
  let ?k = "[Plain sys, Plain node]" and ?ts = "stored_value (Plain ts)"
  show ?thesis
  proof (cases "case tb_snapshots t ?k of None \<Rightarrow> True | Some old \<Rightarrow> sql_le old ?ts")
    case True
    with assms r show ?thesis
      unfolding snap_item_def with_snaps_upsert
      by (auto simp: write_snapshot_def snap_state_def upsert_def snap_upsert_def
          snapshot_upsert_def rget_def dget_or_def rindex_def Let_def
          split: if_splits sum.splits option.splits)
  next
    case False
    then obtain old where "tb_snapshots t ?k = Some old" "\<not> sql_le old ?ts" by (auto split: option.splits)
    with assms r show ?thesis
      unfolding snap_item_def with_snaps_upsert
      by (auto simp: write_snapshot_def snap_state_def snap_upsert_def fun_upd_idem
          rget_def dget_or_def rindex_def Let_def split: if_splits)
  qed
qed

lemma exec_snapshots_fold:
  assumes "exec_list (write_snapshot acc) table rows (t, w) = Inr (t', w')"
  shows "t' = with_snaps t (fold (upsert snap_upsert) (map snap_item rows) (snap_state t))"
proof -
  have "t' = fold (\<lambda>row t. with_snaps t (upsert snap_upsert (snap_item row) (snap_state t))) rows t"
    using assms by (rule exec_list_fold) (rule write_snapshot_pure)
  also have "\<dots> = with_snaps t (fold (upsert snap_upsert) (map snap_item rows) (snap_state t))"
    by (induction rows arbitrary: t) simp_all
  finally show ?thesis .
qed

lemma apply_plan_commits:
  assumes "apply_plan acc cat pl t = Inr (t', w)"
  shows "t' = commit_plan pl t"
proof -
  from assms obtain t1 w1 t2 w2 t3 w3 t4 w4 where
    "exec_summaries acc cat (pl_summaries pl) (t, []) = Inr (t1, w1)"
    "exec_list (exec_event acc cat) ''collection_events'' (pl_events pl) (t1, w1) = Inr (t2, w2)"
    "exec_list (write_hardware acc) ''node_hardware'' (pl_hardware pl) (t2, w2) = Inr (t3, w3)"
    "exec_list (write_live_node acc) ''live_nodes'' (pl_live_nodes pl) (t3, w3) = Inr (t4, w4)"
    "exec_list (write_snapshot acc) ''live_processes'' (dvalues (pl_snapshots pl)) (t4, w4) = Inr (t', w)"
    by (auto simp: apply_plan_def sbind_def split: sum.splits)
  then show ?thesis
    by (auto dest!: exec_summaries_fold exec_events_fold exec_hardware_fold exec_live_fold exec_snapshots_fold
        simp: commit_plan_def summary_items_def node_items_def with_snaps_def snap_state_def [abs_def] Let_def)
qed

subsection \<open>The plan of the same batch at a later time\<close>

text \<open>A later plan holds the same rows but for those whose time is now beyond retention.\<close>

definition fresh_row :: "retention \<Rightarrow> datetime \<Rightarrow> string \<Rightarrow> dbval \<Rightarrow> bool" where
  "fresh_row ret now table v = (case (dget PARTITIONED table, v) of
     (Some days, Plain (VTime t)) \<Rightarrow> instant (cutoff now (days ret)) \<le> instant t | _ \<Rightarrow> True)"

definition fresh_params :: "retention \<Rightarrow> datetime \<Rightarrow> string \<Rightarrow> dbval list \<Rightarrow> bool" where
  "fresh_params ret now table ps = fresh_row ret now table (last (snd (summary_key table (summary_row table ps))))"

definition fresh_event :: "retention \<Rightarrow> datetime \<Rightarrow> dbval list \<Rightarrow> bool" where
  "fresh_event ret now ps = fresh_row ret now ''collection_events'' (fst (event_item ps) ! 2)"

definition later_plan :: "retention \<Rightarrow> datetime \<Rightarrow> plan \<Rightarrow> plan \<Rightarrow> bool" where
  "later_plan ret now' pl pl' \<longleftrightarrow>
     pl_snapshots pl' = pl_snapshots pl \<and> pl_live_nodes pl' = pl_live_nodes pl \<and> pl_hardware pl' = pl_hardware pl \<and>
     pl_events pl' = filter (fresh_event ret now') (pl_events pl) \<and>
     (\<forall>table. dget_or (pl_summaries pl') table [] = filter (fresh_params ret now' table) (dget_or (pl_summaries pl) table []))"

lemma summary_tables: "dget TABLE kind = Some table \<Longrightarrow> kind \<notin> {LIVE_PROCESSES, LIVE_NODE, NODE_HARDWARE, COLLECTION_EVENT} \<Longrightarrow>
   table \<in> {''node_metrics_1m'', ''user_usage_5m'', ''node_usage_5m''}"
  by (auto simp: TABLE_def split: if_splits)

lemma col_sql_row: "c \<in> set cs \<Longrightarrow> col (sql_row cs (map g cs)) c = stored_value (g c)"
  by (simp add: col_def sql_row_def dget_or_def map_of_zip_map comp_def)

lemma key_columns:
  "''minute'' \<in> set NODE_METRICS_COLUMNS" "''interval_start'' \<in> set USER_USAGE_COLUMNS"
  "''interval_start'' \<in> set NODE_USAGE_COLUMNS"
  by (simp_all add: NODE_METRICS_COLUMNS_def USER_USAGE_COLUMNS_def NODE_USAGE_COLUMNS_def COMMON_COLUMNS_def
      USER_DERIVED_MAPS_def)

lemma summary_tabs:
  "table \<in> {''node_metrics_1m'', ''user_usage_5m'', ''node_usage_5m''} \<Longrightarrow>
   (dget_or SUMMARIES table ([], []), dget PARTITION_KEY table) \<in>
     {((NODE_METRICS_COLUMNS, [''system'', ''node'', ''minute'']), Some ''minute''),
      ((USER_USAGE_COLUMNS, [''system'', ''node'', ''username'', ''interval_start'']), Some ''interval_start''),
      ((NODE_USAGE_COLUMNS, [''system'', ''node'', ''interval_start'']), Some ''interval_start'')}"
  by (elim insertE) (simp_all add: SUMMARIES_def PARTITION_KEY_def dget_or_def)

lemma summary_time:
  assumes "table \<in> {''node_metrics_1m'', ''user_usage_5m'', ''node_usage_5m''}" and "dget PARTITION_KEY table = Some c"
  shows "last (snd (summary_key table (summary_row table (summary_params table row)))) = stored_value (to_db_value (rget row c))"
proof -
  note tabs = summary_tabs [OF assms(1)]
  have "c \<in> set (IDENTITY @ fst (dget_or SUMMARIES table ([], [])))"
    "last (snd (dget_or SUMMARIES table ([], []))) = c" "snd (dget_or SUMMARIES table ([], [])) \<noteq> []"
    using assms(2) key_columns tabs by auto
  then show ?thesis
    unfolding summary_key_def summary_row_def summary_params_def
    by (simp add: key_of_def last_map col_sql_row del: set_append map_append)
qed

lemma event_time:
  assumes "event_params row = Inr ps"
  shows "fst (event_item ps) ! 2 = stored_value (Plain (rget row ''ts''))"
  using assms
  by (auto simp: event_params_def event_item_def event_sql_key_def key_of_def col_def sql_row_def EVENT_COLUMNS_def
      dget_or_def rindex_def rget_def split: option.splits)

lemma fresh_stored:
  assumes "dget PARTITIONED table = Some days"
  shows "fresh_row ret now table (stored_value (to_db_value (VTime t))) \<longleftrightarrow> instant (cutoff now (days ret)) \<le> instant t"
    "fresh_row ret now table (stored_value (Plain (VTime t))) \<longleftrightarrow> instant (cutoff now (days ret)) \<le> instant t"
  using assms by (simp_all add: fresh_row_def)

text \<open>\<open>plan_partition\<close> either drops the row or keeps it; it never touches the rows themselves.\<close>

definition same_rows :: "plan \<Rightarrow> plan \<Rightarrow> bool" where
  "same_rows pl q \<longleftrightarrow> pl_snapshots q = pl_snapshots pl \<and> pl_live_nodes q = pl_live_nodes pl \<and>
     pl_hardware q = pl_hardware pl \<and> pl_events q = pl_events pl \<and> pl_summaries q = pl_summaries pl"

lemma plan_partition_cases:
  assumes "plan_partition ret now kind table row pl = Inr (keep, q)"
  shows "same_rows pl q \<and>
    (case (dget PARTITIONED table, dget PARTITION_KEY table) of
       (Some days, Some c) \<Rightarrow> \<exists>t. rget row c = VTime t \<and> keep = (instant (cutoff now (days ret)) \<le> instant t)
     | _ \<Rightarrow> keep)"
  using assms
  by (auto simp: plan_partition_def same_rows_def aware_time_def require_aware_def
      split: option.splits if_splits sum.splits pyval.splits)

lemma later_plan_same_rows: "later_plan ret now' pl pl' \<Longrightarrow> same_rows pl q \<Longrightarrow> same_rows pl' q' \<Longrightarrow> later_plan ret now' q q'"
  by (simp add: later_plan_def same_rows_def)

lemma cutoff_mono: "instant now \<le> instant now' \<Longrightarrow> instant (cutoff now n) \<le> instant (cutoff now' n)"
  by (simp add: cutoff_def)

definition partitioned_kind :: "string \<Rightarrow> bool" where
  "partitioned_kind kind \<longleftrightarrow> kind \<notin> {LIVE_PROCESSES, LIVE_NODE, NODE_HARDWARE}"

lemma table_of_kind:
  assumes "dget TABLE kind = Some table"
  shows "partitioned_kind kind \<longleftrightarrow> dget PARTITIONED table \<noteq> None \<and> dget PARTITION_KEY table \<noteq> None"
    "\<not> partitioned_kind kind \<longleftrightarrow> dget PARTITIONED table = None \<and> dget PARTITION_KEY table = None"
    "kind = COLLECTION_EVENT \<longleftrightarrow> table = ''collection_events''"
  using assms
  by (auto simp: TABLE_def PARTITIONED_def PARTITION_KEY_def partitioned_kind_def kind_defs split: if_splits)

text \<open>Whether \<open>plan_row\<close> would store the row in the plan made at \<open>now\<close>.\<close>

definition row_fresh :: "retention \<Rightarrow> datetime \<Rightarrow> string \<Rightarrow> row \<Rightarrow> bool" where
  "row_fresh ret now table row = (case (dget PARTITIONED table, dget PARTITION_KEY table) of
     (Some days, Some c) \<Rightarrow> (case rget row c of VTime t \<Rightarrow> instant (cutoff now (days ret)) \<le> instant t | _ \<Rightarrow> True) | _ \<Rightarrow> True)"

lemma row_fresh_summary:
  assumes "dget TABLE kind = Some table" "partitioned_kind kind" "kind \<noteq> COLLECTION_EVENT"
    and "dget PARTITION_KEY table = Some c" "rget row c = VTime t"
  shows "fresh_params ret now table (summary_params table row) = row_fresh ret now table row"
proof -
  have tab: "table \<in> {''node_metrics_1m'', ''user_usage_5m'', ''node_usage_5m''}"
    using summary_tables [OF assms(1)] assms(2,3) by (simp add: partitioned_kind_def)
  obtain days where d: "dget PARTITIONED table = Some days" using table_of_kind(1) [OF assms(1)] assms(2) by auto
  show ?thesis
    unfolding fresh_params_def summary_time [OF tab assms(4)] assms(5) fresh_stored(1) [OF d]
    by (simp add: row_fresh_def d assms(4,5))
qed

lemma row_fresh_event:
  assumes "event_params row = Inr ps" "rget row ''ts'' = VTime t"
  shows "fresh_event ret now ps = row_fresh ret now ''collection_events'' row"
proof -
  have d: "dget PARTITIONED ''collection_events'' = Some collection_events_days"
    "dget PARTITION_KEY ''collection_events'' = Some ''ts''"
    by (simp_all add: PARTITIONED_def PARTITION_KEY_def)
  show ?thesis
    unfolding fresh_event_def event_time [OF assms(1)] assms(2) fresh_stored(2) [OF d(1)]
    by (simp add: row_fresh_def d assms(2))
qed

lemma later_plan_snapshot:
  assumes "later_plan ret now' pl pl'" "plan_snapshot row pl = Inr q" "plan_snapshot row pl' = Inr q'"
  shows "later_plan ret now' q q'"
  using assms by (auto simp: later_plan_def plan_snapshot_def split: sum.splits option.splits if_splits)

lemma later_plan_row:
  assumes tab: "dget TABLE kind = Some table" and l: "later_plan ret now' pl pl'"
    and t: "case dget PARTITION_KEY table of None \<Rightarrow> True | Some c \<Rightarrow> \<exists>t. rget row c = VTime t"
    and q: "plan_row kind table row pl = Inr q" and q': "plan_row kind table row pl' = Inr q'"
    and fr: "row_fresh ret now' table row"
  shows "later_plan ret now' q q'"
proof (cases "partitioned_kind kind")
  case False
  with q q' l show ?thesis
    by (auto simp: partitioned_kind_def plan_row_def plan_live_node_def later_plan_snapshot
        split: list.splits if_splits intro: later_plan_snapshot)
      (auto simp: later_plan_def)
next
  case part: True
  show ?thesis
  proof (cases "kind = COLLECTION_EVENT")
    case True
    with tab have "table = ''collection_events''" using table_of_kind(3) by blast
    moreover from this t obtain ts where "rget row ''ts'' = VTime ts" by (auto simp: PARTITION_KEY_def)
    moreover obtain ps where "event_params row = Inr ps" using q True by (auto simp: plan_row_def kind_defs split: sum.splits)
    ultimately show ?thesis
      using q q' l fr True row_fresh_event by (auto simp: plan_row_def kind_defs later_plan_def)
  next
    case False
    from table_of_kind(1) [OF tab] part obtain c where c: "dget PARTITION_KEY table = Some c" by auto
    with t obtain ts where "rget row c = VTime ts" by auto
    from row_fresh_summary [OF tab part False c this] fr
    have "fresh_params ret now' table (summary_params table row)" by simp
    with q q' l part False show ?thesis
      by (auto simp: plan_row_def later_plan_def partitioned_kind_def dget_or_def)
  qed
qed

lemma later_plan_skip:
  assumes tab: "dget TABLE kind = Some table" and l: "later_plan ret now' pl pl'"
    and t: "dget PARTITION_KEY table = Some c" "rget row c = VTime ts"
    and q: "plan_row kind table row pl = Inr q" and fr: "\<not> row_fresh ret now' table row"
  shows "later_plan ret now' q pl'"
proof -
  have part: "partitioned_kind kind" using table_of_kind(2) [OF tab] t(1) by auto
  show ?thesis
  proof (cases "kind = COLLECTION_EVENT")
    case True
    with tab have "table = ''collection_events''" using table_of_kind(3) by blast
    moreover from this t have "rget row ''ts'' = VTime ts" by (simp add: PARTITION_KEY_def)
    moreover obtain ps where "event_params row = Inr ps" using q True by (auto simp: plan_row_def kind_defs split: sum.splits)
    ultimately show ?thesis
      using q l fr True row_fresh_event by (auto simp: plan_row_def kind_defs later_plan_def)
  next
    case False
    from row_fresh_summary [OF tab part False t] fr
    have "\<not> fresh_params ret now' table (summary_params table row)" by simp
    with q l part False show ?thesis
      by (auto simp: plan_row_def later_plan_def partitioned_kind_def dget_or_def)
  qed
qed

lemma row_fresh_keep:
  assumes "plan_partition ret now kind table row pl = Inr (keep, q)"
  shows "keep = row_fresh ret now table row"
    "case dget PARTITION_KEY table of None \<Rightarrow> True | Some c \<Rightarrow> dget PARTITIONED table \<noteq> None \<longrightarrow> (\<exists>t. rget row c = VTime t)"
  using plan_partition_cases [OF assms] by (auto simp: row_fresh_def split: option.splits)

lemma row_fresh_mono:
  assumes "row_fresh ret now' table row" and "instant now \<le> instant now'"
  shows "row_fresh ret now table row"
  using assms cutoff_mono [of now now'] order_trans
  by (fastforce simp: row_fresh_def split: option.splits pyval.splits)

lemma plan_loop_later:
  assumes "instant now \<le> instant now'"
    and "plan_loop ret now recs pl = Inr q" and "plan_loop ret now' recs pl' = Inr q'" and "later_plan ret now' pl pl'"
  shows "later_plan ret now' q q'"
  using assms(2-)
proof (induction recs arbitrary: pl pl')
  case Nil
  then show ?case by simp
next
  case (Cons rec recs)
  let ?k = "rkind rec" and ?row = "rrow rec"
  obtain table keep p keep' p' where tab: "dget TABLE ?k = Some table"
    and p: "plan_partition ret now ?k table ?row pl = Inr (keep, p)"
    and p': "plan_partition ret now' ?k table ?row pl' = Inr (keep', p')"
    using Cons.prems(1,2) by (auto split: option.splits sum.splits prod.splits)
  have l: "later_plan ret now' p p'"
    using later_plan_same_rows [OF Cons.prems(3)] plan_partition_cases [OF p] plan_partition_cases [OF p'] by blast
  have fr: "keep = row_fresh ret now table ?row" "keep' = row_fresh ret now' table ?row"
    using row_fresh_keep(1) p p' by blast+
  have tm: "case dget PARTITION_KEY table of None \<Rightarrow> True | Some c \<Rightarrow> \<exists>t. rget ?row c = VTime t"
    using row_fresh_keep(2) [OF p] table_of_kind [OF tab] by (auto split: option.splits)
  show ?case
  proof (cases keep)
    case False
    then have "\<not> keep'" using fr row_fresh_mono [OF _ assms(1)] by blast
    with False Cons.prems tab p p' l show ?thesis by (auto intro: Cons.IH)
  next
    case True
    then obtain p2 where p2: "plan_row ?k table ?row p = Inr p2" "plan_loop ret now recs p2 = Inr q"
      using Cons.prems(1) tab p by (auto split: sum.splits)
    show ?thesis
    proof (cases keep')
      case k': True
      then obtain p2' where p2': "plan_row ?k table ?row p' = Inr p2'" "plan_loop ret now' recs p2' = Inr q'"
        using Cons.prems(2) tab p' by (auto split: sum.splits)
      from later_plan_row [OF tab l tm p2(1) p2'(1)] fr k' show ?thesis
        using Cons.IH [OF p2(2) p2'(2)] by blast
    next
      case nk': False
      then have nf: "\<not> row_fresh ret now' table ?row" using fr by simp
      then obtain c where c: "dget PARTITION_KEY table = Some c" by (auto simp: row_fresh_def split: option.splits)
      with tm obtain ts where "rget ?row c = VTime ts" by auto
      from later_plan_skip [OF tab l c this p2(1) nf] Cons.IH [OF p2(2)] Cons.prems(2) tab p' nk' show ?thesis by auto
    qed
  qed
qed

lemma plan_summaries_wf:
  "plan_loop ret now recs pl = Inr q \<Longrightarrow> dwf (pl_summaries pl) \<Longrightarrow> dwf (pl_summaries q)"
proof (induction recs arbitrary: pl)
  case Nil
  then show ?case by simp
next
  case (Cons rec recs)
  have row: "dwf (pl_summaries q)" if "plan_row k t row p = Inr q" "dwf (pl_summaries p)" for k t row p q
    using that by (auto simp: plan_row_def plan_snapshot_def plan_live_node_def dwf_dset
        split: if_splits sum.splits option.splits list.splits)
  from Cons.prems obtain table keep p where p: "plan_partition ret now (rkind rec) table (rrow rec) pl = Inr (keep, p)"
    and tab: "dget TABLE (rkind rec) = Some table" by (auto split: option.splits sum.splits prod.splits)
  have "dwf (pl_summaries p)" using plan_partition_cases [OF p] Cons.prems(2) by (simp add: same_rows_def)
  with Cons p tab show ?case by (cases keep) (auto split: sum.splits intro: row)
qed

lemma summary_items_at:
  assumes "dwf d"
  shows "filter (\<lambda>kr. fst kr = (tb, k)) (concat (map (\<lambda>(table, pss). map (\<lambda>ps. (summary_key table (summary_row table ps), summary_row table ps)) pss) d)) =
    filter (\<lambda>kr. fst kr = (tb, k)) (map (\<lambda>ps. (summary_key tb (summary_row tb ps), summary_row tb ps)) (dget_or d tb []))"
  using assms
proof (induction d)
  case Nil
  then show ?case by (simp add: dget_or_def)
next
  case (Cons e d)
  obtain table pss where e: "e = (table, pss)" by (cases e)
  have fst_key: "fst (summary_key t r) = t" for t r by (simp add: summary_key_def)
  have other: "filter (\<lambda>kr. fst kr = (tb, k)) (map (\<lambda>ps. (summary_key table (summary_row table ps), summary_row table ps)) pss) = []"
    if "table \<noteq> tb" using that fst_key by (auto simp: filter_empty_conv prod_eq_iff)
  from Cons.prems e have wf: "dwf d" and nin: "table \<notin> fst ` set d" by (auto simp: dwf_def)
  have none: "dget_or d table [] = []" using nin by (simp add: dget_or_def flip: map_of_eq_None_iff)
  show ?case
    using Cons.IH [OF wf] e none other by (cases "table = tb") (auto simp: dget_or_def)
qed

lemma summaries_replay:
  assumes l: "later_plan ret now' pl pl'" and wf: "dwf (pl_summaries pl)" "dwf (pl_summaries pl')"
  shows "fold (upsert summary_upsert) (summary_items pl') (fold (upsert summary_upsert) (summary_items pl) m) =
    fold (upsert summary_upsert) (summary_items pl) m"
proof
  fix key :: "string \<times> dbval list"
  obtain tb k where key: "key = (tb, k)" by (cases key)
  let ?item = "\<lambda>ps. (summary_key tb (summary_row tb ps), summary_row tb ps)"
  let ?L = "dget_or (pl_summaries pl) tb []"
  have L': "dget_or (pl_summaries pl') tb [] = filter (fresh_params ret now' tb) ?L" using l by (simp add: later_plan_def)
  have "filter (\<lambda>kr. fst kr = (tb, k)) (map ?item (filter (fresh_params ret now' tb) xs)) =
      (if fresh_row ret now' tb (last k) then filter (\<lambda>kr. fst kr = (tb, k)) (map ?item xs) else [])" for xs
    by (induction xs) (auto simp: fresh_params_def summary_key_def)
  then have "filter (\<lambda>kr. fst kr = (tb, k)) (summary_items pl') =
      (if fresh_row ret now' tb (last k) then filter (\<lambda>kr. fst kr = (tb, k)) (summary_items pl) else [])"
    unfolding summary_items_def summary_items_at [OF wf(1)] summary_items_at [OF wf(2)] L' .
  then show "fold (upsert summary_upsert) (summary_items pl') (fold (upsert summary_upsert) (summary_items pl) m) key =
    fold (upsert summary_upsert) (summary_items pl) m key"
    unfolding key by (simp add: fold_upsert_at summaries.fold_again)
qed

definition snap_view :: "dbval option \<times> sqlrow list \<Rightarrow> (dbval \<times> sqlrow list) option" where
  "snap_view s = map_option (\<lambda>ts. (ts, snd s)) (fst s)"

definition snap_ranked :: "dbval \<times> sqlrow list \<Rightarrow> (dbval \<times> sqlrow list) option \<Rightarrow> (dbval \<times> sqlrow list) option" where
  "snap_ranked x s = (case s of None \<Rightarrow> Some x | Some v \<Rightarrow> Some (if sql_le (fst v) (fst x) then x else v))"

interpretation snapshots: ranked_upsert snap_ranked "\<lambda>x. x" "\<lambda>x _. x" "\<lambda>x. sql_key (fst x)" "\<lambda>x. sql_key (fst x)"
  by unfold_locales (auto simp: snap_ranked_def sql_le_rank)

lemma snap_view_upsert: "snap_view (snap_upsert x s) = snap_ranked x (snap_view s)"
  by (cases s) (auto simp: snap_view_def snap_upsert_def snap_ranked_def split: option.splits)

lemma snap_view_fold: "snap_view (fold snap_upsert xs s) = fold snap_ranked xs (snap_view s)"
  by (induction xs arbitrary: s) (simp_all add: snap_view_upsert)

lemma snap_view_inj: "snap_view s = snap_view s' \<Longrightarrow> snap_view s \<noteq> None \<Longrightarrow> s = s'"
  by (cases s; cases s') (auto simp: snap_view_def)

lemma snap_upsert_absorbs: "absorbing snap_upsert"
  unfolding absorbing_def
proof (intro allI)
  fix xs :: "(dbval \<times> sqlrow list) list" and s
  show "fold snap_upsert xs (fold snap_upsert xs s) = fold snap_upsert xs s"
  proof (cases xs)
    case (Cons y ys)
    have "fold snap_ranked xs v \<noteq> None" for v
      using snapshots.fold_Some [of ys] Cons by (cases v) (auto simp: snap_ranked_def)
    then show ?thesis by (intro snap_view_inj) (simp_all add: snap_view_fold snapshots.fold_again)
  qed simp
qed

lemma commit_plan_again:
  assumes l: "later_plan ret now' pl pl'" and wf: "dwf (pl_summaries pl)" "dwf (pl_summaries pl')"
  shows "commit_plan pl' (commit_plan pl t) = commit_plan pl t"
proof -
  have ev: "map event_item (pl_events pl') =
      filter (\<lambda>kr. fresh_row ret now' ''collection_events'' (fst kr ! 2)) (map event_item (pl_events pl))"
    using l by (simp add: later_plan_def filter_map comp_def fresh_event_def [abs_def])
  have same: "pl_hardware pl' = pl_hardware pl" "pl_live_nodes pl' = pl_live_nodes pl" "pl_snapshots pl' = pl_snapshots pl"
    using l by (simp_all add: later_plan_def)
  have nodes: "node_items pl' = node_items pl" using same by (simp add: node_items_def)
  have all: "xs = filter (\<lambda>kr. True) xs" for xs :: "('x \<times> 'y) list" by simp
  note again = table_replay [OF _ all]
  show ?thesis
    unfolding commit_plan_def Let_def same nodes
    using summaries_replay [OF assms] table_replay [OF once.absorbs ev]
    by (simp add: again [OF once.absorbs] again [OF node_upsert_absorbs] again [OF live_nodes.absorbs]
        again [OF snap_upsert_absorbs])
qed

end
