(* ===== verification/Writer_Props.thy ===== *)
theory Writer_Props
  imports Upserts
begin

text \<open>
  Properties of \<open>DatabaseWriter.write\<close>, and of \<open>BufferedWriter\<close> on top of it: the writer's model
  meets the contract \<open>tx_writer\<close> that the buffered writer relies on.
\<close>

definition commit :: "writer_cfg \<Rightarrow> nm_record list \<Rightarrow> datetime \<Rightarrow> tables \<Rightarrow> tables" where
  "commit cfg recs now t = (case make_plan (dc_retention cfg) recs now of Inl _ \<Rightarrow> t | Inr pl \<Rightarrow> commit_plan pl t)"

lemma next_fault_frame: "next_fault db = (f, db') \<Longrightarrow> pg_tables db' = pg_tables db \<and> pg_catalog db' = pg_catalog db"
  by (auto simp: next_fault_def split: list.splits)

lemma connection_frame: "connection db = (e, db') \<Longrightarrow> pg_tables db' = pg_tables db \<and> pg_catalog db' = pg_catalog db"
  by (auto simp: connection_def split: if_splits prod.splits fault.splits dest: next_fault_frame)

lemma discard_frame [simp]: "pg_tables (discard_if_unusable force dead db) = pg_tables db"
  by (simp add: discard_if_unusable_def)

lemma try_apply_cases:
  assumes "try_apply cfg pl db = (r, db')"
  shows "pg_catalog db' = pg_catalog db \<and>
    (case r of Inr w \<Rightarrow> pg_tables db' = commit_plan pl (pg_tables db)
     | Inl (e, dead) \<Rightarrow> pg_tables db' = pg_tables db \<or> e = lost_connection \<and> pg_tables db' = commit_plan pl (pg_tables db))"
  using assms
  by (auto simp: try_apply_def Let_def split: prod.splits fault.splits sum.splits if_splits
      dest!: next_fault_frame apply_plan_commits)

lemma create_partitions_frame:
  "create_partitions cfg pl db = (r, db') \<Longrightarrow> pg_tables db' = pg_tables db"
  by (auto simp: create_partitions_def Let_def split: prod.splits fault.splits sum.splits if_splits
      dest!: next_fault_frame)

lemma lost_connection_outage [simp]: "is_unavailable lost_connection" "\<not> is_missing_partition lost_connection"
  by (simp_all add: lost_connection_def is_missing_partition_def startswith_def)

lemma write_planned_cases:
  assumes "write_planned cfg pl db = (r, db')"
  shows "case r of Inr w \<Rightarrow> pg_tables db' = commit_plan pl (pg_tables db)
     | Inl (e, dead) \<Rightarrow> pg_tables db' = pg_tables db \<or> is_unavailable e \<and> pg_tables db' = commit_plan pl (pg_tables db)"
proof -
  obtain c db1 where c: "connection db = (c, db1)" by force
  have t1: "pg_tables db1 = pg_tables db" using connection_frame [OF c] by simp
  obtain r2 db2 where a: "try_apply cfg pl db1 = (r2, db2)" by force
  obtain r3 db3 where p: "create_partitions cfg pl db2 = (r3, db3)" by force
  obtain r4 db4 where b: "try_apply cfg pl db3 = (r4, db4)" by force
  note a' = try_apply_cases [OF a] and b' = try_apply_cases [OF b]
  note t3 = create_partitions_frame [OF p]
  show ?thesis
    using assms c a p b a' b' t1 t3
    by (auto simp: write_planned_def split: option.splits sum.splits if_splits)
qed

lemma dw_write_cases:
  "case dw_write cfg db recs now of
     (Inr ok, db') \<Rightarrow> pg_tables db' = commit cfg recs now (pg_tables db)
   | (Inl e, db') \<Rightarrow> pg_tables db' = pg_tables db \<or>
       (\<exists>m. e = DatabaseUnavailableExn m) \<and> pg_tables db' = commit cfg recs now (pg_tables db)"
proof (cases "make_plan (dc_retention cfg) recs now")
  case (Inl e)
  then show ?thesis by (simp add: dw_write_def)
next
  case (Inr pl)
  obtain r db1 where w: "write_planned cfg pl db = (r, db1)" by force
  with write_planned_cases [OF w] Inr show ?thesis
    by (auto simp: dw_write_def commit_def Let_def split: sum.splits prod.splits)
qed

lemma dw_ping_tables: "dw_ping db = (ok, db') \<Longrightarrow> pg_tables db' = pg_tables db"
  by (auto simp: dw_ping_def split: prod.splits option.splits fault.splits dest!: connection_frame next_fault_frame)

interpretation dw: tx_writer "dw_ops cfg" pg_tables "commit cfg" for cfg
proof
  fix db rs now b e db' ok
  note cs = dw_write_cases [where cfg = cfg and db = db and recs = rs and now = now]
  show "pg_tables db' = commit cfg rs now (pg_tables db)" if "w_write (dw_ops cfg) db rs now = (Wrote b, db')"
    using that cs by (auto simp: dw_ops_def split: prod.splits sum.splits db_exn.splits)
  show "pg_tables db' = pg_tables db \<or> pg_tables db' = commit cfg rs now (pg_tables db)"
    if "w_write (dw_ops cfg) db rs now = (Unavailable e, db')"
    using that cs by (auto simp: dw_ops_def split: prod.splits sum.splits db_exn.splits)
  show "pg_tables db' = pg_tables db" if "w_write (dw_ops cfg) db rs now = (Rejected e, db')"
    using that cs by (auto simp: dw_ops_def split: prod.splits sum.splits db_exn.splits)
  show "pg_tables db' = pg_tables db" if "w_ping (dw_ops cfg) db = (ok, db')"
    using that by (auto simp: dw_ops_def dest: dw_ping_tables)
qed

lemma commit_again:
  assumes "instant now \<le> instant now'"
  shows "commit cfg recs now' (commit cfg recs now t) = commit cfg recs now t \<or>
    is_err (make_plan (dc_retention cfg) recs now)"
proof (cases "make_plan (dc_retention cfg) recs now")
  case (Inl e)
  then show ?thesis by simp
next
  case (Inr pl)
  show ?thesis
  proof (cases "make_plan (dc_retention cfg) recs now'")
    case (Inl e)
    then show ?thesis by (simp add: commit_def)
  next
    case p': (Inr pl')
    from Inr p' have lp: "plan_loop (dc_retention cfg) now recs empty_plan = Inr pl"
      "plan_loop (dc_retention cfg) now' recs empty_plan = Inr pl'"
      by (auto simp: make_plan_def require_aware_def split: if_splits list.splits)
    have "later_plan (dc_retention cfg) now' empty_plan empty_plan"
      by (simp add: later_plan_def empty_plan_def dget_or_def)
    from plan_loop_later [OF assms lp this] plan_summaries_wf [OF lp(1)] plan_summaries_wf [OF lp(2)]
    show ?thesis by (auto simp: commit_def Inr p' empty_plan_def intro!: commit_plan_again)
  qed
qed

subsection \<open>Live state moves forward\<close>

lemma commit_forward:
  assumes "t' = commit cfg recs now t"
  shows "tb_snapshots t k = Some v \<Longrightarrow> sql_key v = Some a \<Longrightarrow>
      \<exists>v' b. tb_snapshots t' k = Some v' \<and> sql_key v' = Some b \<and> a \<le> b"
    and "tb_live_nodes t k = Some r \<Longrightarrow> sql_key (r ''updated_at'') = Some a \<Longrightarrow>
      \<exists>r' b. tb_live_nodes t' k = Some r' \<and> sql_key (r' ''updated_at'') = Some b \<and> a \<le> b"
    and "tb_summaries t sk = Some s \<Longrightarrow> sql_key (col s ''sample_count'') = Some a \<Longrightarrow>
      \<exists>s' b. tb_summaries t' sk = Some s' \<and> sql_key (col s' ''sample_count'') = Some b \<and> a \<le> b"
proof -
  have c: "t' = t \<or> (\<exists>pl. t' = commit_plan pl t)"
    using assms by (auto simp: commit_def split: sum.splits)
  show "\<exists>r' b. tb_live_nodes t' k = Some r' \<and> sql_key (r' ''updated_at'') = Some b \<and> a \<le> b"
    if "tb_live_nodes t k = Some r" "sql_key (r ''updated_at'') = Some a"
    using c live_nodes.table_forward [where m = "tb_live_nodes t", OF that] that
    by (auto simp: commit_plan_def Let_def)
  show "\<exists>s' b. tb_summaries t' sk = Some s' \<and> sql_key (col s' ''sample_count'') = Some b \<and> a \<le> b"
    if "tb_summaries t sk = Some s" "sql_key (col s ''sample_count'') = Some a"
    using c summaries.table_forward [where m = "tb_summaries t", OF that] that
    by (auto simp: commit_plan_def Let_def)
  show "\<exists>v' b. tb_snapshots t' k = Some v' \<and> sql_key v' = Some b \<and> a \<le> b"
    if v: "tb_snapshots t k = Some v" "sql_key v = Some a"
  proof -
    have "\<exists>v' b. fst (fold (upsert snap_upsert) xs (\<lambda>k. (tb_snapshots t k, tb_processes t k)) k) = Some v' \<and>
        sql_key v' = Some b \<and> a \<le> b" for xs
    proof -
      let ?ys = "map snd (filter (\<lambda>kr. fst kr = k) xs)"
      let ?s = "fold snap_upsert ?ys (tb_snapshots t k, tb_processes t k)"
      have "snap_view ?s = fold snap_ranked ?ys (Some (v, tb_processes t k))"
        by (simp add: snap_view_fold v) (simp add: snap_view_def)
      moreover obtain w where w: "fold snap_ranked ?ys (Some (v, tb_processes t k)) = Some w"
        using snapshots.fold_Some by blast
      ultimately have "fst ?s = Some (fst w)" by (auto simp: snap_view_def)
      with snapshots.fold_rank [OF w] v show ?thesis by (auto simp: fold_upsert_at)
    qed
    with c v show ?thesis by (auto simp: commit_plan_def Let_def)
  qed
qed

subsection \<open>A missing partition is created\<close>

text \<open>Every attached partition is named after its table and a month.\<close>

definition catalog_wf :: "catalog \<Rightarrow> bool" where
  "catalog_wf cat \<longleftrightarrow> (\<forall>(table, name) \<in> set cat. \<exists>s. name = table @ month_suffix s)"

definition months_in :: "catalog \<Rightarrow> plan \<Rightarrow> bool" where
  "months_in cat pl \<longleftrightarrow> fst ` set (pl_months pl) \<subseteq> set cat"

definition covers :: "catalog \<Rightarrow> plan \<Rightarrow> bool" where
  "covers cat pl \<longleftrightarrow> (\<forall>(table, pss) \<in> set (pl_summaries pl). \<forall>ps \<in> set pss. in_partition cat table (summary_row table ps)) \<and>
     (\<forall>ps \<in> set (pl_events pl). in_partition cat ''collection_events'' (sql_row EVENT_COLUMNS ps))"

definition months_ok :: "plan \<Rightarrow> bool" where
  "months_ok pl \<longleftrightarrow> (\<forall>cat. months_in cat pl \<longrightarrow> covers cat pl) \<and>
     (\<forall>((table, name), ts) \<in> set (pl_months pl). partition_name table ts = Inr name)"

lemma length_month_suffix [simp]: "length (month_suffix s) = 9"
  by (simp add: month_suffix_def)

lemma partition_name_utc:
  "partition_name table ts = Inr name \<Longrightarrow> partition_name table (utc (instant ts)) = Inr name"
  by (auto simp: partition_name_def month_floor_def require_aware_def utc_date_def split: sum.splits if_splits)
    (auto simp: utc_def)

lemma set_dset_cases: "x \<in> set (dset d k v) \<Longrightarrow> x \<in> set d \<or> x = (k, v)"
  by (induction d k v rule: dset.induct) (auto split: if_splits)

lemma set_dget_or: "x \<in> set (dget_or d k []) \<Longrightarrow> \<exists>xs. (k, xs) \<in> set d \<and> x \<in> set xs"
  by (cases "dget d k") (auto simp: dget_or_def dest: map_of_SomeD)

lemma plan_partition_months:
  assumes "plan_partition ret now kind table row pl = Inr (True, q)" and "dget PARTITIONED table \<noteq> None"
    and "dget PARTITION_KEY table = Some c"
  shows "\<exists>t name. rget row c = VTime t \<and> partition_name table t = Inr name \<and>
    pl_months q = dsetdefault (pl_months pl) (table, name) t \<and> same_rows pl q"
  using assms plan_partition_cases [OF assms(1)]
  by (auto simp: plan_partition_def aware_time_def require_aware_def split: sum.splits if_splits pyval.splits)

lemma in_partition_summary:
  assumes "dget TABLE kind = Some table" "partitioned_kind kind" "kind \<noteq> COLLECTION_EVENT"
    and "dget PARTITION_KEY table = Some c" "rget row c = VTime t" "partition_name table t = Inr name" "(table, name) \<in> set cat"
  shows "in_partition cat table (summary_row table (summary_params table row))"
proof -
  have tab: "table \<in> {''node_metrics_1m'', ''user_usage_5m'', ''node_usage_5m''}"
    using summary_tables [OF assms(1)] assms(2,3) by (simp add: partitioned_kind_def)
  have "c \<in> set (IDENTITY @ fst (dget_or SUMMARIES table ([], [])))"
    using summary_tabs [OF tab] key_columns assms(4) by auto
  then have "col (summary_row table (summary_params table row)) c = stored_value (to_db_value (rget row c))"
    unfolding summary_row_def summary_params_def by (rule col_sql_row)
  then show ?thesis using assms(4-7) by (simp add: in_partition_def partition_name_utc)
qed

lemma in_partition_event:
  assumes "event_params row = Inr ps" "rget row ''ts'' = VTime t" "partition_name ''collection_events'' t = Inr name"
    and "(''collection_events'', name) \<in> set cat"
  shows "in_partition cat ''collection_events'' (sql_row EVENT_COLUMNS ps)"
proof -
  have "col (sql_row EVENT_COLUMNS ps) ''ts'' = stored_value (Plain (rget row ''ts''))"
    using assms(1) by (auto simp: event_params_def col_def sql_row_def EVENT_COLUMNS_def dget_or_def rindex_def rget_def
        split: option.splits)
  moreover have "dget PARTITION_KEY ''collection_events'' = Some ''ts''" by (simp add: PARTITION_KEY_def)
  ultimately show ?thesis using assms(2-) by (simp add: in_partition_def partition_name_utc)
qed

lemma plan_row_rest:
  assumes "plan_row kind table row p = Inr q" "\<not> partitioned_kind kind"
  shows "pl_months q = pl_months p \<and> pl_summaries q = pl_summaries p \<and> pl_events q = pl_events p"
  using assms by (auto simp: plan_row_def plan_snapshot_def plan_live_node_def partitioned_kind_def
      split: if_splits sum.splits option.splits list.splits)

lemma months_ok_step:
  assumes ok: "months_ok pl" and tab: "dget TABLE kind = Some table" and part: "partitioned_kind kind"
    and p: "plan_partition ret now kind table row pl = Inr (True, p)" and q: "plan_row kind table row p = Inr q"
  shows "months_ok q"
proof -
  obtain c where c: "dget PARTITION_KEY table = Some c" "dget PARTITIONED table \<noteq> None"
    using table_of_kind(1) [OF tab] part by auto
  from plan_partition_months [OF p c(2,1)] obtain t name where t: "rget row c = VTime t" "partition_name table t = Inr name"
    and m: "pl_months p = dsetdefault (pl_months pl) (table, name) t" and sr: "same_rows pl p" by blast
  have mq: "pl_months q = pl_months p" using q by (auto simp: plan_row_def plan_snapshot_def plan_live_node_def
        split: if_splits sum.splits option.splits list.splits)
  have sub: "months_in cat pl \<and> (table, name) \<in> set cat" if "months_in cat q" for cat
    using that by (auto simp: months_in_def mq m dsetdefault_def split: option.splits dest: map_of_SomeD)
      (metis fst_conv image_subset_iff keys_dset map_of_SomeD subset_insertI)+
  have names: "\<forall>((table, name), ts) \<in> set (pl_months q). partition_name table ts = Inr name"
    using ok t(2) by (auto simp: months_ok_def mq m dsetdefault_def split: option.splits dest!: set_dset_cases)
  have cov: "covers cat pl" if "months_in cat q" for cat using ok sub [OF that] by (auto simp: months_ok_def)
  have "covers cat q" if mi: "months_in cat q" for cat
  proof (cases "kind = COLLECTION_EVENT")
    case True
    with tab have tb: "table = ''collection_events''" using table_of_kind(3) by blast
    with c(1) have tc: "c = ''ts''" by (simp add: PARTITION_KEY_def)
    obtain ps where ps: "event_params row = Inr ps" "pl_events q = pl_events p @ [ps]" "pl_summaries q = pl_summaries p"
      using q True by (auto simp: plan_row_def kind_defs split: sum.splits)
    have "in_partition cat ''collection_events'' (sql_row EVENT_COLUMNS ps)"
      using in_partition_event [OF ps(1)] t tb tc sub [OF mi] by blast
    with cov [OF mi] ps(2,3) sr show ?thesis by (auto simp: covers_def same_rows_def)
  next
    case False
    have ps: "pl_events q = pl_events p"
      "pl_summaries q = dset (pl_summaries p) table (dget_or (pl_summaries p) table [] @ [summary_params table row])"
      using q False part by (auto simp: plan_row_def partitioned_kind_def)
    have "in_partition cat table (summary_row table (summary_params table row))"
      using in_partition_summary [OF tab part False c(1) t] sub [OF mi] by blast
    with cov [OF mi] ps sr show ?thesis
      by (fastforce simp: covers_def same_rows_def dest!: set_dset_cases set_dget_or)
  qed
  with names show ?thesis by (simp add: months_ok_def)
qed

lemma plan_loop_months: "plan_loop ret now recs pl = Inr q \<Longrightarrow> months_ok pl \<Longrightarrow> months_ok q"
proof (induction recs arbitrary: pl)
  case Nil
  then show ?case by simp
next
  case (Cons rec recs)
  from Cons.prems(1) obtain table keep p where tab: "dget TABLE (rkind rec) = Some table"
    and p: "plan_partition ret now (rkind rec) table (rrow rec) pl = Inr (keep, p)"
    by (auto split: option.splits sum.splits prod.splits)
  show ?case
  proof (cases keep)
    case False
    then have "pl_months p = pl_months pl" "same_rows pl p"
      using p plan_partition_cases [OF p] by (auto simp: plan_partition_def split: option.splits sum.splits if_splits)
    then have "months_ok p" using Cons.prems(2) by (simp add: months_ok_def months_in_def covers_def same_rows_def)
    with Cons False tab p show ?thesis by auto
  next
    case True
    with Cons.prems(1) tab p obtain p2 where p2: "plan_row (rkind rec) table (rrow rec) p = Inr p2" "plan_loop ret now recs p2 = Inr q"
      by (auto split: sum.splits)
    have "months_ok p2"
    proof (cases "partitioned_kind (rkind rec)")
      case part: True
      from p True have "plan_partition ret now (rkind rec) table (rrow rec) pl = Inr (True, p)" by simp
      from months_ok_step [OF Cons.prems(2) tab part this p2(1)] show ?thesis .
    next
      case False
      then have "p = pl" using p table_of_kind(2) [OF tab] by (auto simp: plan_partition_def)
      with plan_row_rest [OF p2(1) False] Cons.prems(2) show ?thesis by (simp add: months_ok_def months_in_def covers_def)
    qed
    with Cons.IH p2(2) show ?thesis by blast
  qed
qed

lemma ensure_all_attaches:
  assumes "ensure_all locked todo cat = Inr (created, cat')" and "catalog_wf cat"
    and "\<forall>(table, ts) \<in> set todo. \<exists>s. partition_name table ts = Inr (table @ month_suffix s)"
  shows "catalog_wf cat' \<and> (\<forall>(table, ts) \<in> set todo. \<forall>name. partition_name table ts = Inr name \<longrightarrow> (table, name) \<in> set cat')"
proof -
  have wf: "catalog_wf cat'" using assms
  proof (induction todo arbitrary: cat created)
    case Nil
    then show ?case by simp
  next
    case (Cons p todo)
    obtain table ts where p: "p = (table, ts)" by (cases p)
    with Cons.prems(1) obtain made cat1 created1 where e: "ensure_partition locked table ts cat = Inr (made, cat1)"
      "ensure_all locked todo cat1 = Inr (created1, cat')" by (auto split: sum.splits)
    from ensure_partition_spec [OF e(1)] Cons.prems(2,3) p have "catalog_wf cat1"
      by (auto simp: catalog_wf_def split: if_splits)
    with Cons.IH [OF e(2)] Cons.prems(3) show ?case by simp
  qed
  have "(table, name) \<in> set cat'" if "(table, ts) \<in> set todo" "partition_name table ts = Inr name" for table ts name
  proof -
    from that ensure_all_spec [OF assms(1)] obtain tb where tb: "(tb, name) \<in> set cat'" by force
    from that assms(3) obtain s where s: "name = table @ month_suffix s" by fastforce
    from wf tb obtain s' where "name = tb @ month_suffix s'" by (auto simp: catalog_wf_def)
    with s have "tb = table" by simp
    with tb show ?thesis by simp
  qed
  with wf show ?thesis by auto
qed

lemma exec_list_error:
  "exec_list f table ps tw = Inl e \<Longrightarrow> \<exists>p \<in> set ps. \<exists>t. f p t = Inl e"
  by (induction ps arbitrary: tw) (fastforce split: sum.splits prod.splits)+

lemma exec_summaries_error:
  "exec_summaries acc cat d tw = Inl e \<Longrightarrow>
   \<exists>table pss ps t. (table, pss) \<in> set d \<and> ps \<in> set pss \<and> exec_summary acc cat table ps t = Inl e"
proof (induction d arbitrary: tw)
  case Nil
  then show ?case by simp
next
  case (Cons x d)
  obtain table pss where x: "x = (table, pss)" by (cases x)
  show ?case
  proof (cases "exec_list (exec_summary acc cat table) table pss tw")
    case (Inl a)
    with Cons.prems x have "exec_list (exec_summary acc cat table) table pss tw = Inl e" by simp
    from exec_list_error [OF this] x show ?thesis by auto
  next
    case (Inr tw')
    with Cons.prems x Cons.IH [of tw'] show ?thesis by auto
  qed
qed

lemma not_missing [simp]: "\<not> is_missing_partition (row_rejected table)" "\<not> is_missing_partition (PyExn x)"
  "\<not> is_missing_partition lock_timeout_exn" "\<not> is_missing_partition (DatabaseUnavailableExn m)"
  by (simp_all add: is_missing_partition_def row_rejected_def lock_timeout_exn_def)

lemma other_errors:
  "write_hardware acc row t = Inl e \<Longrightarrow> \<not> is_missing_partition e"
  "write_live_node acc row t = Inl e \<Longrightarrow> \<not> is_missing_partition e"
  "write_snapshot acc row t = Inl e \<Longrightarrow> \<not> is_missing_partition e"
  by (auto simp: write_hardware_def write_live_node_def write_snapshot_def exec_node_def Let_def
      split: if_splits sum.splits option.splits)

lemma apply_covered:
  assumes "apply_plan acc cat pl t = Inl e" and "covers cat pl"
  shows "\<not> is_missing_partition e"
proof -
  have ev: "\<not> is_missing_partition e" if "exec_event acc cat ps t = Inl e" "ps \<in> set (pl_events pl)" for ps t
    using that assms(2) by (auto simp: exec_event_def covers_def server_check_def Let_def split: if_splits option.splits)
  have su: "\<not> is_missing_partition e" if "exec_summary acc cat table ps t = Inl e" "(table, pss) \<in> set (pl_summaries pl)" "ps \<in> set pss"
    for table ps pss t
    using that assms(2) by (auto simp: exec_summary_def covers_def server_check_def Let_def split: if_splits option.splits)
  show ?thesis
    using assms(1) by (auto simp: apply_plan_def sbind_def split: sum.splits
        dest!: exec_list_error exec_summaries_error) (use ev su other_errors in blast)+
qed

lemma partition_name_form: "partition_name table ts = Inr name \<Longrightarrow> \<exists>s. name = table @ month_suffix s"
  by (auto simp: partition_name_def split: sum.splits)

lemma create_partitions_covers:
  assumes "create_partitions cfg pl db = (Inr created, db')" and "months_ok pl" and "catalog_wf (pg_catalog db)"
  shows "covers (pg_catalog db') pl"
proof -
  let ?todo = "map (\<lambda>((table, name), ts). (table, ts)) (sort_key fst (pl_months pl))"
  from assms(1) obtain cat where e: "ensure_all (dc_locked cfg) ?todo (pg_catalog db) = Inr (created, cat)"
    and c: "pg_catalog db' = cat"
    by (auto simp: create_partitions_def Let_def split: prod.splits fault.splits sum.splits if_splits dest!: next_fault_frame)
  have names: "partition_name table ts = Inr name" if "((table, name), ts) \<in> set (pl_months pl)" for table name ts
    using assms(2) that by (auto simp: months_ok_def)
  have todo: "set ?todo = (\<lambda>((table, name), ts). (table, ts)) ` set (pl_months pl)" by simp
  have "\<forall>(table, ts) \<in> set ?todo. \<exists>s. partition_name table ts = Inr (table @ month_suffix s)"
    unfolding todo using names partition_name_form by fastforce
  from ensure_all_attaches [OF e assms(3) this] have "months_in cat pl"
    unfolding todo months_in_def using names by fastforce
  with assms(2) c show ?thesis by (simp add: months_ok_def)
qed

lemma no_faults:
  "pg_faults db = [] \<Longrightarrow> next_fault db = (NoFault, db)"
  "pg_faults db = [] \<Longrightarrow> \<exists>db'. connection db = (None, db') \<and> pg_faults db' = [] \<and> pg_catalog db' = pg_catalog db"
  by (simp_all add: next_fault_def connection_def)

lemma write_planned_not_missing:
  assumes "write_planned cfg pl db = (Inl (e, dead), db')" and "pg_faults db = []"
    and "catalog_wf (pg_catalog db)" and "months_ok pl"
  shows "\<not> is_missing_partition e"
proof -
  obtain db1 where c: "connection db = (None, db1)" "pg_faults db1 = []" "pg_catalog db1 = pg_catalog db"
    using no_faults(2) [OF assms(2)] by blast
  obtain r2 db2 where a: "try_apply cfg pl db1 = (r2, db2)" by force
  obtain r3 db3 where p: "create_partitions cfg pl db2 = (r3, db3)" by force
  obtain r4 db4 where b: "try_apply cfg pl db3 = (r4, db4)" by force
  have f2: "pg_faults db2 = []" "pg_catalog db2 = pg_catalog db"
    using a c no_faults(1) [of db1] by (auto simp: try_apply_def Let_def split: sum.splits prod.splits)
  have f3: "pg_faults db3 = []"
    using p f2(1) no_faults(1) [of db2] by (auto simp: create_partitions_def Let_def split: sum.splits prod.splits)
  have e3: "\<not> is_missing_partition x" if "r3 = Inl (x, d)" for x d
    using p that f2(1) no_faults(1) [of db2]
    by (auto simp: create_partitions_def Let_def split: sum.splits prod.splits if_splits)
  have e4: "\<not> is_missing_partition x" if "r3 = Inr cr" "r4 = Inl (x, d)" for cr x d
  proof -
    have "covers (pg_catalog db3) pl"
      using create_partitions_covers [of cfg pl db2 cr db3] p that(1) assms(3,4) f2(2) by simp
    with b that(2) f3 no_faults(1) [of db3] show ?thesis
      by (auto simp: try_apply_def Let_def split: sum.splits prod.splits dest: apply_covered)
  qed
  show ?thesis
    using assms(1) c a p b e3 e4 by (auto simp: write_planned_def split: sum.splits if_splits)
qed

subsection \<open>Properties\<close>

text \<open>
  C7.  One batch is one transaction.  A successful \<open>write\<close> leaves exactly the tables that the plan
  of the batch produces; any error leaves the tables untouched, except that an outage may have hit
  after the commit.
\<close>

theorem write_is_atomic:
  "case dw_write cfg db recs now of
     (Inr ok, db') \<Rightarrow> pg_tables db' = commit cfg recs now (pg_tables db)
   | (Inl e, db') \<Rightarrow> pg_tables db' = pg_tables db \<or>
       is_unavailable e \<and> pg_tables db' = commit cfg recs now (pg_tables db)"
  using dw_write_cases [where cfg = cfg and db = db and recs = recs and now = now]
  by (auto split: prod.splits sum.splits)

text \<open>
  C1.  Replaying a batch changes nothing: once a batch was committed (with or without an
  acknowledgement), a later \<open>write\<close> of the same batch to the same tables, at any later time and
  with any outcome, leaves the tables as they are.
\<close>

theorem write_replay_idempotent:
  assumes "pg_tables db1 = commit cfg recs now (pg_tables db)" and "\<not> is_err (make_plan (dc_retention cfg) recs now)"
    and "instant now \<le> instant now'" and "pg_tables db2 = pg_tables db1"
  shows "pg_tables (snd (dw_write cfg db2 recs now')) = pg_tables db1"
  using commit_again [OF assms(3), of cfg recs "pg_tables db"] assms
    dw_write_cases [where cfg = cfg and db = db2 and recs = recs and now = now']
  by (auto split: prod.splits sum.splits)

definition ex_cfg :: writer_cfg where
  "ex_cfg = \<lparr>dc_retention = ex_retention, dc_accepts = (\<lambda>_ _. True), dc_locked = (\<lambda>_. False)\<rparr>"

definition ex_live :: "int \<Rightarrow> nm_record" where
  "ex_live ts = Record LIVE_PROCESSES [(''system'', VStr ''polaris''), (''node'', VStr ''uan1''),
     (''ts'', VTime (utc ts)), (''processes'', VList [])]"

definition ex_pg :: "fault list \<Rightarrow> pg" where
  "ex_pg faults = \<lparr>pg_tables = empty_tables, pg_catalog = [], pg_conn = False, pg_faults = faults\<rparr>"

lemma ex_live_plan: "\<not> is_err (make_plan ret [ex_live ts] (utc now))"
  by (simp add: make_plan_def ex_live_def TABLE_def kind_defs plan_partition_def PARTITIONED_def plan_row_def
      plan_snapshot_def empty_plan_def rindex_def)

theorem write_replay_idempotent_witness:
  "pg_tables (snd (dw_write ex_cfg ((ex_pg [])\<lparr>pg_tables := commit ex_cfg [ex_live 5] (utc 10) empty_tables\<rparr>) [ex_live 5] (utc 20)))
   = commit ex_cfg [ex_live 5] (utc 10) empty_tables"
  using write_replay_idempotent [of "(ex_pg [])\<lparr>pg_tables := commit ex_cfg [ex_live 5] (utc 10) empty_tables\<rparr>"
      ex_cfg "[ex_live 5]" "utc 10" "ex_pg []" "utc 20"
      "(ex_pg [])\<lparr>pg_tables := commit ex_cfg [ex_live 5] (utc 10) empty_tables\<rparr>"] ex_live_plan
  by (simp add: ex_pg_def)

text \<open>
  Live state only moves forward, and a summary is never replaced by one of fewer samples:
  whatever a \<open>write\<close> does, the snapshot time of a node, the update time of its live row and the
  sample count of a stored summary never decrease.
\<close>

theorem write_moves_forward:
  assumes "dw_write cfg db recs now = (res, db')"
  shows "(\<forall>k v a. tb_snapshots (pg_tables db) k = Some v \<and> sql_key v = Some a \<longrightarrow>
      (\<exists>v' b. tb_snapshots (pg_tables db') k = Some v' \<and> sql_key v' = Some b \<and> a \<le> b)) \<and>
    (\<forall>k r a. tb_live_nodes (pg_tables db) k = Some r \<and> sql_key (r ''updated_at'') = Some a \<longrightarrow>
      (\<exists>r' b. tb_live_nodes (pg_tables db') k = Some r' \<and> sql_key (r' ''updated_at'') = Some b \<and> a \<le> b)) \<and>
    (\<forall>k s a. tb_summaries (pg_tables db) k = Some s \<and> sql_key (col s ''sample_count'') = Some a \<longrightarrow>
      (\<exists>s' b. tb_summaries (pg_tables db') k = Some s' \<and> sql_key (col s' ''sample_count'') = Some b \<and> a \<le> b))"
proof -
  have "pg_tables db' = pg_tables db \<or> pg_tables db' = commit cfg recs now (pg_tables db)"
    using dw_write_cases [where cfg = cfg and db = db and recs = recs and now = now] assms
    by (auto split: prod.splits sum.splits)
  then show ?thesis
  proof
    assume "pg_tables db' = pg_tables db"
    then show ?thesis by auto
  next
    assume "pg_tables db' = commit cfg recs now (pg_tables db)"
    from commit_forward [OF this] show ?thesis by blast
  qed
qed

theorem write_moves_forward_witness:
  "\<exists>v' b. tb_snapshots (pg_tables (snd (dw_write ex_cfg
       ((ex_pg [])\<lparr>pg_tables := empty_tables\<lparr>tb_snapshots := (\<lambda>_. Some (Plain (VTime (utc 7))))\<rparr>\<rparr>) [ex_live 5] (utc 10))))
     [Plain (VStr ''polaris''), Plain (VStr ''uan1'')] = Some v' \<and> sql_key v' = Some b \<and> 7 \<le> b"
  using write_moves_forward [OF prod.collapse [symmetric], where cfg = ex_cfg and recs = "[ex_live 5]" and now = "utc 10" and
      db = "(ex_pg [])\<lparr>pg_tables := empty_tables\<lparr>tb_snapshots := (\<lambda>_. Some (Plain (VTime (utc 7))))\<rparr>\<rparr>"]
  by (simp add: ex_pg_def)

text \<open>
  A row whose monthly partition does not exist yet never fails its batch: without other
  faults, \<open>write\<close> creates the partitions the batch needs and retries, and no error it raises is
  a missing partition.
\<close>

theorem write_creates_missing_partitions:
  assumes "pg_faults db = []" and "catalog_wf (pg_catalog db)" and "dw_write cfg db recs now = (Inl e, db')"
  shows "\<not> is_missing_partition e"
proof (cases "make_plan (dc_retention cfg) recs now")
  case (Inl x)
  with assms(3) show ?thesis by (auto simp: dw_write_def)
next
  case (Inr pl)
  then have "plan_loop (dc_retention cfg) now recs empty_plan = Inr pl"
    by (auto simp: make_plan_def require_aware_def split: if_splits list.splits)
  moreover have "months_ok empty_plan" by (simp add: months_ok_def covers_def empty_plan_def)
  ultimately have "months_ok pl" by (rule plan_loop_months)
  with Inr assms show ?thesis
    by (auto simp: dw_write_def Let_def split: sum.splits prod.splits if_splits dest: write_planned_not_missing)
qed

definition ex_refusing :: writer_cfg where "ex_refusing = ex_cfg\<lparr>dc_accepts := (\<lambda>_ _. False)\<rparr>"

theorem write_creates_missing_partitions_witness:
  "\<exists>e db'. dw_write ex_refusing (ex_pg []) [ex_live 5] (utc 10) = (Inl e, db') \<and> \<not> is_missing_partition e"
proof -
  obtain r db' where w: "dw_write ex_refusing (ex_pg []) [ex_live 5] (utc 10) = (r, db')" by force
  have "\<exists>e. r = Inl e"
    using w by (auto simp: dw_write_def make_plan_def ex_live_def TABLE_def kind_defs plan_partition_def PARTITIONED_def
        plan_row_def plan_snapshot_def empty_plan_def rindex_def ex_refusing_def ex_cfg_def ex_pg_def write_planned_def
        connection_def next_fault_def try_apply_def apply_plan_def sbind_def write_snapshot_def row_rejected_def
        is_missing_partition_def Let_def)
  then obtain e where "r = Inl e" by blast
  with w write_creates_missing_partitions [of "ex_pg []" ex_refusing "[ex_live 5]" "utc 10" e db'] show ?thesis
    by (simp add: ex_pg_def catalog_wf_def)
qed

text \<open>
  C2.  Order across an outage: a \<open>submit\<close> takes the database through a subsequence of the spooled
  batches, oldest first, and then possibly through the submitted batch, which is written only when
  the spool was drained.
\<close>

theorem submit_writes_in_order:
  assumes "dwf (sp_files (bw_spool bw))"
  shows "\<exists>qs fresh. subseq qs (replay_files env bw) \<and>
    (fresh = [] \<or> fresh = [rs] \<and> drains (dw_ops cfg) env clk now (begin_submit bw)) \<and>
    pg_tables (bw_db (snd (submit (dw_ops cfg) env sz clk rs now bw))) =
      fold (\<lambda>b. commit cfg b now) (map (batch_at (bw_spool bw)) qs @ fresh) (pg_tables (bw_db bw))"
  using assms by (rule dw.submit_content)

theorem submit_writes_in_order_witness:
  "\<exists>qs fresh. subseq qs (replay_files ex_env (new_buffered (ex_pg []) ex_spool ''polaris'' (5, 300) 3 20)) \<and>
    (fresh = [] \<or> fresh = [[ex_live 5]] \<and> drains (dw_ops ex_cfg) ex_env (\<lambda>_. 0) ex_now
       (begin_submit (new_buffered (ex_pg []) ex_spool ''polaris'' (5, 300) 3 20))) \<and>
    pg_tables (bw_db (snd (submit (dw_ops ex_cfg) ex_env (\<lambda>_. 10) (\<lambda>_. 0) [ex_live 5] ex_now
        (new_buffered (ex_pg []) ex_spool ''polaris'' (5, 300) 3 20)))) =
      fold (\<lambda>b. commit ex_cfg b ex_now) (map (batch_at ex_spool) qs @ fresh) empty_tables"
  using submit_writes_in_order [of "new_buffered (ex_pg []) ex_spool ''polaris'' (5, 300) 3 20" ex_env "[ex_live 5]" ex_cfg
      "\<lambda>_. 0" ex_now "\<lambda>_. 10"] ex_spool_wf
  by (simp add: new_buffered_def spool_wf_def ex_pg_def)

text \<open>
  C3.  Replay never loses a spooled batch: every file it works on is still in the spool with its
  content, or its batch was committed, or it was a live-only batch superseded by a newer one, or
  it is in \<open>corrupt/\<close>; files it does not work on are untouched.
\<close>

theorem replay_loses_nothing:
  assumes "dwf (sp_files (bw_spool bw))" and "replay (dw_ops cfg) env clk now bw = (r, bw')"
  shows "\<exists>qs. subseq qs (replay_files env bw) \<and>
    pg_tables (bw_db bw') = fold (\<lambda>q. commit cfg (batch_at (bw_spool bw) q) now) qs (pg_tables (bw_db bw)) \<and>
    (\<forall>q \<in> set (replay_files env bw). fate (superseded_files env bw) qs (bw_spool bw) (bw_spool bw') q) \<and>
    (\<forall>q. q \<notin> set (replay_files env bw) \<longrightarrow> same_file (bw_spool bw) (bw_spool bw') q)"
  using dw.replay_trace [OF assms] unfolding trace_def by blast

theorem replay_loses_nothing_witness:
  "case replay (dw_ops ex_cfg) ex_env (\<lambda>_. 0) ex_now (new_buffered (ex_pg []) ex_spool ''polaris'' (5, 300) 3 20) of
     (r, bw') \<Rightarrow> \<exists>qs. \<forall>q \<in> set (replay_files ex_env (new_buffered (ex_pg []) ex_spool ''polaris'' (5, 300) 3 20)).
       fate (superseded_files ex_env (new_buffered (ex_pg []) ex_spool ''polaris'' (5, 300) 3 20)) qs ex_spool (bw_spool bw') q"
proof -
  let ?bw = "new_buffered (ex_pg []) ex_spool ''polaris'' (5, 300) 3 20"
  obtain r bw' where r: "replay (dw_ops ex_cfg) ex_env (\<lambda>_. 0) ex_now ?bw = (r, bw')" by force
  have sp: "bw_spool ?bw = ex_spool" by (simp add: new_buffered_def)
  have "dwf (sp_files (bw_spool ?bw))" using ex_spool_wf by (simp add: sp spool_wf_def)
  from replay_loses_nothing [OF this r] show ?thesis unfolding r sp by auto
qed

end
