(* ===== verification/Record_Queue.thy ===== *)
theory Record_Queue
  imports Records
begin

text \<open>
  The hand-off from the pipelines to the writer thread (\<open>collector/record_queue.py\<close>).

  The condition variable makes every method body atomic, so a method is one function on the
  queue's state; the wait inside \<open>take\<close> only decides when it may return (\<open>take_ready\<close>) and the
  interleaving of producers, the consumer and \<open>close\<close> is the relation \<open>queue_step\<close> below.
\<close>

record rqueue =
  q_durable :: "nm_record list"
  q_live_processes :: "(pyval, nm_record) dict"
  q_live_node :: "(pyval, nm_record) dict"
  q_closed :: bool

definition queue_init :: rqueue where
  "queue_init = \<lparr>q_durable = [], q_live_processes = [], q_live_node = [], q_closed = False\<rparr>"

text \<open>One iteration of the loop in \<open>put\<close>; \<open>record.row["node"]\<close> may raise.\<close>

definition put_one :: "rqueue \<Rightarrow> nm_record \<Rightarrow> rqueue res" where
  "put_one q r =
     (if rkind r = LIVE_PROCESSES then
        (case rindex (rrow r) ''node'' of Inl e \<Rightarrow> Inl e
         | Inr node \<Rightarrow> Inr (q\<lparr>q_live_processes := dset (q_live_processes q) node r\<rparr>))
      else if rkind r = LIVE_NODE then
        (case rindex (rrow r) ''node'' of Inl e \<Rightarrow> Inl e
         | Inr node \<Rightarrow>
             let merged = (case dget (q_live_node q) node of
                   None \<Rightarrow> rrow r
                 | Some previous \<Rightarrow> dmerge (rrow previous) (rrow r))
             in Inr (q\<lparr>q_live_node := dset (q_live_node q) node (Record LIVE_NODE merged)\<rparr>))
      else Inr (q\<lparr>q_durable := q_durable q @ [r]\<rparr>))"

text \<open>An exception leaves the records before it queued, as the Python loop does.\<close>

fun put_loop :: "rqueue \<Rightarrow> nm_record list \<Rightarrow> py_error option \<times> rqueue" where
  "put_loop q [] = (None, q)"
| "put_loop q (r # rs) =
     (case put_one q r of Inl e \<Rightarrow> (Some e, q) | Inr q' \<Rightarrow> put_loop q' rs)"

definition put :: "rqueue \<Rightarrow> nm_record list \<Rightarrow> py_error option \<times> rqueue" where
  "put q rs =
     (if rs = [] then (None, q)
      else if q_closed q then (Some (RuntimeError ''RecordQueue is closed''), q)
      else put_loop q rs)"

definition has_records :: "rqueue \<Rightarrow> bool" where
  "has_records q \<longleftrightarrow> q_durable q \<noteq> [] \<or> q_live_processes q \<noteq> [] \<or> q_live_node q \<noteq> []"

text \<open>The loop condition under which \<open>take\<close> stops waiting (\<open>timed_out\<close>: the deadline passed).\<close>

definition take_ready :: "rqueue \<Rightarrow> bool \<Rightarrow> bool" where
  "take_ready q timed_out \<longleftrightarrow> has_records q \<or> q_closed q \<or> timed_out"

definition take_all :: "rqueue \<Rightarrow> (nm_record list \<times> nm_record list) \<times> rqueue" where
  "take_all q =
     ((q_durable q, dvalues (q_live_processes q) @ dvalues (q_live_node q)),
      q\<lparr>q_durable := [], q_live_processes := [], q_live_node := []\<rparr>)"

definition close_queue :: "rqueue \<Rightarrow> rqueue" where
  "close_queue q = q\<lparr>q_closed := True\<rparr>"

definition depth :: "rqueue \<Rightarrow> nat \<times> nat" where
  "depth q = (length (q_durable q), length (q_live_processes q) + length (q_live_node q))"

lemmas queue_op_defs = put_one_def take_all_def close_queue_def

subsection \<open>Abstract specification\<close>

text \<open>
  What the queue promises, over the list \<open>h\<close> of records put since the last \<open>take\<close>: durable
  records whole and in order, per node the newest process snapshot, and per node the merge in
  put order of the partial live rows.
\<close>

definition durable_of :: "nm_record list \<Rightarrow> nm_record list" where
  "durable_of h = filter (\<lambda>r. \<not> is_live r) h"

definition of_node :: "string \<Rightarrow> pyval \<Rightarrow> nm_record \<Rightarrow> bool" where
  "of_node k node r \<longleftrightarrow> rkind r = k \<and> dget (rrow r) ''node'' = Some node"

definition newest_snapshot :: "nm_record list \<Rightarrow> pyval \<Rightarrow> nm_record option" where
  "newest_snapshot h node =
     (let rs = filter (of_node LIVE_PROCESSES node) h in if rs = [] then None else Some (last rs))"

fun merge_rows :: "nm_record list \<Rightarrow> row option" where
  "merge_rows [] = None"
| "merge_rows (r # rs) = Some (foldl (\<lambda>acc r. dmerge acc (rrow r)) (rrow r) rs)"

definition merged_node :: "nm_record list \<Rightarrow> pyval \<Rightarrow> nm_record option" where
  "merged_node h node =
     map_option (Record LIVE_NODE) (merge_rows (filter (of_node LIVE_NODE node) h))"

definition queue_abs :: "rqueue \<Rightarrow> nm_record list \<Rightarrow> bool" where
  "queue_abs q h \<longleftrightarrow>
     q_durable q = durable_of h \<and>
     (\<forall>node. dget (q_live_processes q) node = newest_snapshot h node) \<and>
     (\<forall>node. dget (q_live_node q) node = merged_node h node)"

definition queue_wf :: "rqueue \<Rightarrow> bool" where
  "queue_wf q \<longleftrightarrow> dwf (q_live_processes q) \<and> dwf (q_live_node q)"

definition has_node :: "nm_record \<Rightarrow> bool" where
  "has_node r \<longleftrightarrow> (is_live r \<longrightarrow> dget (rrow r) ''node'' \<noteq> None)"

lemma durable_of_snoc: "durable_of (h @ [r]) = durable_of h @ (if is_live r then [] else [r])"
  by (simp add: durable_of_def)

lemma newest_snapshot_snoc:
  "newest_snapshot (h @ [r]) node =
     (if of_node LIVE_PROCESSES node r then Some r else newest_snapshot h node)"
  by (simp add: newest_snapshot_def)

lemma merge_rows_snoc:
  "merge_rows (rs @ [r]) =
     Some (case merge_rows rs of None \<Rightarrow> rrow r | Some m \<Rightarrow> dmerge m (rrow r))"
  by (cases rs) simp_all

lemma merged_node_snoc:
  "merged_node (h @ [r]) node =
     (if of_node LIVE_NODE node r
      then Some (Record LIVE_NODE
        (case merged_node h node of None \<Rightarrow> rrow r | Some p \<Rightarrow> dmerge (rrow p) (rrow r)))
      else merged_node h node)"
  by (auto simp: merged_node_def merge_rows_snoc split: option.splits)

lemma queue_abs_empty: "q_durable q = [] \<Longrightarrow> q_live_processes q = [] \<Longrightarrow> q_live_node q = [] \<Longrightarrow>
    queue_abs q []"
  by (simp add: queue_abs_def durable_of_def newest_snapshot_def merged_node_def)

lemma put_one_abs:
  assumes "queue_abs q h" and "put_one q r = Inr q'"
  shows "queue_abs q' (h @ [r])"
  using assms
  by (auto simp: queue_abs_def put_one_def durable_of_snoc newest_snapshot_snoc merged_node_snoc
      of_node_def is_live_def Let_def split: if_splits sum.splits option.splits)

lemma put_one_ok: "has_node r \<Longrightarrow> \<exists>q'. put_one q r = Inr q'"
  by (auto simp: put_one_def has_node_def is_live_def rindex_def Let_def split: option.splits)

lemma put_one_wf [wf_intros]: "queue_wf q \<Longrightarrow> put_one q r = Inr q' \<Longrightarrow> queue_wf q'"
  by (auto simp: queue_wf_def put_one_def Let_def intro: dwf_dset split: if_splits sum.splits)

lemma put_one_closed: "put_one q r = Inr q' \<Longrightarrow> q_closed q' = q_closed q"
  by (auto simp: put_one_def Let_def split: if_splits sum.splits)

lemma put_loop_refines:
  assumes "list_all has_node rs" and "queue_abs q h" and "queue_wf q"
  shows "\<exists>q'. put_loop q rs = (None, q') \<and> queue_abs q' (h @ rs) \<and> queue_wf q' \<and>
    q_closed q' = q_closed q"
  using assms
proof (induction rs arbitrary: q h)
  case Nil
  then show ?case by simp
next
  case (Cons r rs)
  then obtain q1 where q1: "put_one q r = Inr q1"
    using put_one_ok by fastforce
  have "queue_abs q1 (h @ [r])" "queue_wf q1"
    using Cons.prems q1 put_one_abs put_one_wf by blast+
  with Cons.IH [of q1 "h @ [r]"] Cons.prems(1) q1 put_one_closed [OF q1] show ?case
    by simp
qed

subsection \<open>Interleavings of producers, the writer and close\<close>

text \<open>
  \<open>sys_put\<close>, \<open>sys_taken\<close> and \<open>sys_since\<close> are history variables: every record accepted, every
  durable record handed to the writer, and the records accepted since the last \<open>take\<close>.
\<close>

record qsys =
  sys_queue :: rqueue
  sys_put :: "nm_record list"
  sys_taken :: "nm_record list"
  sys_since :: "nm_record list"

definition qsys_init :: qsys where
  "qsys_init = \<lparr>sys_queue = queue_init, sys_put = [], sys_taken = [], sys_since = []\<rparr>"

inductive queue_step :: "qsys \<Rightarrow> qsys \<Rightarrow> bool" where
  step_put: "list_all has_node rs \<Longrightarrow> put (sys_queue s) rs = (None, q') \<Longrightarrow>
     queue_step s (s\<lparr>sys_queue := q', sys_put := sys_put s @ rs, sys_since := sys_since s @ rs\<rparr>)"
| step_put_refused: "put (sys_queue s) rs = (Some (RuntimeError msg), q') \<Longrightarrow>
     queue_step s (s\<lparr>sys_queue := q'\<rparr>)"
| step_take: "take_ready (sys_queue s) timed_out \<Longrightarrow> take_all (sys_queue s) = ((d, l), q') \<Longrightarrow>
     queue_step s (s\<lparr>sys_queue := q', sys_taken := sys_taken s @ d, sys_since := []\<rparr>)"
| step_close: "queue_step s (s\<lparr>sys_queue := close_queue (sys_queue s)\<rparr>)"

inductive queue_reachable :: "qsys \<Rightarrow> bool" where
  reach_init: "queue_reachable qsys_init"
| reach_step: "queue_reachable s \<Longrightarrow> queue_step s t \<Longrightarrow> queue_reachable t"

definition qsys_inv :: "qsys \<Rightarrow> bool" where
  "qsys_inv s \<longleftrightarrow>
     queue_abs (sys_queue s) (sys_since s) \<and> queue_wf (sys_queue s) \<and>
     sys_taken s @ durable_of (sys_since s) = durable_of (sys_put s)"

lemma put_one_no_runtime: "put_one q r \<noteq> Inl (RuntimeError msg)"
  by (auto simp: put_one_def rindex_def Let_def split: option.splits)

lemma put_loop_no_runtime: "fst (put_loop q rs) \<noteq> Some (RuntimeError msg)"
  by (induction q rs rule: put_loop.induct)
    (auto split: sum.splits simp: put_one_no_runtime dest: put_one_no_runtime [THEN notE])

lemma put_refused_unchanged: "put q rs = (Some (RuntimeError msg), q') \<Longrightarrow> q' = q"
  using put_loop_no_runtime [of q rs msg] by (auto simp: put_def split: if_splits)

lemma put_refines:
  assumes "list_all has_node rs" "queue_abs q h" "queue_wf q" "put q rs = (None, q')"
  shows "queue_abs q' (h @ rs) \<and> queue_wf q' \<and> q_closed q' = q_closed q"
  using assms put_loop_refines [of rs q h] by (auto simp: put_def split: if_splits)

lemma queue_step_inv: "queue_step s t \<Longrightarrow> qsys_inv s \<Longrightarrow> qsys_inv t"
proof (induction rule: queue_step.induct)
  case (step_put rs s q')
  then show ?case
    using put_refines [of rs "sys_queue s" "sys_since s" q']
    by (auto simp: qsys_inv_def durable_of_def simp flip: append_assoc)
next
  case (step_put_refused s rs msg q')
  then show ?case using put_refused_unchanged by (auto simp: qsys_inv_def)
next
  case (step_take s timed_out d l q')
  then have "q' = (sys_queue s)\<lparr>q_durable := [], q_live_processes := [], q_live_node := []\<rparr>"
    and d: "d = q_durable (sys_queue s)"
    by (auto simp: take_all_def)
  then have "queue_abs q' []" "queue_wf q'"
    by (auto simp: queue_wf_def intro: queue_abs_empty)
  with step_take.prems d show ?case
    by (simp add: qsys_inv_def queue_abs_def durable_of_def)
next
  case (step_close s)
  then show ?case by (simp add: qsys_inv_def queue_abs_def queue_wf_def close_queue_def)
qed

lemma queue_reachable_inv: "queue_reachable s \<Longrightarrow> qsys_inv s"
proof (induction rule: queue_reachable.induct)
  case reach_init
  show ?case
    by (simp add: qsys_inv_def qsys_init_def queue_init_def queue_wf_def durable_of_def
        queue_abs_empty)
next
  case (reach_step s t)
  then show ?case by (blast intro: queue_step_inv)
qed

inductive_cases queue_stepE: "queue_step s t"
inductive_simps queue_reachable_iff: "queue_reachable s"

lemma dict_values_iff:
  assumes "dwf d"
  shows "set (dvalues d) = {v. \<exists>k. dget d k = Some v}"
proof -
  have "v \<in> set (dvalues d) \<longleftrightarrow> (\<exists>k. (k, v) \<in> set d)" for v by force
  then show ?thesis using dwf_mem_iff [OF assms] by auto
qed

lemma dict_length: "dwf d \<Longrightarrow> length (dvalues d) = card {k. dget d k \<noteq> None}"
proof -
  assume "dwf d"
  then have "card (set (dkeys d)) = length d" using distinct_card [of "dkeys d"] by (simp add: dwf_def)
  moreover have "set (dkeys d) = {k. dget d k \<noteq> None}" by (auto simp: map_of_eq_None_iff)
  ultimately show ?thesis by simp
qed

subsection \<open>Properties\<close>

text \<open>
  C5.  In every interleaving of producers, the writer and \<open>close\<close>, the durable records handed to
  the writer so far followed by those still queued are exactly the durable records that \<open>put\<close>
  accepted, in order: none is lost, repeated or reordered.
\<close>

theorem queue_keeps_durable:
  assumes "queue_reachable s"
  shows "sys_taken s @ q_durable (sys_queue s) = durable_of (sys_put s)"
  using queue_reachable_inv [OF assms] by (simp add: qsys_inv_def queue_abs_def)

definition ex_put :: "nm_record list" where
  "ex_put = [Record COLLECTION_EVENT [(''node'', VStr ''uan1'')],
     Record LIVE_NODE [(''node'', VStr ''uan1''), (''load1'', VInt 1)],
     Record LIVE_NODE [(''node'', VStr ''uan1''), (''label'', VStr ''a'')]]"

definition ex_qsys :: qsys where
  "ex_qsys = qsys_init\<lparr>sys_queue := snd (put queue_init ex_put), sys_put := ex_put, sys_since := ex_put\<rparr>"

lemma ex_qsys_reachable: "queue_reachable ex_qsys"
proof -
  have "put (sys_queue qsys_init) ex_put = (None, snd (put queue_init ex_put))"
    by (simp add: qsys_init_def queue_init_def ex_put_def put_def put_one_def kind_defs rindex_def Let_def)
  moreover have "list_all has_node ex_put" by (simp add: ex_put_def has_node_def is_live_def)
  ultimately have "queue_step qsys_init (qsys_init\<lparr>sys_queue := snd (put queue_init ex_put),
      sys_put := sys_put qsys_init @ ex_put, sys_since := sys_since qsys_init @ ex_put\<rparr>)"
    using step_put by blast
  then show ?thesis
    using reach_step [OF reach_init] by (simp add: ex_qsys_def qsys_init_def)
qed

theorem queue_keeps_durable_witness:
  "sys_taken ex_qsys @ q_durable (sys_queue ex_qsys) = durable_of ex_put"
  using queue_keeps_durable [OF ex_qsys_reachable] by (simp add: ex_qsys_def)

text \<open>
  C6.  What a \<open>take\<close> hands over: the durable records put since the previous one, and the live
  records coalesced per node: for every node the newest process snapshot and the merge, in put
  order, of its partial live rows, and nothing else.  The number of live records is the number of
  nodes with one, however many were put.
\<close>

theorem take_hands_over_coalesced:
  assumes "queue_reachable s" and "take_all (sys_queue s) = ((d, l), q')"
  shows "d = durable_of (sys_since s) \<and>
    set l = {r. \<exists>node. newest_snapshot (sys_since s) node = Some r \<or> merged_node (sys_since s) node = Some r} \<and>
    length l = card {node. newest_snapshot (sys_since s) node \<noteq> None} + card {node. merged_node (sys_since s) node \<noteq> None} \<and>
    \<not> has_records q'"
proof -
  have inv: "queue_abs (sys_queue s) (sys_since s)" "dwf (q_live_processes (sys_queue s))" "dwf (q_live_node (sys_queue s))"
    using queue_reachable_inv [OF assms(1)] by (auto simp: qsys_inv_def queue_wf_def)
  from assms(2) have l: "l = dvalues (q_live_processes (sys_queue s)) @ dvalues (q_live_node (sys_queue s))"
    and d: "d = q_durable (sys_queue s)" and q': "\<not> has_records q'"
    by (auto simp: take_all_def has_records_def)
  have "length l = length (dvalues (q_live_processes (sys_queue s))) + length (dvalues (q_live_node (sys_queue s)))"
    by (simp add: l)
  also have "\<dots> = card {node. newest_snapshot (sys_since s) node \<noteq> None} + card {node. merged_node (sys_since s) node \<noteq> None}"
    unfolding dict_length [OF inv(2)] dict_length [OF inv(3)] using inv(1) by (simp add: queue_abs_def)
  finally have len: "length l = card {node. newest_snapshot (sys_since s) node \<noteq> None} +
      card {node. merged_node (sys_since s) node \<noteq> None}" .
  have "set l = {r. \<exists>node. newest_snapshot (sys_since s) node = Some r \<or> merged_node (sys_since s) node = Some r}"
    unfolding l set_append dict_values_iff [OF inv(2)] dict_values_iff [OF inv(3)]
    using inv(1) by (auto simp: queue_abs_def)
  with len d q' inv(1) show ?thesis by (simp add: queue_abs_def)
qed

theorem take_hands_over_coalesced_witness:
  "fst (fst (take_all (sys_queue ex_qsys))) = durable_of ex_put \<and>
   set (snd (fst (take_all (sys_queue ex_qsys)))) =
     {r. \<exists>node. newest_snapshot ex_put node = Some r \<or> merged_node ex_put node = Some r}"
proof -
  have t: "take_all (sys_queue ex_qsys) = ((fst (fst (take_all (sys_queue ex_qsys))),
      snd (fst (take_all (sys_queue ex_qsys)))), snd (take_all (sys_queue ex_qsys)))" by simp
  have "sys_since ex_qsys = ex_put" by (simp add: ex_qsys_def)
  with take_hands_over_coalesced [OF ex_qsys_reachable t] show ?thesis by simp
qed

end
