(* ===== verification/Upkeep.thy ===== *)
theory Upkeep
  imports Maintenance
begin

text \<open>
  The collector's periodic housekeeping (\<open>collector/upkeep.py\<close>).  What the database does is an
  argument of each call: whether the heartbeat statement fails (and whether the server had applied it
  all the same), whether the maintenance run fails in the driver (with the partitions it left, since
  the connection is in autocommit mode), and which tables are locked.  The intervals are
  \<open>timedelta\<close>s, in microseconds.
\<close>

record upkeep =
  up_system :: string
  up_retention :: retention
  up_host :: string
  up_version :: string
  up_started_at :: datetime
  up_heartbeat_us :: int
  up_maintenance_us :: int
  up_retry_us :: int
  up_connected :: bool
  up_last_heartbeat :: "datetime option"
  up_next_maintenance :: "datetime option"
  up_failing :: bool

text \<open>The part of the database that upkeep writes.\<close>

record upkeep_db =
  ud_catalog :: catalog
  ud_heartbeats :: "(string, heartbeat) dict"

text \<open>
  One tick's surroundings: what \<open>status()\<close> returns, if it does not raise; the failure of the heartbeat
  statement, with whether it was applied; the class and text of a driver error during maintenance,
  with the catalogue it leaves; the locked tables.
\<close>

record tick_env =
  te_status :: "row option"
  te_heartbeat_fault :: "bool option"
  te_maintenance_error :: "(string \<times> string \<times> catalog) option"
  te_locked :: "string \<Rightarrow> bool"

definition new_upkeep :: "string \<Rightarrow> retention \<Rightarrow> string \<Rightarrow> string \<Rightarrow> datetime \<Rightarrow> int \<Rightarrow> int \<Rightarrow> int \<Rightarrow> upkeep" where
  "new_upkeep system ret host version started_at heartbeat_us maintenance_us retry_us =
     \<lparr>up_system = system, up_retention = ret, up_host = host, up_version = version, up_started_at = started_at,
      up_heartbeat_us = heartbeat_us, up_maintenance_us = maintenance_us,
      up_retry_us = retry_us, up_connected = False, up_last_heartbeat = None, up_next_maintenance = None,
      up_failing = False\<rparr>"

definition up_event :: "upkeep \<Rightarrow> datetime \<Rightarrow> string \<Rightarrow> row \<Rightarrow> nm_record" where
  "up_event up now event_type detail =
     Record COLLECTION_EVENT [(''system'', VStr (up_system up)), (''node'', VNone), (''ts'', VTime now),
       (''event_type'', VStr event_type), (''detail'', VDict detail)]"

definition drop_connection :: "upkeep \<Rightarrow> upkeep" where
  "drop_connection up = up\<lparr>up_connected := False\<rparr>"

definition ERROR_CHARS :: nat where "ERROR_CHARS = 200"

text \<open>\<open>_describe\<close> of an exception with this class name and text; \<open>str\<close> of a \<open>KeyError\<close> quotes the key.\<close>

definition describe_exc :: "string \<Rightarrow> string \<Rightarrow> string" where
  "describe_exc cls msg = cls @ '': '' @ take ERROR_CHARS msg"

definition describe_error :: "py_error \<Rightarrow> string" where
  "describe_error e = (case e of
     ValueError s \<Rightarrow> describe_exc ''ValueError'' s | KeyError s \<Rightarrow> describe_exc ''KeyError'' ([CHR 0x27] @ s @ [CHR 0x27])
   | RuntimeError s \<Rightarrow> describe_exc ''RuntimeError'' s | OtherError s \<Rightarrow> describe_exc s [])"

text \<open>\<open>_heartbeat\<close>: whether it succeeds, and the heartbeat table afterwards.\<close>

definition heartbeat_now :: "bool option \<Rightarrow> datetime \<Rightarrow> row \<Rightarrow> upkeep \<Rightarrow> upkeep_db \<Rightarrow> bool \<times> upkeep_db" where
  "heartbeat_now fault now status up db =
     (case write_heartbeat (up_system up) (up_host up) (up_version up) (up_started_at up) now (VDict status) (ud_heartbeats db) of
        Inl _ \<Rightarrow> (False, db)
      | Inr tbl \<Rightarrow>
          (case fault of None \<Rightarrow> (True, db\<lparr>ud_heartbeats := tbl\<rparr>)
           | Some applied \<Rightarrow> (False, if applied then db\<lparr>ud_heartbeats := tbl\<rparr> else db)))"

text \<open>\<open>_maintain\<close>: the events and the database afterwards.\<close>

definition names :: "string list \<Rightarrow> pyval" where
  "names xs = VList (map VStr xs)"

definition maintain :: "tick_env \<Rightarrow> datetime \<Rightarrow> upkeep \<Rightarrow> upkeep_db \<Rightarrow> nm_record list \<times> upkeep \<times> upkeep_db" where
  "maintain env now up db =
     (let failed = (\<lambda>e db.
            ([up_event up now ''maintenance_failed'' [(''error'', VStr e)]],
             (drop_connection up)\<lparr>up_next_maintenance := Some (add_us now (up_retry_us up))\<rparr>, db))
      in case te_maintenance_error env of
           Some (cls, msg, left) \<Rightarrow> failed (describe_exc cls msg) (db\<lparr>ud_catalog := left\<rparr>)
         | None \<Rightarrow>
             (case run_maintenance (te_locked env) now (up_retention up) (ud_catalog db) of
                Inl e \<Rightarrow> failed (describe_error e) db
              | Inr (created, res, cat) \<Rightarrow>
                  (let clean = rt_skipped res = [];
                       up = up\<lparr>up_connected := True,
                          up_next_maintenance := Some (add_us now (if clean then up_maintenance_us up else up_retry_us up))\<rparr>
                   in (if created = [] \<and> rt_dropped res = [] \<and> rt_skipped res = [] then []
                       else [up_event up now ''partitions_maintained''
                         [(''created'', names created), (''dropped'', names (rt_dropped res)),
                          (''skipped'', names (rt_skipped res))]],
                       up, db\<lparr>ud_catalog := cat\<rparr>))))"

definition heartbeat_due :: "upkeep \<Rightarrow> datetime \<Rightarrow> bool" where
  "heartbeat_due up now = (case up_last_heartbeat up of None \<Rightarrow> True
     | Some t \<Rightarrow> up_heartbeat_us up \<le> instant now - instant t)"

definition maintenance_due :: "upkeep \<Rightarrow> datetime \<Rightarrow> bool" where
  "maintenance_due up now = (case up_next_maintenance up of None \<Rightarrow> True | Some t \<Rightarrow> instant t \<le> instant now)"

text \<open>What a tick tried, for the statements about its timing.\<close>

datatype upkeep_try = Heartbeat datetime | Maintain datetime

definition tick :: "tick_env \<Rightarrow> datetime \<Rightarrow> upkeep \<Rightarrow> upkeep_db \<Rightarrow> nm_record list \<times> upkeep_try list \<times> upkeep \<times> upkeep_db" where
  "tick env now up db =
     (let due = maintenance_due up now in
      if heartbeat_due up now then
        (let up = up\<lparr>up_last_heartbeat := Some now\<rparr> in
         case te_status env of None \<Rightarrow> ([], [], drop_connection up, db)
         | Some status \<Rightarrow>
             (case heartbeat_now (te_heartbeat_fault env) now status up db of
                (False, db) \<Rightarrow>
                  (let up = (drop_connection up)\<lparr>up_failing := True\<rparr>
                   in ([], [Heartbeat now],
                       if due then up\<lparr>up_next_maintenance := Some (add_us now (up_heartbeat_us up))\<rparr> else up, db))
              | (True, db) \<Rightarrow>
                  (let up = up\<lparr>up_connected := True, up_failing := False\<rparr>
                   in if due then (case maintain env now up db of (es, up, db) \<Rightarrow> (es, [Heartbeat now, Maintain now], up, db))
                      else ([], [Heartbeat now], up, db))))
      else if due then (case maintain env now up db of (es, up, db) \<Rightarrow> (es, [Maintain now], up, db))
      else ([], [], up, db))"

text \<open>\<open>close\<close>: the last heartbeat; \<open>fault i\<close> says how attempt \<open>i\<close> fails, if it does.\<close>

fun close_attempts :: "(nat \<Rightarrow> bool option) \<Rightarrow> datetime \<Rightarrow> row \<Rightarrow> nat \<Rightarrow> nat \<Rightarrow> upkeep \<Rightarrow> upkeep_db \<Rightarrow> upkeep \<times> upkeep_db" where
  "close_attempts fault now status i 0 up db = (up, db)"
| "close_attempts fault now status i (Suc n) up db =
     (case heartbeat_now (fault i) now status up db of
        (True, db) \<Rightarrow> (up\<lparr>up_connected := True\<rparr>, db)
      | (False, db) \<Rightarrow> close_attempts fault now status (Suc i) n (drop_connection up) db)"

definition close_upkeep :: "(nat \<Rightarrow> bool option) \<Rightarrow> datetime \<Rightarrow> row \<Rightarrow> upkeep \<Rightarrow> upkeep_db \<Rightarrow> upkeep \<times> upkeep_db" where
  "close_upkeep fault now status up db =
     (let status = dset status ''state'' (VStr ''stopped'');
          (up, db) = close_attempts fault now status 0 (if up_connected up then 2 else 1) up db
      in (drop_connection up, db))"

subsection \<open>How often the database is asked\<close>

fun tick_run :: "(tick_env \<times> datetime) list \<Rightarrow> upkeep \<Rightarrow> upkeep_db \<Rightarrow> upkeep_try list \<times> upkeep \<times> upkeep_db" where
  "tick_run [] up cat = ([], up, cat)"
| "tick_run ((env, now) # ts) up cat =
     (case tick env now up cat of (_, as, up, cat) \<Rightarrow>
        case tick_run ts up cat of (bs, up, cat) \<Rightarrow> (as @ bs, up, cat))"

definition heartbeats :: "upkeep_try list \<Rightarrow> int list" where
  "heartbeats as = List.map_filter (\<lambda>a. case a of Heartbeat t \<Rightarrow> Some (instant t) | Maintain _ \<Rightarrow> None) as"

definition maintenances :: "upkeep_try list \<Rightarrow> int list" where
  "maintenances as = List.map_filter (\<lambda>a. case a of Maintain t \<Rightarrow> Some (instant t) | Heartbeat _ \<Rightarrow> None) as"

text \<open>Successive times at least \<open>gap\<close> apart, the first not before \<open>earliest\<close>.\<close>

fun spaced :: "int \<Rightarrow> int option \<Rightarrow> int list \<Rightarrow> bool" where
  "spaced gap earliest [] = True"
| "spaced gap earliest (t # ts) \<longleftrightarrow> (case earliest of None \<Rightarrow> True | Some e \<Rightarrow> e \<le> t) \<and> spaced gap (Some (t + gap)) ts"

lemma attempts_simps [simp]:
  "heartbeats [] = []" "maintenances [] = []"
  "heartbeats (Heartbeat t # as) = instant t # heartbeats as" "heartbeats (Maintain t # as) = heartbeats as"
  "maintenances (Heartbeat t # as) = maintenances as" "maintenances (Maintain t # as) = instant t # maintenances as"
  by (simp_all add: heartbeats_def maintenances_def map_filter_def)

lemma attempts_append [simp]:
  "heartbeats (as @ bs) = heartbeats as @ heartbeats bs" "maintenances (as @ bs) = maintenances as @ maintenances bs"
  by (simp_all add: heartbeats_def maintenances_def map_filter_def)

definition cfg_of :: "upkeep \<Rightarrow> int \<times> int \<times> int" where
  "cfg_of up = (up_heartbeat_us up, up_maintenance_us up, up_retry_us up)"

definition hb_from :: "upkeep \<Rightarrow> int option" where
  "hb_from up = map_option (\<lambda>t. instant t + up_heartbeat_us up) (up_last_heartbeat up)"

lemma maintain_frame:
  "maintain env now up cat = (es, up', cat') \<Longrightarrow> cfg_of up' = cfg_of up \<and> up_last_heartbeat up' = up_last_heartbeat up \<and>
     (\<exists>us. us \<in> {up_maintenance_us up, up_retry_us up} \<and> up_next_maintenance up' = Some (add_us now us))"
  by (auto simp: maintain_def drop_connection_def cfg_of_def Let_def split: option.splits sum.splits prod.splits if_splits)

lemma tick_heartbeats:
  assumes "tick env now up cat = (es, as, up', cat')"
  shows "cfg_of up' = cfg_of up"
    and "heartbeats as = [] \<and> (hb_from up' = hb_from up \<or> (heartbeat_due up now \<and> hb_from up' = Some (instant now + up_heartbeat_us up))) \<or>
      heartbeats as = [instant now] \<and> heartbeat_due up now \<and> hb_from up' = Some (instant now + up_heartbeat_us up)"
  using assms
  by (auto simp: tick_def Let_def drop_connection_def cfg_of_def hb_from_def dest!: maintain_frame
      split: if_splits option.splits prod.splits bool.splits)

definition mt_from :: "upkeep \<Rightarrow> int option" where
  "mt_from up = map_option instant (up_next_maintenance up)"

lemma tick_maintenances:
  assumes "tick env now up cat = (es, as, up', cat')"
  shows "maintenances as = [] \<and> (mt_from up' = mt_from up \<or> (maintenance_due up now \<and> mt_from up' = Some (instant now + up_heartbeat_us up))) \<or>
    (\<exists>us. us \<in> {up_maintenance_us up, up_retry_us up} \<and>
      maintenances as = [instant now] \<and> maintenance_due up now \<and> mt_from up' = Some (instant now + us))"
  using assms
  by (auto simp: tick_def Let_def drop_connection_def mt_from_def dest!: maintain_frame
      split: if_splits option.splits prod.splits bool.splits)

lemma spaced_earlier: "spaced gap (Some e) ts \<Longrightarrow> e' \<le> e \<Longrightarrow> spaced gap (Some e') ts"
  by (cases ts) auto

lemma spaced_anytime: "spaced gap e ts \<Longrightarrow> spaced gap None ts"
  by (cases ts) auto

definition gaps_ok :: "upkeep \<Rightarrow> bool" where
  "gaps_ok up \<longleftrightarrow> 0 \<le> up_heartbeat_us up \<and> 0 \<le> up_maintenance_us up \<and> 0 \<le> up_retry_us up"

lemma gaps_ok_cong: "cfg_of up' = cfg_of up \<Longrightarrow> gaps_ok up' = gaps_ok up"
  by (simp add: gaps_ok_def cfg_of_def)

lemma tick_run_heartbeats:
  "gaps_ok up \<Longrightarrow> tick_run ts up cat = (as, up', cat') \<Longrightarrow> spaced (up_heartbeat_us up) (hb_from up) (heartbeats as)"
proof (induction ts arbitrary: up cat as)
  case (Cons e ts)
  obtain env now where e: "e = (env, now)" by (cases e)
  obtain es as1 up1 cat1 where t: "tick env now up cat = (es, as1, up1, cat1)" by (metis prod_cases4)
  obtain as2 where r: "tick_run ts up1 cat1 = (as2, up', cat')" and as: "as = as1 @ as2"
    using Cons.prems(2) e t by (auto split: prod.splits)
  have cfg: "cfg_of up1 = cfg_of up" "up_heartbeat_us up1 = up_heartbeat_us up"
    using tick_heartbeats(1) [OF t] by (simp_all add: cfg_of_def)
  from Cons.IH [OF _ r] Cons.prems(1) gaps_ok_cong [OF cfg(1)] cfg(2)
  have IH: "spaced (up_heartbeat_us up) (hb_from up1) (heartbeats as2)" by simp
  from tick_heartbeats(2) [OF t] show ?case
  proof (elim disjE conjE)
    assume "heartbeats as1 = []" "hb_from up1 = hb_from up"
    with IH as show ?thesis by simp
  next
    assume a: "heartbeats as1 = []" "heartbeat_due up now" "hb_from up1 = Some (instant now + up_heartbeat_us up)"
    from IH [unfolded a(3)] a(2) Cons.prems(1) have "spaced (up_heartbeat_us up) (hb_from up) (heartbeats as2)"
      by (auto simp: heartbeat_due_def hb_from_def gaps_ok_def intro: spaced_earlier spaced_anytime split: option.splits)
    with as a(1) show ?thesis by simp
  next
    assume "heartbeats as1 = [instant now]" "heartbeat_due up now" "hb_from up1 = Some (instant now + up_heartbeat_us up)"
    with IH as show ?thesis by (auto simp: heartbeat_due_def hb_from_def split: option.splits)
  qed
qed simp

lemma tick_run_maintenances:
  "gaps_ok up \<Longrightarrow> tick_run ts up cat = (as, up', cat') \<Longrightarrow>
   spaced (min (up_maintenance_us up) (up_retry_us up)) (mt_from up) (maintenances as)"
proof (induction ts arbitrary: up cat as)
  case (Cons e ts)
  let ?g = "min (up_maintenance_us up) (up_retry_us up)"
  obtain env now where e: "e = (env, now)" by (cases e)
  obtain es as1 up1 cat1 where t: "tick env now up cat = (es, as1, up1, cat1)" by (metis prod_cases4)
  obtain as2 where r: "tick_run ts up1 cat1 = (as2, up', cat')" and as: "as = as1 @ as2"
    using Cons.prems(2) e t by (auto split: prod.splits)
  have cfg: "cfg_of up1 = cfg_of up" "min (up_maintenance_us up1) (up_retry_us up1) = ?g"
    using tick_heartbeats(1) [OF t] by (simp_all add: cfg_of_def)
  from Cons.IH [OF _ r] Cons.prems(1) gaps_ok_cong [OF cfg(1)] cfg(2)
  have IH: "spaced ?g (mt_from up1) (maintenances as2)" by simp
  from tick_maintenances [OF t] show ?case
  proof (elim disjE conjE exE)
    assume "maintenances as1 = []" "mt_from up1 = mt_from up"
    with IH as show ?thesis by simp
  next
    assume a: "maintenances as1 = []" "maintenance_due up now" "mt_from up1 = Some (instant now + up_heartbeat_us up)"
    from IH [unfolded a(3)] a(2) Cons.prems(1) have "spaced ?g (mt_from up) (maintenances as2)"
      by (auto simp: maintenance_due_def mt_from_def gaps_ok_def intro: spaced_earlier spaced_anytime split: option.splits)
    with as a(1) show ?thesis by simp
  next
    fix us
    assume a: "us \<in> {up_maintenance_us up, up_retry_us up}" "maintenances as1 = [instant now]" "maintenance_due up now"
      "mt_from up1 = Some (instant now + us)"
    from IH [unfolded a(4)] a(1) have "spaced ?g (Some (instant now + ?g)) (maintenances as2)"
      by (auto intro: spaced_earlier)
    with a(2,3) as show ?thesis by (auto simp: maintenance_due_def mt_from_def split: option.splits)
  qed
qed simp

text \<open>
  However often the writer thread ticks, and whatever the database answers, two attempts to write
  the heartbeat are never closer than the heartbeat interval, and two maintenance runs never closer
  than the shorter of the maintenance and the retry interval; an outage makes neither more frequent.
\<close>

theorem upkeep_attempts_spaced:
  assumes "0 \<le> heartbeat_us" "0 \<le> maintenance_us" "0 \<le> retry_us"
    and "tick_run ts (new_upkeep system ret host version started_at heartbeat_us maintenance_us retry_us) cat = (as, up', cat')"
  shows "spaced heartbeat_us None (heartbeats as) \<and> spaced (min maintenance_us retry_us) None (maintenances as)"
proof -
  let ?up = "new_upkeep system ret host version started_at heartbeat_us maintenance_us retry_us"
  have "gaps_ok ?up" using assms(1-3) by (simp add: gaps_ok_def new_upkeep_def)
  from tick_run_heartbeats [OF this assms(4)] tick_run_maintenances [OF this assms(4)] show ?thesis
    by (simp add: hb_from_def mt_from_def new_upkeep_def)
qed

definition ex_env_down :: tick_env where
  "ex_env_down = \<lparr>te_status = Some [], te_heartbeat_fault = Some False, te_maintenance_error = None, te_locked = (\<lambda>_. False)\<rparr>"

definition ex_env_up :: tick_env where
  "ex_env_up = \<lparr>te_status = Some [], te_heartbeat_fault = None, te_maintenance_error = Some (''OperationalError'', ''lost'', []), te_locked = (\<lambda>_. False)\<rparr>"

definition ex_ticks :: "(tick_env \<times> datetime) list" where
  "ex_ticks = [(ex_env_down, utc 0), (ex_env_up, utc 5), (ex_env_up, utc 60), (ex_env_up, utc 61), (ex_env_up, utc 130)]"

definition ex_up :: upkeep where
  "ex_up = new_upkeep ''s'' \<lparr>node_metrics_days = 1, usage_summary_days = 1, collection_events_days = 1\<rparr> ''h'' ''1'' (utc 0) 60 1000 30"

definition ex_db :: upkeep_db where
  "ex_db = \<lparr>ud_catalog = [], ud_heartbeats = []\<rparr>"

theorem upkeep_attempts_spaced_witness:
  "heartbeats (fst (tick_run ex_ticks ex_up ex_db)) = [0, 60, 130] \<and> maintenances (fst (tick_run ex_ticks ex_up ex_db)) = [60, 130] \<and>
   spaced 60 None (heartbeats (fst (tick_run ex_ticks ex_up ex_db))) \<and> spaced 30 None (maintenances (fst (tick_run ex_ticks ex_up ex_db)))"
proof -
  obtain as up' cat' where r: "tick_run ex_ticks ex_up ex_db = (as, up', cat')" by (metis prod_cases3)
  have v: "heartbeats (fst (tick_run ex_ticks ex_up ex_db)) = [0, 60, 130]" "maintenances (fst (tick_run ex_ticks ex_up ex_db)) = [60, 130]"
    by code_simp+
  from upkeep_attempts_spaced [OF _ _ _ r [unfolded ex_up_def]] r v show ?thesis by simp
qed

end
