(* ===== verification/Writer_Thread.thy ===== *)
theory Writer_Thread
  imports Record_Queue Buffered Upkeep
begin

text \<open>
  The single thread that writes to the database (\<open>collector/writer_thread.py\<close>) together with the
  record queue it drains.  The calls it makes are a record of operations: \<open>io_submit io i\<close> is the
  \<open>i\<close>-th call of \<open>BufferedWriter.submit\<close> and \<open>io_tick io i\<close> that of \<open>Upkeep.tick\<close>, each with whatever
  the clock, the file system and the database do at that moment, \<open>None\<close> for a raised exception;
  \<open>io_clock io i\<close> is the clock after the submit; the last two are the calls of \<open>_shutdown\<close>.  Below they
  are instantiated with the models of those components.
\<close>

record ('b, 'u) writer_io =
  io_clock :: "nat \<Rightarrow> datetime"
  io_submit :: "nat \<Rightarrow> nm_record list \<Rightarrow> 'b \<Rightarrow> nm_record list res \<times> 'b"
  io_tick :: "nat \<Rightarrow> 'u \<Rightarrow> nm_record list option \<times> 'u"
  io_close_upkeep :: "'u \<Rightarrow> 'u"
  io_close_buffered :: "'b \<Rightarrow> 'b"

record ('b, 'u) wthread =
  wt_buffered :: 'b
  wt_upkeep :: 'u
  wt_carried :: "nm_record list"
  wt_last_write_at :: "datetime option"

definition FINAL_ROUNDS :: nat where "FINAL_ROUNDS = 3"

text \<open>One call of \<open>_submit\<close>, as logged: what was carried, what came from the queue, what was submitted.\<close>

record 'b entry =
  en_carried :: "nm_record list"
  en_durable :: "nm_record list"
  en_batch :: "nm_record list"
  en_before :: 'b
  en_result :: "nm_record list res"
  en_after :: 'b

definition wt_submit :: "datetime \<Rightarrow> (nm_record list \<Rightarrow> 'b \<Rightarrow> nm_record list res \<times> 'b) \<Rightarrow> nm_record list \<Rightarrow> nm_record list \<Rightarrow> nm_record list \<Rightarrow>
    ('b, 'u) wthread \<Rightarrow> nm_record list \<times> 'b entry list \<times> ('b, 'u) wthread" where
  "wt_submit now sub carried durable batch w =
     (if batch = [] then ([], [], w)
      else (case sub batch (wt_buffered w) of (res, b) \<Rightarrow>
          (case res of Inr es \<Rightarrow> es | Inl _ \<Rightarrow> [],
           [\<lparr>en_carried = carried, en_durable = durable, en_batch = batch, en_before = wt_buffered w,
             en_result = res, en_after = b\<rparr>],
           w\<lparr>wt_buffered := b, wt_last_write_at := (case res of Inr _ \<Rightarrow> Some now | Inl _ \<Rightarrow> wt_last_write_at w)\<rparr>)))"

definition wt_round :: "('b, 'u) writer_io \<Rightarrow>
    nat \<Rightarrow> nm_record list \<Rightarrow> nm_record list \<Rightarrow> bool \<Rightarrow> ('b, 'u) wthread \<Rightarrow> 'b entry list \<times> ('b, 'u) wthread" where
  "wt_round io i durable live do_tick w =
     (let carried = wt_carried w;
          (es1, log1, w) = wt_submit (io_clock io (2 * i)) (io_submit io (2 * i)) carried durable (carried @ durable) w;
          (es2, log2, w) = wt_submit (io_clock io (2 * i + 1)) (io_submit io (2 * i + 1)) [] [] live w;
          (es3, w) = (if do_tick
             then (case io_tick io i (wt_upkeep w) of (r, u) \<Rightarrow> (case r of Some es \<Rightarrow> es | None \<Rightarrow> [], w\<lparr>wt_upkeep := u\<rparr>))
             else ([], w))
      in (log1 @ log2, w\<lparr>wt_carried := es1 @ es2 @ es3\<rparr>))"

text \<open>\<open>_shutdown\<close>.\<close>

definition wt_shutdown :: "('b, 'u) writer_io \<Rightarrow> ('b, 'u) wthread \<Rightarrow> ('b, 'u) wthread" where
  "wt_shutdown io w = w\<lparr>wt_upkeep := io_close_upkeep io (wt_upkeep w), wt_buffered := io_close_buffered io (wt_buffered w)\<rparr>"

text \<open>
  Where \<open>run\<close> stands: about to take from the queue, holding what it took, about to look whether the
  queue is closed and empty, in the final rounds, or stopped.
\<close>

datatype phase = Draining | Writing "nm_record list" "nm_record list" | Checking | Final nat | Stopped

record ('b, 'u) wsys =
  ws_queue :: rqueue
  ws_thread :: "('b, 'u) wthread"
  ws_phase :: phase
  ws_rounds :: nat
  ws_put :: "nm_record list"
  ws_log :: "'b entry list"

definition wsys_init :: "'b \<Rightarrow> 'u \<Rightarrow> ('b, 'u) wsys" where
  "wsys_init b u = \<lparr>ws_queue = queue_init, ws_thread = \<lparr>wt_buffered = b, wt_upkeep = u, wt_carried = [], wt_last_write_at = None\<rparr>,
     ws_phase = Draining, ws_rounds = 0, ws_put = [], ws_log = []\<rparr>"

text \<open>The steps of the thread.\<close>

inductive writer_step :: "('b, 'u) writer_io \<Rightarrow>
    ('b, 'u) wsys \<Rightarrow> ('b, 'u) wsys \<Rightarrow> bool" for io where
  w_take: "ws_phase s = Draining \<Longrightarrow> take_ready (ws_queue s) timed_out \<Longrightarrow> take_all (ws_queue s) = ((d, l), q) \<Longrightarrow>
     writer_step io s (s\<lparr>ws_queue := q, ws_phase := Writing d l\<rparr>)"
| w_round: "ws_phase s = Writing d l \<Longrightarrow> wt_round io (ws_rounds s) d l True (ws_thread s) = (lg, w) \<Longrightarrow>
     writer_step io s (s\<lparr>ws_thread := w, ws_phase := Checking, ws_rounds := ws_rounds s + 1, ws_log := ws_log s @ lg\<rparr>)"
| w_check: "ws_phase s = Checking \<Longrightarrow>
     writer_step io s (s\<lparr>ws_phase := if q_closed (ws_queue s) \<and> depth (ws_queue s) = (0, 0) then Final FINAL_ROUNDS else Draining\<rparr>)"
| w_final: "ws_phase s = Final (Suc n) \<Longrightarrow> wt_carried (ws_thread s) \<noteq> [] \<Longrightarrow>
     wt_round io (ws_rounds s) [] [] False (ws_thread s) = (lg, w) \<Longrightarrow>
     writer_step io s (s\<lparr>ws_thread := w, ws_phase := Final n, ws_rounds := ws_rounds s + 1, ws_log := ws_log s @ lg\<rparr>)"
| w_stop: "ws_phase s = Final n \<Longrightarrow> n = 0 \<or> wt_carried (ws_thread s) = [] \<Longrightarrow>
     writer_step io s (s\<lparr>ws_thread := wt_shutdown io (ws_thread s), ws_phase := Stopped\<rparr>)"

text \<open>What the event loop does meanwhile.\<close>

inductive producer_step :: "('b, 'u) wsys \<Rightarrow> ('b, 'u) wsys \<Rightarrow> bool" where
  p_put: "list_all has_node rs \<Longrightarrow> put (ws_queue s) rs = (None, q) \<Longrightarrow>
     producer_step s (s\<lparr>ws_queue := q, ws_put := ws_put s @ rs\<rparr>)"
| p_close: "producer_step s (s\<lparr>ws_queue := close_queue (ws_queue s)\<rparr>)"

inductive writer_reachable :: "('b, 'u) writer_io \<Rightarrow>
    ('b, 'u) wsys \<Rightarrow> bool" for io where
  wr_init: "writer_reachable io (wsys_init b u)"
| wr_writer: "writer_reachable io s \<Longrightarrow> writer_step io s t \<Longrightarrow> writer_reachable io t"
| wr_producer: "writer_reachable io s \<Longrightarrow> producer_step s t \<Longrightarrow> writer_reachable io t"

inductive_cases writer_stepE: "writer_step io s t"

subsection \<open>Nothing is lost between the queue and the writer\<close>

definition in_hand :: "phase \<Rightarrow> nm_record list" where
  "in_hand ph = (case ph of Writing d _ \<Rightarrow> d | _ \<Rightarrow> [])"

definition logged :: "'b entry list \<Rightarrow> nm_record list" where
  "logged lg = concat (map en_durable lg)"

definition past_drain :: "phase \<Rightarrow> bool" where
  "past_drain ph = (case ph of Final _ \<Rightarrow> True | Stopped \<Rightarrow> True | _ \<Rightarrow> False)"

definition wsys_inv :: "('b, 'u) wsys \<Rightarrow> bool" where
  "wsys_inv s \<longleftrightarrow>
     logged (ws_log s) @ in_hand (ws_phase s) @ q_durable (ws_queue s) = durable_of (ws_put s) \<and>
     (past_drain (ws_phase s) \<longrightarrow> q_closed (ws_queue s) \<and> depth (ws_queue s) = (0, 0)) \<and>
     (case ws_phase s of Final n \<Rightarrow> n \<le> FINAL_ROUNDS | _ \<Rightarrow> True)"

lemma logged_append [simp]: "logged (xs @ ys) = logged xs @ logged ys"
  by (simp add: logged_def)

lemma wt_submit_logged: "wt_submit now sub c d (c @ d) w = (es, lg, w') \<Longrightarrow> logged lg = d"
  by (auto simp: wt_submit_def logged_def split: if_splits prod.splits)

lemma wt_submit_live_logged: "wt_submit now sub c [] b w = (es, lg, w') \<Longrightarrow> logged lg = []"
  by (auto simp: wt_submit_def logged_def split: if_splits prod.splits)

lemma wt_round_logged: "wt_round io i d l t w = (lg, w') \<Longrightarrow> logged lg = d"
proof -
  assume r: "wt_round io i d l t w = (lg, w')"
  obtain es1 log1 w1 where s1: "wt_submit (io_clock io (2 * i)) (io_submit io (2 * i)) (wt_carried w) d (wt_carried w @ d) w = (es1, log1, w1)" by (metis prod_cases3)
  obtain es2 log2 w2 where s2: "wt_submit (io_clock io (2 * i + 1)) (io_submit io (2 * i + 1)) [] [] l w1 = (es2, log2, w2)" by (metis prod_cases3)
  from r s1 s2 have "lg = log1 @ log2" by (auto simp: wt_round_def Let_def split: prod.splits)
  with wt_submit_logged [OF s1] wt_submit_live_logged [OF s2] show ?thesis by (simp add: logged_def)
qed

lemma put_loop_durable: "put_loop q rs = (None, q') \<Longrightarrow> q_durable q' = q_durable q @ durable_of rs \<and> q_closed q' = q_closed q"
proof (induction rs arbitrary: q)
  case (Cons r rs)
  obtain q1 where q1: "put_one q r = Inr q1" using Cons.prems by (cases "put_one q r") auto
  then have "q_durable q1 = q_durable q @ durable_of [r]" "q_closed q1 = q_closed q"
    by (auto simp: put_one_def durable_of_def is_live_def Let_def split: if_splits sum.splits)
  moreover have "durable_of (r # rs) = durable_of [r] @ durable_of rs" by (simp add: durable_of_def)
  ultimately show ?case using Cons.IH [of q1] Cons.prems q1 by simp
qed (simp add: durable_of_def)

lemma put_durable:
  "put q rs = (None, q') \<Longrightarrow> q_durable q' = q_durable q @ durable_of rs \<and> q_closed q' = q_closed q \<and> (q_closed q \<longrightarrow> q' = q)"
  using put_loop_durable [of q rs q'] by (auto simp: put_def durable_of_def split: if_splits)

lemma writer_step_inv: "writer_step io s t \<Longrightarrow> wsys_inv s \<Longrightarrow> wsys_inv t"
proof (induction rule: writer_step.induct)
  case (w_take s timed_out d l q)
  then show ?case by (auto simp: wsys_inv_def in_hand_def past_drain_def take_all_def)
next
  case (w_round s d l lg w)
  then show ?case using wt_round_logged [OF w_round(2)]
    by (auto simp: wsys_inv_def in_hand_def past_drain_def)
next
  case (w_check s)
  then show ?case by (auto simp: wsys_inv_def in_hand_def past_drain_def)
next
  case (w_final s n lg w)
  then show ?case using wt_round_logged [OF w_final(3)]
    by (auto simp: wsys_inv_def in_hand_def past_drain_def)
next
  case (w_stop s n)
  then show ?case by (auto simp: wsys_inv_def in_hand_def past_drain_def)
qed

lemma producer_step_inv: "producer_step s t \<Longrightarrow> wsys_inv s \<Longrightarrow> wsys_inv t"
proof (induction rule: producer_step.induct)
  case (p_put rs s q)
  from put_durable [OF p_put(2)] p_put(3) show ?case
    by (auto simp: wsys_inv_def durable_of_def)
next
  case (p_close s)
  then show ?case by (auto simp: wsys_inv_def close_queue_def depth_def)
qed

lemma writer_reachable_inv: "writer_reachable io s \<Longrightarrow> wsys_inv s"
proof (induction rule: writer_reachable.induct)
  case (wr_init b u)
  show ?case by (simp add: wsys_inv_def wsys_init_def logged_def in_hand_def queue_init_def durable_of_def past_drain_def)
qed (blast intro: writer_step_inv producer_step_inv)+

subsection \<open>Every submission is accounted for\<close>

definition entry_ok :: "(nm_record list \<Rightarrow> nm_record list res \<Rightarrow> 'b \<Rightarrow> bool) \<Rightarrow> 'b entry \<Rightarrow> bool" where
  "entry_ok acct e \<longleftrightarrow> set (en_durable e) \<subseteq> set (en_batch e) \<and> acct (en_batch e) (en_result e) (en_after e)"

text \<open>The contract of the writer behind the thread: what holds of every batch it was given.\<close>

locale accounting =
  fixes sub :: "nat \<Rightarrow> nm_record list \<Rightarrow> 'b \<Rightarrow> nm_record list res \<times> 'b"
    and acct :: "nm_record list \<Rightarrow> nm_record list res \<Rightarrow> 'b \<Rightarrow> bool"
  assumes sub_acct: "rs \<noteq> [] \<Longrightarrow> sub i rs b = (res, b') \<Longrightarrow> acct rs res b'"
begin

lemma wt_submit_entries:
  "wt_submit now (sub i) c d b w = (es, lg, w') \<Longrightarrow> set d \<subseteq> set b \<Longrightarrow> list_all (entry_ok acct) lg"
  by (auto simp: wt_submit_def entry_ok_def split: if_splits prod.splits dest: sub_acct)

lemma wt_round_entries: "io_submit io = sub \<Longrightarrow> wt_round io i d l t w = (lg, w') \<Longrightarrow> list_all (entry_ok acct) lg"
proof -
  assume io: "io_submit io = sub" and r: "wt_round io i d l t w = (lg, w')"
  obtain es1 lg1 w1 where s1: "wt_submit (io_clock io (2 * i)) (io_submit io (2 * i)) (wt_carried w) d (wt_carried w @ d) w = (es1, lg1, w1)" by (metis prod_cases3)
  obtain es2 lg2 w2 where s2: "wt_submit (io_clock io (2 * i + 1)) (io_submit io (2 * i + 1)) [] [] l w1 = (es2, lg2, w2)" by (metis prod_cases3)
  from r s1 s2 have "lg = lg1 @ lg2" by (auto simp: wt_round_def Let_def split: prod.splits)
  with wt_submit_entries [OF s1 [unfolded io]] wt_submit_entries [OF s2 [unfolded io]] show ?thesis by simp
qed

lemma reachable_entries: "writer_reachable io s \<Longrightarrow> io_submit io = sub \<Longrightarrow> list_all (entry_ok acct) (ws_log s)"
proof (induction rule: writer_reachable.induct)
  case (wr_init b u)
  show ?case by (simp add: wsys_init_def)
next
  case (wr_writer s t)
  from wr_writer(2,3) show ?case by (cases rule: writer_step.cases) (use wt_round_entries [OF wr_writer(4)] wr_writer(4) in auto)
next
  case (wr_producer s t)
  from wr_producer(2-4) show ?case by (cases rule: producer_step.cases) auto
qed

end

definition buf_sub :: "'db writer_ops \<Rightarrow> (line \<Rightarrow> nat) \<Rightarrow> (nat \<Rightarrow> fs_env) \<Rightarrow> (nat \<Rightarrow> nat \<Rightarrow> rat) \<Rightarrow> (nat \<Rightarrow> int) \<Rightarrow> nat \<Rightarrow>
    nm_record list \<Rightarrow> 'db buffered \<Rightarrow> nm_record list res \<times> 'db buffered" where
  "buf_sub ops sz env mc t i rs bw = submit ops (env i) sz (mc i) rs (utc (t i)) bw"

text \<open>What \<open>submit\<close> promises of a batch, at some call.\<close>

definition buf_acct :: "'db writer_ops \<Rightarrow> (nat \<Rightarrow> fs_env) \<Rightarrow> (nat \<Rightarrow> int) \<Rightarrow> nm_record list \<Rightarrow> nm_record list res \<Rightarrow> 'db buffered \<Rightarrow> bool" where
  "buf_acct ops env t rs res bw \<longleftrightarrow> (\<exists>i.
     case res of
       Inr es \<Rightarrow> (\<exists>db b. w_write ops db rs (utc (t i)) = (Wrote b, bw_db bw)) \<or> in_spool rs bw \<or> has_event ''spool_write_failed'' es
     | Inl e \<Rightarrow> has_event ''spool_batch_quarantined'' (bw_carried bw) \<and>
         (live_only_batch rs \<or> \<not> corrupt_usable (env i) \<or> in_corrupt rs bw))"

interpretation buffered_writer: accounting "buf_sub ops sz env mc t" "buf_acct ops env t" for ops sz env mc t
proof
  fix rs i b res b'
  assume rs: "rs \<noteq> []" and s: "buf_sub ops sz env mc t i rs b = (res, b')"
  from submit_accounted [OF rs _ s [unfolded buf_sub_def]] show "buf_acct ops env t rs res b'"
    unfolding buf_acct_def by (intro exI [of _ i]) (simp add: utc_def)
qed

text \<open>\<open>Upkeep.tick\<close> never raises.\<close>

definition upkeep_tick :: "(nat \<Rightarrow> tick_env) \<Rightarrow> (nat \<Rightarrow> int) \<Rightarrow> nat \<Rightarrow> upkeep \<times> upkeep_db \<Rightarrow> nm_record list option \<times> (upkeep \<times> upkeep_db)" where
  "upkeep_tick env t i u = (case tick (env i) (utc (t i)) (fst u) (snd u) of (es, _, up, db) \<Rightarrow> (Some es, (up, db)))"

text \<open>\<open>Upkeep.close\<close> as \<open>_shutdown\<close> calls it: not at all when building the status raises.\<close>

definition upkeep_close :: "(nat \<Rightarrow> bool option) \<Rightarrow> int \<Rightarrow> row option \<Rightarrow> upkeep \<times> upkeep_db \<Rightarrow> upkeep \<times> upkeep_db" where
  "upkeep_close fault t status u =
     (case status of None \<Rightarrow> u | Some status \<Rightarrow> close_upkeep fault (utc t) status (fst u) (snd u))"

subsection \<open>Shutdown\<close>

text \<open>A bound on the steps the thread still makes once the queue is closed.\<close>

fun rank :: "('b, 'u) wsys \<Rightarrow> nat" where
  "rank s = (let more = has_records (ws_queue s) in
     case ws_phase s of
       Draining \<Rightarrow> 7
     | Writing _ _ \<Rightarrow> if more then 9 else 6
     | Checking \<Rightarrow> if more then 8 else 5
     | Final n \<Rightarrow> n + 1
     | Stopped \<Rightarrow> 0)"

lemma depth_has_records: "depth q = (0, 0) \<longleftrightarrow> \<not> has_records q"
  by (auto simp: depth_def has_records_def)

lemma writer_step_rank:
  assumes "writer_step io s t" "wsys_inv s" "q_closed (ws_queue s)"
  shows "rank t < rank s \<and> q_closed (ws_queue t)"
  using assms
proof (cases rule: writer_step.cases)
  case (w_take timed_out d l q)
  then have "\<not> has_records q" "q_closed q = q_closed (ws_queue s)" by (auto simp: take_all_def has_records_def)
  with w_take assms(3) show ?thesis by simp
next
  case (w_round d l lg w)
  with assms(3) show ?thesis by (simp add: Let_def)
next
  case w_check
  with assms(3) show ?thesis by (auto simp: Let_def depth_has_records FINAL_ROUNDS_def)
next
  case (w_final n lg w)
  with assms(3) show ?thesis by simp
next
  case (w_stop n)
  with assms(3) show ?thesis by simp
qed

lemma writer_not_stuck:
  assumes "q_closed (ws_queue s)" "ws_phase s \<noteq> Stopped"
  shows "\<exists>t. writer_step io s t"
proof (cases "ws_phase s")
  case Draining
  obtain d l q where "take_all (ws_queue s) = ((d, l), q)" by (simp add: take_all_def)
  moreover have "take_ready (ws_queue s) False" using assms(1) by (simp add: take_ready_def)
  ultimately show ?thesis using Draining w_take by blast
next
  case (Writing d l)
  obtain lg w where "wt_round io (ws_rounds s) d l True (ws_thread s) = (lg, w)" by fastforce
  with Writing w_round show ?thesis by blast
next
  case Checking
  with w_check show ?thesis by blast
next
  case (Final n)
  show ?thesis
  proof (cases "n = 0 \<or> wt_carried (ws_thread s) = []")
    case True
    with Final w_stop show ?thesis by blast
  next
    case False
    then obtain m where n: "n = Suc m" by (cases n) auto
    obtain lg w where "wt_round io (ws_rounds s) [] [] False (ws_thread s) = (lg, w)" by fastforce
    with Final False n w_final show ?thesis by blast
  qed
next
  case Stopped
  with assms show ?thesis by simp
qed

text \<open>
  C16.  Once the queue is closed the writer thread stops: whatever \<open>submit\<close> and \<open>tick\<close> return, it can
  always make its next step until it has stopped, every step lowers a bound that is at most 9, and the
  final rounds are at most \<open>_FINAL_ROUNDS\<close>.
\<close>

theorem writer_stops_after_close:
  assumes "writer_reachable io s" "q_closed (ws_queue s)"
  shows "rank s \<le> 9 \<and> (ws_phase s = Stopped \<or> (\<exists>t. writer_step io s t)) \<and>
    (\<forall>t. writer_step io s t \<longrightarrow> rank t < rank s \<and> q_closed (ws_queue t))"
proof -
  note inv = writer_reachable_inv [OF assms(1)]
  then have "rank s \<le> 9" by (auto simp: wsys_inv_def FINAL_ROUNDS_def Let_def split: phase.splits)
  with writer_not_stuck [OF assms(2)] writer_step_rank [OF _ inv assms(2)] show ?thesis by blast
qed

lemma stopped_logged: "writer_reachable io s \<Longrightarrow> ws_phase s = Stopped \<Longrightarrow> logged (ws_log s) = durable_of (ws_put s)"
  by (frule writer_reachable_inv) (auto simp: wsys_inv_def in_hand_def past_drain_def depth_def)


text \<open>A run with one record put before the close, while the database is down.\<close>

definition ex_sub :: "nat \<Rightarrow> nm_record list \<Rightarrow> write_result list buffered \<Rightarrow> nm_record list res \<times> write_result list buffered" where
  "ex_sub = buf_sub ex_ops (\<lambda>_. 10) (\<lambda>_. ex_env) (\<lambda>_ _. 0) (\<lambda>_. 1000000)"

definition ex_tk :: "nat \<Rightarrow> upkeep \<times> upkeep_db \<Rightarrow> nm_record list option \<times> (upkeep \<times> upkeep_db)" where
  "ex_tk = upkeep_tick (\<lambda>_. ex_env_down) (\<lambda>_. 1000000)"

definition ex_io :: "(write_result list buffered, upkeep \<times> upkeep_db) writer_io" where
  "ex_io = \<lparr>io_clock = (\<lambda>_. utc 1000000), io_submit = ex_sub, io_tick = ex_tk,
     io_close_upkeep = upkeep_close (\<lambda>_. Some False) 1000000 (Some []), io_close_buffered = id\<rparr>"

lemma closed_reaches_stop:
  "writer_reachable io s \<Longrightarrow> q_closed (ws_queue s) \<Longrightarrow>
   \<exists>t. writer_reachable io t \<and> ws_phase t = Stopped \<and> ws_put t = ws_put s"
proof (induction "rank s" arbitrary: s rule: less_induct)
  case less
  show ?case
  proof (cases "ws_phase s = Stopped")
    case True
    with less.prems show ?thesis by blast
  next
    case False
    from writer_not_stuck [OF less.prems(2) this] obtain t where t: "writer_step io s t" by blast
    have "ws_put t = ws_put s" using t by (cases rule: writer_step.cases) auto
    moreover from writer_step_rank [OF t writer_reachable_inv [OF less.prems(1)] less.prems(2)]
    have "rank t < rank s" "q_closed (ws_queue t)" by blast+
    moreover have "writer_reachable io t" using less.prems(1) t by (rule wr_writer)
    ultimately show ?thesis using less.hyps [of t] by auto
  qed
qed

lemma ex_closed: "\<exists>s. writer_reachable ex_io s \<and> q_closed (ws_queue s) \<and> ws_put s = ex_batch"
proof -
  let ?s0 = "wsys_init (ex_bw [Unavailable ''down'']) (ex_up, ex_db)"
  let ?q = "snd (put queue_init ex_batch)"
  let ?s1 = "?s0\<lparr>ws_queue := ?q, ws_put := ex_batch\<rparr>"
  have r0: "writer_reachable ex_io ?s0" by (rule wr_init)
  have p: "put (ws_queue ?s0) ex_batch = (None, ?q)" "list_all has_node ex_batch"
    by (simp_all add: wsys_init_def ex_batch_def put_def queue_init_def put_one_def kind_defs has_node_def is_live_def)
  have "writer_reachable ex_io ?s1"
    using wr_producer [OF r0 p_put [OF p(2,1)]] by (simp add: wsys_init_def)
  from wr_producer [OF this p_close] show ?thesis by (intro exI conjI) (auto simp: close_queue_def)
qed

theorem writer_stops_after_close_witness:
  "\<exists>s. writer_reachable ex_io s \<and> ws_put s = ex_batch \<and> rank s \<le> 9 \<and>
     (ws_phase s = Stopped \<or> (\<exists>t. writer_step ex_io s t \<and> rank t < rank s))"
proof -
  from ex_closed obtain s where s: "writer_reachable ex_io s" "q_closed (ws_queue s)" "ws_put s = ex_batch" by blast
  from writer_stops_after_close [OF s(1,2)] s show ?thesis by blast
qed


end
