(* ===== verification/Regex.thy ===== *)
theory Regex
  imports NM_Prelude "HOL-Library.Char_ord"
begin

text \<open>
  The part of Python's \<open>re\<close> module that the pipeline uses: a compiler for the pattern syntax that
  occurs in the source and a backtracking matcher with Python's choice order (alternatives left to
  right, greedy repetition).  The text is kept as the reversed prefix already consumed and the rest,
  so that look-behind, \<open>\b\<close> and \<open>^\<close> see what is before the current position.
\<close>

subsection \<open>Character classes\<close>

datatype item = Ch char | Rng char char | Space | NotSpace | WordCh | Digit

text \<open>\<open>\s\<close>, \<open>\w\<close> and \<open>\d\<close> for \<open>str\<close> patterns, on the code points below 256.\<close>

definition is_space :: "char \<Rightarrow> bool" where
  "is_space c \<longleftrightarrow> (let n = of_char c :: nat in 9 \<le> n \<and> n \<le> 13 \<or> 28 \<le> n \<and> n \<le> 32 \<or> n = 133 \<or> n = 160)"

definition is_decimal :: "char \<Rightarrow> bool" where
  "is_decimal c \<longleftrightarrow> CHR ''0'' \<le> c \<and> c \<le> CHR ''9''"

definition is_word :: "char \<Rightarrow> bool" where
  "is_word c \<longleftrightarrow> (let n = of_char c :: nat in
     c = CHR ''_'' \<or> is_decimal c \<or> 97 \<le> n \<and> n \<le> 122 \<or> 65 \<le> n \<and> n \<le> 90 \<or>
     n = 170 \<or> n = 178 \<or> n = 179 \<or> n = 181 \<or> n = 185 \<or> n = 186 \<or> 188 \<le> n \<and> n \<le> 190 \<or>
     192 \<le> n \<and> n \<noteq> 215 \<and> n \<noteq> 247)"

fun item_has :: "item \<Rightarrow> char \<Rightarrow> bool" where
  "item_has (Ch d) c = (c = d)"
| "item_has (Rng a b) c = (a \<le> c \<and> c \<le> b)"
| "item_has Space c = is_space c"
| "item_has NotSpace c = (\<not> is_space c)"
| "item_has WordCh c = is_word c"
| "item_has Digit c = is_decimal c"

text \<open>The other case of an ASCII letter; the patterns hold only ASCII letters.\<close>

definition swapcase :: "char \<Rightarrow> char" where
  "swapcase c = (let n = of_char c :: nat in
     if CHR ''a'' \<le> c \<and> c \<le> CHR ''z'' then char_of (n - 32)
     else if CHR ''A'' \<le> c \<and> c \<le> CHR ''Z'' then char_of (n + 32) else c)"

definition set_has :: "bool \<Rightarrow> bool \<Rightarrow> item list \<Rightarrow> char \<Rightarrow> bool" where
  "set_has ci neg items c \<longleftrightarrow> neg \<noteq> list_ex (\<lambda>i. item_has i c \<or> ci \<and> item_has i (swapcase c)) items"

subsection \<open>Patterns and the matcher\<close>

datatype rx =
    Eps
  | CharIn bool bool "item list"
  | AnyChar
  | Bol
  | Eol
  | WordB
  | Cat rx rx
  | Alt rx rx
  | Rep rx nat "nat option"
  | Group nat rx
  | Ahead bool rx
  | Behind bool nat rx

text \<open>A position: consumed prefix reversed, rest, and the spans of the groups matched so far.\<close>

type_synonym pos = "string \<times> string \<times> (nat, nat \<times> nat) dict"

definition at_word :: "string \<Rightarrow> bool" where
  "at_word s \<longleftrightarrow> (case s of [] \<Rightarrow> False | c # _ \<Rightarrow> is_word c)"

definition at_eol :: "string \<Rightarrow> bool" where
  "at_eol s \<longleftrightarrow> s = [] \<or> s = [CHR 0x0A]"

text \<open>
  \<open>rep fuel f lo hi\<close>: between \<open>lo\<close> and \<open>hi\<close> more iterations of \<open>f\<close>, longest first.  Beyond the
  minimum an iteration must consume something, so as many rounds as \<open>lo\<close> plus the length of the rest
  are enough.
\<close>

fun rep :: "nat \<Rightarrow> (pos \<Rightarrow> pos list) \<Rightarrow> nat \<Rightarrow> nat option \<Rightarrow> pos \<Rightarrow> pos list" where
  "rep 0 f lo hi p = (if lo = 0 then [p] else [])"
| "rep (Suc n) f lo hi p =
     (if hi = Some 0 then []
      else concat (map (rep n f (lo - 1) (map_option (\<lambda>h. h - 1) hi))
             (filter (\<lambda>q. 0 < lo \<or> length (fst (snd q)) < length (fst (snd p))) (f p)))) @
     (if lo = 0 then [p] else [])"

primrec rmatch :: "rx \<Rightarrow> pos \<Rightarrow> pos list" where
  "rmatch Eps p = [p]"
| "rmatch (CharIn ci neg items) p =
     (case p of (pre, suf, caps) \<Rightarrow> case suf of
        [] \<Rightarrow> [] | c # rest \<Rightarrow> if set_has ci neg items c then [(c # pre, rest, caps)] else [])"
| "rmatch AnyChar p =
     (case p of (pre, suf, caps) \<Rightarrow> case suf of
        [] \<Rightarrow> [] | c # rest \<Rightarrow> if c \<noteq> CHR 0x0A then [(c # pre, rest, caps)] else [])"
| "rmatch Bol p = (if fst p = [] then [p] else [])"
| "rmatch Eol p = (if at_eol (fst (snd p)) then [p] else [])"
| "rmatch WordB p = (if at_word (fst p) \<noteq> at_word (fst (snd p)) then [p] else [])"
| "rmatch (Cat a b) p = concat (map (rmatch b) (rmatch a p))"
| "rmatch (Alt a b) p = rmatch a p @ rmatch b p"
| "rmatch (Rep r lo hi) p = rep (lo + length (fst (snd p))) (rmatch r) lo hi p"
| "rmatch (Group n r) p =
     map (\<lambda>(pre, suf, caps). (pre, suf, dset caps n (length (fst p), length pre))) (rmatch r p)"
| "rmatch (Ahead neg r) p =
     (case rmatch r p of
        [] \<Rightarrow> if neg then [p] else []
      | q # _ \<Rightarrow> if neg then [] else [(fst p, fst (snd p), snd (snd q))])"
| "rmatch (Behind neg w r) p =
     (case p of (pre, suf, caps) \<Rightarrow>
        let ok = w \<le> length pre \<and>
          list_ex (\<lambda>q. length (fst q) = length pre) (rmatch r (drop w pre, rev (take w pre) @ suf, caps))
        in if ok \<noteq> neg then [p] else [])"

text \<open>\<open>pattern.match\<close> at the start of the text and \<open>pattern.search\<close>: the first position that matches.\<close>

definition match_at :: "rx \<Rightarrow> string \<Rightarrow> string \<Rightarrow> pos option" where
  "match_at r pre suf = (case rmatch r (pre, suf, []) of [] \<Rightarrow> None | q # _ \<Rightarrow> Some q)"

definition re_match :: "rx \<Rightarrow> string \<Rightarrow> pos option" where
  "re_match r s = match_at r [] s"

fun search_from :: "rx \<Rightarrow> string \<Rightarrow> string \<Rightarrow> bool" where
  "search_from r pre [] = (match_at r pre [] \<noteq> None)"
| "search_from r pre (c # s) = (match_at r pre (c # s) \<noteq> None \<or> search_from r (c # pre) s)"

definition re_search :: "rx \<Rightarrow> string \<Rightarrow> bool" where
  "re_search r s = search_from r [] s"

subsection \<open>The pattern compiler\<close>

datatype opener = OGroup | OPlain | OAhead bool | OBehind bool | OCase

datatype tok = TAtom rx | TSet bool "item list" | TOpen opener | TClose | TBar | TRep nat "nat option"

text \<open>
  Patterns are written with stand-ins for the characters that a string constant cannot hold: a tilde
  for the backslash, a backquote for the double quote and a percent sign for the apostrophe.  None of
  the three occurs in the patterns of the source.
\<close>

definition raw :: "string \<Rightarrow> string" where
  "raw = map (\<lambda>c. if c = CHR ''~'' then CHR 0x5C else if c = CHR 0x60 then CHR 0x22
     else if c = CHR ''%'' then CHR 0x27 else c)"

definition escape :: "char \<Rightarrow> item option" where
  "escape c = (if c = CHR ''s'' then Some Space else if c = CHR ''S'' then Some NotSpace
     else if c = CHR ''w'' then Some WordCh else if c = CHR ''d'' then Some Digit
     else if c = CHR ''t'' then Some (Ch (CHR 0x09)) else if c = CHR ''n'' then Some (Ch (CHR 0x0A))
     else if is_word c then None else Some (Ch c))"

definition nat_of :: "string \<Rightarrow> nat option" where
  "nat_of s = (if s \<noteq> [] \<and> list_all is_decimal s then Some (foldl (\<lambda>n c. 10 * n + (of_char c - 48)) 0 s) else None)"

text \<open>The inside of \<open>{n}\<close> and \<open>{n,}\<close>.\<close>

definition brace :: "string \<Rightarrow> tok option" where
  "brace s = (if s \<noteq> [] \<and> last s = CHR '','' then map_option (\<lambda>n. TRep n None) (nat_of (butlast s))
     else map_option (\<lambda>n. TRep n (Some n)) (nat_of s))"

text \<open>The items of a set up to its closing bracket, and what follows.\<close>

fun range_follows :: "string \<Rightarrow> bool" where
  "range_follows (m # d # s) = (m = CHR ''-'' \<and> d \<noteq> CHR '']'')"
| "range_follows _ = False"

fun scan_set :: "item list \<Rightarrow> string \<Rightarrow> (item list \<times> string) option" where
  "scan_set acc [] = None"
| "scan_set acc (c # s) =
     (if c = CHR '']'' then Some (rev acc, s)
      else if c = CHR 0x5C then
        (case s of [] \<Rightarrow> None | d # s' \<Rightarrow> (case escape d of None \<Rightarrow> None | Some i \<Rightarrow> scan_set (i # acc) s'))
      else if range_follows s then scan_set (Rng c (s ! 1) # acc) (drop 2 s)
      else scan_set (Ch c # acc) s)"

lemma scan_set_shorter: "scan_set acc s = Some (items, rest) \<Longrightarrow> length rest < length s"
proof (induction acc s rule: scan_set.induct)
  case (2 acc c s)
  consider "c = CHR '']''" | d s' i where "c \<noteq> CHR '']''" "c = CHR 0x5C" "s = d # s'" "escape d = Some i"
    | "c \<noteq> CHR '']''" "c \<noteq> CHR 0x5C" "range_follows s" | "c \<noteq> CHR '']''" "c \<noteq> CHR 0x5C" "\<not> range_follows s"
    using "2.prems" by (auto split: if_splits list.splits option.splits)
  then show ?case
  proof cases
    case 1
    with "2.prems" show ?thesis by simp
  next
    case 2
    with "2.IH"(1) [of d s' i] "2.prems" show ?thesis by simp
  next
    case 3
    with "2.IH"(2) "2.prems" show ?thesis by simp
  next
    case 4
    with "2.IH"(3) "2.prems" show ?thesis by simp
  qed
qed simp

text \<open>What an opening parenthesis opens.\<close>

definition open_paren :: "string \<Rightarrow> opener \<times> string" where
  "open_paren s =
     (if take 2 s = ''?:'' then (OPlain, drop 2 s)
      else if take 2 s = ''?='' then (OAhead False, drop 2 s)
      else if take 2 s = ''?!'' then (OAhead True, drop 2 s)
      else if take 3 s = ''?<='' then (OBehind False, drop 3 s)
      else if take 3 s = ''?<!'' then (OBehind True, drop 3 s)
      else if take 4 s = ''?-i:'' then (OCase, drop 4 s)
      else if take 3 s = ''?P<'' then (OGroup, drop 1 (dropWhile (\<lambda>c. c \<noteq> CHR ''>'') s))
      else (OGroup, s))"

lemma open_paren_shorter: "open_paren s = (op, rest) \<Longrightarrow> length rest \<le> length s"
  using length_dropWhile_le [of "\<lambda>c. c \<noteq> CHR ''>''" s] by (auto simp: open_paren_def split: if_splits)

function tokens :: "string \<Rightarrow> tok list option" where
  "tokens [] = Some []"
| "tokens (c # s) =
     (if c = CHR 0x5C then
        (case s of [] \<Rightarrow> None
         | d # s' \<Rightarrow> if d = CHR ''b'' then map_option ((#) (TAtom WordB)) (tokens s')
             else (case escape d of None \<Rightarrow> None | Some i \<Rightarrow> map_option ((#) (TSet False [i])) (tokens s')))
      else if c = CHR ''['' then
        (let neg = take 1 s = ''^'' in
         case scan_set [] (if neg then drop 1 s else s) of None \<Rightarrow> None
         | Some (items, rest) \<Rightarrow> map_option ((#) (TSet neg items)) (tokens rest))
      else if c = CHR ''('' then (case open_paren s of (op, rest) \<Rightarrow> map_option ((#) (TOpen op)) (tokens rest))
      else if c = CHR ''{'' then
        (case brace (takeWhile (\<lambda>d. d \<noteq> CHR ''}'') s) of None \<Rightarrow> None
         | Some t \<Rightarrow> map_option ((#) t) (tokens (drop 1 (dropWhile (\<lambda>d. d \<noteq> CHR ''}'') s))))
      else map_option
        ((#) (if c = CHR '')'' then TClose else if c = CHR ''|'' then TBar
           else if c = CHR ''*'' then TRep 0 None else if c = CHR ''+'' then TRep 1 None
           else if c = CHR ''?'' then TRep 0 (Some 1) else if c = CHR ''.'' then TAtom AnyChar
           else if c = CHR ''^'' then TAtom Bol else if c = CHR ''$'' then TAtom Eol
           else TSet False [Ch c])) (tokens s))"
  by pat_completeness auto
termination
proof (relation "measure length")
  show "wf (measure length)" by simp
qed (auto dest: scan_set_shorter open_paren_shorter [OF sym] split: if_splits intro!: le_imp_less_Suc
       le_trans [OF diff_le_self length_dropWhile_le])

declare tokens.simps [simp del]

text \<open>
  An open group: its kind, the case flag it restores, its number, the alternatives read so far and
  the atoms of the current one, last first.
\<close>

type_synonym frame = "opener \<times> bool \<times> nat \<times> rx option \<times> rx list"

definition cats :: "rx list \<Rightarrow> rx" where
  "cats atoms = (case atoms of [] \<Rightarrow> Eps | a # rest \<Rightarrow> foldl (\<lambda>acc r. Cat r acc) a rest)"

definition alts :: "rx option \<Rightarrow> rx list \<Rightarrow> rx" where
  "alts alt atoms = (case alt of None \<Rightarrow> cats atoms | Some r \<Rightarrow> Alt r (cats atoms))"

fun width :: "rx \<Rightarrow> nat option" where
  "width (CharIn _ _ _) = Some 1"
| "width AnyChar = Some 1"
| "width (Cat a b) = (case (width a, width b) of (Some m, Some n) \<Rightarrow> Some (m + n) | _ \<Rightarrow> None)"
| "width (Alt a b) = (if width a = width b then width a else None)"
| "width (Group _ r) = width r"
| "width (Rep _ _ _) = None"
| "width _ = Some 0"

definition close_group :: "opener \<Rightarrow> nat \<Rightarrow> rx \<Rightarrow> rx option" where
  "close_group op n r =
     (case op of OGroup \<Rightarrow> Some (Group n r) | OPlain \<Rightarrow> Some r | OCase \<Rightarrow> Some r
      | OAhead neg \<Rightarrow> Some (Ahead neg r) | OBehind neg \<Rightarrow> map_option (\<lambda>w. Behind neg w r) (width r))"

text \<open>Repeating a repetition is an error or a lazy or possessive quantifier, none of which is modelled.\<close>

fun repeatable :: "rx \<Rightarrow> bool" where
  "repeatable (Rep _ _ _) = False"
| "repeatable _ = True"

fun build :: "bool \<Rightarrow> nat \<Rightarrow> frame list \<Rightarrow> tok list \<Rightarrow> (rx \<times> nat) option" where
  "build ci n [] ts = None"
| "build ci n [(op, _, _, alt, atoms)] [] = Some (alts alt atoms, n)"
| "build ci n (f # g # fs) [] = None"
| "build ci n ((op, old, k, alt, atoms) # fs) (t # ts) =
     (case t of
        TAtom r \<Rightarrow> build ci n ((op, old, k, alt, r # atoms) # fs) ts
      | TSet neg items \<Rightarrow> build ci n ((op, old, k, alt, CharIn ci neg items # atoms) # fs) ts
      | TBar \<Rightarrow> build ci n ((op, old, k, Some (alts alt atoms), []) # fs) ts
      | TRep lo hi \<Rightarrow>
          (case atoms of [] \<Rightarrow> None
           | a # rest \<Rightarrow> if repeatable a then build ci n ((op, old, k, alt, Rep a lo hi # rest) # fs) ts else None)
      | TOpen op' \<Rightarrow>
          build (ci \<and> op' \<noteq> OCase) (if op' = OGroup then n + 1 else n)
            ((op', ci, n + 1, None, []) # (op, old, k, alt, atoms) # fs) ts
      | TClose \<Rightarrow>
          (case fs of [] \<Rightarrow> None
           | (op2, old2, k2, alt2, atoms2) # rest \<Rightarrow>
               (case close_group op k (alts alt atoms) of None \<Rightarrow> None
                | Some r \<Rightarrow> build old n ((op2, old2, k2, alt2, r # atoms2) # rest) ts)))"

text \<open>A compiled pattern and its number of groups; \<open>None\<close> for a pattern outside this syntax.\<close>

datatype pattern = Pattern (prx: rx) (pgroups: nat)

definition re_compile :: "bool \<Rightarrow> string \<Rightarrow> pattern option" where
  "re_compile ignorecase s =
     (case tokens s of None \<Rightarrow> None
      | Some ts \<Rightarrow> map_option (\<lambda>(r, n). Pattern r n) (build ignorecase 0 [(OPlain, ignorecase, 0, None, [])] ts))"

subsection \<open>Where a match lies\<close>

text \<open>A match only moves forward over the text, and a group it records ends where or after it starts.\<close>

definition advances :: "pos \<Rightarrow> pos \<Rightarrow> bool" where
  "advances p q \<longleftrightarrow> (\<exists>u. fst (snd p) = u @ fst (snd q) \<and> fst q = rev u @ fst p)"

definition spans_ok :: "pos \<Rightarrow> bool" where
  "spans_ok p \<longleftrightarrow> (\<forall>(n, a, b) \<in> set (snd (snd p)). a \<le> b)"

lemma advances_refl [simp]: "advances p p"
  by (simp add: advances_def)

lemma advances_trans [trans]: "advances p q \<Longrightarrow> advances q r \<Longrightarrow> advances p r"
  by (auto simp: advances_def)

lemma advances_char [simp]: "advances (pre, c # s, caps) (c # pre, s, caps')"
  by (simp add: advances_def)

lemma advances_same_text [simp]: "advances (pre, suf, caps) (pre, suf, caps')"
  by (simp add: advances_def)

lemma advances_length: "advances p q \<Longrightarrow> length (fst (snd q)) \<le> length (fst (snd p)) \<and> length (fst p) \<le> length (fst q)"
  by (auto simp: advances_def)

lemma spans_ok_dset: "spans_ok (pre, suf, caps) \<Longrightarrow> a \<le> b \<Longrightarrow> spans_ok (pre', suf', dset caps n (a, b))"
proof -
  have "(\<forall>(n, a, b) \<in> set caps. a \<le> b) \<Longrightarrow> a \<le> b \<Longrightarrow> \<forall>(n, a, b) \<in> set (dset caps n (a, b)). a \<le> b"
    for caps :: "(nat, nat \<times> nat) dict" by (induction caps n "(a, b)" rule: dset.induct) auto
  then show "spans_ok (pre, suf, caps) \<Longrightarrow> a \<le> b \<Longrightarrow> ?thesis" by (simp add: spans_ok_def)
qed

definition sound :: "(pos \<Rightarrow> pos list) \<Rightarrow> bool" where
  "sound f \<longleftrightarrow> (\<forall>p. \<forall>q \<in> set (f p). advances p q \<and> (spans_ok p \<longrightarrow> spans_ok q))"

lemma rep_sound:
  assumes "sound f" "q \<in> set (rep n f lo hi p)"
  shows "advances p q \<and> (spans_ok p \<longrightarrow> spans_ok q)"
  using assms
proof (induction n f lo hi p rule: rep.induct)
  case (2 n f lo hi p)
  then consider "q = p" | q' where "q' \<in> set (f p)" "q \<in> set (rep n f (lo - 1) (map_option (\<lambda>h. h - 1) hi) q')"
    "hi \<noteq> Some 0" "0 < lo \<or> length (fst (snd q')) < length (fst (snd p))"
    by (auto split: if_splits)
  then show ?case
  proof cases
    case 1
    then show ?thesis by simp
  next
    case 2
    with "2.IH" [of q'] "2.prems"(1) have "advances q' q \<and> (spans_ok q' \<longrightarrow> spans_ok q)" by simp
    moreover from 2 "2.prems"(1) have "advances p q' \<and> (spans_ok p \<longrightarrow> spans_ok q')" unfolding sound_def by blast
    ultimately show ?thesis using advances_trans by blast
  qed
qed (simp split: if_splits)

text \<open>The number of rounds in \<open>rmatch\<close> is enough: one more changes nothing.\<close>

lemma rep_enough:
  assumes "sound f" "lo + length (fst (snd p)) \<le> n"
  shows "rep (Suc n) f lo hi p = rep n f lo hi p"
  using assms
proof (induction n arbitrary: lo hi p)
  case 0
  then show ?case by simp
next
  case (Suc n)
  have "rep (Suc n) f (lo - 1) hi' q = rep n f (lo - 1) hi' q"
    if "q \<in> set (f p)" "0 < lo \<or> length (fst (snd q)) < length (fst (snd p))" for q hi'
  proof (rule Suc.IH [OF assms(1)])
    from that(1) assms(1) have "advances p q" unfolding sound_def by blast
    from advances_length [OF this] that(2) Suc.prems(2) show "lo - 1 + length (fst (snd q)) \<le> n" by auto
  qed
  then have "map (rep (Suc n) f (lo - 1) hi') (filter (\<lambda>q. 0 < lo \<or> length (fst (snd q)) < length (fst (snd p))) (f p)) =
      map (rep n f (lo - 1) hi') (filter (\<lambda>q. 0 < lo \<or> length (fst (snd q)) < length (fst (snd p))) (f p))" for hi'
    by (intro map_cong) auto
  then show ?case unfolding rep.simps(2) [of "Suc n"] rep.simps(2) [of n f lo hi p] by (simp only:)
qed

lemma rmatch_sound: "sound (rmatch r)"
proof (induction r)
  case (Cat a b)
  have "advances p q \<and> (spans_ok p \<longrightarrow> spans_ok q)" if "q' \<in> set (rmatch a p)" "q \<in> set (rmatch b q')" for p q q'
    using Cat that advances_trans [of p q' q] unfolding sound_def by blast
  then show ?case unfolding sound_def rmatch.simps by (metis (no_types, lifting) UN_E set_concat set_map imageE)
next
  case (Rep r lo hi)
  then show ?case using rep_sound [OF Rep] unfolding sound_def rmatch.simps by blast
next
  case (Group n r)
  have "advances p (pre, suf, dset caps n (length (fst p), length pre)) \<and>
      (spans_ok p \<longrightarrow> spans_ok (pre, suf, dset caps n (length (fst p), length pre)))"
    if "(pre, suf, caps) \<in> set (rmatch r p)" for p pre suf caps
  proof -
    from Group that have a: "advances p (pre, suf, caps)" and s: "spans_ok p \<longrightarrow> spans_ok (pre, suf, caps)"
      unfolding sound_def by blast+
    from advances_length [OF a] s have "spans_ok p \<longrightarrow> spans_ok (pre, suf, dset caps n (length (fst p), length pre))"
      by (auto intro: spans_ok_dset)
    with a show ?thesis by (simp add: advances_def)
  qed
  then show ?case by (auto simp: sound_def)
next
  case (Ahead neg r)
  have "spans_ok (fst p, fst (snd p), snd (snd q))" if "rmatch r p = q # qs" "spans_ok p" for p q qs
  proof -
    from that have "q \<in> set (rmatch r p)" by simp
    with Ahead that(2) have "spans_ok q" unfolding sound_def by blast
    then show ?thesis by (simp add: spans_ok_def)
  qed
  then show ?case by (auto simp: sound_def split: list.splits if_splits)
qed (auto simp: sound_def spans_ok_def split: list.splits prod.splits if_splits)

lemmas rmatch_advances = rmatch_sound [unfolded sound_def, rule_format]

lemma match_at_advances:
  "match_at r pre suf = Some q \<Longrightarrow> advances (pre, suf, []) q \<and> spans_ok q"
  using rmatch_advances [of q r "(pre, suf, [])"]
  by (auto simp: match_at_def spans_ok_def split: list.splits)

end
