(* ===== verification/Py_Text.thy ===== *)
theory Py_Text
  imports Calendar Regex "HOL-Library.Sublist"
begin

text \<open>
  The string methods of Python that the probe and the tools use to read text: \<open>split\<close>, \<open>partition\<close>,
  \<open>strip\<close>, \<open>isdigit\<close>, \<open>startswith\<close>, \<open>find\<close>, and the conversions \<open>int(s)\<close> and \<open>float(s)\<close>, on the code
  points below 256.  \<open>float\<close> yields the exact rational that the text denotes.  A conversion that raises
  \<open>ValueError\<close> is \<open>None\<close>.
\<close>

definition NL :: char where "NL = CHR 0x0A"

subsection \<open>Splitting\<close>

text \<open>\<open>s.split(sep)\<close> for a separator of one character.\<close>

fun split_on :: "char \<Rightarrow> string \<Rightarrow> string list" where
  "split_on sep [] = [[]]"
| "split_on sep (c # s) = (if c = sep then [] # split_on sep s
     else (case split_on sep s of f # fs \<Rightarrow> (c # f) # fs | [] \<Rightarrow> [[c]]))"

text \<open>\<open>s.partition(sep)\<close>, with whether the separator was found in the middle.\<close>

definition partition_at :: "char \<Rightarrow> string \<Rightarrow> string \<times> bool \<times> string" where
  "partition_at sep s = (takeWhile (\<lambda>c. c \<noteq> sep) s, sep \<in> set s, tl (dropWhile (\<lambda>c. c \<noteq> sep) s))"

text \<open>\<open>s.split()\<close>.\<close>

function split_ws :: "string \<Rightarrow> string list" where
  "split_ws s =
     (let t = dropWhile is_space s in
      if t = [] then [] else takeWhile (\<lambda>c. \<not> is_space c) t # split_ws (dropWhile (\<lambda>c. \<not> is_space c) t))"
  by auto
termination
proof (relation "measure length", simp)
  fix s t :: string
  assume t: "t = dropWhile is_space s" "t \<noteq> []"
  then have "\<not> is_space (hd t)" using hd_dropWhile by metis
  with t(2) have "length (dropWhile (\<lambda>c. \<not> is_space c) t) < length t"
    by (cases t) (auto simp: le_imp_less_Suc length_dropWhile_le)
  also have "length t \<le> length s" using t(1) by (simp add: length_dropWhile_le)
  finally show "(dropWhile (\<lambda>c. \<not> is_space c) t, s) \<in> measure length" by simp
qed

declare split_ws.simps [simp del]

definition lstrip :: "string \<Rightarrow> string" where
  "lstrip s = dropWhile is_space s"

definition strip :: "string \<Rightarrow> string" where
  "strip s = rev (lstrip (rev (lstrip s)))"

definition startswith :: "string \<Rightarrow> string \<Rightarrow> bool" where
  "startswith s p \<longleftrightarrow> take (length p) s = p"

text \<open>\<open>s.find(c)\<close> and \<open>s.rfind(c)\<close> for one character; \<open>None\<close> for \<open>-1\<close>.\<close>

definition find_char :: "char \<Rightarrow> string \<Rightarrow> nat option" where
  "find_char c s = (if c \<in> set s then Some (length (takeWhile (\<lambda>x. x \<noteq> c) s)) else None)"

definition rfind_char :: "char \<Rightarrow> string \<Rightarrow> nat option" where
  "rfind_char c s = (if c \<in> set s then Some (length s - 1 - length (takeWhile (\<lambda>x. x \<noteq> c) (rev s))) else None)"

fun join :: "string \<Rightarrow> string list \<Rightarrow> string" where
  "join sep [] = []"
| "join sep [f] = f"
| "join sep (f # fs) = f @ sep @ join sep fs"

text \<open>\<open>needle in s\<close>.\<close>

fun contains :: "string \<Rightarrow> string \<Rightarrow> bool" where
  "contains needle [] = (needle = [])"
| "contains needle (c # s) = (startswith (c # s) needle \<or> contains needle s)"

subsection \<open>Numbers\<close>

text \<open>\<open>str.isdigit\<close> accepts the superscripts two, three and one, which \<open>int\<close> rejects.\<close>

definition isdigit :: "string \<Rightarrow> bool" where
  "isdigit s \<longleftrightarrow> s \<noteq> [] \<and> list_all (\<lambda>c. is_digit c \<or> c \<in> {CHR 0xB2, CHR 0xB3, CHR 0xB9}) s"

text \<open>Digits with single underscores between them.\<close>

fun digit_run :: "string \<Rightarrow> string option" where
  "digit_run [] = None"
| "digit_run [c] = (if is_digit c then Some [c] else None)"
| "digit_run (c # d # s) =
     (if is_digit c then (if d = CHR ''_'' then map_option (Cons c) (digit_run s) else map_option (Cons c) (digit_run (d # s)))
      else None)"

definition sign_of :: "string \<Rightarrow> int \<times> string" where
  "sign_of s = (case s of c # t \<Rightarrow> if c = CHR ''-'' then (-1, t) else if c = CHR ''+'' then (1, t) else (1, s) | [] \<Rightarrow> (1, s))"

definition py_int :: "string \<Rightarrow> int option" where
  "py_int s = (case sign_of (strip s) of (sg, t) \<Rightarrow> map_option (\<lambda>ds. sg * int (parse_digits ds)) (digit_run t))"

text \<open>The two halves of a decimal: each may be empty, but not both.\<close>

definition opt_run :: "string \<Rightarrow> string option" where
  "opt_run s = (if s = [] then Some [] else digit_run s)"

definition py_exponent :: "string \<Rightarrow> int option" where
  "py_exponent s = (case sign_of s of (sg, t) \<Rightarrow> map_option (\<lambda>ds. sg * int (parse_digits ds)) (digit_run t))"

definition py_decimal :: "string \<Rightarrow> rat option" where
  "py_decimal s =
     (let mant = takeWhile (\<lambda>c. c \<noteq> CHR ''e'' \<and> c \<noteq> CHR ''E'') s;
          ex = drop (length mant) s;
          (ip, _, fp) = partition_at (CHR ''.'') mant
      in case (opt_run ip, opt_run fp, if ex = [] then Some 0 else py_exponent (tl ex)) of
           (Some i, Some f, Some e) \<Rightarrow>
             if i = [] \<and> f = [] then None
             else Some (of_nat (parse_digits (i @ f)) / 10 ^ length f * (if e \<ge> 0 then 10 ^ nat e else 1 / 10 ^ nat (- e)))
         | _ \<Rightarrow> None)"

definition lower :: "char \<Rightarrow> char" where
  "lower c = (let n = of_char c :: nat in if 65 \<le> n \<and> n \<le> 90 then char_of (n + 32) else c)"

definition py_float :: "string \<Rightarrow> pyfloat option" where
  "py_float s =
     (case sign_of (strip s) of (sg, t) \<Rightarrow>
        if map lower t = ''inf'' \<or> map lower t = ''infinity'' then Some (if sg < 0 then NegInf else PosInf)
        else if map lower t = ''nan'' then Some NaN
        else map_option (\<lambda>q. Fin (of_int sg * q)) (py_decimal t))"

subsection \<open>Facts on splitting\<close>

lemma split_on_not_Nil [simp]: "split_on sep s \<noteq> []"
  by (induction s) (auto split: list.splits)

lemma split_on_sep: "split_on sep (a @ sep # b) = split_on sep a @ split_on sep b"
  by (induction a) (auto split: list.splits)

lemma split_on_free: "sep \<notin> set f \<Longrightarrow> split_on sep f = [f]"
  by (induction f) auto

lemma join_split_on: "join [sep] (split_on sep s) = s"
proof (induction s)
  case (Cons c s)
  then show ?case by (cases "split_on sep s"; cases "tl (split_on sep s)") auto
qed simp

lemma split_on_join:
  "fs \<noteq> [] \<Longrightarrow> list_all (\<lambda>f. sep \<notin> set f) fs \<Longrightarrow> split_on sep (join [sep] fs) = fs"
  by (induction "[sep]" fs rule: join.induct) (auto simp: split_on_sep split_on_free)

text \<open>A field of \<open>s.split()\<close>.\<close>

definition field :: "string \<Rightarrow> bool" where
  "field f \<longleftrightarrow> f \<noteq> [] \<and> list_all (\<lambda>c. \<not> is_space c) f"

lemma split_ws_space: "list_all is_space ws \<Longrightarrow> split_ws ws = []"
  by (subst split_ws.simps) (simp add: Let_def dropWhile_eq_Nil_conv list_all_iff)

lemma split_ws_skip: "list_all is_space ws \<Longrightarrow> split_ws (ws @ s) = split_ws s"
  by (subst (1 2) split_ws.simps) (simp add: dropWhile_append2 list_all_iff)

lemma split_ws_field:
  assumes "field f" "s = [] \<or> is_space (hd s)"
  shows "split_ws (f @ s) = f # split_ws s"
proof -
  obtain c g where f: "f = c # g" "\<not> is_space c" using assms(1) by (cases f) (auto simp: field_def)
  have t: "takeWhile (\<lambda>c. \<not> is_space c) (f @ s) = f" "dropWhile (\<lambda>c. \<not> is_space c) (f @ s) = s"
    using assms by (cases s; auto simp: field_def list_all_iff takeWhile_append dropWhile_append)+
  show ?thesis using f t by (subst split_ws.simps) (simp add: Let_def)
qed

lemma split_ws_join:
  assumes "list_all field fs" "list_all is_space ws"
  shows "split_ws (join [CHR 0x20] fs @ ws) = fs"
  using assms(1)
proof (induction "[CHR 0x20]" fs rule: join.induct)
  case 1
  show ?case using split_ws_space [OF assms(2)] by simp
next
  case (2 f)
  have "split_ws (f @ ws) = f # split_ws ws"
    using 2 assms(2) by (intro split_ws_field) (cases ws; simp)+
  then show ?case using split_ws_space [OF assms(2)] by simp
next
  case (3 f g fs)
  have sp: "is_space (CHR 0x20)" by code_simp
  let ?r = "join [CHR 0x20] (g # fs) @ ws"
  have "split_ws (f @ [CHR 0x20] @ ?r) = f # split_ws ([CHR 0x20] @ ?r)"
    using 3 sp by (intro split_ws_field) simp_all
  also have "split_ws ([CHR 0x20] @ ?r) = split_ws ?r" by (rule split_ws_skip) (simp add: sp)
  finally show ?case using 3 by simp
qed

lemma split_ws_fields: "list_all field (split_ws s)"
proof (induction s rule: split_ws.induct)
  case (1 s)
  let ?t = "dropWhile is_space s"
  show ?case
  proof (cases "?t = []")
    case True
    then show ?thesis by (subst split_ws.simps) (simp add: Let_def)
  next
    case False
    then have "\<not> is_space (hd ?t)" by (rule hd_dropWhile)
    with False have "field (takeWhile (\<lambda>c. \<not> is_space c) ?t)"
      by (cases ?t) (auto simp: field_def list_all_iff dest: set_takeWhileD)
    moreover have "list_all field (split_ws (dropWhile (\<lambda>c. \<not> is_space c) ?t))" using "1.IH" False by blast
    moreover have "split_ws s = takeWhile (\<lambda>c. \<not> is_space c) ?t # split_ws (dropWhile (\<lambda>c. \<not> is_space c) ?t)"
      using False by (subst split_ws.simps) (simp add: Let_def)
    ultimately show ?thesis by simp
  qed
qed

subsection \<open>Facts on numbers\<close>

lemma is_digit_not_space: "is_digit c \<Longrightarrow> \<not> is_space c"
  by (auto simp: is_digit_def is_space_def Let_def)

lemma strip_field: "list_all (\<lambda>c. \<not> is_space c) s \<Longrightarrow> strip s = s"
proof -
  have l: "list_all (\<lambda>c. \<not> is_space c) t \<Longrightarrow> lstrip t = t" for t by (cases t) (simp_all add: lstrip_def)
  assume "list_all (\<lambda>c. \<not> is_space c) s"
  with l [of s] l [of "rev s"] show ?thesis by (simp add: strip_def)
qed

lemma digit_run_digits: "s \<noteq> [] \<Longrightarrow> list_all is_digit s \<Longrightarrow> digit_run s = Some s"
proof (induction s rule: digit_run.induct)
  case (3 c d s)
  moreover have "d \<noteq> CHR ''_''" using 3 by (auto simp: is_digit_def)
  ultimately show ?case by simp
qed auto

lemma show_nat_digits: "list_all is_digit (show_nat n)" "show_nat n \<noteq> []"
proof -
  show "list_all is_digit (show_nat n)" by (simp add: show_nat_def pad_digits)
  have "0 < num_width n" by (subst num_width.simps) simp
  then show "show_nat n \<noteq> []" by (auto simp: show_nat_def dest: arg_cong [of _ _ length])
qed

lemma show_int_field: "field (show_int n)"
proof -
  have "\<not> is_space (CHR ''-'')" by code_simp
  then show ?thesis using show_nat_digits is_digit_not_space
    by (auto simp: field_def show_int_def list_all_iff)
qed

lemma py_int_show: "py_int (show_int n) = Some n"
proof -
  have s: "strip (show_int n) = show_int n" using show_int_field [of n] by (simp add: field_def strip_field)
  have d: "is_digit c \<Longrightarrow> c \<noteq> CHR ''-'' \<and> c \<noteq> CHR ''+''" for c by (auto simp: is_digit_def)
  have pos: "sign_of (show_nat m) = (1, show_nat m)" for m
    using show_nat_digits [of m] d by (cases "show_nat m") (auto simp: sign_of_def)
  have neg: "sign_of (CHR ''-'' # t) = (-1, t)" for t by (simp add: sign_of_def)
  have run: "digit_run (show_nat m) = Some (show_nat m)" for m using show_nat_digits by (intro digit_run_digits)
  show ?thesis by (simp add: py_int_def s) (simp add: show_int_def pos neg run parse_show_nat)
qed

end
