(* ===== verification/Probe_Host.thy ===== *)
theory Probe_Host
  imports Py_Text
begin

text \<open>
  What the probe sees of its node: files, links and directories by path, and the values of a few system
  calls (\<open>probe/probe.py\<close>, the reading helpers).  A host is one moment of the node; an operation that
  reads at several moments takes several hosts.
\<close>

datatype errno = EACCES | EPERM | ENOENT | ESRCH | EINVAL | EIO | ENXIO | OtherErrno int

datatype contents = Contents string | ReadError errno

record host =
  h_read :: "string \<Rightarrow> contents"
  h_link :: "string \<Rightarrow> string option"
  h_list :: "string \<Rightarrow> string list option"
  h_isdir :: "string \<Rightarrow> bool"
  h_user :: "int \<Rightarrow> string option"
  h_clk_tck :: int
  h_page_size :: int

record roots =
  proc_root :: string
  sys_root :: string
  os_release :: string

definition BENIGN_ERRNOS :: "errno list" where
  "BENIGN_ERRNOS = [EACCES, EPERM, ENOENT, ESRCH, EINVAL, EIO, ENXIO]"

definition os_error :: py_error where "os_error = OtherError ''OSError''"

definition read_text :: "host \<Rightarrow> string \<Rightarrow> string option res" where
  "read_text h path = (case h_read h path of Contents s \<Rightarrow> Inr (Some s)
     | ReadError e \<Rightarrow> if e \<in> set BENIGN_ERRNOS then Inr None else Inl os_error)"

text \<open>Sequencing of operations that may raise.\<close>

fun rbind :: "'a res \<Rightarrow> ('a \<Rightarrow> 'b res) \<Rightarrow> 'b res" where
  "rbind (Inl e) f = Inl e"
| "rbind (Inr x) f = f x"

definition rmap :: "('a \<Rightarrow> 'b) \<Rightarrow> 'a res \<Rightarrow> 'b res" where
  "rmap f r = rbind r (\<lambda>x. Inr (f x))"

definition require :: "'a option \<Rightarrow> 'a res" where
  "require x = (case x of None \<Rightarrow> Inl (ValueError ''invalid literal'') | Some v \<Rightarrow> Inr v)"

fun rfold :: "('a \<Rightarrow> 's \<Rightarrow> 's res) \<Rightarrow> 'a list \<Rightarrow> 's \<Rightarrow> 's res" where
  "rfold f [] s = Inr s"
| "rfold f (x # xs) s = rbind (f x s) (rfold f xs)"

definition first_line :: "string \<Rightarrow> string" where
  "first_line s = hd (split_on NL s)"

definition read_first_line :: "host \<Rightarrow> string \<Rightarrow> string option res" where
  "read_first_line h path = rmap (map_option first_line) (read_text h path)"

definition path_join :: "string \<Rightarrow> string \<Rightarrow> string" where
  "path_join a b = (if startswith b ''/'' then b
     else if a = [] \<or> last a = CHR ''/'' then a @ b else a @ ''/'' @ b)"

definition proc_path :: "roots \<Rightarrow> string list \<Rightarrow> string" where
  "proc_path rt parts = foldl path_join (proc_root rt) parts"

definition sys_path :: "roots \<Rightarrow> string list \<Rightarrow> string" where
  "sys_path rt parts = foldl path_join (sys_root rt) parts"

subsection \<open>Facts on sequencing\<close>

lemma rbind_Inr: "rbind r f = Inr y \<longleftrightarrow> (\<exists>x. r = Inr x \<and> f x = Inr y)"
  by (cases r) auto

lemma rmap_Inr: "rmap f r = Inr y \<longleftrightarrow> (\<exists>x. r = Inr x \<and> y = f x)"
  by (auto simp: rmap_def rbind_Inr)

lemma require_Inr [simp]: "require x = Inr y \<longleftrightarrow> x = Some y"
  by (cases x) (auto simp: require_def)

lemma require_Some [simp]: "require (Some y) = Inr y"
  by (simp add: require_def)

lemma rfold_inv:
  assumes "rfold f xs s = Inr s'" "P s" "\<And>x s s'. x \<in> set xs \<Longrightarrow> P s \<Longrightarrow> f x s = Inr s' \<Longrightarrow> P s'"
  shows "P s'"
  using assms
proof (induction xs arbitrary: s)
  case (Cons x xs)
  from Cons.prems(1) obtain s1 where "f x s = Inr s1" "rfold f xs s1 = Inr s'" by (auto simp: rbind_Inr)
  with Cons show ?case by (meson list.set_intros)
qed simp

end
