(* ===== verification/Node_Metrics.thy ===== *)
theory Node_Metrics
  imports Calendar Schema "HOL-Library.List_Lexorder" "HOL-Library.Char_ord"
begin

text \<open>
  One-minute node metrics (\<open>pipeline/node_metrics.py\<close>).

  A counters message is a record of the fields the aggregator computes with; a missing section is
  an empty dictionary and a missing value \<open>None\<close>, as \<open>msg.get(...) or {}\<close> makes them.  Values that
  are only copied into the row stay Python values.
\<close>

record mem_section =
  mem_total_kb :: "int option"
  mem_available_kb :: "int option"
  mem_cached_kb :: pyval
  mem_shmem_kb :: pyval
  mem_swap_total_kb :: "int option"
  mem_swap_free_kb :: "int option"

record probe_self =
  ps_cpu_seconds :: "rat option"
  ps_children_cpu_seconds :: "rat option"
  ps_rss_kb :: "int option"
  ps_maxrss_kb :: pyval

record counters_msg =
  cm_ts :: "string option"
  cm_cpu_jiffies :: "(string, int) dict"
  cm_net :: "(string, int \<times> int) dict"
  cm_md_ops :: "(string, (string, int) dict) dict"
  cm_mem :: mem_section
  cm_probe_self :: probe_self
  cm_load1 :: pyval
  cm_load5 :: pyval
  cm_load15 :: pyval
  cm_procs_running :: pyval
  cm_procs_total :: pyval
  cm_socket_count :: pyval

record census_msg =
  cn_gpus :: "pyval list"
  cn_scan_seconds :: "rat option"
  cn_gpu_status :: "string option"

definition CPU_KEYS :: "string list" where
  "CPU_KEYS = [''user'', ''nice'', ''system'', ''iowait'', ''irq'', ''softirq'', ''steal'', ''idle'']"

definition MAX_PENDING_CENSUS_MINUTES :: nat where "MAX_PENDING_CENSUS_MINUTES = 10"

text \<open>
  \<open>_parse_ts\<close>: \<open>strptime\<close> with \<open>%Y-%m-%dT%H:%M:%S.%fZ\<close>.  A field is two characters where the
  directive allows it and one digit otherwise; \<open>%f\<close> takes one to six digits; the letters match in
  either case; what is left over, a date that does not exist or second 60 is a \<open>ValueError\<close>.
\<close>

definition scan_field :: "(char \<Rightarrow> char \<Rightarrow> bool) \<Rightarrow> (char \<Rightarrow> bool) \<Rightarrow> string \<Rightarrow> (nat \<times> string) option" where
  "scan_field two one s =
     (case s of
        a # b # r \<Rightarrow> if two a b then Some ((if a = CHR '' '' then 0 else 10 * digit_val a) + digit_val b, r)
          else if one a then Some (digit_val a, b # r) else None
      | [a] \<Rightarrow> if one a then Some (digit_val a, []) else None
      | [] \<Rightarrow> None)"

definition nonzero_digit :: "char \<Rightarrow> bool" where
  "nonzero_digit c \<longleftrightarrow> is_digit c \<and> c \<noteq> CHR ''0''"

definition scan_month :: "string \<Rightarrow> (nat \<times> string) option" where
  "scan_month = scan_field (\<lambda>a b. a = CHR ''1'' \<and> b \<in> {CHR ''0'', CHR ''1'', CHR ''2''} \<or> a = CHR ''0'' \<and> nonzero_digit b) nonzero_digit"

definition scan_day :: "string \<Rightarrow> (nat \<times> string) option" where
  "scan_day = scan_field (\<lambda>a b. a = CHR ''3'' \<and> b \<in> {CHR ''0'', CHR ''1''} \<or> a \<in> {CHR ''1'', CHR ''2''} \<and> is_digit b \<or>
     a \<in> {CHR ''0'', CHR '' ''} \<and> nonzero_digit b) nonzero_digit"

definition scan_hour :: "string \<Rightarrow> (nat \<times> string) option" where
  "scan_hour = scan_field (\<lambda>a b. a = CHR ''2'' \<and> b \<in> {CHR ''0'', CHR ''1'', CHR ''2'', CHR ''3''} \<or> a \<in> {CHR ''0'', CHR ''1''} \<and> is_digit b) is_digit"

definition scan_sixty :: "bool \<Rightarrow> string \<Rightarrow> (nat \<times> string) option" where
  "scan_sixty leap = scan_field (\<lambda>a b. is_digit a \<and> digit_val a < 6 \<and> is_digit b \<or> leap \<and> a = CHR ''6'' \<and> b \<in> {CHR ''0'', CHR ''1''}) is_digit"

definition scan_fraction :: "string \<Rightarrow> (nat \<times> string) option" where
  "scan_fraction s = (let ds = take 6 (takeWhile is_digit s) in
     if ds = [] then None else Some (parse_digits ds * 10 ^ (6 - length ds), drop (length ds) s))"

definition scan_letter :: "char \<Rightarrow> char \<Rightarrow> string \<Rightarrow> string option" where
  "scan_letter upper lower_case s = (case s of c # r \<Rightarrow> if c = upper \<or> c = lower_case then Some r else None | [] \<Rightarrow> None)"

definition parse_ts :: "string \<Rightarrow> datetime option" where
  "parse_ts s =
     Option.bind (scan_num 4 s) (\<lambda>(y, s).
     Option.bind (scan_char CHR ''-'' s) (\<lambda>s.
     Option.bind (scan_month s) (\<lambda>(mo, s).
     Option.bind (scan_char CHR ''-'' s) (\<lambda>s.
     Option.bind (scan_day s) (\<lambda>(d, s).
     Option.bind (scan_letter CHR ''T'' CHR ''t'' s) (\<lambda>s.
     Option.bind (scan_hour s) (\<lambda>(h, s).
     Option.bind (scan_char CHR '':'' s) (\<lambda>s.
     Option.bind (scan_sixty False s) (\<lambda>(mi, s).
     Option.bind (scan_char CHR '':'' s) (\<lambda>s.
     Option.bind (scan_sixty True s) (\<lambda>(sec, s).
     Option.bind (scan_char CHR ''.'' s) (\<lambda>s.
     Option.bind (scan_fraction s) (\<lambda>(us, s).
     Option.bind (scan_letter CHR ''Z'' CHR ''z'' s) (\<lambda>s.
     let c = \<lparr>c_date = \<lparr>d_year = int y, d_month = mo, d_day = d\<rparr>, c_hour = h, c_minute = mi,
         c_second = sec, c_us = us\<rparr> in
     if s = [] \<and> 1 \<le> y \<and> civil_ok c then Some (utc (of_civil c)) else None))))))))))))))"

text \<open>\<open>target.split("-MDT")[0]\<close>\<close>

fun before_mdt :: "string \<Rightarrow> string" where
  "before_mdt [] = []"
| "before_mdt (c # s) = (if take 4 (c # s) = ''-MDT'' then [] else c # before_mdt s)"

definition fs_totals :: "(string, (string, int) dict) dict \<Rightarrow> (string, (string, int) dict) dict" where
  "fs_totals md_ops =
     foldl (\<lambda>out (target, ops).
        let fs = before_mdt target in dset out fs (dset (dget_or out fs []) target (dget_or ops ''total'' 0))) [] md_ops"

record minute =
  mi_minute :: datetime
  mi_last :: counters_msg
  mi_sample_count :: nat
  mi_offsets :: "rat list"
  mi_cpu :: "(string, int) dict"
  mi_cpu_pairs :: nat
  mi_net :: "(string, int \<times> int \<times> rat) dict"
  mi_md :: "(string, int \<times> rat) dict"
  mi_probe_cpu :: rat
  mi_probe_pairs :: nat
  mi_probe_rss :: "int option"

text \<open>A new minute is given the message that opens it, so \<open>last\<close> is never \<open>None\<close>.\<close>

definition new_minute :: "datetime \<Rightarrow> counters_msg \<Rightarrow> minute" where
  "new_minute m msg = \<lparr>mi_minute = m, mi_last = msg, mi_sample_count = 0, mi_offsets = [],
     mi_cpu = map (\<lambda>k. (k, 0)) CPU_KEYS, mi_cpu_pairs = 0, mi_net = [], mi_md = [], mi_probe_cpu = 0,
     mi_probe_pairs = 0, mi_probe_rss = None\<rparr>"

record census_slot =
  sl_gpus :: "pyval list"
  sl_scan :: "rat option"
  sl_gpu_status :: "string option"

record minute_agg =
  ma_expected :: int
  ma_open :: "minute option"
  ma_prev :: "(counters_msg \<times> datetime \<times> nat) option"
  ma_census :: "(int, census_slot) dict"
  ma_last_closed :: "datetime option"

definition new_minute_agg :: "rat \<Rightarrow> minute_agg" where
  "new_minute_agg counter_interval =
     \<lparr>ma_expected = round_even (60 / counter_interval), ma_open = None, ma_prev = None, ma_census = [], ma_last_closed = None\<rparr>"

subsection \<open>Censuses\<close>

text \<open>Aware times are dictionary keys by their instant.  \<open>evict_census\<close> is the \<open>while\<close> loop.\<close>

definition min_key :: "(int, 'v) dict \<Rightarrow> int" where
  "min_key d = foldr min (dkeys d) (hd (dkeys d))"

lemma min_key_in: "d \<noteq> [] \<Longrightarrow> min_key d \<in> set (dkeys d)"
proof -
  have fold: "foldr min xs (x :: int) \<in> insert x (set xs)" for xs x by (induction xs) (auto simp: min_def)
  assume "d \<noteq> []"
  then have "hd (dkeys d) \<in> set (dkeys d)" by (intro hd_in_set) simp
  with fold [of "dkeys d" "hd (dkeys d)"] show "min_key d \<in> set (dkeys d)"
    unfolding min_key_def by (metis insert_iff)
qed

function evict_census :: "(int, census_slot) dict \<Rightarrow> (int, census_slot) dict" where
  "evict_census d = (if length d > MAX_PENDING_CENSUS_MINUTES then evict_census (dpop d (min_key d)) else d)"
  by auto
termination
proof (relation "measure length")
  fix d :: "(int, census_slot) dict"
  assume "MAX_PENDING_CENSUS_MINUTES < length d"
  then have "min_key d \<in> set (dkeys d)" by (intro min_key_in) auto
  then obtain v where "(min_key d, v) \<in> set d" by auto
  then show "(dpop d (min_key d), d) \<in> measure length"
    by (auto simp: dpop_def intro!: length_filter_less)
qed simp

declare evict_census.simps [simp del]

definition add_census_minute :: "minute_agg \<Rightarrow> census_msg \<Rightarrow> datetime \<Rightarrow> minute_agg res" where
  "add_census_minute ma msg recv =
     (case require_aware recv of
        Inl e \<Rightarrow> Inl e
      | Inr recv \<Rightarrow>
          (let m = floor_minute recv; k = instant m in
           if (case ma_open ma of None \<Rightarrow> False | Some cur \<Rightarrow> k < instant (mi_minute cur)) then Inr ma
           else if (case ma_last_closed ma of None \<Rightarrow> False | Some c \<Rightarrow> k \<le> instant c) then Inr ma
           else
             (let slot = dget_or (ma_census ma) k \<lparr>sl_gpus = [], sl_scan = None, sl_gpu_status = None\<rparr>;
                  scan = (case cn_scan_seconds msg of
                     None \<Rightarrow> sl_scan slot
                   | Some s \<Rightarrow> (case sl_scan slot of None \<Rightarrow> Some s | Some old \<Rightarrow> if s > old then Some s else Some old));
                  slot = \<lparr>sl_gpus = cn_gpus msg, sl_scan = scan, sl_gpu_status = cn_gpu_status msg\<rparr>
              in Inr (ma\<lparr>ma_census := evict_census (dset (ma_census ma) k slot)\<rparr>))))"

subsection \<open>Counters\<close>

definition add_cpu_pair :: "minute \<Rightarrow> (string, int) dict \<Rightarrow> (string, int) dict \<Rightarrow> minute" where
  "add_cpu_pair cur ja jb =
     (if list_all (\<lambda>k. k \<in> set (dkeys ja) \<and> k \<in> set (dkeys jb)) CPU_KEYS \<and>
         list_all (\<lambda>k. dget_or ja k 0 \<le> dget_or jb k 0) CPU_KEYS
      then cur\<lparr>mi_cpu := map (\<lambda>(k, v). (k, v + (dget_or jb k 0 - dget_or ja k 0))) (mi_cpu cur),
               mi_cpu_pairs := mi_cpu_pairs cur + 1\<rparr>
      else cur)"

definition add_net_pair :: "(string, int \<times> int) dict \<Rightarrow> (string, int \<times> int) dict \<Rightarrow> rat \<Rightarrow> minute \<Rightarrow> minute" where
  "add_net_pair na nb elapsed cur =
     foldl (\<lambda>cur (iface, (rxa, txa)).
        case dget nb iface of
          None \<Rightarrow> cur
        | Some (rxb, txb) \<Rightarrow>
            if rxb - rxa < 0 \<or> txb - txa < 0 then cur
            else (case dget_or (mi_net cur) iface (0, 0, 0) of
                    (rx, tx, el) \<Rightarrow> cur\<lparr>mi_net := dset (mi_net cur) iface (rx + (rxb - rxa), tx + (txb - txa), el + elapsed)\<rparr>))
       cur na"

definition md_deltas :: "(string, int) dict \<Rightarrow> (string, int) dict \<Rightarrow> int list" where
  "md_deltas ta tb = List.map_filter (\<lambda>(t, a). map_option (\<lambda>b. b - a) (dget tb t)) ta"

definition add_md_pair :: "(string, (string, int) dict) dict \<Rightarrow> (string, (string, int) dict) dict \<Rightarrow> rat \<Rightarrow> minute \<Rightarrow> minute" where
  "add_md_pair fa fb elapsed cur =
     foldl (\<lambda>cur (fs, ta).
        case dget fb fs of
          None \<Rightarrow> cur
        | Some tb \<Rightarrow>
            (let deltas = md_deltas ta tb in
             if deltas = [] \<or> list_ex (\<lambda>d. d < 0) deltas then cur
             else (case dget_or (mi_md cur) fs (0, 0) of
                     (n, el) \<Rightarrow> cur\<lparr>mi_md := dset (mi_md cur) fs (n + sum_list deltas, el + elapsed)\<rparr>)))
       cur fa"

definition probe_cpu :: "probe_self \<Rightarrow> rat option" where
  "probe_cpu p = (case (ps_cpu_seconds p, ps_children_cpu_seconds p) of (Some a, Some b) \<Rightarrow> Some (a + b) | _ \<Rightarrow> None)"

definition add_probe_pair :: "probe_self \<Rightarrow> probe_self \<Rightarrow> minute \<Rightarrow> minute" where
  "add_probe_pair pa pb cur =
     (case (probe_cpu pa, probe_cpu pb) of
        (Some ca, Some cb) \<Rightarrow>
          if ca \<le> cb then cur\<lparr>mi_probe_cpu := mi_probe_cpu cur + (cb - ca), mi_probe_pairs := mi_probe_pairs cur + 1\<rparr> else cur
      | _ \<Rightarrow> cur)"

definition add_pair :: "minute \<Rightarrow> counters_msg \<Rightarrow> counters_msg \<Rightarrow> rat \<Rightarrow> minute" where
  "add_pair cur a b elapsed =
     add_probe_pair (cm_probe_self a) (cm_probe_self b)
       (add_md_pair (fs_totals (cm_md_ops a)) (fs_totals (cm_md_ops b)) elapsed
         (add_net_pair (cm_net a) (cm_net b) elapsed
           (add_cpu_pair cur (cm_cpu_jiffies a) (cm_cpu_jiffies b))))"

definition median :: "rat list \<Rightarrow> rat" where
  "median xs =
     (let ys = sort xs; n = length ys in
      if odd n then ys ! (n div 2) else (ys ! (n div 2 - 1) + ys ! (n div 2)) / 2)"

definition opt_diff :: "int option \<Rightarrow> int option \<Rightarrow> pyval" where
  "opt_diff a b = (case (a, b) of (Some x, Some y) \<Rightarrow> VInt (x - y) | _ \<Rightarrow> VNone)"

definition cpu_pct :: "minute \<Rightarrow> pyval" where
  "cpu_pct cur =
     (let total = sum_list (dvalues (mi_cpu cur)) in
      if mi_cpu_pairs cur \<noteq> 0 \<and> 0 < total
      then VDict (map (\<lambda>k. (k, vnum (round_digits 2 (100 * of_int (dget_or (mi_cpu cur) k 0) / of_int total)))) CPU_KEYS)
      else VNone)"

definition minute_row :: "int \<Rightarrow> minute \<Rightarrow> census_slot \<Rightarrow> row" where
  "minute_row expected cur slot =
     (let lst = mi_last cur; mem = cm_mem lst in
      [(''minute'', VTime (mi_minute cur)), (''cpu_pct'', cpu_pct cur),
       (''load1'', cm_load1 lst), (''load5'', cm_load5 lst), (''load15'', cm_load15 lst),
       (''procs_running'', cm_procs_running lst), (''procs_total'', cm_procs_total lst),
       (''socket_count'', cm_socket_count lst),
       (''mem_total_kb'', of_opt VInt (mem_total_kb mem)), (''mem_available_kb'', of_opt VInt (mem_available_kb mem)),
       (''mem_cached_kb'', mem_cached_kb mem), (''mem_shmem_kb'', mem_shmem_kb mem),
       (''mem_used_kb'', opt_diff (mem_total_kb mem) (mem_available_kb mem)),
       (''swap_used_kb'', opt_diff (mem_swap_total_kb mem) (mem_swap_free_kb mem)),
       (''network_rates'', VDict (map (\<lambda>(iface, (rx, tx, el)). (iface,
          VDict [(''rx_bytes_per_sec'', vnum (of_int rx / el)), (''tx_bytes_per_sec'', vnum (of_int tx / el))]))
          (sort_key fst (mi_net cur)))),
       (''lustre_md_rates'', VDict (map (\<lambda>(fs, (n, el)). (fs, vnum (of_int n / el))) (sort_key fst (mi_md cur)))),
       (''gpus'', VList (sl_gpus slot)), (''gpu_status'', of_opt VStr (sl_gpu_status slot)),
       (''sample_latency_sec'', of_opt vnum (sl_scan slot)),
       (''clock_offset_sec'', if mi_offsets cur = [] then VNone else vnum (round_digits 3 (median (mi_offsets cur)))),
       (''probe_cpu_seconds'', if mi_probe_pairs cur \<noteq> 0 then vnum (mi_probe_cpu cur) else VNone),
       (''probe_maxrss_kb'', ps_maxrss_kb (cm_probe_self lst)), (''probe_rss_kb'', of_opt VInt (mi_probe_rss cur)),
       (''sample_count'', VInt (int (mi_sample_count cur))), (''expected_count'', VInt expected)])"

definition close_minute :: "minute_agg \<Rightarrow> minute \<Rightarrow> row \<times> minute_agg" where
  "close_minute ma cur =
     (let k = instant (mi_minute cur);
          slot = dget_or (ma_census ma) k \<lparr>sl_gpus = [], sl_scan = None, sl_gpu_status = None\<rparr>
      in (minute_row (ma_expected ma) cur slot,
          ma\<lparr>ma_open := None, ma_last_closed := Some (mi_minute cur),
             ma_census := filter (\<lambda>(m, _). \<not> m < k) (dpop (ma_census ma) k)\<rparr>))"

text \<open>\<open>add_counters\<close>: close the open minute when the sample is past it, then fold the sample in.\<close>

definition roll_minute :: "minute_agg \<Rightarrow> datetime \<Rightarrow> row list \<times> minute_agg" where
  "roll_minute ma m =
     (case ma_open ma of
        Some old \<Rightarrow> if instant (mi_minute old) < instant m
          then (case close_minute ma old of (row, ma) \<Rightarrow> ([row], ma)) else ([], ma)
      | None \<Rightarrow> ([], ma))"

definition fold_sample :: "minute \<Rightarrow> counters_msg \<Rightarrow> datetime \<Rightarrow> minute" where
  "fold_sample cur msg recv =
     (let cur = cur\<lparr>mi_sample_count := mi_sample_count cur + 1, mi_last := msg\<rparr>;
          cur = (case ps_rss_kb (cm_probe_self msg) of None \<Rightarrow> cur | Some rss \<Rightarrow> cur\<lparr>mi_probe_rss := Some rss\<rparr>)
      in case Option.bind (cm_ts msg) parse_ts of None \<Rightarrow> cur
         | Some ts \<Rightarrow> cur\<lparr>mi_offsets := mi_offsets cur @ [secs_between recv ts]\<rparr>)"

definition add_counters :: "minute_agg \<Rightarrow> counters_msg \<Rightarrow> datetime \<Rightarrow> nat \<Rightarrow> (row list \<times> minute_agg) res" where
  "add_counters ma msg recv session_id =
     (case require_aware recv of
        Inl e \<Rightarrow> Inl e
      | Inr recv \<Rightarrow>
          (let m = floor_minute recv;
               (rows, ma) = roll_minute ma m;
               cur = (case ma_open ma of None \<Rightarrow> new_minute m msg | Some old \<Rightarrow> old);
               cur = fold_sample cur msg recv;
               cur = (case ma_prev ma of
                    Some (prev, at_prev, sid) \<Rightarrow>
                      if sid = session_id \<and> 0 < secs_between recv at_prev
                      then add_pair cur prev msg (secs_between recv at_prev) else cur
                  | None \<Rightarrow> cur)
           in Inr (rows, ma\<lparr>ma_open := Some cur, ma_prev := Some (msg, recv, session_id)\<rparr>)))"

definition flush_minutes :: "minute_agg \<Rightarrow> row list \<times> minute_agg" where
  "flush_minutes ma = (case ma_open ma of None \<Rightarrow> ([], ma) | Some cur \<Rightarrow> (case close_minute ma cur of (row, ma) \<Rightarrow> ([row], ma)))"

subsection \<open>Bounded memory\<close>

lemma length_evict_census: "length (evict_census d) \<le> MAX_PENDING_CENSUS_MINUTES"
  by (induction d rule: evict_census.induct) (subst evict_census.simps, simp)

text \<open>\<open>evict_census\<close> keeps the newest minutes: whatever it drops is older than whatever it keeps.\<close>

lemma min_key_least: "k \<in> set (dkeys d) \<Longrightarrow> min_key d \<le> k"
proof -
  have "k \<in> set xs \<Longrightarrow> foldr min xs (x :: int) \<le> k" for xs x k by (induction xs) (auto simp: min_le_iff_disj)
  then show "k \<in> set (dkeys d) \<Longrightarrow> min_key d \<le> k" by (simp add: min_key_def)
qed

lemma evict_census_newest:
  "set (evict_census d) \<subseteq> set d \<and>
   (\<forall>k \<in> set (dkeys d) - set (dkeys (evict_census d)). \<forall>k' \<in> set (dkeys (evict_census d)). k < k')"
proof (induction d rule: evict_census.induct)
  case (1 d)
  show ?case
  proof (cases "length d > MAX_PENDING_CENSUS_MINUTES")
    case True
    then have e: "evict_census d = evict_census (dpop d (min_key d))" by (subst evict_census.simps) simp
    let ?d = "dpop d (min_key d)"
    note IH = 1 [OF True]
    have sub: "set ?d \<subseteq> set d" by (auto simp: dpop_def)
    have keys: "set (dkeys ?d) = set (dkeys d) - {min_key d}" by simp
    have "k < k'" if k: "k \<in> set (dkeys d) - set (dkeys (evict_census ?d))" and k': "k' \<in> set (dkeys (evict_census ?d))" for k k'
    proof (cases "k = min_key d")
      case True
      from IH have "fst ` set (evict_census ?d) \<subseteq> fst ` set ?d" by (intro image_mono) simp
      with k' have "k' \<in> set (dkeys ?d)" unfolding set_map by blast
      then have "k' \<noteq> min_key d" "k' \<in> set (dkeys d)" unfolding keys by auto
      with True min_key_least [of k' d] show ?thesis by simp
    next
      case False
      with k keys have "k \<in> set (dkeys ?d) - set (dkeys (evict_census ?d))" by auto
      with IH k' show ?thesis by blast
    qed
    with IH sub e show ?thesis by auto
  next
    case False
    then have "evict_census d = d" by (subst evict_census.simps) simp
    then show ?thesis by simp
  qed
qed

subsection \<open>What the open minute holds\<close>

definition minute_ok :: "minute \<Rightarrow> bool" where
  "minute_ok cur \<longleftrightarrow>
     dkeys (mi_cpu cur) = CPU_KEYS \<and> (\<forall>v \<in> set (dvalues (mi_cpu cur)). 0 \<le> v) \<and>
     (\<forall>(rx, tx, el) \<in> set (dvalues (mi_net cur)). 0 \<le> rx \<and> 0 \<le> tx \<and> 0 < el) \<and>
     (\<forall>(n, el) \<in> set (dvalues (mi_md cur)). 0 \<le> n \<and> 0 < el) \<and> 0 \<le> mi_probe_cpu cur"

lemma mem_dset: "(a, x) \<in> set (dset d k v) \<Longrightarrow> x = v \<or> (a, x) \<in> set d"
  by (induction d k v rule: dset.induct) (auto split: if_splits)

lemma dget_or_value: "dget_or d k z = z \<or> dget_or d k z \<in> set (dvalues d)"
  by (cases "dget d k") (force simp: dget_or_def dest: map_of_SomeD)+

lemma new_minute_ok: "minute_ok (new_minute m msg)"
  by (auto simp: minute_ok_def new_minute_def CPU_KEYS_def)

lemma add_cpu_pair_ok: "minute_ok cur \<Longrightarrow> minute_ok (add_cpu_pair cur ja jb)"
proof -
  assume ok: "minute_ok cur"
  have "0 \<le> v + (dget_or jb k 0 - dget_or ja k 0)"
    if "list_all (\<lambda>k. dget_or ja k 0 \<le> dget_or jb k 0) CPU_KEYS" "(k, v) \<in> set (mi_cpu cur)" for k v
  proof -
    from that(2) have "k \<in> set (dkeys (mi_cpu cur))" "v \<in> set (dvalues (mi_cpu cur))" by force+
    with ok have "k \<in> set CPU_KEYS" "0 \<le> v" unfolding minute_ok_def by auto
    with that(1) show ?thesis by (auto simp: list_all_iff)
  qed
  with ok show ?thesis
    by (auto simp: add_cpu_pair_def minute_ok_def comp_def case_prod_beta image_iff)
qed

lemma add_net_pair_ok:
  assumes "minute_ok cur" "0 < elapsed"
  shows "minute_ok (add_net_pair na nb elapsed cur)"
  using assms(1) unfolding add_net_pair_def
proof (induction na arbitrary: cur)
  case Nil
  then show ?case by simp
next
  case (Cons e na)
  obtain iface rxa txa where e: "e = (iface, (rxa, txa))" by (cases e) auto
  have step: "minute_ok (cur\<lparr>mi_net := dset (mi_net cur) iface (rx + a, tx + b, el + elapsed)\<rparr>)"
    if "dget_or (mi_net cur) iface (0, 0, 0) = (rx, tx, el)" "0 \<le> a" "0 \<le> b" for rx tx el a b
    using Cons.prems that assms(2) dget_or_value [of "mi_net cur" iface "(0, 0, 0)"]
    by (auto simp: minute_ok_def dest!: mem_dset)
  show ?case
    unfolding e by (simp, rule Cons.IH) (use Cons.prems step in \<open>auto split: option.splits prod.splits\<close>)
qed

lemma add_md_pair_ok:
  assumes "minute_ok cur" "0 < elapsed"
  shows "minute_ok (add_md_pair fa fb elapsed cur)"
  using assms(1) unfolding add_md_pair_def
proof (induction fa arbitrary: cur)
  case Nil
  then show ?case by simp
next
  case (Cons e fa)
  obtain fs ta where e: "e = (fs, ta)" by (cases e)
  have step: "minute_ok (cur\<lparr>mi_md := dset (mi_md cur) fs (n + sum_list ds, el + elapsed)\<rparr>)"
    if "dget_or (mi_md cur) fs (0, 0) = (n, el)" "\<not> list_ex (\<lambda>d. d < 0) ds" for n el ds
  proof -
    have "0 \<le> sum_list ds" using that(2) by (intro sum_list_nonneg) (auto simp: list_ex_iff)
    with Cons.prems that(1) assms(2) dget_or_value [of "mi_md cur" fs "(0, 0)"] show ?thesis
      by (auto simp: minute_ok_def dest!: mem_dset)
  qed
  show ?case
    unfolding e by (simp, rule Cons.IH) (use Cons.prems step in \<open>auto simp: Let_def split: option.splits prod.splits\<close>)
qed

lemma add_pair_ok: "minute_ok cur \<Longrightarrow> 0 < elapsed \<Longrightarrow> minute_ok (add_pair cur a b elapsed)"
proof -
  assume "minute_ok cur" "0 < elapsed"
  then have "minute_ok (add_md_pair x y elapsed (add_net_pair u v elapsed (add_cpu_pair cur p q)))" for x y u v p q
    by (intro add_md_pair_ok add_net_pair_ok add_cpu_pair_ok)
  moreover have "minute_ok (add_probe_pair pa pb c)" if "minute_ok c" for pa pb c
    using that by (auto simp: add_probe_pair_def minute_ok_def split: option.splits)
  ultimately show ?thesis by (simp add: add_pair_def)
qed


subsection \<open>The emitted rows\<close>

fun rate_ok :: "pyval \<Rightarrow> bool" where
  "rate_ok (VFloat (Fin q)) = (0 \<le> q)"
| "rate_ok _ = False"

fun pct_ok :: "pyval \<Rightarrow> bool" where
  "pct_ok (VFloat (Fin q)) = (0 \<le> q \<and> q \<le> 100)"
| "pct_ok _ = False"

fun dict_all :: "(pyval \<Rightarrow> bool) \<Rightarrow> pyval \<Rightarrow> bool" where
  "dict_all P (VDict d) = list_all (\<lambda>e. P (snd e)) d"
| "dict_all P _ = False"

fun positive_int :: "pyval \<Rightarrow> bool" where
  "positive_int (VInt n) = (0 < n)"
| "positive_int _ = False"

definition minute_row_ok :: "row \<Rightarrow> bool" where
  "minute_row_ok row \<longleftrightarrow>
     dkeys row = NODE_METRICS_COLUMNS \<and>
     (rget row ''cpu_pct'' = VNone \<or> dict_all pct_ok (rget row ''cpu_pct'')) \<and>
     dict_all (dict_all rate_ok) (rget row ''network_rates'') \<and>
     dict_all rate_ok (rget row ''lustre_md_rates'') \<and>
     (rget row ''probe_cpu_seconds'' = VNone \<or> rate_ok (rget row ''probe_cpu_seconds'')) \<and>
     positive_int (rget row ''sample_count'')"

lemma minute_row_get:
  "dkeys (minute_row e cur slot) = NODE_METRICS_COLUMNS"
  "rget (minute_row e cur slot) ''minute'' = VTime (mi_minute cur)"
  "rget (minute_row e cur slot) ''cpu_pct'' = cpu_pct cur"
  "rget (minute_row e cur slot) ''network_rates'' = VDict (map (\<lambda>(iface, (rx, tx, el)). (iface,
          VDict [(''rx_bytes_per_sec'', vnum (of_int rx / el)), (''tx_bytes_per_sec'', vnum (of_int tx / el))]))
          (sort_key fst (mi_net cur)))"
  "rget (minute_row e cur slot) ''lustre_md_rates'' =
     VDict (map (\<lambda>(fs, (n, el)). (fs, vnum (of_int n / el))) (sort_key fst (mi_md cur)))"
  "rget (minute_row e cur slot) ''probe_cpu_seconds'' =
     (if mi_probe_pairs cur \<noteq> 0 then vnum (mi_probe_cpu cur) else VNone)"
  "rget (minute_row e cur slot) ''sample_count'' = VInt (int (mi_sample_count cur))"
  by (simp_all add: minute_row_def Let_def NODE_METRICS_COLUMNS_def rget_def dget_or_def)

lemma dget_le_sum:
  "(\<forall>v \<in> set (dvalues d). 0 \<le> v) \<Longrightarrow> 0 \<le> dget_or d k 0 \<and> dget_or d k 0 \<le> sum_list (dvalues d)"
  for d :: "(string, int) dict"
proof (cases "dget d k")
  case None
  then show "(\<forall>v \<in> set (dvalues d). 0 \<le> v) \<Longrightarrow> ?thesis" by (auto simp: dget_or_def intro!: sum_list_nonneg)
next
  case (Some v)
  then have v: "v \<in> set (dvalues d)" by (force dest: map_of_SomeD)
  assume nn: "\<forall>v \<in> set (dvalues d). 0 \<le> v"
  with v have "0 \<le> v" by blast
  with member_le_sum_list [of v "dvalues d"] nn v Some show ?thesis by (auto simp: dget_or_def)
qed

lemma cpu_pct_ok:
  assumes "minute_ok cur"
  shows "cpu_pct cur = VNone \<or> dict_all pct_ok (cpu_pct cur)"
proof -
  let ?total = "sum_list (dvalues (mi_cpu cur))"
  have "0 \<le> round_digits 2 (100 * of_int (dget_or (mi_cpu cur) k 0) / of_int ?total) \<and>
        round_digits 2 (100 * of_int (dget_or (mi_cpu cur) k 0) / of_int ?total) \<le> 100"
    if t: "0 < ?total" for k
  proof -
    from assms have "\<forall>v \<in> set (dvalues (mi_cpu cur)). 0 \<le> v" unfolding minute_ok_def by blast
    from dget_le_sum [OF this] have b: "0 \<le> dget_or (mi_cpu cur) k 0" "dget_or (mi_cpu cur) k 0 \<le> ?total" by blast+
    then have "(of_int 0 :: rat) \<le> 100 * of_int (dget_or (mi_cpu cur) k 0) / of_int ?total"
      "100 * of_int (dget_or (mi_cpu cur) k 0) / of_int ?total \<le> (of_int 100 :: rat)"
      using t by (simp_all add: divide_nonneg_pos pos_divide_le_eq)
    from round_digits_between [OF this] show ?thesis by simp
  qed
  then show ?thesis by (auto simp: cpu_pct_def Let_def list_all_iff)
qed

lemma minute_row_sound:
  assumes "minute_ok cur" "0 < mi_sample_count cur"
  shows "minute_row_ok (minute_row e cur slot)"
proof -
  from assms(1) have net: "\<And>i rx tx el. (i, rx, tx, el) \<in> set (mi_net cur) \<Longrightarrow> 0 \<le> rx \<and> 0 \<le> tx \<and> 0 < el"
    and md: "\<And>f n el. (f, n, el) \<in> set (mi_md cur) \<Longrightarrow> 0 \<le> n \<and> 0 < el"
    and probe: "0 \<le> mi_probe_cpu cur"
    unfolding minute_ok_def by (force, force, simp)
  show ?thesis
    unfolding minute_row_ok_def minute_row_get
    using assms(2) cpu_pct_ok [OF assms(1)] probe
    by (auto simp: list_all_iff divide_nonneg_pos dest!: net md)
qed

subsection \<open>Sequences of messages\<close>

text \<open>
  The calls the pipeline makes on one aggregator, in any order and with any receive times; a call
  that raises (a naive receive time) leaves the aggregator as it was.
\<close>

datatype minute_call = CounterCall counters_msg datetime nat | CensusCall census_msg datetime | FlushCall

fun minute_step :: "minute_agg \<Rightarrow> minute_call \<Rightarrow> row list \<times> minute_agg" where
  "minute_step ma (CounterCall msg recv sid) = (case add_counters ma msg recv sid of Inl _ \<Rightarrow> ([], ma) | Inr r \<Rightarrow> r)"
| "minute_step ma (CensusCall msg recv) = ([], case add_census_minute ma msg recv of Inl _ \<Rightarrow> ma | Inr ma' \<Rightarrow> ma')"
| "minute_step ma FlushCall = flush_minutes ma"

fun minute_run :: "minute_agg \<Rightarrow> minute_call list \<Rightarrow> row list \<times> minute_agg" where
  "minute_run ma [] = ([], ma)"
| "minute_run ma (c # cs) =
     (case minute_step ma c of (rows, ma) \<Rightarrow> case minute_run ma cs of (rest, ma) \<Rightarrow> (rows @ rest, ma))"

definition agg_ok :: "minute_agg \<Rightarrow> bool" where
  "agg_ok ma \<longleftrightarrow> (case ma_open ma of None \<Rightarrow> True | Some cur \<Rightarrow> minute_ok cur \<and> 0 < mi_sample_count cur) \<and>
     length (ma_census ma) \<le> MAX_PENDING_CENSUS_MINUTES"

lemma minute_ok_upd [simp]:
  "minute_ok (cur\<lparr>mi_sample_count := n\<rparr>) = minute_ok cur" "minute_ok (cur\<lparr>mi_last := l\<rparr>) = minute_ok cur"
  "minute_ok (cur\<lparr>mi_probe_rss := r\<rparr>) = minute_ok cur" "minute_ok (cur\<lparr>mi_offsets := xs\<rparr>) = minute_ok cur"
  by (simp_all add: minute_ok_def)

lemma add_cpu_pair_frame [simp]:
  "mi_sample_count (add_cpu_pair cur p q) = mi_sample_count cur" "mi_minute (add_cpu_pair cur p q) = mi_minute cur"
  by (simp_all add: add_cpu_pair_def)

lemma add_net_pair_frame [simp]:
  "mi_sample_count (add_net_pair a b e cur) = mi_sample_count cur \<and> mi_minute (add_net_pair a b e cur) = mi_minute cur"
  unfolding add_net_pair_def by (induction a arbitrary: cur) (auto split: option.splits prod.splits)

lemma add_md_pair_frame [simp]:
  "mi_sample_count (add_md_pair a b e cur) = mi_sample_count cur \<and> mi_minute (add_md_pair a b e cur) = mi_minute cur"
  unfolding add_md_pair_def by (induction a arbitrary: cur) (auto simp: Let_def split: option.splits prod.splits)

lemma add_pair_frame [simp]:
  "mi_sample_count (add_pair cur a b e) = mi_sample_count cur" "mi_minute (add_pair cur a b e) = mi_minute cur"
  by (auto simp: add_pair_def add_probe_pair_def split: option.splits)

lemma close_minute_ok:
  assumes "agg_ok ma" "ma_open ma = Some cur" "close_minute ma cur = (row, ma')"
  shows "minute_row_ok row \<and> ma_open ma' = None \<and> agg_ok ma'"
proof -
  have "length (filter P (dpop d k)) \<le> length d" for P d and k :: int
    unfolding dpop_def by (metis length_filter_le le_trans)
  with assms show ?thesis
    by (fastforce simp: close_minute_def Let_def agg_ok_def intro: minute_row_sound le_trans)
qed

lemma roll_minute_ok:
  "agg_ok ma \<Longrightarrow> roll_minute ma m = (rows, ma') \<Longrightarrow> agg_ok ma' \<and> list_all minute_row_ok rows"
  by (auto simp: roll_minute_def split: option.splits if_splits prod.splits dest: close_minute_ok)

lemma open_minute_ok:
  "agg_ok ma \<Longrightarrow> minute_ok (case ma_open ma of None \<Rightarrow> new_minute m msg | Some old \<Rightarrow> old)"
  by (auto simp: agg_ok_def new_minute_ok split: option.splits)

lemma add_counters_ok:
  assumes "agg_ok ma" "add_counters ma msg recv sid = Inr (rows, ma')"
  shows "agg_ok ma' \<and> list_all minute_row_ok rows"
proof -
  let ?m = "floor_minute recv"
  obtain rows1 ma1 where r: "roll_minute ma ?m = (rows1, ma1)" by fastforce
  have ok1: "agg_ok ma1" "list_all minute_row_ok rows1" using roll_minute_ok [OF assms(1) r] by auto
  then have o: "minute_ok (case ma_open ma1 of None \<Rightarrow> new_minute ?m msg | Some old \<Rightarrow> old)" by (rule_tac open_minute_ok)
  from assms(2) have aware: "require_aware recv = Inr recv"
    by (cases "dt_offset recv") (simp_all add: add_counters_def require_aware_def)
  have f: "minute_ok (fold_sample c msg recv) = minute_ok c" "0 < mi_sample_count (fold_sample c msg recv)" for c
    by (simp_all add: fold_sample_def Let_def split: option.splits)
  from assms(2) r have res: "rows = rows1" "\<exists>cur. ma_open ma' = Some cur \<and> minute_ok cur \<and> 0 < mi_sample_count cur"
    "ma_census ma' = ma_census ma1"
    unfolding add_counters_def aware using o f by (auto simp: Let_def intro!: add_pair_ok split: option.splits if_splits)
  with ok1 show ?thesis by (auto simp: agg_ok_def)
qed

lemma minute_step_ok:
  "agg_ok ma \<Longrightarrow> minute_step ma c = (rows, ma') \<Longrightarrow> agg_ok ma' \<and> list_all minute_row_ok rows"
proof (cases c)
  case (CensusCall msg recv)
  then show "agg_ok ma \<Longrightarrow> minute_step ma c = (rows, ma') \<Longrightarrow> ?thesis"
    by (auto simp: add_census_minute_def Let_def agg_ok_def length_evict_census split: sum.splits if_splits)
qed (auto simp: flush_minutes_def split: sum.splits option.splits prod.splits dest: add_counters_ok close_minute_ok)

lemma new_minute_agg_ok: "agg_ok (new_minute_agg i)"
  by (simp add: agg_ok_def new_minute_agg_def)

lemma minute_run_ok:
  "agg_ok ma \<Longrightarrow> minute_run ma cs = (rows, ma') \<Longrightarrow> agg_ok ma' \<and> list_all minute_row_ok rows"
  by (induction cs arbitrary: ma rows) (auto split: prod.splits dest: minute_step_ok)

text \<open>
  C12.  Whatever messages arrive, in whatever order, from whatever sessions and with whatever receive
  times, every row the aggregator emits has the stored columns; its CPU percentages lie between 0 and
  100, its network and metadata rates and its probe CPU time are not negative (a counter that was reset
  never shows as a negative rate, and no rate divides by zero), and it stands for at least one sample.
  The censuses waiting for their minute never number more than \<open>_MAX_PENDING_CENSUS_MINUTES\<close>.
\<close>

theorem minute_rows_in_bounds:
  "list_all minute_row_ok (fst (minute_run (new_minute_agg interval) calls)) \<and>
   length (ma_census (snd (minute_run (new_minute_agg interval) calls))) \<le> MAX_PENDING_CENSUS_MINUTES"
proof (cases "minute_run (new_minute_agg interval) calls")
  case (Pair rows ma)
  from minute_run_ok [OF new_minute_agg_ok this] Pair show ?thesis by (simp add: agg_ok_def)
qed

text \<open>
  When a census pushes the pending minutes over the limit, the ones that go are the oldest: no
  minute that \<open>add_census\<close> drops is newer than one it keeps.
\<close>

theorem pending_census_keeps_newest:
  assumes "k \<in> set (dkeys d)" "k \<notin> set (dkeys (evict_census d))" "k' \<in> set (dkeys (evict_census d))"
  shows "k < k' \<and> length (evict_census d) \<le> MAX_PENDING_CENSUS_MINUTES"
  using assms evict_census_newest [of d] length_evict_census [of d] by auto

definition ex_slots :: "(int, census_slot) dict" where
  "ex_slots = map (\<lambda>k. (k, \<lparr>sl_gpus = [], sl_scan = None, sl_gpu_status = None\<rparr>)) [5, 3, 9, 4, 8, 7, 6, 10, 12, 11, 13]"

theorem pending_census_keeps_newest_witness:
  "3 \<in> set (dkeys ex_slots) \<and> 3 \<notin> set (dkeys (evict_census ex_slots)) \<and> 4 \<in> set (dkeys (evict_census ex_slots)) \<and>
   (3 :: int) < 4 \<and> length (evict_census ex_slots) \<le> MAX_PENDING_CENSUS_MINUTES"
proof -
  have e: "evict_census ex_slots = dpop ex_slots 3"
    by (subst evict_census.simps, subst evict_census.simps)
      (simp add: ex_slots_def min_key_def dpop_def MAX_PENDING_CENSUS_MINUTES_def)
  have k: "3 \<in> set (dkeys ex_slots)" "3 \<notin> set (dkeys (evict_census ex_slots))" "4 \<in> set (dkeys (evict_census ex_slots))"
    by (simp_all add: e, simp_all add: ex_slots_def)
  with pending_census_keeps_newest [OF k] show ?thesis by blast
qed

end
