(* ===== verification/Probe_Counters.thy ===== *)
theory Probe_Counters
  imports Probe_Host Codec Node_Metrics
begin

text \<open>
  The node counters of the probe (\<open>probe/probe.py\<close>, \<open>collect_counters\<close> and its parts): parsers of the
  files under \<open>/proc\<close>, composed as the code composes them, and the fact that what they build is a
  counters message as the collector reads it.
\<close>

text \<open>\<open>_meminfo_fields\<close>: \<open>wanted\<close> maps a key of the file to a name.\<close>

definition meminfo_line :: "(string, string) dict \<Rightarrow> string \<Rightarrow> (string, int option) dict \<Rightarrow> (string, int option) dict res" where
  "meminfo_line wanted line out =
     (case partition_at (CHR '':'') line of (key, _, rest) \<Rightarrow>
        case dget wanted key of None \<Rightarrow> Inr out
        | Some name \<Rightarrow>
            (case split_ws rest of [] \<Rightarrow> Inr out
             | v # _ \<Rightarrow> if isdigit v then rmap (\<lambda>n. dset out name (Some n)) (require (py_int v)) else Inr out))"

definition meminfo_fields :: "host \<Rightarrow> roots \<Rightarrow> (string, string) dict \<Rightarrow> (string, int option) dict res" where
  "meminfo_fields h rt wanted =
     (let out = foldl (\<lambda>d n. dset d n None) [] (dvalues wanted) in
      rbind (read_text h (proc_path rt [''meminfo''])) (\<lambda>text.
        case text of None \<Rightarrow> Inr out
        | Some s \<Rightarrow> rfold (meminfo_line wanted) (split_on NL s) out))"

definition collect_loadavg :: "host \<Rightarrow> roots \<Rightarrow> (row \<times> int option) res" where
  "collect_loadavg h rt =
     rbind (read_first_line h (proc_path rt [''loadavg''])) (\<lambda>line.
       let parts = (case line of None \<Rightarrow> [] | Some s \<Rightarrow> split_ws s) in
       if length parts < 4 then Inr ([], None)
       else
         (case partition_at (CHR ''/'') (parts ! 3) of (running, _, procs) \<Rightarrow>
            case (py_float (parts ! 0), py_float (parts ! 1), py_float (parts ! 2), py_int running) of
              (Some a, Some b, Some c, Some r) \<Rightarrow>
                rmap (\<lambda>t. ([(''load1'', VFloat a), (''load5'', VFloat b), (''load15'', VFloat c), (''procs_running'', VInt r)], t))
                  (if isdigit procs then rmap Some (require (py_int procs)) else Inr None)
            | _ \<Rightarrow> Inr ([], None)))"

definition JIFFY_NAMES :: "string list" where
  "JIFFY_NAMES = [''user'', ''nice'', ''system'', ''idle'', ''iowait'', ''irq'', ''softirq'', ''steal'', ''guest'', ''guest_nice'']"

definition collect_cpu_jiffies :: "host \<Rightarrow> roots \<Rightarrow> (string, int) dict option res" where
  "collect_cpu_jiffies h rt =
     rmap (\<lambda>line. case line of None \<Rightarrow> None
       | Some s \<Rightarrow> if \<not> startswith s ''cpu '' then None
           else Some (foldl (\<lambda>out (name, v). case py_int v of None \<Rightarrow> out | Some n \<Rightarrow> dset out name n) []
             (zip JIFFY_NAMES (tl (split_ws s)))))
       (read_first_line h (proc_path rt [''stat'']))"

definition MEM_WANTED :: "(string, string) dict" where
  "MEM_WANTED = [(''MemTotal'', ''total_kb''), (''MemAvailable'', ''available_kb''), (''Cached'', ''cached_kb''),
     (''Shmem'', ''shmem_kb''), (''MemFree'', ''free_kb''), (''SwapTotal'', ''swap_total_kb''), (''SwapFree'', ''swap_free_kb'')]"

definition collect_meminfo :: "host \<Rightarrow> roots \<Rightarrow> (string, int) dict res" where
  "collect_meminfo h rt = rmap (List.map_filter (\<lambda>(k, v). map_option (Pair k) v)) (meminfo_fields h rt MEM_WANTED)"

definition net_line :: "(string, int \<times> int) dict \<Rightarrow> string \<Rightarrow> (string, int \<times> int) dict" where
  "net_line out line =
     (case partition_at (CHR '':'') line of (iface, _, rest) \<Rightarrow>
        let name = strip iface; fs = split_ws rest in
        if name = [] \<or> name = ''lo'' \<or> length fs < 9 then out
        else (case (py_int (fs ! 0), py_int (fs ! 8)) of
            (Some rx, Some tx) \<Rightarrow> dset out name (rx, tx)
          | _ \<Rightarrow> out))"

definition collect_net :: "host \<Rightarrow> roots \<Rightarrow> (string, int \<times> int) dict res" where
  "collect_net h rt =
     rmap (\<lambda>text. case text of None \<Rightarrow> [] | Some s \<Rightarrow> foldl net_line [] (drop 2 (split_on NL s)))
       (read_text h (proc_path rt [''net'', ''dev'']))"

definition md_line :: "string \<Rightarrow> (string, int) dict \<times> int \<Rightarrow> ((string, int) dict \<times> int) res" where
  "md_line line s =
     (case split_ws line of
        name # v # _ \<Rightarrow>
          if isdigit v then rmap (\<lambda>n. (dset (fst s) name n, snd s + n)) (require (py_int v)) else Inr s
      | _ \<Rightarrow> Inr s)"

definition md_target :: "host \<Rightarrow> string \<Rightarrow> string \<Rightarrow> (string, (string, int) dict) dict \<Rightarrow> (string, (string, int) dict) dict res" where
  "md_target h base target out =
     rbind (read_text h (path_join (path_join base target) ''md_stats'')) (\<lambda>stats.
       case stats of None \<Rightarrow> Inr out
       | Some text \<Rightarrow>
           rmap (\<lambda>(counters, total). if counters = [] then out else dset out target (dset counters ''total'' total))
             (rfold md_line (split_on NL text) ([], 0)))"

definition collect_lustre_md :: "host \<Rightarrow> roots \<Rightarrow> (string, (string, int) dict) dict res" where
  "collect_lustre_md h rt =
     (let base = proc_path rt [''fs'', ''lustre'', ''mdc''] in
      case h_list h base of None \<Rightarrow> Inr [] | Some targets \<Rightarrow> rfold (md_target h base) targets [])"

fun socket_lines :: "string list \<Rightarrow> int option res" where
  "socket_lines [] = Inr None"
| "socket_lines (line # lines) =
     (if startswith line ''sockets: used'' then
        (let fs = split_ws line in
         if fs \<noteq> [] \<and> isdigit (last fs) then rmap Some (require (py_int (last fs))) else socket_lines lines)
      else socket_lines lines)"

definition collect_socket_count :: "host \<Rightarrow> roots \<Rightarrow> int option res" where
  "collect_socket_count h rt =
     rbind (read_text h (proc_path rt [''net'', ''sockstat''])) (\<lambda>text.
       case text of None \<Rightarrow> Inr None | Some s \<Rightarrow> socket_lines (split_on NL s))"

definition collect_uptime :: "host \<Rightarrow> roots \<Rightarrow> pyfloat option res" where
  "collect_uptime h rt =
     rmap (\<lambda>line. case line of None \<Rightarrow> None
       | Some s \<Rightarrow> (case split_ws s of [] \<Rightarrow> None | w # _ \<Rightarrow> py_float w))
       (read_first_line h (proc_path rt [''uptime'']))"

definition int_dict :: "(string, int) dict \<Rightarrow> pyval" where
  "int_dict d = VDict (map (\<lambda>(k, n). (k, VInt n)) d)"

definition net_dict :: "(string, int \<times> int) dict \<Rightarrow> pyval" where
  "net_dict d = VDict (map (\<lambda>(k, rx, tx). (k, VDict [(''rx_bytes'', VInt rx), (''tx_bytes'', VInt tx)])) d)"

definition opt_set :: "string \<Rightarrow> pyval option \<Rightarrow> row \<Rightarrow> row" where
  "opt_set k v r = (case v of None \<Rightarrow> r | Some x \<Rightarrow> dset r k x)"

definition build_counters :: "int \<Rightarrow> pyfloat option \<Rightarrow> row \<Rightarrow> int option \<Rightarrow> (string, int) dict option \<Rightarrow> (string, int) dict \<Rightarrow>
    (string, int \<times> int) dict \<Rightarrow> (string, (string, int) dict) dict \<Rightarrow> int option \<Rightarrow> row" where
  "build_counters clk uptime load procs_total cpu mem net md sockets =
     (let counters = opt_set ''uptime_sec'' (map_option VFloat uptime) [];
          counters = dmerge counters load;
          counters = opt_set ''procs_total'' (map_option VInt procs_total) counters;
          counters = opt_set ''cpu_jiffies'' (map_option int_dict cpu) counters;
          counters = dset counters ''clk_tck'' (VInt clk);
          counters = dset counters ''mem'' (int_dict mem);
          counters = dset counters ''net'' (net_dict net);
          counters = dset counters ''md_ops'' (VDict (map (\<lambda>(k, d). (k, int_dict d)) md))
      in dset counters ''socket_count'' (of_opt VInt sockets))"

definition collect_counters :: "host \<Rightarrow> roots \<Rightarrow> row res" where
  "collect_counters h rt =
     rbind (collect_uptime h rt) (\<lambda>uptime.
     rbind (collect_loadavg h rt) (\<lambda>(load, procs_total).
     rbind (collect_cpu_jiffies h rt) (\<lambda>cpu.
     rbind (collect_meminfo h rt) (\<lambda>mem.
     rbind (collect_net h rt) (\<lambda>net.
     rbind (collect_lustre_md h rt) (\<lambda>md.
     rmap (build_counters (h_clk_tck h) uptime load procs_total cpu mem net md) (collect_socket_count h rt)))))))"

subsection \<open>The probe's own size and the counters message\<close>

fun kb_lines :: "string \<Rightarrow> string list \<Rightarrow> int option res" where
  "kb_lines name [] = Inr None"
| "kb_lines name (line # lines) =
     (if startswith line (name @ '':'') then
        (let fs = split_ws line in
         if length fs > 1 \<and> isdigit (fs ! 1) then rmap Some (require (py_int (fs ! 1))) else kb_lines name lines)
      else kb_lines name lines)"

definition kb_field :: "host \<Rightarrow> string \<Rightarrow> string \<Rightarrow> int option res" where
  "kb_field h path name = (case h_read h path of Contents s \<Rightarrow> kb_lines name (split_on NL s) | ReadError _ \<Rightarrow> kb_lines name [[]])"

definition own_rss_kb :: "host \<Rightarrow> string \<times> string \<Rightarrow> int option res" where
  "own_rss_kb h sources =
     rbind (kb_field h (fst sources) ''Rss'') (\<lambda>rss.
       case rss of Some n \<Rightarrow> Inr (Some n) | None \<Rightarrow> kb_field h (snd sources) ''VmRSS'')"

text \<open>\<open>getrusage\<close>: the CPU time of the probe and of its children, and its largest size.\<close>

record rusage =
  ru_own_cpu :: rat
  ru_children_cpu :: rat
  ru_maxrss :: int

definition counters_fields :: "host \<Rightarrow> roots \<Rightarrow> string \<times> string \<Rightarrow> rusage \<Rightarrow> row res" where
  "counters_fields h rt sources ru =
     rbind (collect_counters h rt) (\<lambda>counters.
       rmap (\<lambda>rss. dset counters ''probe_self''
         (VDict [(''cpu_seconds'', vnum (round_digits 3 (ru_own_cpu ru))),
           (''children_cpu_seconds'', vnum (round_digits 3 (ru_children_cpu ru))),
           (''maxrss_kb'', VInt (ru_maxrss ru)), (''rss_kb'', of_opt VInt rss)]))
         (own_rss_kb h sources))"

subsection \<open>The message as the collector reads it\<close>

text \<open>
  The typed view that \<open>NodePipeline\<close> takes of a counters message: \<open>None\<close> where a sect_of does not
  have the shape that the aggregator computes with.
\<close>

definition int_field :: "row \<Rightarrow> string \<Rightarrow> int option option" where
  "int_field d k = (case rget d k of VNone \<Rightarrow> Some None | VInt n \<Rightarrow> Some (Some n) | _ \<Rightarrow> None)"

definition num_field :: "row \<Rightarrow> string \<Rightarrow> rat option option" where
  "num_field d k = (case rget d k of VNone \<Rightarrow> Some None | VInt n \<Rightarrow> Some (Some (of_int n)) | VFloat (Fin q) \<Rightarrow> Some (Some q) | _ \<Rightarrow> None)"

definition sect_of :: "row \<Rightarrow> string \<Rightarrow> row option" where
  "sect_of d k = (case rget d k of VNone \<Rightarrow> Some [] | VDict s \<Rightarrow> Some s | _ \<Rightarrow> None)"

definition typed :: "(pyval \<Rightarrow> 'a option) \<Rightarrow> row \<Rightarrow> (string, 'a) dict option" where
  "typed f d = seq_opt (map (\<lambda>(k, v). map_option (Pair k) (f v)) d)"

definition to_int :: "pyval \<Rightarrow> int option" where
  "to_int v = (case v of VInt n \<Rightarrow> Some n | _ \<Rightarrow> None)"

definition to_iface :: "pyval \<Rightarrow> (int \<times> int) option" where
  "to_iface v = (case v of VDict d \<Rightarrow>
       (case (to_int (rget d ''rx_bytes''), to_int (rget d ''tx_bytes'')) of (Some a, Some b) \<Rightarrow> Some (a, b) | _ \<Rightarrow> None)
     | _ \<Rightarrow> None)"

definition to_target :: "pyval \<Rightarrow> (string, int) dict option" where
  "to_target v = (case v of VDict d \<Rightarrow> typed to_int d | _ \<Rightarrow> None)"

definition mem_of :: "row \<Rightarrow> mem_section option" where
  "mem_of d =
     (case (int_field d ''total_kb'', int_field d ''available_kb'', int_field d ''swap_total_kb'', int_field d ''swap_free_kb'') of
        (Some t, Some a, Some st, Some sf) \<Rightarrow>
          Some \<lparr>mem_total_kb = t, mem_available_kb = a, mem_cached_kb = rget d ''cached_kb'', mem_shmem_kb = rget d ''shmem_kb'',
            mem_swap_total_kb = st, mem_swap_free_kb = sf\<rparr>
      | _ \<Rightarrow> None)"

definition self_of :: "row \<Rightarrow> probe_self option" where
  "self_of d =
     (case (num_field d ''cpu_seconds'', num_field d ''children_cpu_seconds'', int_field d ''rss_kb'') of
        (Some c, Some ch, Some rss) \<Rightarrow>
          Some \<lparr>ps_cpu_seconds = c, ps_children_cpu_seconds = ch, ps_rss_kb = rss, ps_maxrss_kb = rget d ''maxrss_kb''\<rparr>
      | _ \<Rightarrow> None)"

definition counters_of_row :: "row \<Rightarrow> counters_msg option" where
  "counters_of_row d =
     (case (Option.bind (sect_of d ''cpu_jiffies'') (typed to_int), Option.bind (sect_of d ''net'') (typed to_iface),
        Option.bind (sect_of d ''md_ops'') (typed to_target), Option.bind (sect_of d ''mem'') mem_of,
        Option.bind (sect_of d ''probe_self'') self_of) of
        (Some cpu, Some net, Some md, Some mem, Some self) \<Rightarrow>
          Some \<lparr>cm_ts = (case rget d ''ts'' of VStr s \<Rightarrow> Some s | _ \<Rightarrow> None), cm_cpu_jiffies = cpu, cm_net = net, cm_md_ops = md,
            cm_mem = mem, cm_probe_self = self, cm_load1 = rget d ''load1'', cm_load5 = rget d ''load5'', cm_load15 = rget d ''load15'',
            cm_procs_running = rget d ''procs_running'', cm_procs_total = rget d ''procs_total'',
            cm_socket_count = rget d ''socket_count''\<rparr>
      | _ \<Rightarrow> None)"

lemma typed_map: "(\<And>v. f (g v) = Some v) \<Longrightarrow> typed f (map (\<lambda>(k, v). (k, g v)) d) = Some d"
  unfolding typed_def by (induction d) auto

lemma to_int_VInt [simp]: "to_int (VInt n) = Some n"
  by (simp add: to_int_def)

lemma to_target_dict [simp]: "to_target (int_dict d) = Some d"
  by (simp add: to_target_def int_dict_def typed_map)

lemma to_iface_dict [simp]: "to_iface (VDict [(''rx_bytes'', VInt rx), (''tx_bytes'', VInt tx)]) = Some (rx, tx)"
  by (simp add: to_iface_def rget_def dget_or_def)

lemma typed_net: "typed to_iface (map (\<lambda>(k, rx, tx). (k, VDict [(''rx_bytes'', VInt rx), (''tx_bytes'', VInt tx)])) net) = Some net"
  unfolding typed_def by (induction net) auto

lemma dget_map_snd: "dget (map (\<lambda>(k, v). (k, f v)) d) k = map_option f (dget d k)"
  by (induction d) auto

lemma int_field_dict: "int_field (map (\<lambda>(k, n). (k, VInt n)) d) k = Some (dget d k)"
  by (simp add: int_field_def rget_def dget_or_def dget_map_snd split: option.splits)

lemma collect_loadavg_shape:
  "collect_loadavg h rt = Inr (load, t) \<Longrightarrow> load = [] \<or> (\<exists>a b c r. load =
     [(''load1'', VFloat a), (''load5'', VFloat b), (''load15'', VFloat c), (''procs_running'', VInt r)])"
  by (auto simp: collect_loadavg_def rbind_Inr rmap_Inr Let_def split: if_splits prod.splits option.splits)

lemma net_line_cases: "net_line d line = d \<or> (\<exists>name v. name \<noteq> ''lo'' \<and> net_line d line = dset d name v)"
  unfolding net_line_def Let_def by (simp split: prod.split option.split) blast

lemma net_line_ok: "''lo'' \<notin> fst ` set d \<Longrightarrow> dwf d \<Longrightarrow> ''lo'' \<notin> fst ` set (net_line d line) \<and> dwf (net_line d line)"
  using net_line_cases [of d line]
proof (elim disjE exE conjE)
  fix name v
  assume "''lo'' \<notin> fst ` set d" "dwf d" "name \<noteq> ''lo''" "net_line d line = dset d name v"
  then show ?thesis by (simp add: dwf_dset)
qed simp

lemma collect_net_ok: "collect_net h rt = Inr net \<Longrightarrow> ''lo'' \<notin> fst ` set net \<and> dwf net"
proof -
  have "''lo'' \<notin> fst ` set (foldl net_line d ls) \<and> dwf (foldl net_line d ls)" if "''lo'' \<notin> fst ` set d" "dwf d" for d ls
    using that by (induction ls arbitrary: d) (simp_all add: net_line_ok)
  from this [of "[]"] show "collect_net h rt = Inr net \<Longrightarrow> ?thesis" by (auto simp: collect_net_def rmap_Inr split: option.splits)
qed

text \<open>A run of decimal digits is not negative.\<close>

lemma isdigit_int_nonneg: "isdigit s \<Longrightarrow> py_int s = Some n \<Longrightarrow> 0 \<le> n"
proof -
  assume d: "isdigit s" and n: "py_int s = Some n"
  have sp: "\<not> is_space c \<and> c \<noteq> CHR ''-''" if "c \<in> set s" for c
    using d that is_digit_not_space by (auto simp: isdigit_def list_all_iff is_space_def is_digit_def Let_def)
  then have "strip s = s" by (intro strip_field) (simp add: list_all_iff)
  moreover have "0 \<le> fst (sign_of s)" using sp by (cases s) (auto simp: sign_of_def)
  ultimately show ?thesis using n by (auto simp: py_int_def split: prod.splits)
qed

definition md_ok :: "(string, int) dict \<Rightarrow> int \<Rightarrow> bool" where
  "md_ok d t \<longleftrightarrow> dwf d \<and> (\<forall>(k, n) \<in> set d. 0 \<le> n) \<and> sum_list (dvalues d) \<le> t"

lemma sum_dset_le:
  "\<forall>(k, n) \<in> set d. 0 \<le> (n :: int) \<Longrightarrow> 0 \<le> v \<Longrightarrow> sum_list (dvalues (dset d k v)) \<le> sum_list (dvalues d) + v"
  by (induction d k v rule: dset.induct) auto

lemma dset_member: "(k', n) \<in> set (dset d k v) \<Longrightarrow> (k', n) \<in> set d \<or> n = v"
  by (induction d k v rule: dset.induct) (auto split: if_splits)

lemma md_ok_dset: "md_ok d t \<Longrightarrow> 0 \<le> n \<Longrightarrow> md_ok (dset d name n) (t + n)"
  using sum_dset_le [of d n name] by (auto simp: md_ok_def dwf_dset dest!: dset_member)

lemma md_line_ok: "md_line line s = Inr s' \<Longrightarrow> md_ok (fst s) (snd s) \<Longrightarrow> md_ok (fst s') (snd s')"
  by (auto simp: md_line_def rmap_Inr intro!: md_ok_dset dest: isdigit_int_nonneg split: list.splits if_splits)

lemma member_sum_int: "\<forall>n \<in> set xs. 0 \<le> (n :: int) \<Longrightarrow> n \<in> set xs \<Longrightarrow> n \<le> sum_list xs"
  using sum_list_nonneg [of xs] by (induction xs) (fastforce intro: sum_list_nonneg)+

text \<open>A target's counters with the \<open>total\<close> that the probe adds.\<close>

definition target_ok :: "(string, int) dict \<Rightarrow> bool" where
  "target_ok d \<longleftrightarrow> dwf d \<and> (\<exists>t. dget d ''total'' = Some t \<and> (\<forall>(k, n) \<in> set d. 0 \<le> n \<and> n \<le> t))"

lemma md_ok_total: "md_ok d t \<Longrightarrow> target_ok (dset d ''total'' t)"
proof -
  assume ok: "md_ok d t"
  then have nn: "\<forall>n \<in> set (dvalues d). 0 \<le> n" by (auto simp: md_ok_def)
  have "0 \<le> t" using ok sum_list_nonneg [of "dvalues d"] nn by (auto simp: md_ok_def)
  moreover have "n \<le> t" if "(k, n) \<in> set d" for k n
  proof -
    have "n \<in> set (dvalues d)" using that by force
    with nn have "n \<le> sum_list (dvalues d)" by (rule member_sum_int)
    with ok show ?thesis by (auto simp: md_ok_def)
  qed
  ultimately show ?thesis using ok nn unfolding target_ok_def
    by (intro conjI exI [of _ t]) (force simp: md_ok_def intro: dwf_dset dest!: dset_member)+
qed

lemma collect_lustre_ok: "collect_lustre_md h rt = Inr md \<Longrightarrow> \<forall>(k, d) \<in> set md. target_ok d"
proof -
  assume r: "collect_lustre_md h rt = Inr md"
  have step: "\<forall>(k, d) \<in> set out'. target_ok d"
    if "md_target h base t out = Inr out'" "\<forall>(k, d) \<in> set out. target_ok d" for base t out out'
  proof -
    have ok: "rfold md_line ls ([], 0) = Inr s \<Longrightarrow> md_ok (fst s) (snd s)" for ls s
      by (rule rfold_inv [where P = "\<lambda>s. md_ok (fst s) (snd s)"]) (auto simp: md_ok_def [of "[]"] intro: md_line_ok)
    from that(1) have "out' = out \<or> (\<exists>ls c n. rfold md_line ls ([], 0) = Inr (c, n) \<and> out' = dset out t (dset c ''total'' n))"
      by (auto simp: md_target_def rbind_Inr rmap_Inr split: option.splits) metis
    then show ?thesis
    proof (elim disjE exE conjE)
      fix ls c n
      assume "rfold md_line ls ([], 0) = Inr (c, n)" and o: "out' = dset out t (dset c ''total'' n)"
      from md_ok_total ok [OF this(1)] have "target_ok (dset c ''total'' n)" by simp
      with that(2) o show ?thesis by (auto dest!: dset_member)
    qed (use that(2) in simp)
  qed
  show ?thesis
  proof (cases "h_list h (proc_path rt [''fs'', ''lustre'', ''mdc''])")
    case None
    with r show ?thesis by (simp add: collect_lustre_md_def)
  next
    case (Some targets)
    with r have "rfold (md_target h (proc_path rt [''fs'', ''lustre'', ''mdc''])) targets [] = Inr md"
      by (simp add: collect_lustre_md_def)
    then show ?thesis by (rule rfold_inv [where P = "\<lambda>out. \<forall>(k, d) \<in> set out. target_ok d"]) (simp, rule step)
  qed
qed

lemma collect_counters_parts:
  assumes "collect_counters h rt = Inr row"
  obtains cpu mem net md where
    "collect_cpu_jiffies h rt = Inr cpu" "collect_meminfo h rt = Inr mem" "collect_net h rt = Inr net" "collect_lustre_md h rt = Inr md"
    "rget row ''cpu_jiffies'' = of_opt int_dict cpu" "rget row ''mem'' = int_dict mem" "rget row ''net'' = net_dict net"
    "rget row ''md_ops'' = VDict (map (\<lambda>(k, d). (k, int_dict d)) md)"
proof -
  from assms obtain up load pt cpu mem net md sk where
    p: "collect_loadavg h rt = Inr (load, pt)" "collect_cpu_jiffies h rt = Inr cpu" "collect_meminfo h rt = Inr mem"
      "collect_net h rt = Inr net" "collect_lustre_md h rt = Inr md"
    and row: "row = build_counters (h_clk_tck h) up load pt cpu mem net md sk"
    by (auto simp: collect_counters_def rbind_Inr rmap_Inr)
  have "dwf load" "dget load ''cpu_jiffies'' = None" using collect_loadavg_shape [OF p(1)] by (auto simp: dwf_def)
  then have "rget row ''cpu_jiffies'' = of_opt int_dict cpu"
    by (auto simp: row build_counters_def rget_def dget_or_def opt_set_def dget_dmerge Let_def split: option.splits)
  then show ?thesis using that [OF p(2-5)] by (simp add: row build_counters_def rget_def dget_or_def Let_def)
qed

lemma probe_row_typed:
  assumes "collect_counters h rt = Inr counters"
    and "row = dset counters ''probe_self'' (VDict [(''cpu_seconds'', vnum a), (''children_cpu_seconds'', vnum b), (''maxrss_kb'', VInt m), (''rss_kb'', of_opt VInt rss)])"
  obtains cm cpu mem where "counters_of_row row = Some cm" "collect_cpu_jiffies h rt = Inr cpu" "collect_meminfo h rt = Inr mem"
    "cm_cpu_jiffies cm = (case cpu of None \<Rightarrow> [] | Some d \<Rightarrow> d)" "mem_total_kb (cm_mem cm) = dget mem ''total_kb''"
    "mem_available_kb (cm_mem cm) = dget mem ''available_kb''" "collect_net h rt = Inr (cm_net cm)" "collect_lustre_md h rt = Inr (cm_md_ops cm)"
    "ps_rss_kb (cm_probe_self cm) = rss"
proof -
  from collect_counters_parts [OF assms(1)] obtain cpu mem net md where
    p: "collect_cpu_jiffies h rt = Inr cpu" "collect_meminfo h rt = Inr mem" "collect_net h rt = Inr net" "collect_lustre_md h rt = Inr md"
    and g: "rget counters ''cpu_jiffies'' = of_opt int_dict cpu" "rget counters ''mem'' = int_dict mem" "rget counters ''net'' = net_dict net"
      "rget counters ''md_ops'' = VDict (map (\<lambda>(k, d). (k, int_dict d)) md)" .
  have keep: "rget row k = rget counters k" if "k \<noteq> ''probe_self''" for k using that assms(2) by (simp add: rget_def dget_or_def)
  have "Option.bind (sect_of row ''cpu_jiffies'') (typed to_int) = Some (case cpu of None \<Rightarrow> [] | Some d \<Rightarrow> d)"
    using g(1) by (cases cpu) (simp_all add: sect_of_def keep int_dict_def typed_map, simp add: typed_def)
  moreover have "Option.bind (sect_of row ''net'') (typed to_iface) = Some net"
    using g(3) typed_net by (simp add: sect_of_def keep net_dict_def)
  moreover have "Option.bind (sect_of row ''md_ops'') (typed to_target) = Some md"
    using g(4) by (simp add: sect_of_def keep typed_map)
  moreover have "Option.bind (sect_of row ''mem'') mem_of = Some \<lparr>mem_total_kb = dget mem ''total_kb'', mem_available_kb = dget mem ''available_kb'',
      mem_cached_kb = rget (map (\<lambda>(k, n). (k, VInt n)) mem) ''cached_kb'', mem_shmem_kb = rget (map (\<lambda>(k, n). (k, VInt n)) mem) ''shmem_kb'',
      mem_swap_total_kb = dget mem ''swap_total_kb'', mem_swap_free_kb = dget mem ''swap_free_kb''\<rparr>"
    using g(2) by (simp add: sect_of_def keep int_dict_def mem_of_def int_field_dict)
  moreover have "Option.bind (sect_of row ''probe_self'') self_of = Some \<lparr>ps_cpu_seconds = Some a, ps_children_cpu_seconds = Some b, ps_rss_kb = rss,
      ps_maxrss_kb = VInt m\<rparr>"
    using assms(2) by (cases rss) (simp_all add: sect_of_def self_of_def num_field_def int_field_def rget_def dget_or_def)
  ultimately show ?thesis using p by (intro that) (simp add: counters_of_row_def, simp_all)
qed

text \<open>
  Whatever the files under \<open>/proc\<close> hold, the counters message that the probe builds is one that the
  collector's aggregator can compute with: jiffies, memory sizes and byte counters are integers, both
  directions of every interface are there and the loopback interface is not, and every metadata target
  carries a \<open>total\<close> that bounds its counters; the typed message holds exactly what the parsers read.
\<close>

theorem probe_counters_typed:
  assumes "counters_fields h rt sources ru = Inr row"
  shows "\<exists>cm cpu. counters_of_row row = Some cm \<and> collect_cpu_jiffies h rt = Inr cpu \<and>
    cm_cpu_jiffies cm = (case cpu of None \<Rightarrow> [] | Some d \<Rightarrow> d) \<and>
    collect_net h rt = Inr (cm_net cm) \<and> ''lo'' \<notin> fst ` set (cm_net cm) \<and> dwf (cm_net cm) \<and>
    collect_lustre_md h rt = Inr (cm_md_ops cm) \<and> (\<forall>(t, d) \<in> set (cm_md_ops cm). target_ok d) \<and>
    own_rss_kb h sources = Inr (ps_rss_kb (cm_probe_self cm))"
proof -
  from assms obtain counters rss where c: "collect_counters h rt = Inr counters" and r: "own_rss_kb h sources = Inr rss"
    and row: "row = dset counters ''probe_self'' (VDict [(''cpu_seconds'', vnum (round_digits 3 (ru_own_cpu ru))),
      (''children_cpu_seconds'', vnum (round_digits 3 (ru_children_cpu ru))), (''maxrss_kb'', VInt (ru_maxrss ru)), (''rss_kb'', of_opt VInt rss)])"
    by (auto simp: counters_fields_def rbind_Inr rmap_Inr)
  from probe_row_typed [OF c row] obtain cm cpu mem where cm: "counters_of_row row = Some cm" "collect_cpu_jiffies h rt = Inr cpu"
    "cm_cpu_jiffies cm = (case cpu of None \<Rightarrow> [] | Some d \<Rightarrow> d)" "collect_net h rt = Inr (cm_net cm)" "collect_lustre_md h rt = Inr (cm_md_ops cm)"
    "ps_rss_kb (cm_probe_self cm) = rss" .
  with collect_net_ok [OF cm(4)] collect_lustre_ok [OF cm(5)] r show ?thesis by blast
qed

text \<open>A node with one interface, one metadata target and the jiffies of one CPU line.\<close>

definition ex_text :: "string \<Rightarrow> string" where
  "ex_text path =
     (if path = ''/proc/uptime'' then ''12.5 99.0''
      else if path = ''/proc/loadavg'' then ''0.5 0.25 1 2/345 678''
      else if path = ''/proc/stat'' then ''cpu  10 0 5 100 1 0 0 0'' @ [NL] @ ''btime 1700000000''
      else if path = ''/proc/meminfo'' then ''MemTotal:  1000 kB'' @ [NL] @ ''MemAvailable: 400 kB''
      else if path = ''/proc/net/dev'' then ''h'' @ [NL] @ ''h'' @ [NL] @ ''lo: 1 0 0 0 0 0 0 0 1'' @ [NL] @ '' eth0: 7 0 0 0 0 0 0 0 9 0''
      else if path = ''/proc/fs/lustre/mdc/t1/md_stats'' then ''open 3 samples'' @ [NL] @ ''close 2 samples''
      else [])"

definition ex_host :: host where
  "ex_host = \<lparr>h_read = (\<lambda>p. if ex_text p = [] then ReadError ENOENT else Contents (ex_text p)), h_link = (\<lambda>_. None),
     h_list = (\<lambda>p. if p = ''/proc/fs/lustre/mdc'' then Some [''t1''] else None), h_isdir = (\<lambda>_. False), h_user = (\<lambda>_. None),
     h_clk_tck = 100, h_page_size = 4096\<rparr>"

definition ex_roots :: roots where
  "ex_roots = \<lparr>proc_root = ''/proc'', sys_root = ''/sys'', os_release = ''/etc/os-release''\<rparr>"

definition ex_ru :: rusage where
  "ex_ru = \<lparr>ru_own_cpu = 1, ru_children_cpu = 0, ru_maxrss = 9\<rparr>"

theorem probe_counters_typed_witness:
  "\<exists>cm. counters_of_row (projr (counters_fields ex_host ex_roots (''a'', ''b'') ex_ru)) = Some cm \<and>
     cm_cpu_jiffies cm = [(''user'', 10), (''nice'', 0), (''system'', 5), (''idle'', 100), (''iowait'', 1), (''irq'', 0), (''softirq'', 0), (''steal'', 0)] \<and>
     cm_net cm = [(''eth0'', 7, 9)] \<and> cm_md_ops cm = [(''t1'', [(''open'', 3), (''close'', 2), (''total'', 5)])]"
proof -
  have "\<exists>row. counters_fields ex_host ex_roots (''a'', ''b'') ex_ru = Inr row"
    and c: "collect_cpu_jiffies ex_host ex_roots = Inr (Some [(''user'', 10), (''nice'', 0), (''system'', 5), (''idle'', 100), (''iowait'', 1),
      (''irq'', 0), (''softirq'', 0), (''steal'', 0)])"
    and n: "collect_net ex_host ex_roots = Inr [(''eth0'', 7, 9)]"
    and m: "collect_lustre_md ex_host ex_roots = Inr [(''t1'', [(''open'', 3), (''close'', 2), (''total'', 5)])]"
  proof -
    have "\<not> is_err (counters_fields ex_host ex_roots (''a'', ''b'') ex_ru)" by code_simp
    then show "\<exists>row. counters_fields ex_host ex_roots (''a'', ''b'') ex_ru = Inr row"
      by (cases "counters_fields ex_host ex_roots (''a'', ''b'') ex_ru") auto
  qed code_simp+
  then obtain row where r: "counters_fields ex_host ex_roots (''a'', ''b'') ex_ru = Inr row" by blast
  from probe_counters_typed [OF r] c n m r show ?thesis by auto
qed

end
