(* ===== verification/Probe_Gpu.thy ===== *)
theory Probe_Gpu
  imports Probe_Host
begin

text \<open>
  GPU queries of the probe (\<open>probe/probe.py\<close>): reading the output of \<open>nvidia-smi\<close>, and the state that
  suspends the queries after a timeout or a failure that keeps repeating.  What a run of \<open>nvidia-smi\<close>
  does is an argument.
\<close>

datatype smi_run = SmiTimeout | SmiOSError | SmiExit int string string

datatype smi_fail = TimeoutExpired | RuntimeFail string | OutputFail

definition GPU_TIMEOUT_ERROR :: string where "GPU_TIMEOUT_ERROR = ''nvidia-smi timeout''"
definition GPU_ERROR_DETAIL_MAX :: nat where "GPU_ERROR_DETAIL_MAX = 200"
definition GPU_IDENTICAL_FAILURES_TO_SUSPEND :: nat where "GPU_IDENTICAL_FAILURES_TO_SUSPEND = 3"

text \<open>\<open>_first_line\<close>: the first line that is not blank.\<close>

definition first_text_line :: "string \<Rightarrow> string option" where
  "first_text_line text = map_option strip (find (\<lambda>l. strip l \<noteq> []) (split_on NL text))"

definition cells_of :: "string \<Rightarrow> string list list" where
  "cells_of out = map (\<lambda>line. map strip (split_on (CHR '','') line)) (filter (\<lambda>line. strip line \<noteq> []) (split_on NL out))"

text \<open>\<open>_run_nvidia_smi\<close>: exit code, standard output and standard error of the child.\<close>

definition run_nvidia_smi :: "smi_run \<Rightarrow> smi_fail + string list list" where
  "run_nvidia_smi r =
     (case r of SmiTimeout \<Rightarrow> Inl TimeoutExpired | SmiOSError \<Rightarrow> Inl OutputFail
      | SmiExit code out err \<Rightarrow>
          if code \<noteq> 0 then
            Inl (RuntimeFail (''nvidia-smi exit '' @ show_int code @
              (case (case first_text_line err of Some l \<Rightarrow> Some l | None \<Rightarrow> first_text_line out) of
                 None \<Rightarrow> [] | Some d \<Rightarrow> '': '' @ take GPU_ERROR_DETAIL_MAX d)))
          else Inr (cells_of out))"

record gpu =
  gpu_index :: int
  gpu_util_pct :: int
  gpu_mem_used_mb :: int
  gpu_mem_total_mb :: int

definition gpu_of :: "string list \<Rightarrow> gpu option" where
  "gpu_of cells = (case cells of
     [a, b, c, d] \<Rightarrow> (case (py_int a, py_int b, py_int c, py_int d) of
        (Some i, Some u, Some m, Some t) \<Rightarrow> Some \<lparr>gpu_index = i, gpu_util_pct = u, gpu_mem_used_mb = m, gpu_mem_total_mb = t\<rparr>
      | _ \<Rightarrow> None)
   | _ \<Rightarrow> None)"

fun gpus_of :: "string list list \<Rightarrow> gpu list option" where
  "gpus_of [] = Some []"
| "gpus_of (cells # rows) = (case gpu_of cells of None \<Rightarrow> None | Some g \<Rightarrow> map_option (Cons g) (gpus_of rows))"

fun by_pid_of :: "string list list \<Rightarrow> (int, int) dict \<Rightarrow> (int, int) dict option" where
  "by_pid_of [] d = Some d"
| "by_pid_of (cells # rows) d =
     (case cells of
        [p, m] \<Rightarrow> (case (py_int p, py_int m) of
           (Some pid, Some used) \<Rightarrow> by_pid_of rows (dset d pid (dget_or d pid 0 + used))
         | _ \<Rightarrow> None)
      | _ \<Rightarrow> None)"

definition smi_error :: "smi_fail \<Rightarrow> string" where
  "smi_error f = (case f of TimeoutExpired \<Rightarrow> GPU_TIMEOUT_ERROR | RuntimeFail m \<Rightarrow> m | OutputFail \<Rightarrow> ''nvidia-smi output unparseable'')"

text \<open>\<open>query_gpus\<close>: whether the binary is found, and the two runs.\<close>

definition query_gpus :: "bool \<Rightarrow> smi_run \<Rightarrow> smi_run \<Rightarrow> gpu list \<times> (int, int) dict \<times> string option" where
  "query_gpus found r1 r2 =
     (if \<not> found then ([], [], None)
      else case run_nvidia_smi r1 of Inl f \<Rightarrow> ([], [], Some (smi_error f))
      | Inr rows \<Rightarrow>
     (case gpus_of rows of None \<Rightarrow> ([], [], Some (smi_error OutputFail))
      | Some gpus \<Rightarrow>
     (case run_nvidia_smi r2 of Inl f \<Rightarrow> ([], [], Some (smi_error f))
      | Inr rows \<Rightarrow>
     (case by_pid_of rows [] of None \<Rightarrow> ([], [], Some (smi_error OutputFail))
      | Some by_pid \<Rightarrow> (gpus, by_pid, None)))))"

subsection \<open>\<open>%g\<close>\<close>

text \<open>\<open>"%g" % x\<close> for a positive number: six significant digits without trailing zeros.\<close>

definition decimal_exponent :: "rat \<Rightarrow> int" where
  "decimal_exponent x =
     (if 1 \<le> x then int (num_width (nat \<lfloor>x\<rfloor>)) - 1 else - int (num_width (nat (\<lceil>1 / x\<rceil> - 1))))"

definition trim_zeros :: "string \<Rightarrow> string" where
  "trim_zeros s = rev (dropWhile (\<lambda>c. c = CHR ''0'') (rev s))"

definition with_point :: "string \<Rightarrow> string \<Rightarrow> string" where
  "with_point ip fp = (if trim_zeros fp = [] then ip else ip @ ''.'' @ trim_zeros fp)"

definition fmt_g :: "rat \<Rightarrow> string" where
  "fmt_g x =
     (if x = 0 then ''0''
      else
        (let e = decimal_exponent x;
             scale = (\<lambda>e. if e \<le> 5 then x * 10 ^ nat (5 - e) else x / 10 ^ nat (e - 5));
             m = round_even (scale e);
             (e, m) = (if m \<ge> 1000000 then (e + 1, m div 10) else (e, m));
             ds = show_nat (nat m)
         in if e < -4 \<or> e \<ge> 6
            then with_point (take 1 ds) (drop 1 ds) @ ''e'' @ (if e < 0 then ''-'' else ''+'') @ show_padded 2 (nat (abs e))
            else if e \<ge> 0 then with_point (take (nat e + 1) ds) (drop (nat e + 1) ds)
            else with_point ''0'' (replicate (nat (- e) - 1) (CHR ''0'') @ ds)))"

subsection \<open>Suspending the queries\<close>

record gpu_state =
  gs_enabled :: bool
  gs_suspend :: rat
  gs_resume_at :: "rat option"
  gs_failure :: "string option"
  gs_streak :: nat

definition new_gpu_state :: "bool \<Rightarrow> rat \<Rightarrow> gpu_state" where
  "new_gpu_state enabled suspend = \<lparr>gs_enabled = enabled, gs_suspend = suspend, gs_resume_at = None, gs_failure = None, gs_streak = 0\<rparr>"

text \<open>
  What a poll meets: the clock when it starts and when it has the result, whether the binary is found
  by the poll and again by the query, and the two runs.
\<close>

record gpu_env =
  ge_now :: rat
  ge_after :: rat
  ge_found :: bool
  ge_found_again :: bool
  ge_run1 :: smi_run
  ge_run2 :: smi_run

definition suspend_gpu :: "gpu_env \<Rightarrow> string \<Rightarrow> gpu_state \<Rightarrow> string list \<times> gpu_state" where
  "suspend_gpu env reason gs =
     ([reason @ ''; GPU queries suspended for '' @ fmt_g (gs_suspend gs) @ '' s''],
      gs\<lparr>gs_resume_at := Some (ge_after env + gs_suspend gs)\<rparr>)"

datatype gpu_status = GpuAbsent | GpuSuspended | GpuOk | GpuError

text \<open>\<open>_query_gpus\<close>: the GPUs, the memory by pid, the status, the errors emitted and the new state.\<close>

definition poll_gpus :: "gpu_env \<Rightarrow> gpu_state \<Rightarrow> (gpu list \<times> (int, int) dict \<times> gpu_status) \<times> string list \<times> gpu_state" where
  "poll_gpus env gs =
     (if \<not> gs_enabled gs then (([], [], GpuAbsent), [], gs)
      else if (case gs_resume_at gs of None \<Rightarrow> False | Some t \<Rightarrow> ge_now env < t) then (([], [], GpuSuspended), [], gs)
      else
        (let gs = gs\<lparr>gs_resume_at := None\<rparr> in
         if \<not> ge_found env then (([], [], GpuAbsent), [], gs)
         else case query_gpus (ge_found_again env) (ge_run1 env) (ge_run2 env) of
           (gpus, by_pid, None) \<Rightarrow> ((gpus, by_pid, GpuOk), [], gs\<lparr>gs_failure := None, gs_streak := 0\<rparr>)
         | (_, _, Some error) \<Rightarrow>
             if error = GPU_TIMEOUT_ERROR then
               (case suspend_gpu env error (gs\<lparr>gs_failure := None, gs_streak := 0\<rparr>) of (es, gs) \<Rightarrow> (([], [], GpuError), es, gs))
             else
               (let gs = (if gs_failure gs = Some error then gs\<lparr>gs_streak := gs_streak gs + 1\<rparr>
                          else gs\<lparr>gs_failure := Some error, gs_streak := 1\<rparr>)
                in if gs_streak gs \<ge> GPU_IDENTICAL_FAILURES_TO_SUSPEND then
                     (case suspend_gpu env (error @ ''; '' @ show_nat (gs_streak gs) @ '' identical failures'') gs of
                        (es, gs) \<Rightarrow> (([], [], GpuError), es, gs))
                   else (([], [], GpuError), [error], gs))))"

subsection \<open>A failing GPU is left alone\<close>

text \<open>
  The queries of a run, newest first, each with the clock before and after it and its error.  From the
  log alone: a query suspends if it timed out or is at least the third of a row of the same failure.
\<close>

type_synonym gpu_query = "rat \<times> rat \<times> string option"

definition polls_now :: "gpu_env \<Rightarrow> gpu_state \<Rightarrow> bool" where
  "polls_now env gs \<longleftrightarrow> gs_enabled gs \<and> \<not> (case gs_resume_at gs of None \<Rightarrow> False | Some t \<Rightarrow> ge_now env < t) \<and> ge_found env"

definition env_error :: "gpu_env \<Rightarrow> string option" where
  "env_error env = snd (snd (query_gpus (ge_found_again env) (ge_run1 env) (ge_run2 env)))"

fun gpu_log :: "gpu_env list \<Rightarrow> gpu_state \<Rightarrow> gpu_query list \<Rightarrow> gpu_query list" where
  "gpu_log [] gs lg = lg"
| "gpu_log (env # envs) gs lg =
     gpu_log envs (snd (snd (poll_gpus env gs))) (if polls_now env gs then (ge_now env, ge_after env, env_error env) # lg else lg)"

definition same_failures :: "string \<Rightarrow> gpu_query list \<Rightarrow> nat" where
  "same_failures e lg = length (takeWhile (\<lambda>(_, _, err). err = Some e) lg)"

definition suspends :: "gpu_query list \<Rightarrow> bool" where
  "suspends lg = (case lg of (_, _, Some e) # _ \<Rightarrow> e = GPU_TIMEOUT_ERROR \<or> same_failures e lg \<ge> GPU_IDENTICAL_FAILURES_TO_SUSPEND | _ \<Rightarrow> False)"

fun rested :: "rat \<Rightarrow> gpu_query list \<Rightarrow> bool" where
  "rested suspend (q2 # q1 # lg) \<longleftrightarrow> (suspends (q1 # lg) \<longrightarrow> fst q2 \<ge> fst (snd q1) + suspend) \<and> rested suspend (q1 # lg)"
| "rested suspend _ \<longleftrightarrow> True"

text \<open>The state of the suspension as a function of the log.\<close>

definition failure_spec :: "gpu_query list \<Rightarrow> string option \<times> nat" where
  "failure_spec lg = (case lg of (_, _, Some e) # _ \<Rightarrow> if e = GPU_TIMEOUT_ERROR then (None, 0) else (Some e, same_failures e lg) | _ \<Rightarrow> (None, 0))"

definition gpu_inv :: "rat \<Rightarrow> rat \<Rightarrow> gpu_state \<Rightarrow> gpu_query list \<Rightarrow> bool" where
  "gpu_inv suspend clock gs lg \<longleftrightarrow> gs_suspend gs = suspend \<and> (gs_failure gs, gs_streak gs) = failure_spec lg \<and> rested suspend lg \<and>
     (suspends lg \<longrightarrow> (case gs_resume_at gs of None \<Rightarrow> fst (snd (hd lg)) + suspend \<le> clock | Some t \<Rightarrow> t = fst (snd (hd lg)) + suspend))"

lemma same_failures_Cons: "same_failures e ((a, b, err) # lg) = (if err = Some e then Suc (same_failures e lg) else 0)"
  by (simp add: same_failures_def)

lemma poll_gpus_idle: "\<not> polls_now env gs \<Longrightarrow> snd (snd (poll_gpus env gs)) = gs \<or>
    (snd (snd (poll_gpus env gs)) = gs\<lparr>gs_resume_at := None\<rparr> \<and> (\<forall>t. gs_resume_at gs = Some t \<longrightarrow> t \<le> ge_now env))"
  by (auto simp: polls_now_def poll_gpus_def Let_def split: option.splits)

lemma poll_gpus_query:
  assumes "polls_now env gs"
  shows "snd (snd (poll_gpus env gs)) =
    (let gs = gs\<lparr>gs_resume_at := None\<rparr> in
     case env_error env of None \<Rightarrow> gs\<lparr>gs_failure := None, gs_streak := 0\<rparr>
     | Some e \<Rightarrow>
         if e = GPU_TIMEOUT_ERROR then gs\<lparr>gs_failure := None, gs_streak := 0, gs_resume_at := Some (ge_after env + gs_suspend gs)\<rparr>
         else (let gs = (if gs_failure gs = Some e then gs\<lparr>gs_streak := gs_streak gs + 1\<rparr> else gs\<lparr>gs_failure := Some e, gs_streak := 1\<rparr>)
           in if gs_streak gs \<ge> GPU_IDENTICAL_FAILURES_TO_SUSPEND then gs\<lparr>gs_resume_at := Some (ge_after env + gs_suspend gs)\<rparr> else gs))"
  using assms by (auto simp: polls_now_def poll_gpus_def env_error_def suspend_gpu_def Let_def split: option.splits prod.splits)

lemma failure_streak:
  assumes "(gs_failure gs, gs_streak gs) = failure_spec lg" "e \<noteq> GPU_TIMEOUT_ERROR"
  shows "(if gs_failure gs = Some e then gs_streak gs + 1 else 1) = same_failures e ((a, b, Some e) # lg)"
proof (cases lg)
  case Nil
  with assms show ?thesis by (simp add: failure_spec_def same_failures_Cons) (simp add: same_failures_def)
next
  case (Cons q lg')
  obtain x y err where q: "q = (x, y, err)" by (cases q)
  with assms Cons show ?thesis by (auto simp: failure_spec_def same_failures_Cons split: option.splits if_splits)
qed

lemma gpu_inv_query:
  assumes "gpu_inv suspend clock gs lg" "polls_now env gs" "clock \<le> ge_now env"
  shows "gpu_inv suspend (ge_now env) (snd (snd (poll_gpus env gs))) ((ge_now env, ge_after env, env_error env) # lg)"
proof -
  let ?lg = "(ge_now env, ge_after env, env_error env) # lg"
  have f: "(gs_failure gs, gs_streak gs) = failure_spec lg" and s: "gs_suspend gs = suspend" using assms(1) by (auto simp: gpu_inv_def)
  have "rested suspend ?lg" using assms by (cases lg) (auto simp: gpu_inv_def polls_now_def split: option.splits)
  moreover have "gpu_inv suspend (ge_now env) (snd (snd (poll_gpus env gs))) ?lg" if "rested suspend ?lg"
  proof (cases "env_error env")
    case None
    with that s show ?thesis by (simp add: gpu_inv_def poll_gpus_query [OF assms(2)] failure_spec_def suspends_def Let_def)
  next
    case (Some e)
    show ?thesis
    proof (cases "e = GPU_TIMEOUT_ERROR")
      case True
      with that s Some show ?thesis by (simp add: gpu_inv_def poll_gpus_query [OF assms(2)] failure_spec_def Let_def)
    next
      case False
      from failure_streak [OF f this, of "ge_now env" "ge_after env"] that s Some False show ?thesis
        by (auto simp: gpu_inv_def poll_gpus_query [OF assms(2)] failure_spec_def suspends_def Let_def)
    qed
  qed
  ultimately show ?thesis by blast
qed

lemma gpu_inv_idle:
  assumes "gpu_inv suspend clock gs lg" "\<not> polls_now env gs" "clock \<le> ge_now env"
  shows "gpu_inv suspend (ge_now env) (snd (snd (poll_gpus env gs))) lg"
  using poll_gpus_idle [OF assms(2)] assms(1,3) by (auto simp: gpu_inv_def split: option.splits)

lemma gpu_log_rested:
  "gpu_inv suspend clock gs lg \<Longrightarrow> sorted (clock # map ge_now envs) \<Longrightarrow> rested suspend (gpu_log envs gs lg)"
proof (induction envs arbitrary: clock gs lg)
  case Nil
  then show ?case by (simp add: gpu_inv_def)
next
  case (Cons env envs)
  then have le: "clock \<le> ge_now env" and so: "sorted (ge_now env # map ge_now envs)" by auto
  from Cons.IH [OF _ so] gpu_inv_query [OF Cons.prems(1) _ le] gpu_inv_idle [OF Cons.prems(1) _ le] show ?case by simp
qed

text \<open>
  After a GPU query that timed out, and after one that is the third or a later one in a row to fail
  with the same message, the next query comes no sooner than the suspension later, over any number of
  censuses and whatever the queries do, as long as the monotonic clock does not run backwards.
\<close>

theorem gpu_queries_rest:
  assumes "sorted (map ge_now envs)"
  shows "rested suspend (gpu_log envs (new_gpu_state enabled suspend) [])"
proof (cases envs)
  case Nil
  then show ?thesis by simp
next
  case (Cons env rest)
  have "gpu_inv suspend (ge_now env) (new_gpu_state enabled suspend) []"
    by (simp add: gpu_inv_def new_gpu_state_def failure_spec_def suspends_def)
  then show ?thesis by (rule gpu_log_rested) (use assms Cons in simp)
qed

definition ex_fail :: "rat \<Rightarrow> gpu_env" where
  "ex_fail t = \<lparr>ge_now = t, ge_after = t + 1, ge_found = True, ge_found_again = True, ge_run1 = SmiExit 9 [] ''no permission'', ge_run2 = SmiTimeout\<rparr>"

theorem gpu_queries_rest_witness:
  "map fst (gpu_log (map ex_fail [0, 60, 120, 180, 721, 760]) (new_gpu_state True 600) []) = [721, 120, 60, 0] \<and>
   rested 600 (gpu_log (map ex_fail [0, 60, 120, 180, 721, 760]) (new_gpu_state True 600) [])"
proof
  show "map fst (gpu_log (map ex_fail [0, 60, 120, 180, 721, 760]) (new_gpu_state True 600) []) = [721, 120, 60, 0]"
  proof -
    have e: "env_error (ex_fail t) = Some ''nvidia-smi exit 9: no permission''" for t
      unfolding env_error_def ex_fail_def by code_simp
    have f: "ge_now (ex_fail t) = t" "ge_after (ex_fail t) = t + 1" "ge_found (ex_fail t)" for t by (simp_all add: ex_fail_def)
    have "poll_gpus (ex_fail t) gs = (([], [], GpuSuspended), [], gs)" if "gs_enabled gs" "gs_resume_at gs = Some r" "t < r" for t gs r
      using that by (simp add: poll_gpus_def f)
    then show ?thesis
      by (simp add: poll_gpus_query polls_now_def new_gpu_state_def e f GPU_TIMEOUT_ERROR_def GPU_IDENTICAL_FAILURES_TO_SUSPEND_def)
  qed
  show "rested 600 (gpu_log (map ex_fail [0, 60, 120, 180, 721, 760]) (new_gpu_state True 600) [])"
    by (rule gpu_queries_rest) (simp add: ex_fail_def)
qed

end
