(* ===== verification/Probe_Hardware.thy ===== *)
theory Probe_Hardware
  imports Probe_Counters Probe_Gpu
begin

text \<open>
  The static facts that the probe sends once per session (\<open>probe/probe.py\<close>, \<open>collect_hardware\<close>,
  \<open>boot_identity\<close>, \<open>_emit_hello\<close>).
\<close>

record cpu_info =
  ci_model :: "string option"
  ci_logical :: int
  ci_physical_ids :: "string list"
  ci_cores_per_socket :: "int option"

definition cpuinfo_line :: "cpu_info \<Rightarrow> string \<Rightarrow> cpu_info" where
  "cpuinfo_line ci line =
     (case partition_at (CHR '':'') line of (k, found, rest) \<Rightarrow>
        let k = strip k; v = strip rest in
        if \<not> found then ci
        else if k = ''processor'' then ci\<lparr>ci_logical := ci_logical ci + 1\<rparr>
        else if k = ''model name'' \<and> ci_model ci = None then ci\<lparr>ci_model := Some v\<rparr>
        else if k = ''physical id'' then ci\<lparr>ci_physical_ids := List.insert v (ci_physical_ids ci)\<rparr>
        else if k = ''cpu cores'' \<and> ci_cores_per_socket ci = None then
          (case py_int v of None \<Rightarrow> ci | Some n \<Rightarrow> ci\<lparr>ci_cores_per_socket := Some n\<rparr>)
        else ci)"

text \<open>\<open>_collect_cpuinfo\<close>: model, logical CPUs, sockets, cores per socket.\<close>

definition collect_cpuinfo :: "host \<Rightarrow> roots \<Rightarrow> (string option \<times> int \<times> int option \<times> int option) res" where
  "collect_cpuinfo h rt =
     rmap (\<lambda>text. case text of None \<Rightarrow> (None, 0, None, None)
       | Some s \<Rightarrow>
           (let ci = foldl cpuinfo_line \<lparr>ci_model = None, ci_logical = 0, ci_physical_ids = [], ci_cores_per_socket = None\<rparr> (split_on NL s)
            in (ci_model ci, ci_logical ci,
                if ci_physical_ids ci = [] then None else Some (int (length (ci_physical_ids ci))), ci_cores_per_socket ci)))
       (read_text h (proc_path rt [''cpuinfo'']))"

definition collect_cpu_max_freq_khz :: "host \<Rightarrow> roots \<Rightarrow> int option res" where
  "collect_cpu_max_freq_khz h rt =
     rmap (\<lambda>text. Option.bind text (\<lambda>s. py_int (strip s)))
       (read_text h (sys_path rt [''devices'', ''system'', ''cpu'', ''cpu0'', ''cpufreq'', ''cpuinfo_max_freq'']))"

text \<open>\<open>re.match(r"^node\d+$", entry)\<close>.\<close>

definition NUMA_RE :: string where "NUMA_RE = raw ''^node~d+$''"

definition is_numa_node :: "string \<Rightarrow> bool" where
  "is_numa_node entry = (case re_compile False NUMA_RE of None \<Rightarrow> False | Some p \<Rightarrow> re_match (prx p) entry \<noteq> None)"

definition collect_numa_nodes :: "host \<Rightarrow> roots \<Rightarrow> int" where
  "collect_numa_nodes h rt =
     (case h_list h (sys_path rt [''devices'', ''system'', ''node'']) of None \<Rightarrow> 0
      | Some entries \<Rightarrow> int (length (filter is_numa_node entries)))"

definition strip_quotes :: "string \<Rightarrow> string" where
  "strip_quotes s = (let q = (\<lambda>c. c = CHR 0x22) in rev (dropWhile q (rev (dropWhile q s))))"

fun pretty_name :: "string list \<Rightarrow> string option" where
  "pretty_name [] = None"
| "pretty_name (line # lines) =
     (case partition_at (CHR ''='') line of (k, found, rest) \<Rightarrow>
        if found \<and> strip k = ''PRETTY_NAME'' then Some (strip_quotes (strip rest)) else pretty_name lines)"

definition collect_os_pretty_name :: "host \<Rightarrow> roots \<Rightarrow> string option res" where
  "collect_os_pretty_name h rt = rmap (\<lambda>text. Option.bind text (\<lambda>s. pretty_name (split_on NL s))) (read_text h (os_release rt))"

definition collect_net_fs_mounts :: "host \<Rightarrow> roots \<Rightarrow> int res" where
  "collect_net_fs_mounts h rt =
     rmap (\<lambda>text. case text of None \<Rightarrow> 0
       | Some s \<Rightarrow> int (length (filter (\<lambda>line. let fs = split_ws line in 3 \<le> length fs \<and> fs ! 2 \<in> {''lustre'', ''nfs'', ''nfs4''}) (split_on NL s))))
       (read_text h (proc_path rt [''mounts'']))"

text \<open>\<open>_collect_net_ifaces\<close>: every read failure of \<open>speed\<close> is \<open>None\<close>.\<close>

definition iface_speed :: "host \<Rightarrow> string \<Rightarrow> int option" where
  "iface_speed h iface_dir =
     (case read_text h (path_join iface_dir ''speed'') of Inr (Some s) \<Rightarrow> py_int (strip s) | _ \<Rightarrow> None)"

definition collect_net_ifaces :: "host \<Rightarrow> roots \<Rightarrow> (string, int option) dict" where
  "collect_net_ifaces h rt =
     (let base = sys_path rt [''class'', ''net''] in
      case h_list h base of None \<Rightarrow> []
      | Some names \<Rightarrow> foldl (\<lambda>out name. let d = path_join base name in
            if h_isdir h d then dset out name (iface_speed h d) else out) [] names)"

definition collect_gpus_nvidia_smi :: "bool \<Rightarrow> smi_run \<Rightarrow> string list" where
  "collect_gpus_nvidia_smi found r =
     (if \<not> found then []
      else case run_nvidia_smi r of Inl _ \<Rightarrow> []
      | Inr rows \<Rightarrow> List.map_filter (\<lambda>cells. case cells of [] \<Rightarrow> None | c # _ \<Rightarrow> if c = [] then None else Some c) rows)"

text \<open>\<open>sorted\<close> on strings compares code points.\<close>

definition collect_gpus :: "host \<Rightarrow> roots \<Rightarrow> bool \<Rightarrow> bool \<Rightarrow> smi_run \<Rightarrow> string list" where
  "collect_gpus h rt gpu found r =
     (let entries = (case h_list h (proc_path rt [''driver'', ''nvidia'', ''gpus'']) of None \<Rightarrow> [] | Some es \<Rightarrow> sort es) in
      if entries \<noteq> [] \<or> \<not> gpu then entries else collect_gpus_nvidia_smi found r)"

definition HW_MEM_WANTED :: "(string, string) dict" where
  "HW_MEM_WANTED = [(''MemTotal'', ''mem_total_kb''), (''SwapTotal'', ''swap_total_kb''), (''Hugepagesize'', ''hugepage_size_kb'')]"

definition opt_of :: "(string, int option) dict \<Rightarrow> string \<Rightarrow> pyval" where
  "opt_of d k = of_opt VInt (Option.bind (dget d k) id)"

definition collect_hardware :: "host \<Rightarrow> roots \<Rightarrow> bool \<Rightarrow> bool \<Rightarrow> smi_run \<Rightarrow> row res" where
  "collect_hardware h rt gpu found r =
     rbind (collect_cpuinfo h rt) (\<lambda>(model, logical, sockets, cores).
     rbind (meminfo_fields h rt HW_MEM_WANTED) (\<lambda>mem.
     rbind (collect_cpu_max_freq_khz h rt) (\<lambda>freq.
     rbind (read_first_line h (proc_path rt [''sys'', ''kernel'', ''osrelease''])) (\<lambda>release.
     rbind (collect_os_pretty_name h rt) (\<lambda>os_name.
     rmap (\<lambda>mounts.
       [(''cpu_model'', of_opt VStr model), (''cpu_logical'', VInt logical), (''sockets'', of_opt VInt sockets),
        (''cores_per_socket'', of_opt VInt cores), (''cpu_max_freq_khz'', of_opt VInt freq),
        (''numa_nodes'', VInt (collect_numa_nodes h rt)), (''mem_total_kb'', opt_of mem ''mem_total_kb''),
        (''swap_total_kb'', opt_of mem ''swap_total_kb''), (''hugepage_size_kb'', opt_of mem ''hugepage_size_kb''),
        (''kernel_release'', of_opt VStr release), (''os_pretty_name'', of_opt VStr os_name), (''net_fs_mounts'', VInt mounts),
        (''net_ifaces'', VDict (map (\<lambda>(k, v). (k, of_opt VInt v)) (collect_net_ifaces h rt))),
        (''gpus'', VList (map VStr (collect_gpus h rt gpu found r)))])
       (collect_net_fs_mounts h rt))))))"

fun btime_lines :: "string list \<Rightarrow> int option" where
  "btime_lines [] = None"
| "btime_lines (line # lines) =
     (if startswith line ''btime '' then (case split_ws line of _ # w # _ \<Rightarrow> py_int w | _ \<Rightarrow> None) else btime_lines lines)"

definition boot_identity :: "host \<Rightarrow> roots \<Rightarrow> (string option \<times> int option) res" where
  "boot_identity h rt =
     rbind (read_first_line h (proc_path rt [''sys'', ''kernel'', ''random'', ''boot_id''])) (\<lambda>boot_id.
       rmap (\<lambda>text. (boot_id, btime_lines (split_on NL (case text of None \<Rightarrow> [] | Some s \<Rightarrow> s)))) (read_text h (proc_path rt [''stat''])))"

definition PROBE_VERSION :: int where "PROBE_VERSION = 1"

text \<open>
  \<open>_emit_hello\<close>: the fields of the hello message and the number of problems reported after it; the
  Python version, host name and pid of the probe are arguments.
\<close>

definition hello_fields :: "host \<Rightarrow> roots \<Rightarrow> bool \<Rightarrow> bool \<Rightarrow> smi_run \<Rightarrow> string \<Rightarrow> string \<Rightarrow> int \<Rightarrow> row \<times> py_error list" where
  "hello_fields h rt gpu found r python fqdn pid =
     (let (boot_id, btime, ps1) = (case boot_identity h rt of Inr (b, t) \<Rightarrow> (b, t, []) | Inl e \<Rightarrow> (None, None, [e]));
          (hardware, ps2) = (case collect_hardware h rt gpu found r of Inr hw \<Rightarrow> (VDict hw, []) | Inl e \<Rightarrow> (VNone, [e]))
      in ([(''probe_version'', VInt PROBE_VERSION), (''python_version'', VStr python), (''hostname_fqdn'', VStr fqdn), (''pid'', VInt pid),
           (''boot_id'', of_opt VStr boot_id), (''btime'', of_opt VInt btime), (''hardware'', hardware)], ps1 @ ps2))"

lemma collect_hardware_keys:
  "collect_hardware h rt gpu found r = Inr hw \<Longrightarrow> dkeys hw = [''cpu_model'', ''cpu_logical'', ''sockets'', ''cores_per_socket'',
     ''cpu_max_freq_khz'', ''numa_nodes'', ''mem_total_kb'', ''swap_total_kb'', ''hugepage_size_kb'', ''kernel_release'', ''os_pretty_name'',
     ''net_fs_mounts'', ''net_ifaces'', ''gpus'']"
  by (auto simp: collect_hardware_def rbind_Inr rmap_Inr)

end
