(* ===== verification/Probe_Census.thy ===== *)
theory Probe_Census
  imports Probe_Host
begin

text \<open>
  The process census of the probe (\<open>probe/probe.py\<close>): the parser of \<open>/proc/<pid>/stat\<close>, one row per
  process, the parents, the walk with its coverage counts, and the tracker that turns CPU ticks into
  seconds and idle times.  The walk reads one host and the parents, which are read after it, another.
\<close>

subsection \<open>One process\<close>

definition SHELL_RE :: string where
  "SHELL_RE = raw ''(^|/)(bash|zsh|tcsh|csh|ksh|sh)( |$)|^-''"

definition MULTIPLEXER_RE :: string where
  "MULTIPLEXER_RE = raw ''(^|/)(screen|tmux)(:| |$)''"

definition searches :: "bool \<Rightarrow> string \<Rightarrow> string \<Rightarrow> bool" where
  "searches ignorecase pat s = (case re_compile ignorecase pat of None \<Rightarrow> False | Some p \<Rightarrow> re_search (prx p) s)"

definition parse_stat :: "string \<Rightarrow> (string \<times> string list) option" where
  "parse_stat s =
     (case (find_char (CHR ''('') s, rfind_char (CHR '')'') s) of
        (Some a, Some b) \<Rightarrow>
          if b < a then None
          else (let tail = split_ws (drop (b + 2) s) in
                if length tail < 22 then None else Some (take (b - (a + 1)) (drop (a + 1) s), tail))
      | _ \<Rightarrow> None)"

definition parent_kind :: "int \<Rightarrow> string option \<Rightarrow> string" where
  "parent_kind ppid parent_comm =
     (if ppid = 1 then ''init''
      else case parent_comm of None \<Rightarrow> ''unknown''
      | Some comm \<Rightarrow>
          if searches True MULTIPLEXER_RE comm then ''multiplexer''
          else if startswith comm ''sshd'' then ''sshd''
          else if searches False SHELL_RE comm then ''shell''
          else ''other'')"

type_synonym uid_names = "(int, string option) dict"

definition resolve_uid :: "host \<Rightarrow> int \<Rightarrow> uid_names \<Rightarrow> string option \<times> uid_names" where
  "resolve_uid h uid names = (case dget names uid of Some n \<Rightarrow> (n, names) | None \<Rightarrow> (h_user h uid, dset names uid (h_user h uid)))"

definition status_line :: "string \<Rightarrow> int option \<times> int option \<Rightarrow> (int option \<times> int option) res" where
  "status_line line ut =
     (let fs = split_ws line; digits = length fs > 1 \<and> isdigit (fs ! 1) in
      if startswith line ''Uid:'' then
        (if digits then rmap (\<lambda>n. (Some n, snd ut)) (require (py_int (fs ! 1))) else Inr ut)
      else if startswith line ''Threads:'' then
        (if digits then rmap (\<lambda>n. (fst ut, Some n)) (require (py_int (fs ! 1))) else Inr ut)
      else Inr ut)"

definition status_fields :: "string \<Rightarrow> (int option \<times> int option) res" where
  "status_fields s = rfold status_line (split_on NL s) (None, None)"

record coverage =
  pids_seen :: nat
  stat_unreadable :: nat
  stat_unparseable :: nat
  kernel_thread :: nat
  vanished :: nat
  owner_unresolved :: nat
  exe_unreadable :: nat
  parent_unresolved :: nat

record scan_row =
  sr_pid :: int
  sr_ppid :: int
  sr_start_time :: int
  sr_uid :: int
  sr_username :: "string option"
  sr_comm :: string
  sr_exe :: "string option"
  sr_argv0 :: string
  sr_cmdline :: string
  sr_state :: string
  sr_threads :: "int option"
  sr_rss_kb :: int
  sr_utime :: int
  sr_stime :: int
  sr_tty_nr :: int
  sr_interactive :: bool
  sr_session_leader :: bool

text \<open>The eight numbers of the \<open>try\<close> block; \<open>None\<close> when one of them does not parse.\<close>

record stat_nums =
  sn_pid :: int
  sn_ppid :: int
  sn_sid :: int
  sn_tty_nr :: int
  sn_utime :: int
  sn_stime :: int
  sn_start_time :: int
  sn_rss_pages :: int

definition basename :: "string \<Rightarrow> string" where
  "basename path = last (split_on (CHR ''/'') path)"

definition stat_nums_of :: "string \<Rightarrow> string list \<Rightarrow> stat_nums option" where
  "stat_nums_of pid tail =
     (case (py_int pid, py_int (tail ! 1), py_int (tail ! 3), py_int (tail ! 4), py_int (tail ! 11), py_int (tail ! 12),
        py_int (tail ! 19), py_int (tail ! 21)) of
        (Some p, Some pp, Some sid, Some tty, Some ut, Some st, Some start, Some rss) \<Rightarrow>
          Some \<lparr>sn_pid = p, sn_ppid = pp, sn_sid = sid, sn_tty_nr = tty, sn_utime = ut, sn_stime = st, sn_start_time = start, sn_rss_pages = rss\<rparr>
      | _ \<Rightarrow> None)"

definition NUL :: char where "NUL = CHR 0x00"

text \<open>The end of \<open>_read_process\<close>, which always yields a row.\<close>

definition finish_process :: "host \<Rightarrow> string \<Rightarrow> int \<Rightarrow> string \<Rightarrow> string list \<Rightarrow> stat_nums \<Rightarrow> int \<Rightarrow> int option \<Rightarrow> string \<Rightarrow> string \<Rightarrow>
    uid_names \<Rightarrow> coverage \<Rightarrow> scan_row \<times> uid_names \<times> coverage" where
  "finish_process h proc_dir page_kb comm tail sn uid threads raw_cmdline cmdline names cov =
     (case resolve_uid h uid names of (username, names) \<Rightarrow>
       let cov = (if username = None then cov\<lparr>owner_unresolved := owner_unresolved cov + 1\<rparr> else cov);
           exe = h_link h (proc_dir @ ''/exe'');
           cov = (if exe = None then cov\<lparr>exe_unreadable := exe_unreadable cov + 1\<rparr> else cov)
       in (\<lparr>sr_pid = sn_pid sn, sr_ppid = sn_ppid sn, sr_start_time = sn_start_time sn, sr_uid = uid, sr_username = username,
            sr_comm = comm, sr_exe = exe, sr_argv0 = hd (split_on NUL raw_cmdline),
            sr_cmdline = cmdline, sr_state = tail ! 0, sr_threads = threads, sr_rss_kb = sn_rss_pages sn * page_kb,
            sr_utime = sn_utime sn, sr_stime = sn_stime sn, sr_tty_nr = sn_tty_nr sn, sr_interactive = (sn_tty_nr sn \<noteq> 0),
            sr_session_leader = (sn_pid sn = sn_sid sn)\<rparr>, names, cov))"

definition read_process :: "host \<Rightarrow> string \<Rightarrow> int \<Rightarrow> uid_names \<Rightarrow> coverage \<Rightarrow> (scan_row option \<times> uid_names \<times> coverage) res" where
  "read_process h proc_dir page_kb names cov =
     rbind (read_text h (proc_dir @ ''/stat'')) (\<lambda>raw_stat.
       case raw_stat of None \<Rightarrow> Inr (None, names, cov\<lparr>stat_unreadable := stat_unreadable cov + 1\<rparr>)
       | Some raw_stat \<Rightarrow>
     (case parse_stat raw_stat of None \<Rightarrow> Inr (None, names, cov\<lparr>stat_unparseable := stat_unparseable cov + 1\<rparr>)
       | Some (comm, tail) \<Rightarrow>
     rbind (read_text h (proc_dir @ ''/cmdline'')) (\<lambda>raw_cmdline.
       let raw_cmdline = (case raw_cmdline of None \<Rightarrow> [] | Some s \<Rightarrow> s);
           cmdline = strip (map (\<lambda>c. if c = NUL then CHR '' '' else c) raw_cmdline) in
       if cmdline = [] then Inr (None, names, cov\<lparr>kernel_thread := kernel_thread cov + 1\<rparr>)
       else
     rbind (read_text h (proc_dir @ ''/status'')) (\<lambda>raw_status.
     rbind (case raw_status of None \<Rightarrow> Inr (None, None) | Some s \<Rightarrow> status_fields s) (\<lambda>(uid, threads).
       case uid of None \<Rightarrow> Inr (None, names, cov\<lparr>vanished := vanished cov + 1\<rparr>)
       | Some uid \<Rightarrow>
     (case stat_nums_of (basename proc_dir) tail of None \<Rightarrow> Inr (None, names, cov\<lparr>stat_unparseable := stat_unparseable cov + 1\<rparr>)
       | Some sn \<Rightarrow>
     (case finish_process h proc_dir page_kb comm tail sn uid threads raw_cmdline cmdline names cov of
        (row, names, cov) \<Rightarrow> Inr (Some row, names, cov))))))))"

subsection \<open>Parents\<close>

record parented =
  pa_row :: scan_row
  pa_comm :: "string option"
  pa_exe :: "string option"
  pa_under_screen_or_tmux :: bool
  pa_kind :: string

definition resolve_parent_direct :: "host \<Rightarrow> roots \<Rightarrow> int \<Rightarrow> (string option \<times> string option) res" where
  "resolve_parent_direct h rt ppid =
     (let proc_dir = proc_path rt [show_int ppid] in
      rmap (\<lambda>raw_stat. (map_option fst (Option.bind raw_stat parse_stat), h_link h (proc_dir @ ''/exe'')))
        (read_text h (proc_dir @ ''/stat'')))"

definition by_pid :: "scan_row list \<Rightarrow> int \<Rightarrow> scan_row option" where
  "by_pid rows pid = find (\<lambda>r. sr_pid r = pid) (rev rows)"

definition enrich_parent :: "host \<Rightarrow> roots \<Rightarrow> scan_row list \<Rightarrow> scan_row \<Rightarrow> parented list \<times> coverage \<Rightarrow> (parented list \<times> coverage) res" where
  "enrich_parent h rt rows row s =
     rmap (\<lambda>(comm, exe).
         (fst s @ [\<lparr>pa_row = row, pa_comm = comm, pa_exe = exe,
            pa_under_screen_or_tmux = (case comm of None \<Rightarrow> False | Some c \<Rightarrow> c \<noteq> [] \<and> searches True MULTIPLEXER_RE c),
            pa_kind = parent_kind (sr_ppid row) comm\<rparr>],
          if comm = None then (snd s)\<lparr>parent_unresolved := parent_unresolved (snd s) + 1\<rparr> else snd s))
       (case by_pid rows (sr_ppid row) of
          Some parent \<Rightarrow> Inr (Some (sr_comm parent), sr_exe parent)
        | None \<Rightarrow> resolve_parent_direct h rt (sr_ppid row))"

definition enrich_parents :: "host \<Rightarrow> roots \<Rightarrow> scan_row list \<Rightarrow> coverage \<Rightarrow> (parented list \<times> coverage) res" where
  "enrich_parents h rt rows cov = rfold (enrich_parent h rt rows) rows ([], cov)"

subsection \<open>The walk\<close>

definition no_coverage :: coverage where
  "no_coverage = \<lparr>pids_seen = 0, stat_unreadable = 0, stat_unparseable = 0, kernel_thread = 0, vanished = 0,
     owner_unresolved = 0, exe_unreadable = 0, parent_unresolved = 0\<rparr>"

definition scan_entry :: "host \<Rightarrow> roots \<Rightarrow> int \<Rightarrow> string \<Rightarrow> scan_row list \<times> uid_names \<times> coverage \<Rightarrow> (scan_row list \<times> uid_names \<times> coverage) res" where
  "scan_entry h rt page_kb entry s =
     (case s of (rows, names, cov) \<Rightarrow>
        if \<not> isdigit entry then Inr s
        else rmap (\<lambda>(row, names, cov). (case row of None \<Rightarrow> rows | Some r \<Rightarrow> rows @ [r], names, cov))
          (read_process h (proc_path rt [entry]) page_kb names (cov\<lparr>pids_seen := pids_seen cov + 1\<rparr>)))"

definition scan_processes :: "host \<Rightarrow> host \<Rightarrow> roots \<Rightarrow> uid_names \<Rightarrow> (parented list \<times> coverage \<times> uid_names) res" where
  "scan_processes h later rt names =
     (case h_list h (proc_root rt) of
        None \<Rightarrow> Inr ([], no_coverage, names)
      | Some entries \<Rightarrow>
          rbind (rfold (scan_entry h rt (h_page_size h div 1024)) entries ([], names, no_coverage)) (\<lambda>(rows, names, cov).
            rmap (\<lambda>(out, cov). (out, cov, names)) (enrich_parents later rt rows cov)))"

subsection \<open>CPU time and dormancy\<close>

type_synonym proc_key = "int \<times> int"

record proc_state =
  ps_ticks :: int
  ps_first_seen :: rat
  ps_last_active :: "rat option"
  ps_existed_at_start :: bool

record tracker =
  tk_active_per_min :: rat
  tk_clk_tck :: int
  tk_state :: "(proc_key, proc_state) dict"
  tk_updates :: nat

definition new_tracker :: "rat \<Rightarrow> int \<Rightarrow> tracker" where
  "new_tracker active_per_min clk = \<lparr>tk_active_per_min = active_per_min, tk_clk_tck = clk, tk_state = [], tk_updates = 0\<rparr>"

record cpu_report =
  cr_cpu_seconds :: "rat option"
  cr_cpu_state :: "string option"
  cr_idle_for_sec :: "rat option"
  cr_idle_for_is_lower_bound :: bool

definition proc_key_of :: "scan_row \<Rightarrow> proc_key" where
  "proc_key_of r = (sr_pid r, sr_start_time r)"

definition ticks_of :: "scan_row \<Rightarrow> int" where
  "ticks_of r = sr_utime r + sr_stime r"

definition active_threshold :: "rat \<Rightarrow> rat option \<Rightarrow> rat" where
  "active_threshold per_min interval = per_min * (case interval of None \<Rightarrow> 0 | Some i \<Rightarrow> i) / 60"

definition track_row :: "tracker \<Rightarrow> bool \<Rightarrow> rat \<Rightarrow> rat option \<Rightarrow> scan_row \<Rightarrow> proc_state option \<Rightarrow> cpu_report \<times> proc_state" where
  "track_row tk first_update now interval row old =
     (case old of
        None \<Rightarrow>
          (\<lparr>cr_cpu_seconds = None, cr_cpu_state = None, cr_idle_for_sec = None, cr_idle_for_is_lower_bound = False\<rparr>,
           \<lparr>ps_ticks = ticks_of row, ps_first_seen = now, ps_last_active = None, ps_existed_at_start = first_update\<rparr>)
      | Some st \<Rightarrow>
          (let cpu = of_int (ticks_of row - ps_ticks st) / of_int (tk_clk_tck tk);
               active = cpu \<ge> active_threshold (tk_active_per_min tk) interval;
               st' = (if active then st\<lparr>ps_last_active := Some now\<rparr> else st);
               idle = (if active then 0
                  else now - (case ps_last_active st of None \<Rightarrow> ps_first_seen st | Some t \<Rightarrow> t))
           in (\<lparr>cr_cpu_seconds = Some cpu, cr_cpu_state = Some (if active then ''active'' else ''idle''), cr_idle_for_sec = Some idle,
                cr_idle_for_is_lower_bound = (ps_last_active st' = None \<and> ps_existed_at_start st')\<rparr>,
               st'\<lparr>ps_ticks := ticks_of row\<rparr>)))"

text \<open>
  The loop of \<open>update\<close>.  A known state is an object shared by the old table and the new one, so a
  second row with the same key sees the first one's update.
\<close>

fun track_rows :: "tracker \<Rightarrow> bool \<Rightarrow> rat \<Rightarrow> rat option \<Rightarrow> scan_row list \<Rightarrow> (proc_key, proc_state) dict \<Rightarrow> (proc_key, proc_state) dict \<Rightarrow>
    cpu_report list \<times> (proc_key, proc_state) dict" where
  "track_rows tk first_update now interval [] old seen = ([], seen)"
| "track_rows tk first_update now interval (row # rows) old seen =
     (let known = dget old (proc_key_of row);
          (rep, st) = track_row tk first_update now interval row known;
          old = (if known = None then old else dset old (proc_key_of row) st);
          (reps, seen) = track_rows tk first_update now interval rows old (dset seen (proc_key_of row) st)
      in (rep # reps, seen))"

definition tracker_update :: "tracker \<Rightarrow> scan_row list \<Rightarrow> rat \<Rightarrow> rat option \<Rightarrow> cpu_report list \<times> tracker" where
  "tracker_update tk rows now interval =
     (case track_rows tk (tk_updates tk = 0) now interval rows (tk_state tk) [] of (reps, seen) \<Rightarrow>
        (reps, tk\<lparr>tk_state := seen, tk_updates := tk_updates tk + 1\<rparr>))"

subsection \<open>Reading what the kernel prints\<close>

lemma find_char_first: "c \<notin> set a \<Longrightarrow> find_char c (a @ c # b) = Some (length a)"
proof -
  assume "c \<notin> set a"
  then have "takeWhile (\<lambda>x. x \<noteq> c) (a @ c # b) = a" by (induction a) auto
  then show ?thesis by (simp add: find_char_def)
qed

lemma rfind_char_last: "c \<notin> set b \<Longrightarrow> rfind_char c (a @ c # b) = Some (length a)"
proof -
  assume "c \<notin> set b"
  then have "takeWhile (\<lambda>x. x \<noteq> c) (rev b @ c # rev a) = rev b" by (induction b rule: rev_induct) auto
  then show ?thesis by (simp add: rfind_char_def)
qed

text \<open>The line of \<open>/proc/<pid>/stat\<close>: the pid, the command in parentheses, the other fields.\<close>

definition stat_text :: "int \<Rightarrow> string \<Rightarrow> string list \<Rightarrow> string" where
  "stat_text pid comm tail = show_int pid @ '' ('' @ comm @ '') '' @ join '' '' tail @ [NL]"

lemma show_int_chars: "c \<in> set (show_int n) \<Longrightarrow> c = CHR ''-'' \<or> is_digit c"
  using show_nat_digits(1) by (auto simp: show_int_def list_all_iff split: if_splits)

lemma set_join: "set (join sep fs) \<subseteq> \<Union> (set ` set fs) \<union> set sep"
  by (induction sep fs rule: join.induct) auto

text \<open>
  Parsing a \<open>stat\<close> line gives back the command and the fields it was printed from, for every
  command, also one that itself contains spaces, parentheses or newlines.
\<close>

theorem parse_stat_roundtrip:
  assumes "list_all field tail" "list_all (\<lambda>f. CHR '')'' \<notin> set f) tail" "22 \<le> length tail"
  shows "parse_stat (stat_text pid comm tail) = Some (comm, tail)"
proof -
  let ?a = "show_int pid @ '' ''" and ?rest = "'' '' @ join '' '' tail @ [NL]"
  let ?s = "stat_text pid comm tail"
  have s1: "?s = ?a @ CHR ''('' # (comm @ CHR '')'' # ?rest)" and s2: "?s = (?a @ ''('' @ comm) @ CHR '')'' # ?rest"
    by (simp_all add: stat_text_def)
  have "CHR ''('' \<notin> set ?a" using show_int_chars [of "CHR ''(''" pid] by (auto simp: is_digit_def)
  then have op: "find_char (CHR ''('') ?s = Some (length ?a)" unfolding s1 by (rule find_char_first)
  have "CHR '')'' \<notin> set ?rest"
    using set_join [of "'' ''" tail] assms(2) by (auto simp: list_all_iff NL_def)
  then have cl: "rfind_char (CHR '')'') ?s = Some (length (?a @ ''('' @ comm))" unfolding s2 by (rule rfind_char_last)
  have "is_space NL" by code_simp
  then have t: "split_ws (join '' '' tail @ [NL]) = tail" using split_ws_join [OF assms(1), of "[NL]"] by simp
  have d: "drop (length (?a @ ''('' @ comm) + 2) ?s = join '' '' tail @ [NL]"
    unfolding s2 by (simp only: drop_append) simp
  have c: "take (length (?a @ ''('' @ comm) - (length ?a + 1)) (drop (length ?a + 1) ?s) = comm" unfolding s1 by simp
  have "\<not> length (?a @ ''('' @ comm) < length ?a" by simp
  then show ?thesis using assms(3) t d c unfolding parse_stat_def op cl by (simp only: Let_def option.case prod.case if_False not_less)
      (simp add: t d)
qed

theorem parse_stat_roundtrip_witness:
  "parse_stat (stat_text 4242 ''a) (b'' (''S'' # replicate 21 ''0'')) = Some (''a) (b'', ''S'' # replicate 21 ''0'')"
proof -
  have "field ''S''" "field ''0''" by code_simp+
  then show ?thesis by (intro parse_stat_roundtrip) (auto simp: list_all_iff)
qed

subsection \<open>The census accounts for every process\<close>

definition lost :: "coverage \<Rightarrow> nat" where
  "lost cov = stat_unreadable cov + stat_unparseable cov + kernel_thread cov + vanished cov"

abbreviation none_of :: "('a \<Rightarrow> 'b option) \<Rightarrow> 'a list \<Rightarrow> nat" where
  "none_of f xs \<equiv> length (filter (\<lambda>x. f x = None) xs)"

definition scan_inv :: "scan_row list \<Rightarrow> coverage \<Rightarrow> bool" where
  "scan_inv rows cov \<longleftrightarrow> pids_seen cov = length rows + lost cov \<and> owner_unresolved cov = none_of sr_username rows \<and>
     exe_unreadable cov = none_of sr_exe rows \<and> parent_unresolved cov = 0"

lemma rbindE: "rbind r f = Inr y \<Longrightarrow> (\<And>x. f x = Inr y \<Longrightarrow> P) \<Longrightarrow> P"
  by (cases r) auto

lemma option_caseE:
  "(case x of None \<Rightarrow> a | Some v \<Rightarrow> f v) = y \<Longrightarrow> (a = y \<Longrightarrow> P) \<Longrightarrow> (\<And>v. f v = y \<Longrightarrow> P) \<Longrightarrow> P"
  by (cases x) auto

lemma if_elimE: "(if c then a else b) = y \<Longrightarrow> (a = y \<Longrightarrow> P) \<Longrightarrow> (b = y \<Longrightarrow> P) \<Longrightarrow> P"
  by (auto split: if_splits)

lemma pair_caseE: "(case x of (a, b) \<Rightarrow> f a b) = y \<Longrightarrow> (\<And>a b. x = (a, b) \<Longrightarrow> f a b = y \<Longrightarrow> P) \<Longrightarrow> P"
  by (cases x) auto

text \<open>How \<open>_read_process\<close> ends: with one count raised, or with a row.\<close>

lemma read_process_cases:
  assumes "read_process h dir page names cov = Inr (row, names', cov')"
  shows "row = None \<and> cov' \<in> {cov\<lparr>stat_unreadable := stat_unreadable cov + 1\<rparr>, cov\<lparr>stat_unparseable := stat_unparseable cov + 1\<rparr>,
     cov\<lparr>kernel_thread := kernel_thread cov + 1\<rparr>, cov\<lparr>vanished := vanished cov + 1\<rparr>} \<or>
   (\<exists>r comm tail sn uid threads raw_c c. row = Some r \<and> finish_process h dir page comm tail sn uid threads raw_c c names cov = (r, names', cov'))"
  using assms unfolding read_process_def Let_def
  by (elim rbindE option_caseE if_elimE pair_caseE) (simp_all, blast)

lemma scan_entry_inv:
  assumes "scan_entry h rt page entry (rows, names, cov) = Inr (rows', names', cov')" "scan_inv rows cov"
  shows "scan_inv rows' cov' \<and> pids_seen cov' = pids_seen cov + (if isdigit entry then 1 else 0)"
proof (cases "isdigit entry")
  case True
  let ?cov = "cov\<lparr>pids_seen := pids_seen cov + 1\<rparr>"
  from True assms(1) obtain row where r: "read_process h (proc_path rt [entry]) page names ?cov = Inr (row, names', cov')"
    and rows: "rows' = (case row of None \<Rightarrow> rows | Some r \<Rightarrow> rows @ [r])"
    by (auto simp: scan_entry_def rmap_Inr)
  from read_process_cases [OF r] show ?thesis
  proof (elim disjE conjE exE)
    assume "row = None" "cov' \<in> {?cov\<lparr>stat_unreadable := stat_unreadable ?cov + 1\<rparr>, ?cov\<lparr>stat_unparseable := stat_unparseable ?cov + 1\<rparr>,
     ?cov\<lparr>kernel_thread := kernel_thread ?cov + 1\<rparr>, ?cov\<lparr>vanished := vanished ?cov + 1\<rparr>}"
    with assms(2) True rows show ?thesis by (auto simp: scan_inv_def lost_def)
  next
    fix r comm tail sn uid threads raw_c c
    assume "row = Some r" and f: "finish_process h (proc_path rt [entry]) page comm tail sn uid threads raw_c c names ?cov = (r, names', cov')"
    with assms(2) True rows show ?thesis
      by (auto simp: finish_process_def scan_inv_def lost_def Let_def split: prod.splits if_splits)
  qed
qed (use assms in \<open>auto simp: scan_entry_def\<close>)

lemma scan_fold_inv:
  "rfold (scan_entry h rt page) entries (rows, names, cov) = Inr (rows', names', cov') \<Longrightarrow> scan_inv rows cov \<Longrightarrow>
   scan_inv rows' cov' \<and> pids_seen cov' = pids_seen cov + length (filter isdigit entries)"
proof (induction entries arbitrary: rows names cov)
  case (Cons e entries)
  from Cons.prems(1) obtain rows1 names1 cov1 where
    e: "scan_entry h rt page e (rows, names, cov) = Inr (rows1, names1, cov1)"
    and r: "rfold (scan_entry h rt page) entries (rows1, names1, cov1) = Inr (rows', names', cov')" by (auto simp: rbind_Inr)
  from scan_entry_inv [OF e Cons.prems(2)] Cons.IH [OF r] show ?case by auto
qed simp

lemma enrich_fold:
  "rfold (enrich_parent h rt all) rows (out, cov) = Inr (out', cov') \<Longrightarrow>
   \<exists>new. out' = out @ new \<and> map pa_row new = rows \<and> cov' = cov\<lparr>parent_unresolved := parent_unresolved cov + none_of pa_comm new\<rparr>"
proof (induction rows arbitrary: out cov)
  case (Cons row rows)
  from Cons.prems obtain s1 where e: "enrich_parent h rt all row (out, cov) = Inr s1"
    and r: "rfold (enrich_parent h rt all) rows s1 = Inr (out', cov')" by (auto simp: rbind_Inr)
  from e obtain p where p: "pa_row p = row" "s1 = (out @ [p], if pa_comm p = None then cov\<lparr>parent_unresolved := parent_unresolved cov + 1\<rparr> else cov)"
    by (auto simp: enrich_parent_def rmap_Inr)
  from Cons.IH [OF r [unfolded p(2)]] obtain new where new: "out' = (out @ [p]) @ new" "map pa_row new = rows"
    "cov' = (if pa_comm p = None then cov\<lparr>parent_unresolved := parent_unresolved cov + 1\<rparr> else cov)
      \<lparr>parent_unresolved := parent_unresolved (if pa_comm p = None then cov\<lparr>parent_unresolved := parent_unresolved cov + 1\<rparr> else cov) + none_of pa_comm new\<rparr>"
    by blast
  then show ?case using p(1) by (intro exI [of _ "p # new"]) auto
qed simp

text \<open>
  The coverage counts of a census account for every process directory that the walk saw: each is a
  row or is counted under exactly one reason for leaving it out, and the owners, executables and parents
  that could not be resolved are exactly the empty ones of the rows.
\<close>

theorem census_coverage_accounts:
  assumes "scan_processes h later rt names = Inr (out, cov, names')"
  shows "pids_seen cov = length out + stat_unreadable cov + stat_unparseable cov + kernel_thread cov + vanished cov \<and>
    pids_seen cov = (case h_list h (proc_root rt) of None \<Rightarrow> 0 | Some entries \<Rightarrow> length (filter isdigit entries)) \<and>
    owner_unresolved cov = none_of (sr_username \<circ> pa_row) out \<and> exe_unreadable cov = none_of (sr_exe \<circ> pa_row) out \<and>
    parent_unresolved cov = none_of pa_comm out"
proof (cases "h_list h (proc_root rt)")
  case None
  with assms show ?thesis by (auto simp: scan_processes_def no_coverage_def)
next
  case (Some entries)
  with assms obtain rows cov1 where
    w: "rfold (scan_entry h rt (h_page_size h div 1024)) entries ([], names, no_coverage) = Inr (rows, names', cov1)"
    and e: "enrich_parents later rt rows cov1 = Inr (out, cov)"
    by (auto simp: scan_processes_def rbind_Inr rmap_Inr)
  have "scan_inv [] no_coverage" by (simp add: scan_inv_def no_coverage_def lost_def)
  from scan_fold_inv [OF w this] have inv: "scan_inv rows cov1" "pids_seen cov1 = length (filter isdigit entries)"
    by (simp_all add: no_coverage_def)
  from enrich_fold [OF e [unfolded enrich_parents_def]] have out: "map pa_row out = rows"
    "cov = cov1\<lparr>parent_unresolved := parent_unresolved cov1 + none_of pa_comm out\<rparr>" by auto
  have f: "length (filter (\<lambda>x. f (pa_row x) = None) out) = none_of f rows" for f :: "scan_row \<Rightarrow> string option"
    using out(1) by (auto simp: filter_map comp_def)
  show ?thesis using inv out(2) arg_cong [OF out(1), of length] Some by (simp add: f scan_inv_def lost_def)
qed

text \<open>Three directories: a process, a kernel thread and one that vanished; one name that is no pid.\<close>

definition census_host :: host where
  "census_host = \<lparr>h_read = (\<lambda>p.
       if p = ''/proc/7/stat'' then Contents (stat_text 7 ''sh'' ([''S'', ''1''] @ replicate 20 ''3''))
       else if p = ''/proc/7/cmdline'' then Contents (''/bin/sh'' @ [NUL] @ ''-c'')
       else if p = ''/proc/7/status'' then Contents (''Uid:  1000 1000'' @ [NL] @ ''Threads: 1'')
       else if p = ''/proc/8/stat'' then Contents (stat_text 8 ''kworker'' (replicate 22 ''0''))
       else ReadError ENOENT),
     h_link = (\<lambda>_. None), h_list = (\<lambda>_. Some [''7'', ''self'', ''8'', ''9'']), h_isdir = (\<lambda>_. False), h_user = (\<lambda>_. Some ''u''),
     h_clk_tck = 100, h_page_size = 4096\<rparr>"

definition census_roots :: roots where
  "census_roots = \<lparr>proc_root = ''/proc'', sys_root = ''/sys'', os_release = ''/etc/os-release''\<rparr>"

theorem census_coverage_accounts_witness:
  "\<exists>out cov names. scan_processes census_host census_host census_roots [] = Inr (out, cov, names) \<and> length out = 1 \<and>
     pids_seen cov = 3 \<and> kernel_thread cov = 1 \<and> pids_seen cov = length out + stat_unreadable cov + stat_unparseable cov + kernel_thread cov + vanished cov"
proof -
  have v: "rmap (\<lambda>(out, cov, names). (length out, pids_seen cov, kernel_thread cov)) (scan_processes census_host census_host census_roots []) = Inr (1, 3, 1)"
    by code_simp
  then obtain out cov names where r: "scan_processes census_host census_host census_roots [] = Inr (out, cov, names)"
    by (auto simp: rmap_Inr)
  from census_coverage_accounts [OF r] v r show ?thesis by (simp add: rmap_Inr)
qed

end
