(* ===== verification/Probe_Tracker.thy ===== *)
theory Probe_Tracker
  imports Probe_Census
begin

text \<open>
  What the tracker of the census reports, told from the history of one process: the censuses that saw
  the process without a gap, newest first.  The table the code keeps is shown to implement it.
\<close>

type_synonym census_in = "scan_row list \<times> rat \<times> rat option"

record obs =
  ob_time :: rat
  ob_interval :: "rat option"
  ob_ticks :: int

definition obs_of :: "proc_key \<Rightarrow> census_in \<Rightarrow> obs option" where
  "obs_of k c = (case c of (rows, now, interval) \<Rightarrow>
     map_option (\<lambda>r. \<lparr>ob_time = now, ob_interval = interval, ob_ticks = ticks_of r\<rparr>) (find (\<lambda>r. proc_key_of r = k) rows))"

text \<open>The observations of a process in the latest censuses without a gap.\<close>

fun run_of :: "proc_key \<Rightarrow> census_in list \<Rightarrow> obs list" where
  "run_of k [] = []"
| "run_of k (c # cs) = (case obs_of k c of None \<Rightarrow> [] | Some ob \<Rightarrow> ob # run_of k cs)"

definition cpu_between :: "int \<Rightarrow> obs \<Rightarrow> obs \<Rightarrow> rat" where
  "cpu_between clk new old = of_int (ob_ticks new - ob_ticks old) / of_int clk"

definition active_between :: "rat \<Rightarrow> int \<Rightarrow> obs \<Rightarrow> obs \<Rightarrow> bool" where
  "active_between per_min clk new old \<longleftrightarrow> cpu_between clk new old \<ge> active_threshold per_min (ob_interval new)"

text \<open>The time of the latest census at which the process had been active since the one before.\<close>

fun last_active :: "rat \<Rightarrow> int \<Rightarrow> obs list \<Rightarrow> rat option" where
  "last_active per_min clk (new # old # os) =
     (if active_between per_min clk new old then Some (ob_time new) else last_active per_min clk (old # os))"
| "last_active per_min clk _ = None"

definition report_spec :: "rat \<Rightarrow> int \<Rightarrow> obs list \<Rightarrow> bool \<Rightarrow> cpu_report" where
  "report_spec per_min clk obs from_start =
     (case obs of
        new # old # _ \<Rightarrow>
          \<lparr>cr_cpu_seconds = Some (cpu_between clk new old),
           cr_cpu_state = Some (if active_between per_min clk new old then ''active'' else ''idle''),
           cr_idle_for_sec = Some (ob_time new - (case last_active per_min clk obs of None \<Rightarrow> ob_time (last obs) | Some t \<Rightarrow> t)),
           cr_idle_for_is_lower_bound = (last_active per_min clk obs = None \<and> from_start)\<rparr>
      | _ \<Rightarrow> \<lparr>cr_cpu_seconds = None, cr_cpu_state = None, cr_idle_for_sec = None, cr_idle_for_is_lower_bound = False\<rparr>)"

subsection \<open>The table\<close>

fun tracker_run :: "tracker \<Rightarrow> census_in list \<Rightarrow> tracker" where
  "tracker_run tk [] = tk"
| "tracker_run tk (c # cs) = (case c of (rows, now, interval) \<Rightarrow> tracker_run (snd (tracker_update tk rows now interval)) cs)"

definition state_spec :: "rat \<Rightarrow> int \<Rightarrow> census_in list \<Rightarrow> proc_key \<Rightarrow> proc_state option" where
  "state_spec per_min clk hist k =
     (case run_of k hist of [] \<Rightarrow> None
      | ob # obs \<Rightarrow> Some \<lparr>ps_ticks = ob_ticks ob, ps_first_seen = ob_time (last (ob # obs)),
          ps_last_active = last_active per_min clk (ob # obs), ps_existed_at_start = (length (ob # obs) = length hist)\<rparr>)"

definition tracks :: "rat \<Rightarrow> int \<Rightarrow> census_in list \<Rightarrow> tracker \<Rightarrow> bool" where
  "tracks per_min clk hist tk \<longleftrightarrow> tk_active_per_min tk = per_min \<and> tk_clk_tck tk = clk \<and> tk_updates tk = length hist \<and>
     (\<forall>k. dget (tk_state tk) k = state_spec per_min clk hist k)"

definition distinct_keys :: "census_in \<Rightarrow> bool" where
  "distinct_keys c \<longleftrightarrow> distinct (map proc_key_of (fst c))"

lemma track_rows_distinct:
  assumes "distinct (map proc_key_of rows)" "track_rows tk fu now interval rows old seen = (reps, seen')"
  shows "reps = map (\<lambda>r. fst (track_row tk fu now interval r (dget old (proc_key_of r)))) rows \<and>
    dget seen' k = (case find (\<lambda>r. proc_key_of r = k) rows of None \<Rightarrow> dget seen k
      | Some r \<Rightarrow> Some (snd (track_row tk fu now interval r (dget old k))))"
  using assms
proof (induction rows arbitrary: old seen reps)
  case (Cons r rows)
  let ?k = "proc_key_of r"
  obtain rp st where t: "track_row tk fu now interval r (dget old ?k) = (rp, st)" by fastforce
  define old1 where "old1 = (if dget old ?k = None then old else dset old ?k st)"
  obtain reps1 where f: "track_rows tk fu now interval rows old1 (dset seen ?k st) = (reps1, seen')" "reps = rp # reps1"
    using Cons.prems(2) t by (auto simp: Let_def old1_def split: prod.splits)
  have d: "distinct (map proc_key_of rows)" "?k \<notin> proc_key_of ` set rows" using Cons.prems(1) by auto
  have other: "dget old1 k' = dget old k'" if "k' \<noteq> ?k" for k' using that by (simp add: old1_def)
  from Cons.IH [OF d(1) f(1)] have IH: "reps1 = map (\<lambda>r. fst (track_row tk fu now interval r (dget old1 (proc_key_of r)))) rows"
    "dget seen' k = (case find (\<lambda>r. proc_key_of r = k) rows of None \<Rightarrow> dget (dset seen ?k st) k
      | Some r \<Rightarrow> Some (snd (track_row tk fu now interval r (dget old1 k))))" by blast+
  have m: "map (\<lambda>r. fst (track_row tk fu now interval r (dget old1 (proc_key_of r)))) rows =
      map (\<lambda>r. fst (track_row tk fu now interval r (dget old (proc_key_of r)))) rows"
  proof (rule map_cong)
    fix x assume "x \<in> set rows"
    then have "proc_key_of x \<noteq> proc_key_of r" using d(2) by (metis imageI)
    then have "dget old1 (proc_key_of x) = dget old (proc_key_of x)" by (rule other)
    then show "fst (track_row tk fu now interval x (dget old1 (proc_key_of x))) = fst (track_row tk fu now interval x (dget old (proc_key_of x)))" by simp
  qed simp
  have nf: "find (\<lambda>r. proc_key_of r = ?k) rows = None" using d(2) unfolding find_None_iff by (metis imageI)
  show ?case
  proof (cases "k = ?k")
    case True
    with IH m nf t f(2) show ?thesis by simp
  next
    case False
    with IH m t f(2) other [OF False] show ?thesis by (auto split: option.splits)
  qed
qed simp

lemma state_spec_step:
  assumes "tk_active_per_min tk = per_min" "tk_clk_tck tk = clk"
  shows "state_spec per_min clk ((rows, now, interval) # hist) k =
     (case find (\<lambda>r. proc_key_of r = k) rows of None \<Rightarrow> None
      | Some r \<Rightarrow> Some (snd (track_row tk
          (length hist = 0) now interval r (state_spec per_min clk hist k))))"
proof (cases "find (\<lambda>r. proc_key_of r = k) rows")
  case None
  then show ?thesis by (simp add: state_spec_def obs_of_def)
next
  case (Some r)
  show ?thesis
  proof (cases "run_of k hist")
    case Nil
    with Some assms show ?thesis by (auto simp: state_spec_def obs_of_def track_row_def)
  next
    case (Cons ob obs)
    with Some assms show ?thesis
      by (auto simp: state_spec_def obs_of_def track_row_def Let_def active_between_def cpu_between_def)
  qed
qed

lemma report_spec_step:
  assumes "tk_active_per_min tk = per_min" "tk_clk_tck tk = clk" "find (\<lambda>x. proc_key_of x = k) rows = Some r"
  shows "fst (track_row tk
      (length hist = 0) now interval r (state_spec per_min clk hist k)) =
    report_spec per_min clk (run_of k ((rows, now, interval) # hist)) (length (run_of k ((rows, now, interval) # hist)) = Suc (length hist))"
proof (cases "run_of k hist")
  case Nil
  with assms show ?thesis by (simp add: state_spec_def obs_of_def track_row_def report_spec_def)
next
  case (Cons ob obs)
  with assms show ?thesis
    by (auto simp: state_spec_def obs_of_def track_row_def report_spec_def Let_def active_between_def cpu_between_def split: option.splits)
qed

lemma tracks_update:
  assumes "tracks per_min clk hist tk" "distinct (map proc_key_of rows)" "tracker_update tk rows now interval = (reps, tk')"
  shows "tracks per_min clk ((rows, now, interval) # hist) tk'"
    and "reps = map (\<lambda>r. report_spec per_min clk (run_of (proc_key_of r) ((rows, now, interval) # hist))
      (length (run_of (proc_key_of r) ((rows, now, interval) # hist)) = Suc (length hist))) rows"
proof -
  obtain seen where f: "track_rows tk (tk_updates tk = 0) now interval rows (tk_state tk) [] = (reps, seen)"
    and tk': "tk' = tk\<lparr>tk_state := seen, tk_updates := tk_updates tk + 1\<rparr>"
    using assms(3) by (auto simp: tracker_update_def split: prod.splits)
  have tk: "tk_active_per_min tk = per_min" "tk_clk_tck tk = clk" "tk_updates tk = length hist"
    using assms(1) unfolding tracks_def by blast+
  have st: "dget (tk_state tk) k = state_spec per_min clk hist k" for k using assms(1) unfolding tracks_def by blast
  note t = track_rows_distinct [OF assms(2) f]
  have "dget seen k = state_spec per_min clk ((rows, now, interval) # hist) k" for k
    using conjunct2 [OF t, of k] state_spec_step [OF tk(1,2), of rows now interval hist k] st [of k] tk(3)
    by (auto split: option.splits)
  then show "tracks per_min clk ((rows, now, interval) # hist) tk'" using assms(1) by (simp add: tracks_def tk')
  have found: "find (\<lambda>x. proc_key_of x = proc_key_of r) rows = Some r" if "r \<in> set rows" for r
    using that assms(2) by (induction rows) auto
  have "fst (track_row tk (tk_updates tk = 0) now interval r (dget (tk_state tk) (proc_key_of r))) =
      report_spec per_min clk (run_of (proc_key_of r) ((rows, now, interval) # hist))
        (length (run_of (proc_key_of r) ((rows, now, interval) # hist)) = Suc (length hist))" if "r \<in> set rows" for r
    using report_spec_step [OF tk(1,2) found [OF that], of hist now interval] st [of "proc_key_of r"] tk(3) by simp
  then show "reps = map (\<lambda>r. report_spec per_min clk (run_of (proc_key_of r) ((rows, now, interval) # hist))
      (length (run_of (proc_key_of r) ((rows, now, interval) # hist)) = Suc (length hist))) rows"
    using conjunct1 [OF t] by (simp cong: map_cong)
qed

lemma tracks_run:
  "tracks per_min clk hist tk \<Longrightarrow> list_all distinct_keys cs \<Longrightarrow> tracks per_min clk (rev cs @ hist) (tracker_run tk cs)"
proof (induction cs arbitrary: hist tk)
  case (Cons c cs)
  obtain rows now interval where c: "c = (rows, now, interval)" by (cases c)
  obtain reps tk' where u: "tracker_update tk rows now interval = (reps, tk')" by fastforce
  have "distinct (map proc_key_of rows)" using Cons.prems(2) c by (simp add: distinct_keys_def)
  from Cons.IH [OF tracks_update(1) [OF Cons.prems(1) this u]] Cons.prems(2) show ?case by (simp add: c u)
qed simp

text \<open>
  C19.  The CPU time and the idle time that the census reports for a process depend only on the history
  of that process, identified by pid and start time: the difference to the last census, the time since
  it was last active or first seen, and a lower bound only if it was there at the first census.  A
  recycled pid, a gap or another process never enters them.
\<close>

theorem tracker_reports_history:
  assumes "list_all distinct_keys hist" "distinct (map proc_key_of rows)"
  shows "fst (tracker_update (tracker_run (new_tracker per_min clk) hist) rows now interval) =
    map (\<lambda>r. let obs = run_of (proc_key_of r) ((rows, now, interval) # rev hist)
             in report_spec per_min clk obs (length obs = Suc (length hist))) rows"
proof -
  have "tracks per_min clk [] (new_tracker per_min clk)" by (simp add: tracks_def new_tracker_def state_spec_def)
  from tracks_run [OF this assms(1)] have t: "tracks per_min clk (rev hist) (tracker_run (new_tracker per_min clk) hist)" by simp
  obtain reps tk' where u: "tracker_update (tracker_run (new_tracker per_min clk) hist) rows now interval = (reps, tk')" by fastforce
  from tracks_update(2) [OF t assms(2) u] u show ?thesis by (simp add: Let_def)
qed

text \<open>A process that works, then idles for two censuses, while another one takes over its pid slot.\<close>

definition ex_row :: "int \<Rightarrow> int \<Rightarrow> int \<Rightarrow> scan_row" where
  "ex_row pid start ticks = \<lparr>sr_pid = pid, sr_ppid = 1, sr_start_time = start, sr_uid = 0, sr_username = None, sr_comm = [], sr_exe = None,
     sr_argv0 = [], sr_cmdline = ''x'', sr_state = ''S'', sr_threads = None, sr_rss_kb = 0, sr_utime = ticks, sr_stime = 0, sr_tty_nr = 0,
     sr_interactive = False, sr_session_leader = False\<rparr>"

definition ex_hist :: "census_in list" where
  "ex_hist = [([ex_row 5 1 0, ex_row 6 1 9], 0, None), ([ex_row 5 1 100, ex_row 6 2 0], 60, Some 60), ([ex_row 5 1 100], 120, Some 60)]"

theorem tracker_reports_history_witness:
  "fst (tracker_update (tracker_run (new_tracker (1 / 10) 100) ex_hist) [ex_row 5 1 100, ex_row 6 2 7] 180 (Some 60)) =
     [\<lparr>cr_cpu_seconds = Some 0, cr_cpu_state = Some ''idle'', cr_idle_for_sec = Some 120, cr_idle_for_is_lower_bound = False\<rparr>,
      \<lparr>cr_cpu_seconds = None, cr_cpu_state = None, cr_idle_for_sec = None, cr_idle_for_is_lower_bound = False\<rparr>]"
proof -
  have h: "list_all distinct_keys ex_hist" "distinct (map proc_key_of [ex_row 5 1 100, ex_row 6 2 7])" by code_simp+
  have v: "map (\<lambda>r. let obs = run_of (proc_key_of r) (([ex_row 5 1 100, ex_row 6 2 7], 180, Some 60) # rev ex_hist)
       in report_spec (1 / 10) 100 obs (length obs = Suc (length ex_hist))) [ex_row 5 1 100, ex_row 6 2 7] =
     [\<lparr>cr_cpu_seconds = Some 0, cr_cpu_state = Some ''idle'', cr_idle_for_sec = Some 120, cr_idle_for_is_lower_bound = False\<rparr>,
      \<lparr>cr_cpu_seconds = None, cr_cpu_state = None, cr_idle_for_sec = None, cr_idle_for_is_lower_bound = False\<rparr>]" by code_simp
  show ?thesis unfolding tracker_reports_history [OF h] v ..
qed

end
