(* ===== verification/Process_Rows.thy ===== *)
theory Process_Rows
  imports Schema
begin

text \<open>
  Census rows: as the probe sends them (\<open>raw_proc\<close>) and as \<open>enrich_census\<close> returns them
  (\<open>live_proc\<close>).  A field that the pipeline only copies keeps its Python value; a field it computes
  with has the type the probe sends.
\<close>

record raw_proc =
  rp_pid :: pyval
  rp_start_time :: pyval
  rp_uid :: int
  rp_username :: "string option"
  rp_comm :: string
  rp_exe :: pyval
  rp_argv0 :: "string option"
  rp_cmdline :: "string option"
  rp_ppid :: pyval
  rp_parent_comm :: pyval
  rp_parent_exe :: pyval
  rp_parent_kind :: pyval
  rp_state :: string
  rp_threads :: int
  rp_rss_kb :: int
  rp_cpu_seconds :: "rat option"
  rp_cpu_state :: "string option"
  rp_gpu_mem_mb :: "rat option"
  rp_interactive :: bool
  rp_under_screen_or_tmux :: pyval
  rp_idle_for_sec :: "rat option"
  rp_idle_for_is_lower_bound :: pyval

record live_proc =
  lp_raw :: raw_proc
  lp_username :: string
  lp_argv0 :: "string option"
  lp_cmdline :: string
  lp_category :: string
  lp_activity :: "string option"
  lp_cpu_state :: string
  lp_gpu_mem_mb :: "rat option"
  lp_idle_bucket :: string
  lp_owner_presence :: string
  lp_is_user_process :: bool

text \<open>The dictionary \<open>{k: new[k] for k in LIVE_PROCESS_COLUMNS}\<close>.\<close>

definition live_row :: "live_proc \<Rightarrow> row" where
  "live_row p = (let r = lp_raw p in
     [(''pid'', rp_pid r), (''start_time'', rp_start_time r), (''uid'', VInt (rp_uid r)),
      (''username'', VStr (lp_username p)), (''comm'', VStr (rp_comm r)), (''exe'', rp_exe r),
      (''argv0'', of_opt VStr (lp_argv0 p)), (''cmdline'', VStr (lp_cmdline p)), (''ppid'', rp_ppid r),
      (''parent_comm'', rp_parent_comm r), (''parent_exe'', rp_parent_exe r), (''parent_kind'', rp_parent_kind r),
      (''category'', VStr (lp_category p)), (''activity'', of_opt VStr (lp_activity p)), (''state'', VStr (rp_state r)),
      (''threads'', VInt (rp_threads r)), (''rss_kb'', VInt (rp_rss_kb r)),
      (''cpu_seconds'', of_opt vnum (rp_cpu_seconds r)), (''cpu_state'', VStr (lp_cpu_state p)),
      (''gpu_mem_mb'', of_opt vnum (lp_gpu_mem_mb p)), (''interactive'', VBool (rp_interactive r)),
      (''under_screen_or_tmux'', rp_under_screen_or_tmux r), (''idle_for_sec'', of_opt vnum (rp_idle_for_sec r)),
      (''idle_for_is_lower_bound'', rp_idle_for_is_lower_bound r), (''idle_bucket'', VStr (lp_idle_bucket p)),
      (''owner_presence'', VStr (lp_owner_presence p)), (''is_user_process'', VBool (lp_is_user_process p))])"

lemma live_row_columns: "dkeys (live_row p) = LIVE_PROCESS_COLUMNS"
  by (simp add: live_row_def LIVE_PROCESS_COLUMNS_def Let_def)

end
