(* ===== verification/Probe_Message.thy ===== *)
theory Probe_Message
  imports Probe_Hardware Probe_Tracker Process_Rows
begin

text \<open>
  The census message of the probe (\<open>probe/probe.py\<close>, \<open>_Census\<close>): the walk, the GPU poll and the tracker
  composed, and the view that the collector takes of the rows.  When the walk raises, the model keeps
  the cache of user names as it was before it.
\<close>

record census_state =
  cs_names :: uid_names
  cs_tracker :: tracker
  cs_last_start :: "rat option"
  cs_gpu :: gpu_state

definition new_census :: "rat \<Rightarrow> int \<Rightarrow> bool \<Rightarrow> rat \<Rightarrow> census_state" where
  "new_census active_per_min clk gpu suspend =
     \<lparr>cs_names = [], cs_tracker = new_tracker active_per_min clk, cs_last_start = None, cs_gpu = new_gpu_state gpu suspend\<rparr>"

definition status_name :: "gpu_status \<Rightarrow> string" where
  "status_name st = (case st of GpuAbsent \<Rightarrow> ''absent'' | GpuSuspended \<Rightarrow> ''suspended'' | GpuOk \<Rightarrow> ''ok'' | GpuError \<Rightarrow> ''error'')"

definition coverage_dict :: "coverage \<Rightarrow> pyval" where
  "coverage_dict c = int_dict [(''pids_seen'', int (pids_seen c)), (''stat_unreadable'', int (stat_unreadable c)),
     (''stat_unparseable'', int (stat_unparseable c)), (''kernel_thread'', int (kernel_thread c)), (''vanished'', int (vanished c)),
     (''owner_unresolved'', int (owner_unresolved c)), (''exe_unreadable'', int (exe_unreadable c)),
     (''parent_unresolved'', int (parent_unresolved c))]"

definition gpu_dict :: "gpu \<Rightarrow> pyval" where
  "gpu_dict g = int_dict [(''index'', gpu_index g), (''util_pct'', gpu_util_pct g), (''mem_used_mb'', gpu_mem_used_mb g), (''mem_total_mb'', gpu_mem_total_mb g)]"

text \<open>
  One process as it is sent.  \<open>idle_for_sec\<close> of an active process is the integer 0; the ticks have been
  popped by the tracker.
\<close>

definition process_row :: "parented \<Rightarrow> cpu_report \<Rightarrow> int option \<Rightarrow> row" where
  "process_row p c mem =
     (let r = pa_row p in
      [(''pid'', VInt (sr_pid r)), (''ppid'', VInt (sr_ppid r)), (''start_time'', VInt (sr_start_time r)), (''uid'', VInt (sr_uid r)),
       (''username'', of_opt VStr (sr_username r)), (''comm'', VStr (sr_comm r)), (''exe'', of_opt VStr (sr_exe r)), (''argv0'', VStr (sr_argv0 r)),
       (''cmdline'', VStr (sr_cmdline r)), (''state'', VStr (sr_state r)), (''threads'', of_opt VInt (sr_threads r)), (''rss_kb'', VInt (sr_rss_kb r)),
       (''tty_nr'', VInt (sr_tty_nr r)), (''interactive'', VBool (sr_interactive r)), (''session_leader'', VBool (sr_session_leader r)),
       (''parent_comm'', of_opt VStr (pa_comm p)), (''parent_exe'', of_opt VStr (pa_exe p)),
       (''under_screen_or_tmux'', VBool (pa_under_screen_or_tmux p)), (''parent_kind'', VStr (pa_kind p)),
       (''cpu_seconds'', of_opt vnum (cr_cpu_seconds c)), (''cpu_state'', of_opt VStr (cr_cpu_state c)),
       (''idle_for_sec'', if cr_cpu_state c = Some ''active'' then VInt 0 else of_opt vnum (cr_idle_for_sec c)),
       (''idle_for_is_lower_bound'', VBool (cr_idle_for_is_lower_bound c)), (''gpu_mem_mb'', of_opt VInt mem)])"

definition take_census :: "host \<Rightarrow> host \<Rightarrow> roots \<Rightarrow> rat \<Rightarrow> rat \<Rightarrow> gpu_env \<Rightarrow> census_state \<Rightarrow> row res \<times> string list \<times> census_state" where
  "take_census h later rt start finish genv cs =
     (case scan_processes h later rt (cs_names cs) of
        Inl e \<Rightarrow> (Inl e, [], cs)
      | Inr (rows, cov, names) \<Rightarrow>
          (case poll_gpus genv (cs_gpu cs) of ((gpus, gpu_mem, st), errs, gs) \<Rightarrow>
             let interval = map_option (\<lambda>t. round_digits 3 (start - t)) (cs_last_start cs) in
             (case tracker_update (cs_tracker cs) (map pa_row rows) start interval of (reps, tk) \<Rightarrow>
                (Inr [(''interval_sec'', of_opt vnum interval), (''scan_seconds'', vnum (round_digits 3 (finish - start))),
                   (''coverage'', coverage_dict cov), (''gpus'', VList (map gpu_dict gpus)), (''gpu_status'', VStr (status_name st)),
                   (''processes'', VList (map (\<lambda>(p, c). VDict (process_row p c (dget gpu_mem (sr_pid (pa_row p))))) (zip rows reps)))],
                 errs, \<lparr>cs_names = names, cs_tracker = tk, cs_last_start = Some start, cs_gpu = gs\<rparr>))))"

subsection \<open>The census as the collector reads it\<close>

definition str_field :: "row \<Rightarrow> string \<Rightarrow> string option option" where
  "str_field d k = (case rget d k of VNone \<Rightarrow> Some None | VStr s \<Rightarrow> Some (Some s) | _ \<Rightarrow> None)"

definition raw_of_row :: "row \<Rightarrow> raw_proc option" where
  "raw_of_row d =
     (case (to_int (rget d ''uid''), str_field d ''username'', rget d ''comm'', str_field d ''argv0'', str_field d ''cmdline'', rget d ''state'') of
        (Some uid, Some user, VStr comm, Some argv0, Some cmdline, VStr st) \<Rightarrow>
          (case (to_int (rget d ''threads''), to_int (rget d ''rss_kb''), num_field d ''cpu_seconds'', str_field d ''cpu_state'',
             num_field d ''gpu_mem_mb'', rget d ''interactive'', num_field d ''idle_for_sec'') of
             (Some th, Some rss, Some cpu, Some cst, Some mem, VBool itv, Some idle) \<Rightarrow>
               Some \<lparr>rp_pid = rget d ''pid'', rp_start_time = rget d ''start_time'', rp_uid = uid, rp_username = user, rp_comm = comm,
                 rp_exe = rget d ''exe'', rp_argv0 = argv0, rp_cmdline = cmdline, rp_ppid = rget d ''ppid'', rp_parent_comm = rget d ''parent_comm'',
                 rp_parent_exe = rget d ''parent_exe'', rp_parent_kind = rget d ''parent_kind'', rp_state = st, rp_threads = th, rp_rss_kb = rss,
                 rp_cpu_seconds = cpu, rp_cpu_state = cst, rp_gpu_mem_mb = mem, rp_interactive = itv,
                 rp_under_screen_or_tmux = rget d ''under_screen_or_tmux'', rp_idle_for_sec = idle,
                 rp_idle_for_is_lower_bound = rget d ''idle_for_is_lower_bound''\<rparr>
           | _ \<Rightarrow> None)
      | _ \<Rightarrow> None)"

definition to_proc :: "pyval \<Rightarrow> raw_proc option" where
  "to_proc v = (case v of VDict d \<Rightarrow> raw_of_row d | _ \<Rightarrow> None)"

definition census_of_row :: "row \<Rightarrow> (census_msg \<times> raw_proc list) option" where
  "census_of_row d =
     (case (rget d ''gpus'', num_field d ''scan_seconds'', str_field d ''gpu_status'', rget d ''processes'') of
        (VList gpus, Some scan, Some st, VList ps) \<Rightarrow>
          map_option (Pair \<lparr>cn_gpus = gpus, cn_scan_seconds = scan, cn_gpu_status = st\<rparr>) (seq_opt (map to_proc ps))
      | _ \<Rightarrow> None)"

text \<open>The row that the collector sees of one process, when it has a thread count.\<close>

definition seen_proc :: "parented \<Rightarrow> cpu_report \<Rightarrow> int option \<Rightarrow> int \<Rightarrow> raw_proc" where
  "seen_proc p c mem th =
     (let r = pa_row p in
      \<lparr>rp_pid = VInt (sr_pid r), rp_start_time = VInt (sr_start_time r), rp_uid = sr_uid r, rp_username = sr_username r, rp_comm = sr_comm r,
       rp_exe = of_opt VStr (sr_exe r), rp_argv0 = Some (sr_argv0 r), rp_cmdline = Some (sr_cmdline r), rp_ppid = VInt (sr_ppid r),
       rp_parent_comm = of_opt VStr (pa_comm p), rp_parent_exe = of_opt VStr (pa_exe p), rp_parent_kind = VStr (pa_kind p),
       rp_state = sr_state r, rp_threads = th, rp_rss_kb = sr_rss_kb r, rp_cpu_seconds = cr_cpu_seconds c, rp_cpu_state = cr_cpu_state c,
       rp_gpu_mem_mb = map_option of_int mem, rp_interactive = sr_interactive r, rp_under_screen_or_tmux = VBool (pa_under_screen_or_tmux p),
       rp_idle_for_sec = (if cr_cpu_state c = Some ''active'' then Some 0 else cr_idle_for_sec c),
       rp_idle_for_is_lower_bound = VBool (cr_idle_for_is_lower_bound c)\<rparr>)"

lemma str_field_opt: "rget d k = of_opt VStr s \<Longrightarrow> str_field d k = Some s"
  by (cases s) (simp_all add: str_field_def)

lemma num_field_opt: "rget d k = of_opt vnum q \<Longrightarrow> num_field d k = Some q"
  by (cases q) (simp_all add: num_field_def)

lemma num_field_int: "rget d k = of_opt VInt n \<Longrightarrow> num_field d k = Some (map_option of_int n)"
  by (cases n) (simp_all add: num_field_def)

lemma to_proc_row:
  "to_proc (VDict (process_row p c mem)) = map_option (seen_proc p c mem) (sr_threads (pa_row p))"
proof -
  let ?d = "process_row p c mem"
  have g: "rget ?d ''username'' = of_opt VStr (sr_username (pa_row p))" "rget ?d ''argv0'' = of_opt VStr (Some (sr_argv0 (pa_row p)))"
    "rget ?d ''cmdline'' = of_opt VStr (Some (sr_cmdline (pa_row p)))" "rget ?d ''cpu_seconds'' = of_opt vnum (cr_cpu_seconds c)"
    "rget ?d ''cpu_state'' = of_opt VStr (cr_cpu_state c)" "rget ?d ''gpu_mem_mb'' = of_opt VInt mem"
    by (simp_all add: process_row_def Let_def rget_def dget_or_def)
  have idle: "num_field ?d ''idle_for_sec'' = Some (if cr_cpu_state c = Some ''active'' then Some 0 else cr_idle_for_sec c)"
    by (cases "cr_idle_for_sec c") (simp_all add: num_field_def process_row_def Let_def rget_def dget_or_def)
  have o: "rget ?d ''uid'' = VInt (sr_uid (pa_row p))" "rget ?d ''comm'' = VStr (sr_comm (pa_row p))" "rget ?d ''state'' = VStr (sr_state (pa_row p))"
    "rget ?d ''threads'' = of_opt VInt (sr_threads (pa_row p))" "rget ?d ''rss_kb'' = VInt (sr_rss_kb (pa_row p))"
    "rget ?d ''interactive'' = VBool (sr_interactive (pa_row p))"
    "rget ?d ''pid'' = VInt (sr_pid (pa_row p))" "rget ?d ''start_time'' = VInt (sr_start_time (pa_row p))" "rget ?d ''exe'' = of_opt VStr (sr_exe (pa_row p))"
    "rget ?d ''ppid'' = VInt (sr_ppid (pa_row p))" "rget ?d ''parent_comm'' = of_opt VStr (pa_comm p)" "rget ?d ''parent_exe'' = of_opt VStr (pa_exe p)"
    "rget ?d ''parent_kind'' = VStr (pa_kind p)" "rget ?d ''under_screen_or_tmux'' = VBool (pa_under_screen_or_tmux p)"
    "rget ?d ''idle_for_is_lower_bound'' = VBool (cr_idle_for_is_lower_bound c)"
    by (simp_all add: process_row_def Let_def rget_def dget_or_def)
  show ?thesis
    by (cases "sr_threads (pa_row p)")
      (simp_all add: to_proc_def raw_of_row_def seen_proc_def Let_def o idle str_field_opt [OF g(1)] str_field_opt [OF g(2)] str_field_opt [OF g(3)]
        num_field_opt [OF g(4)] str_field_opt [OF g(5)] num_field_int [OF g(6)] to_int_def [of VNone])
qed

lemma seq_opt_None: "None \<in> set xs \<longleftrightarrow> seq_opt xs = None"
proof (induction xs)
  case (Cons x xs)
  then show ?case by (cases x) auto
qed simp

lemma take_census_message:
  assumes "take_census h later rt start finish genv cs = (Inr msg, errs, cs')"
  obtains rows cov names gpus gpu_mem st reps where "scan_processes h later rt (cs_names cs) = Inr (rows, cov, names)"
    "length reps = length rows" "rget msg ''gpus'' = VList gpus" "num_field msg ''scan_seconds'' = Some (Some (round_digits 3 (finish - start)))"
    "rget msg ''gpu_status'' = VStr (status_name st)"
    "rget msg ''processes'' = VList (map (\<lambda>(p, c). VDict (process_row p c (dget gpu_mem (sr_pid (pa_row p))))) (zip rows reps))"
proof -
  have len: "length (fst (track_rows tk f n i rs old seen)) = length rs" for tk f n i rs old seen
    by (induction rs arbitrary: old seen) (simp_all add: Let_def split: prod.splits, metis fst_conv)
  from assms obtain rows cov names where s: "scan_processes h later rt (cs_names cs) = Inr (rows, cov, names)"
    by (auto simp: take_census_def split: sum.splits)
  obtain gpus gpu_mem st es gs where p: "poll_gpus genv (cs_gpu cs) = ((gpus, gpu_mem, st), es, gs)" by (metis prod.exhaust)
  define interval where "interval = map_option (\<lambda>t. round_digits 3 (start - t)) (cs_last_start cs)"
  obtain reps tk where t: "tracker_update (cs_tracker cs) (map pa_row rows) start interval = (reps, tk)" by fastforce
  have "length reps = length rows"
    using t len [of "cs_tracker cs" _ start interval "map pa_row rows"] by (auto simp: tracker_update_def split: prod.splits) (metis fst_conv)
  moreover have "msg = [(''interval_sec'', of_opt vnum interval), (''scan_seconds'', vnum (round_digits 3 (finish - start))),
      (''coverage'', coverage_dict cov), (''gpus'', VList (map gpu_dict gpus)), (''gpu_status'', VStr (status_name st)),
      (''processes'', VList (map (\<lambda>(p, c). VDict (process_row p c (dget gpu_mem (sr_pid (pa_row p))))) (zip rows reps)))]"
    using assms s p t by (simp add: take_census_def Let_def interval_def)
  ultimately show ?thesis using that [OF s, of reps "map gpu_dict gpus" st gpu_mem] by (simp add: rget_def dget_or_def num_field_def)
qed


text \<open>The node of the census example, whose one process has a thread count.\<close>

definition ex_genv :: gpu_env where
  "ex_genv = \<lparr>ge_now = 0, ge_after = 0, ge_found = False, ge_found_again = False, ge_run1 = SmiTimeout, ge_run2 = SmiTimeout\<rparr>"

definition ex_census_result :: "row res \<times> string list \<times> census_state" where
  "ex_census_result = take_census census_host census_host census_roots 0 1 ex_genv (new_census (1 / 10) 100 True 600)"


end
