(* ===== verification/Usage.thy ===== *)
theory Usage
  imports Process_Rows "HOL-Library.List_Lexorder" "HOL-Library.Char_ord"
begin

text \<open>
  Five-minute usage summaries (\<open>pipeline/usage.py\<close>).  CPU seconds and GPU megabytes are exact
  rationals; counts, threads and resident sizes are integers.
\<close>

text \<open>A cell \<open>[count, cpu_s, rss_kb]\<close> of a breakdown; cells add up component by component.\<close>

datatype cell = Cell (cl_count: int) (cl_cpu: rat) (cl_rss: int)

instantiation cell :: comm_monoid_add
begin

definition zero_cell :: cell where "zero_cell = Cell 0 0 0"

definition plus_cell :: "cell \<Rightarrow> cell \<Rightarrow> cell" where
  "plus_cell a b = Cell (cl_count a + cl_count b) (cl_cpu a + cl_cpu b) (cl_rss a + cl_rss b)"

instance by standard (auto simp: zero_cell_def plus_cell_def)

end

type_synonym breakdown = "(string, cell) dict"

definition bump :: "breakdown \<Rightarrow> string \<Rightarrow> rat \<Rightarrow> int \<Rightarrow> breakdown" where
  "bump tab key cpu_s rss_kb = dset tab key (dget_or tab key 0 + Cell 1 cpu_s rss_kb)"

definition merge_into :: "breakdown \<Rightarrow> breakdown \<Rightarrow> breakdown" where
  "merge_into into other = foldl (\<lambda>into (key, c). dset into key (dget_or into key 0 + c)) into other"

subsection \<open>Tallies\<close>

record tally =
  ty_n :: int
  ty_unmeasured :: int
  ty_rss :: int
  ty_threads :: int
  ty_d :: int
  ty_inter :: int
  ty_cpu :: rat
  ty_gpu :: rat
  ty_n_max :: int
  ty_rss_max :: int
  ty_gpu_max :: rat
  ty_by_category :: breakdown
  ty_by_activity :: breakdown
  ty_by_dormancy :: breakdown
  ty_cat_dorm :: "(string, breakdown) dict"

definition new_tally :: tally where
  "new_tally = \<lparr>ty_n = 0, ty_unmeasured = 0, ty_rss = 0, ty_threads = 0, ty_d = 0, ty_inter = 0, ty_cpu = 0,
     ty_gpu = 0, ty_n_max = 0, ty_rss_max = 0, ty_gpu_max = 0, ty_by_category = [], ty_by_activity = [],
     ty_by_dormancy = [], ty_cat_dorm = []\<rparr>"

definition merge_nested :: "(string, breakdown) dict \<Rightarrow> (string, breakdown) dict \<Rightarrow> (string, breakdown) dict" where
  "merge_nested into other =
     foldl (\<lambda>into (category, tab). dset into category (merge_into (dget_or into category []) tab)) into other"

definition fold_census :: "tally \<Rightarrow> tally \<Rightarrow> tally" where
  "fold_census t census =
     \<lparr>ty_n = ty_n t + ty_n census, ty_unmeasured = ty_unmeasured t + ty_unmeasured census,
      ty_rss = ty_rss t + ty_rss census, ty_threads = ty_threads t + ty_threads census,
      ty_d = ty_d t + ty_d census, ty_inter = ty_inter t + ty_inter census,
      ty_cpu = ty_cpu t + ty_cpu census, ty_gpu = ty_gpu t + ty_gpu census,
      ty_n_max = max (ty_n_max t) (ty_n census), ty_rss_max = max (ty_rss_max t) (ty_rss census),
      ty_gpu_max = max (ty_gpu_max t) (ty_gpu census),
      ty_by_category = merge_into (ty_by_category t) (ty_by_category census),
      ty_by_activity = merge_into (ty_by_activity t) (ty_by_activity census),
      ty_by_dormancy = merge_into (ty_by_dormancy t) (ty_by_dormancy census),
      ty_cat_dorm = merge_nested (ty_cat_dorm t) (ty_cat_dorm census)\<rparr>"

definition cell_row :: "rat \<Rightarrow> cell \<Rightarrow> pyval" where
  "cell_row samples c = VDict [(''count'', vnum (of_int (cl_count c) / samples)), (''cpu_s'', vnum (cl_cpu c)),
     (''rss_kb'', vnum (of_int (cl_rss c) / samples))]"

definition breakdown_row :: "rat \<Rightarrow> breakdown \<Rightarrow> pyval" where
  "breakdown_row samples tab = VDict (map (\<lambda>(k, c). (k, cell_row samples c)) (sort_key fst tab))"

definition tally_row :: "tally \<Rightarrow> datetime \<Rightarrow> nat \<Rightarrow> int \<Rightarrow> nat \<Rightarrow> string list \<Rightarrow> row" where
  "tally_row t start samples expected gpu_samples omit =
     (let n = of_nat samples :: rat in
      [(''interval_start'', VTime start),
       (''process_count_avg'', vnum (of_int (ty_n t) / n)),
       (''process_count_max'', VInt (ty_n_max t)),
       (''cpu_seconds'', vnum (ty_cpu t)),
       (''rss_kb_avg'', vnum (of_int (ty_rss t) / n)),
       (''rss_kb_max'', VInt (ty_rss_max t)),
       (''gpu_mem_mb_avg'', if gpu_samples \<noteq> 0 then vnum (ty_gpu t / of_nat gpu_samples) else VNone),
       (''gpu_mem_mb_max'', if gpu_samples \<noteq> 0 then vnum (ty_gpu_max t) else VNone),
       (''threads_avg'', vnum (of_int (ty_threads t) / n)),
       (''d_state_fraction'', vnum (if ty_n t \<noteq> 0 then of_int (ty_d t) / of_int (ty_n t) else 0)),
       (''interactive_fraction'', vnum (if ty_n t \<noteq> 0 then of_int (ty_inter t) / of_int (ty_n t) else 0))] @
      filter (\<lambda>(name, _). name \<notin> set omit)
        [(''by_category'', breakdown_row n (ty_by_category t)),
         (''by_activity'', breakdown_row n (ty_by_activity t)),
         (''by_dormancy'', breakdown_row n (ty_by_dormancy t))] @
      [(''by_category_dormancy'', VDict (map (\<lambda>(cat, tab). (cat, breakdown_row n tab)) (sort_key fst (ty_cat_dorm t)))),
       (''sample_count'', VInt (int samples)), (''expected_count'', VInt expected),
       (''unmeasured_count'', VInt (ty_unmeasured t))])"

definition proc_cpu :: "live_proc \<Rightarrow> rat" where
  "proc_cpu p = (case rp_cpu_seconds (lp_raw p) of None \<Rightarrow> 0 | Some c \<Rightarrow> c)"

definition dormancy :: "live_proc \<Rightarrow> string" where
  "dormancy p = lp_cpu_state p @ ''|'' @ lp_idle_bucket p @ ''|'' @ lp_owner_presence p"

definition activity_key :: "live_proc \<Rightarrow> string" where
  "activity_key p = (case lp_activity p of None \<Rightarrow> ''unknown'' | Some a \<Rightarrow> if a = [] then ''unknown'' else a)"

definition tally_add :: "bool \<Rightarrow> tally \<Rightarrow> live_proc \<Rightarrow> tally" where
  "tally_add gpu_measured t p =
     (let cpu = proc_cpu p; rss = rp_rss_kb (lp_raw p); cat = lp_category p in
      t\<lparr>ty_n := ty_n t + 1,
        ty_unmeasured := ty_unmeasured t + (if rp_cpu_seconds (lp_raw p) = None then 1 else 0),
        ty_cpu := ty_cpu t + cpu,
        ty_rss := ty_rss t + rss,
        ty_gpu := ty_gpu t + (case lp_gpu_mem_mb p of Some g \<Rightarrow> if gpu_measured then g else 0 | None \<Rightarrow> 0),
        ty_threads := ty_threads t + rp_threads (lp_raw p),
        ty_d := ty_d t + (if rp_state (lp_raw p) = ''D'' then 1 else 0),
        ty_inter := ty_inter t + (if rp_interactive (lp_raw p) then 1 else 0),
        ty_by_category := bump (ty_by_category t) cat cpu rss,
        ty_by_activity := bump (ty_by_activity t) (activity_key p) cpu rss,
        ty_by_dormancy := bump (ty_by_dormancy t) (dormancy p) cpu rss,
        ty_cat_dorm := dset (ty_cat_dorm t) cat (bump (dget_or (ty_cat_dorm t) cat []) (dormancy p) cpu rss)\<rparr>)"

subsection \<open>Intervals\<close>

record interval =
  iv_start :: datetime
  iv_samples :: nat
  iv_gpu_samples :: nat
  iv_node :: tally
  iv_users :: "(string, tally) dict"
  iv_user_sum :: nat
  iv_user_max :: nat
  iv_active_user_sum :: nat

definition new_interval :: "datetime \<Rightarrow> interval" where
  "new_interval start = \<lparr>iv_start = start, iv_samples = 0, iv_gpu_samples = 0, iv_node = new_tally, iv_users = [],
     iv_user_sum = 0, iv_user_max = 0, iv_active_user_sum = 0\<rparr>"

text \<open>The local variables \<open>node\<close>, \<open>users\<close> and \<open>active\<close> of \<open>_Interval.add\<close>.\<close>

record census =
  cs_node :: tally
  cs_users :: "(string, tally) dict"
  cs_active :: "string list"

definition census_add :: "bool \<Rightarrow> census \<Rightarrow> live_proc \<Rightarrow> census" where
  "census_add gpu_measured c p =
     (if \<not> lp_is_user_process p then c
      else c\<lparr>cs_node := tally_add gpu_measured (cs_node c) p,
             cs_users := dset (cs_users c) (lp_username p)
               (tally_add gpu_measured (dget_or (cs_users c) (lp_username p) new_tally) p),
             cs_active := (if lp_cpu_state p = ''active'' then List.insert (lp_username p) (cs_active c)
               else cs_active c)\<rparr>)"

definition tally_census :: "bool \<Rightarrow> live_proc list \<Rightarrow> census" where
  "tally_census gpu_measured rows =
     foldl (census_add gpu_measured) \<lparr>cs_node = new_tally, cs_users = [], cs_active = []\<rparr> rows"

definition fold_users :: "(string, tally) dict \<Rightarrow> (string, tally) dict \<Rightarrow> (string, tally) dict" where
  "fold_users users new = foldl (\<lambda>users (name, t). dset users name (fold_census (dget_or users name new_tally) t)) users new"

definition interval_add :: "interval \<Rightarrow> live_proc list \<Rightarrow> bool \<Rightarrow> interval" where
  "interval_add iv rows gpu_measured =
     (let c = tally_census gpu_measured rows in
      iv\<lparr>iv_samples := iv_samples iv + 1,
         iv_gpu_samples := iv_gpu_samples iv + (if gpu_measured then 1 else 0),
         iv_node := fold_census (iv_node iv) (cs_node c),
         iv_users := fold_users (iv_users iv) (cs_users c),
         iv_user_sum := iv_user_sum iv + length (cs_users c),
         iv_user_max := max (iv_user_max iv) (length (cs_users c)),
         iv_active_user_sum := iv_active_user_sum iv + length (cs_active c)\<rparr>)"

subsection \<open>The aggregator\<close>

record usage_agg =
  ua_interval :: rat
  ua_expected :: int
  ua_open :: "interval option"

definition new_usage :: "rat \<Rightarrow> rat \<Rightarrow> usage_agg" where
  "new_usage summary_interval census_interval =
     \<lparr>ua_interval = summary_interval, ua_expected = round_even (summary_interval / census_interval), ua_open = None\<rparr>"

definition flush_rows :: "int \<Rightarrow> interval \<Rightarrow> (string \<times> row) list" where
  "flush_rows expected iv =
     map (\<lambda>(name, t). (USER_USAGE_5M, (''username'', VStr name) #
        tally_row t (iv_start iv) (iv_samples iv) expected (iv_gpu_samples iv) USER_DERIVED_MAPS))
       (sort_key fst (iv_users iv)) @
     [(NODE_USAGE_5M, tally_row (iv_node iv) (iv_start iv) (iv_samples iv) expected (iv_gpu_samples iv) [] @
        [(''user_count_avg'', vnum (of_nat (iv_user_sum iv) / of_nat (iv_samples iv))),
         (''user_count_max'', VInt (int (iv_user_max iv))),
         (''active_user_count_avg'', vnum (of_nat (iv_active_user_sum iv) / of_nat (iv_samples iv)))])]"

definition flush_usage :: "usage_agg \<Rightarrow> (string \<times> row) list \<times> usage_agg" where
  "flush_usage ua =
     (case ua_open ua of
        None \<Rightarrow> ([], ua)
      | Some iv \<Rightarrow> (flush_rows (ua_expected ua) iv, ua\<lparr>ua_open := None\<rparr>))"

definition add_census :: "usage_agg \<Rightarrow> live_proc list \<Rightarrow> datetime \<Rightarrow> string option \<Rightarrow> ((string \<times> row) list \<times> usage_agg) res" where
  "add_census ua rows recv gpu_status =
     (case require_aware recv of
        Inl e \<Rightarrow> Inl e
      | Inr recv \<Rightarrow>
          (let start = interval_floor (ua_interval ua) recv;
               (out, ua) = (case ua_open ua of
                  Some iv \<Rightarrow> if instant (iv_start iv) < instant start then flush_usage ua else ([], ua)
                | None \<Rightarrow> ([], ua));
               iv = (case ua_open ua of None \<Rightarrow> new_interval start | Some iv \<Rightarrow> iv)
           in Inr (out, ua\<lparr>ua_open := Some (interval_add iv rows (gpu_status = Some ''ok''))\<rparr>)))"

subsection \<open>Breakdowns as sums\<close>

lemma dget_or_dset [simp]: "dget_or (dset d k v) k' z = (if k' = k then v else dget_or d k' z)"
  by (simp add: dget_or_def)

lemma dget_or_Nil [simp]: "dget_or [] k z = z"
  by (simp add: dget_or_def)

lemma dget_or_Cons [simp]: "dget_or ((k', v) # d) k z = (if k' = k then v else dget_or d k z)"
  by (simp add: dget_or_def)

lemma dget_or_absent: "k \<notin> fst ` set d \<Longrightarrow> dget_or d k z = z"
  by (simp add: dget_or_def flip: map_of_eq_None_iff)

lemma dwf_Cons [simp]: "dwf ((k, v) # d) \<longleftrightarrow> k \<notin> fst ` set d \<and> dwf d"
  by (simp add: dwf_def)

lemma merge_into_spec:
  assumes "dwf other" "dwf into"
  shows "dget_or (merge_into into other) k 0 = dget_or into k 0 + dget_or other k 0"
    and "fst ` set (merge_into into other) = fst ` set into \<union> fst ` set other"
    and "dwf (merge_into into other)"
proof -
  have "dget_or (merge_into into other) k 0 = dget_or into k 0 + dget_or other k 0 \<and>
    fst ` set (merge_into into other) = fst ` set into \<union> fst ` set other \<and> dwf (merge_into into other)"
    using assms
  proof (induction other arbitrary: into)
    case Nil
    then show ?case by (simp add: merge_into_def)
  next
    case (Cons e other)
    obtain k' c where e: "e = (k', c)" by (cases e)
    with Cons.prems have "dwf other" "dwf (dset into k' (dget_or into k' 0 + c))" by (auto intro: dwf_dset)
    from Cons.IH [OF this] Cons.prems e show ?case
      by (auto simp: merge_into_def dget_or_absent)
  qed
  then show "dget_or (merge_into into other) k 0 = dget_or into k 0 + dget_or other k 0"
    "fst ` set (merge_into into other) = fst ` set into \<union> fst ` set other" "dwf (merge_into into other)" by auto
qed

definition nested_wf :: "(string, breakdown) dict \<Rightarrow> bool" where
  "nested_wf d \<longleftrightarrow> dwf d \<and> (\<forall>c. dwf (dget_or d c []))"

lemma merge_nested_spec:
  assumes "nested_wf other" "nested_wf into"
  shows "dget_or (dget_or (merge_nested into other) c []) d 0 = dget_or (dget_or into c []) d 0 + dget_or (dget_or other c []) d 0"
    and "nested_wf (merge_nested into other)"
proof -
  have "dget_or (dget_or (merge_nested into other) c []) d 0 = dget_or (dget_or into c []) d 0 + dget_or (dget_or other c []) d 0 \<and>
    nested_wf (merge_nested into other)"
    using assms
  proof (induction other arbitrary: into)
    case Nil
    then show ?case by (simp add: merge_nested_def)
  next
    case (Cons e other)
    obtain c' tab where e: "e = (c', tab)" by (cases e)
    from Cons.prems e have tab: "dwf tab" and new: "c' \<notin> fst ` set other" and other: "dwf other"
      by (auto simp: nested_wf_def dest: spec [of _ c'])
    have o: "nested_wf other"
      unfolding nested_wf_def
    proof (intro conjI allI other)
      fix k
      from Cons.prems(1) e have "dwf (dget_or (e # other) k [])" by (simp add: nested_wf_def)
      with e new show "dwf (dget_or other k [])" by (cases "k = c'") (auto simp: dget_or_absent)
    qed
    let ?m = "merge_into (dget_or into c' []) tab"
    have i: "dwf (dget_or into c' [])" using Cons.prems(2) by (simp add: nested_wf_def)
    have "nested_wf (dset into c' ?m)"
      using Cons.prems(2) merge_into_spec(3) [OF tab i] by (simp add: nested_wf_def dwf_dset)
    from Cons.IH [OF o this] e new merge_into_spec(1) [OF tab i] show ?case
      by (cases "c = c'") (simp_all add: merge_nested_def dget_or_absent)
  qed
  then show "dget_or (dget_or (merge_nested into other) c []) d 0 = dget_or (dget_or into c []) d 0 + dget_or (dget_or other c []) d 0"
    "nested_wf (merge_nested into other)" by auto
qed

subsection \<open>What a tally stands for\<close>

text \<open>
  The rows a tally counted, each with whether its census measured GPU memory, and the reference
  sums over them.
\<close>

type_synonym counted = "(bool \<times> live_proc) list"

definition pcell :: "bool \<times> live_proc \<Rightarrow> cell" where
  "pcell gp = Cell 1 (proc_cpu (snd gp)) (rp_rss_kb (lp_raw (snd gp)))"

definition csum :: "counted \<Rightarrow> (live_proc \<Rightarrow> bool) \<Rightarrow> cell" where
  "csum rows P = sum_list (map pcell (filter (\<lambda>gp. P (snd gp)) rows))"

definition gpu_of :: "bool \<times> live_proc \<Rightarrow> rat" where
  "gpu_of gp = (case lp_gpu_mem_mb (snd gp) of Some g \<Rightarrow> if fst gp then g else 0 | None \<Rightarrow> 0)"

definition count_of :: "(live_proc \<Rightarrow> bool) \<Rightarrow> counted \<Rightarrow> int" where
  "count_of P rows = int (length (filter (\<lambda>gp. P (snd gp)) rows))"

definition breakdown_spec :: "breakdown \<Rightarrow> (live_proc \<Rightarrow> string) \<Rightarrow> counted \<Rightarrow> bool" where
  "breakdown_spec tab key rows \<longleftrightarrow> dwf tab \<and> fst ` set tab = (\<lambda>gp. key (snd gp)) ` set rows \<and>
     (\<forall>k. dget_or tab k 0 = csum rows (\<lambda>p. key p = k))"

definition tally_spec :: "tally \<Rightarrow> counted \<Rightarrow> bool" where
  "tally_spec t rows \<longleftrightarrow>
     Cell (ty_n t) (ty_cpu t) (ty_rss t) = csum rows (\<lambda>_. True) \<and>
     ty_unmeasured t = count_of (\<lambda>p. rp_cpu_seconds (lp_raw p) = None) rows \<and>
     ty_d t = count_of (\<lambda>p. rp_state (lp_raw p) = ''D'') rows \<and>
     ty_inter t = count_of (\<lambda>p. rp_interactive (lp_raw p)) rows \<and>
     ty_threads t = sum_list (map (\<lambda>gp. rp_threads (lp_raw (snd gp))) rows) \<and>
     ty_gpu t = sum_list (map gpu_of rows) \<and>
     breakdown_spec (ty_by_category t) lp_category rows \<and>
     breakdown_spec (ty_by_activity t) activity_key rows \<and>
     breakdown_spec (ty_by_dormancy t) dormancy rows \<and>
     nested_wf (ty_cat_dorm t) \<and>
     (\<forall>c d. dget_or (dget_or (ty_cat_dorm t) c []) d 0 = csum rows (\<lambda>p. lp_category p = c \<and> dormancy p = d))"

lemma csum_simps [simp]: "csum [] P = 0" "csum (rows @ rows') P = csum rows P + csum rows' P"
  "csum (gp # rows) P = (if P (snd gp) then pcell gp else 0) + csum rows P"
  by (simp_all add: csum_def)

lemma count_of_simps [simp]: "count_of P [] = 0" "count_of P (rows @ rows') = count_of P rows + count_of P rows'"
  "count_of P (gp # rows) = (if P (snd gp) then 1 else 0) + count_of P rows"
  by (simp_all add: count_of_def)

lemma breakdown_spec_bump:
  "breakdown_spec tab key rows \<Longrightarrow>
   breakdown_spec (bump tab (key p) (proc_cpu p) (rp_rss_kb (lp_raw p))) key (rows @ [(g, p)])"
  by (auto simp: breakdown_spec_def bump_def pcell_def dwf_dset)

lemma breakdown_spec_merge:
  "breakdown_spec tab key rows \<Longrightarrow> breakdown_spec tab' key rows' \<Longrightarrow> breakdown_spec (merge_into tab tab') key (rows @ rows')"
  by (simp add: breakdown_spec_def merge_into_spec image_Un)

lemma Cell_plus: "Cell a b c + Cell a' b' c' = Cell (a + a') (b + b') (c + c')"
  by (simp add: plus_cell_def)

lemma tally_spec_new: "tally_spec new_tally []"
  by (simp add: tally_spec_def new_tally_def breakdown_spec_def nested_wf_def zero_cell_def)

lemma tally_spec_add:
  assumes "tally_spec t rows"
  shows "tally_spec (tally_add g t p) (rows @ [(g, p)])"
proof -
  have nested: "nested_wf (dset (ty_cat_dorm t) c (bump (dget_or (ty_cat_dorm t) c []) d x y))" for c d x y
    using assms by (simp add: tally_spec_def nested_wf_def bump_def dwf_dset)
  have "Cell (ty_n t) (ty_cpu t) (ty_rss t) = csum rows (\<lambda>_. True)" using assms by (simp add: tally_spec_def)
  then have main: "Cell (ty_n t + 1) (ty_cpu t + proc_cpu p) (ty_rss t + rp_rss_kb (lp_raw p)) = csum (rows @ [(g, p)]) (\<lambda>_. True)"
    by (simp add: pcell_def flip: Cell_plus)
  have cd: "dget_or (dget_or (dset (ty_cat_dorm t) (lp_category p)
        (bump (dget_or (ty_cat_dorm t) (lp_category p) []) (dormancy p) (proc_cpu p) (rp_rss_kb (lp_raw p)))) c []) d 0 =
      csum (rows @ [(g, p)]) (\<lambda>p. lp_category p = c \<and> dormancy p = d)" for c d
    using assms by (auto simp: tally_spec_def bump_def pcell_def)
  show ?thesis
    using assms nested main cd
    unfolding tally_spec_def tally_add_def Let_def
    by (auto simp: gpu_of_def intro: breakdown_spec_bump split: option.splits)
qed

lemma tally_spec_fold:
  assumes "tally_spec t rows" "tally_spec c rows'"
  shows "tally_spec (fold_census t c) (rows @ rows')"
proof -
  have "Cell (ty_n t) (ty_cpu t) (ty_rss t) + Cell (ty_n c) (ty_cpu c) (ty_rss c) = csum (rows @ rows') (\<lambda>_. True)"
    using assms by (simp add: tally_spec_def)
  then have main: "Cell (ty_n t + ty_n c) (ty_cpu t + ty_cpu c) (ty_rss t + ty_rss c) = csum (rows @ rows') (\<lambda>_. True)"
    unfolding Cell_plus .
  show ?thesis
    using assms main unfolding tally_spec_def fold_census_def
    by (simp add: merge_nested_spec breakdown_spec_merge)
qed

subsection \<open>What an interval stands for\<close>

text \<open>The user-process rows of the censuses \<open>hist\<close>, and of one user.\<close>

definition census_rows :: "bool \<times> live_proc list \<Rightarrow> counted" where
  "census_rows gps = map (Pair (fst gps)) (filter lp_is_user_process (snd gps))"

definition user_rows :: "string \<Rightarrow> counted \<Rightarrow> counted" where
  "user_rows name rows = filter (\<lambda>gp. lp_username (snd gp) = name) rows"

definition all_rows :: "(bool \<times> live_proc list) list \<Rightarrow> counted" where
  "all_rows hist = concat (map census_rows hist)"

definition usernames :: "counted \<Rightarrow> string set" where
  "usernames rows = (\<lambda>gp. lp_username (snd gp)) ` set rows"

definition active_users :: "counted \<Rightarrow> string set" where
  "active_users rows = (\<lambda>gp. lp_username (snd gp)) ` {gp \<in> set rows. lp_cpu_state (snd gp) = ''active''}"

definition users_spec :: "(string, tally) dict \<Rightarrow> counted \<Rightarrow> bool" where
  "users_spec users rows \<longleftrightarrow> dwf users \<and> fst ` set users = usernames rows \<and>
     (\<forall>name. tally_spec (dget_or users name new_tally) (user_rows name rows))"

lemma user_rows_append [simp]: "user_rows name (a @ b) = user_rows name a @ user_rows name b"
  by (simp add: user_rows_def)

lemma user_rows_one [simp]: "user_rows name [(g, p)] = (if lp_username p = name then [(g, p)] else [])"
  by (simp add: user_rows_def)

lemma users_spec_add:
  assumes "users_spec users rows"
  shows "users_spec (dset users (lp_username p) (tally_add g (dget_or users (lp_username p) new_tally) p)) (rows @ [(g, p)])"
proof -
  have "tally_spec (dget_or (dset users (lp_username p) (tally_add g (dget_or users (lp_username p) new_tally) p)) name new_tally)
      (user_rows name (rows @ [(g, p)]))" for name
    using assms tally_spec_add [of "dget_or users (lp_username p) new_tally" "user_rows (lp_username p) rows" g p]
    by (auto simp: users_spec_def)
  with assms show ?thesis by (auto simp: users_spec_def usernames_def dwf_dset)
qed

definition census_spec :: "census \<Rightarrow> counted \<Rightarrow> bool" where
  "census_spec c rows \<longleftrightarrow> tally_spec (cs_node c) rows \<and> users_spec (cs_users c) rows \<and>
     distinct (cs_active c) \<and> set (cs_active c) = active_users rows"

lemma active_users_snoc:
  "active_users (rows @ [(g, p)]) =
   (if lp_cpu_state p = ''active'' then insert (lp_username p) (active_users rows) else active_users rows)"
proof -
  have "{gp \<in> set (rows @ [(g, p)]). lp_cpu_state (snd gp) = ''active''} =
      {gp \<in> set rows. lp_cpu_state (snd gp) = ''active''} \<union> (if lp_cpu_state p = ''active'' then {(g, p)} else {})"
    by auto
  then show ?thesis by (simp add: active_users_def image_Un)
qed

lemma census_spec_add:
  "census_spec c rows \<Longrightarrow> census_spec (census_add g c p) (rows @ (if lp_is_user_process p then [(g, p)] else []))"
  by (auto simp: census_spec_def census_add_def tally_spec_add users_spec_add active_users_snoc)

lemma tally_census_spec: "census_spec (tally_census g ps) (census_rows (g, ps))"
proof -
  have "census_spec (foldl (census_add g) c ps) (rows @ census_rows (g, ps))" if "census_spec c rows" for c rows
    using that
  proof (induction ps arbitrary: c rows)
    case Nil
    then show ?case by (simp add: census_rows_def)
  next
    case (Cons p ps)
    from Cons.IH [OF census_spec_add [OF Cons.prems, of g p]] show ?case
      by (simp add: census_rows_def split: if_splits)
  qed
  from this [of "\<lparr>cs_node = new_tally, cs_users = [], cs_active = []\<rparr>" "[]"] show ?thesis
    by (simp add: tally_census_def census_spec_def tally_spec_new users_spec_def usernames_def user_rows_def active_users_def)
qed

lemma users_spec_fold:
  assumes "users_spec users rows" "users_spec new rows'"
  shows "users_spec (fold_users users new) (rows @ rows')"
proof -
  have "dwf (fold_users users new) \<and> fst ` set (fold_users users new) = fst ` set users \<union> fst ` set new \<and>
      (\<forall>name. dget_or (fold_users users new) name new_tally =
        (case dget new name of None \<Rightarrow> dget_or users name new_tally
         | Some t \<Rightarrow> fold_census (dget_or users name new_tally) t))"
    if "dwf users" "dwf new" for users new
    using that
  proof (induction new arbitrary: users)
    case Nil
    then show ?case by (simp add: fold_users_def)
  next
    case (Cons e new)
    obtain n t where e: "e = (n, t)" by (cases e)
    with Cons.prems have "dwf (dset users n (fold_census (dget_or users n new_tally) t))" "dwf new" and "n \<notin> fst ` set new"
      by (auto intro: dwf_dset)
    from Cons.IH [OF this(1,2)] this(3) e show ?case
      by (auto simp: fold_users_def split: option.splits)
        (metis map_of_SomeD image_eqI fst_conv)+
  qed
  from this [of users new] assms have f: "dwf (fold_users users new)"
    "fst ` set (fold_users users new) = fst ` set users \<union> fst ` set new"
    "\<And>name. dget_or (fold_users users new) name new_tally =
        (case dget new name of None \<Rightarrow> dget_or users name new_tally
         | Some t \<Rightarrow> fold_census (dget_or users name new_tally) t)"
    by (auto simp: users_spec_def)
  have "tally_spec (dget_or (fold_users users new) name new_tally) (user_rows name (rows @ rows'))" for name
  proof (cases "dget new name")
    case None
    then have "name \<notin> usernames rows'" using assms(2) by (simp add: users_spec_def map_of_eq_None_iff)
    then have "user_rows name rows' = []" by (auto simp: usernames_def user_rows_def filter_empty_conv)
    with None f(3) assms(1) show ?thesis by (simp add: users_spec_def)
  next
    case (Some t)
    then have "tally_spec t (user_rows name rows')" using assms(2) by (auto simp: users_spec_def dget_or_def dest: spec [of _ name])
    with Some f(3) assms(1) show ?thesis by (simp add: users_spec_def tally_spec_fold)
  qed
  with f(1,2) assms show ?thesis by (simp add: users_spec_def usernames_def image_Un)
qed

definition interval_spec :: "interval \<Rightarrow> (bool \<times> live_proc list) list \<Rightarrow> bool" where
  "interval_spec iv hist \<longleftrightarrow>
     iv_samples iv = length hist \<and> iv_gpu_samples iv = length (filter fst hist) \<and>
     tally_spec (iv_node iv) (all_rows hist) \<and> users_spec (iv_users iv) (all_rows hist) \<and>
     iv_user_sum iv = sum_list (map (\<lambda>c. card (usernames (census_rows c))) hist) \<and>
     iv_active_user_sum iv = sum_list (map (\<lambda>c. card (active_users (census_rows c))) hist)"

lemma interval_spec_new: "interval_spec (new_interval start) []"
  by (simp add: interval_spec_def new_interval_def all_rows_def tally_spec_new users_spec_def usernames_def user_rows_def)

lemma interval_spec_add:
  assumes "interval_spec iv hist"
  shows "interval_spec (interval_add iv rows g) (hist @ [(g, rows)])"
proof -
  have c: "census_spec (tally_census g rows) (census_rows (g, rows))" by (rule tally_census_spec)
  let ?c = "tally_census g rows"
  have "length (cs_users ?c) = card (usernames (census_rows (g, rows)))"
  proof -
    have "distinct (dkeys (cs_users ?c))" "set (dkeys (cs_users ?c)) = usernames (census_rows (g, rows))"
      using c by (auto simp: census_spec_def users_spec_def dwf_def)
    then show ?thesis by (metis distinct_card length_map)
  qed
  moreover have "length (cs_active ?c) = card (active_users (census_rows (g, rows)))"
    using c by (metis census_spec_def distinct_card)
  ultimately show ?thesis
    using assms c
    by (simp add: interval_spec_def interval_add_def Let_def all_rows_def census_spec_def tally_spec_fold users_spec_fold)
qed

subsection \<open>Breakdowns that can be derived\<close>

lemma cl_count_plus [simp]: "cl_count (a + b) = cl_count a + cl_count b" "cl_count 0 = 0"
  by (simp_all add: plus_cell_def zero_cell_def)

lemma csum_count: "cl_count (csum rows P) = int (length (filter (\<lambda>gp. P (snd gp)) rows))"
  by (induction rows) (simp_all add: pcell_def)

lemma dict_sum:
  assumes "dwf tab"
  shows "sum_list (map h (dkeys tab)) = (\<Sum>k \<in> fst ` set tab. h k)"
  using assms sum_list_distinct_conv_sum_set [of "dkeys tab" h] by (simp add: dwf_def del: map_map)

lemma csum_split:
  assumes "finite K" and "\<And>gp. gp \<in> set rows \<Longrightarrow> P (snd gp) \<Longrightarrow> key (snd gp) \<in> K"
  shows "(\<Sum>k \<in> K. csum rows (\<lambda>p. P p \<and> key p = k)) = csum rows P"
  using assms(2)
proof (induction rows)
  case Nil
  then show ?case by simp
next
  case (Cons gp rows)
  have "(\<Sum>k \<in> K. csum (gp # rows) (\<lambda>p. P p \<and> key p = k)) =
      (\<Sum>k \<in> K. if P (snd gp) \<and> key (snd gp) = k then pcell gp else 0) + (\<Sum>k \<in> K. csum rows (\<lambda>p. P p \<and> key p = k))"
    by (simp add: sum.distrib)
  also have "(\<Sum>k \<in> K. if P (snd gp) \<and> key (snd gp) = k then pcell gp else 0) = (if P (snd gp) then pcell gp else 0)"
    using assms(1) Cons.prems [of gp] by (auto simp: sum.delta')
  finally show ?case using Cons by simp
qed

lemma breakdown_total:
  assumes "dwf tab" and "\<And>k. dget_or tab k 0 = csum rows (\<lambda>p. P p \<and> key p = k)"
  shows "sum_list (map (\<lambda>k. dget_or tab k 0) (dkeys tab)) = csum rows P"
proof -
  have "key (snd gp) \<in> fst ` set tab" if "gp \<in> set rows" "P (snd gp)" for gp
  proof (rule ccontr)
    assume "key (snd gp) \<notin> fst ` set tab"
    then have "cl_count (csum rows (\<lambda>p. P p \<and> key p = key (snd gp))) = 0"
      using assms(2) [of "key (snd gp)"] by (simp add: dget_or_absent)
    with that show False unfolding csum_count by (auto simp: filter_empty_conv)
  qed
  then show ?thesis
    unfolding dict_sum [OF assms(1)] assms(2) by (intro csum_split) auto
qed

lemma breakdown_values: "dwf tab \<Longrightarrow> map (\<lambda>k. dget_or tab k 0) (dkeys tab) = dvalues tab"
  by (auto simp: dwf_def dget_or_def map_of_eq_Some_iff intro!: map_cong split: option.splits)
    (metis map_of_is_SomeI option.distinct(1) option.inject)+

lemma tally_derivable:
  assumes "tally_spec t rows"
  shows "dget_or (ty_by_category t) c 0 = sum_list (dvalues (dget_or (ty_cat_dorm t) c []))"
    and "dget_or (ty_by_dormancy t) d 0 = sum_list (map (\<lambda>cat. dget_or (dget_or (ty_cat_dorm t) cat []) d 0) (dkeys (ty_cat_dorm t)))"
proof -
  have wf: "dwf (dget_or (ty_cat_dorm t) c [])" "dwf (ty_cat_dorm t)"
    and cd: "\<And>c d. dget_or (dget_or (ty_cat_dorm t) c []) d 0 = csum rows (\<lambda>p. lp_category p = c \<and> dormancy p = d)"
    and cat: "dget_or (ty_by_category t) c 0 = csum rows (\<lambda>p. lp_category p = c)"
    and dor: "dget_or (ty_by_dormancy t) d 0 = csum rows (\<lambda>p. dormancy p = d)"
    using assms by (auto simp: tally_spec_def nested_wf_def breakdown_spec_def)
  show "dget_or (ty_by_category t) c 0 = sum_list (dvalues (dget_or (ty_cat_dorm t) c []))"
    using breakdown_total [OF wf(1) cd] unfolding cat breakdown_values [OF wf(1)] by simp
  have "lp_category (snd gp) \<in> fst ` set (ty_cat_dorm t)" if "gp \<in> set rows" for gp
  proof (rule ccontr)
    assume "lp_category (snd gp) \<notin> fst ` set (ty_cat_dorm t)"
    then have "cl_count (csum rows (\<lambda>p. lp_category p = lp_category (snd gp) \<and> dormancy p = dormancy (snd gp))) = 0"
      by (simp add: dget_or_absent flip: cd)
    with that show False unfolding csum_count by (auto simp: filter_empty_conv)
  qed
  then show "dget_or (ty_by_dormancy t) d 0 = sum_list (map (\<lambda>cat. dget_or (dget_or (ty_cat_dorm t) cat []) d 0) (dkeys (ty_cat_dorm t)))"
    unfolding dict_sum [OF wf(2)] dor cd
    using csum_split [of "fst ` set (ty_cat_dorm t)" rows "\<lambda>p. dormancy p = d" lp_category]
    by (simp add: conj_commute)
qed

subsection \<open>Runs of the aggregator\<close>

definition interval_of :: "datetime \<Rightarrow> (bool \<times> live_proc list) list \<Rightarrow> interval" where
  "interval_of start hist = foldl (\<lambda>iv c. interval_add iv (snd c) (fst c)) (new_interval start) hist"

lemma interval_of_snoc: "interval_of start (hist @ [(g, rows)]) = interval_add (interval_of start hist) rows g"
  by (simp add: interval_of_def)

lemma interval_of_spec: "interval_spec (interval_of start hist) hist"
proof (induction hist rule: rev_induct)
  case Nil
  then show ?case by (simp add: interval_of_def interval_spec_new)
next
  case (snoc c hist)
  then show ?case by (cases c) (simp add: interval_of_snoc interval_spec_add)
qed

lemma interval_of_start [simp]: "iv_start (interval_of start hist) = start"
  by (induction hist rule: rev_induct) (auto simp: interval_of_def new_interval_def interval_add_def Let_def)

text \<open>
  The starts of the intervals a run of \<open>add_census\<close> emitted: each call that flushes emits the
  interval that was open.
\<close>

definition node_starts :: "(string \<times> row) list \<Rightarrow> pyval list" where
  "node_starts out = map (\<lambda>(k, r). rget r ''interval_start'') (filter (\<lambda>(k, r). k = NODE_USAGE_5M) out)"

fun usage_run :: "usage_agg \<Rightarrow> (live_proc list \<times> datetime \<times> string option) list \<Rightarrow> (string \<times> row) list \<times> usage_agg" where
  "usage_run ua [] = ([], ua)"
| "usage_run ua ((rows, recv, gpu) # cs) =
     (case add_census ua rows recv gpu of
        Inl _ \<Rightarrow> usage_run ua cs
      | Inr (out, ua) \<Rightarrow> (case usage_run ua cs of (out', ua) \<Rightarrow> (out @ out', ua)))"

lemma node_starts_append [simp]: "node_starts (a @ b) = node_starts a @ node_starts b"
  by (simp add: node_starts_def)

lemma node_starts_flush [simp]: "node_starts (flush_rows ex iv) = [VTime (iv_start iv)]"
  by (simp add: node_starts_def flush_rows_def filter_map comp_def case_prod_beta kind_defs tally_row_def rget_def
      dget_or_def Let_def)

definition open_start :: "usage_agg \<Rightarrow> int option" where
  "open_start ua = map_option (\<lambda>iv. instant (iv_start iv)) (ua_open ua)"

fun starts_increase :: "int option \<Rightarrow> pyval list \<Rightarrow> bool" where
  "starts_increase lo [] = True"
| "starts_increase lo (VTime t # ts) = ((case lo of None \<Rightarrow> True | Some a \<Rightarrow> a < instant t) \<and> starts_increase (Some (instant t)) ts)"
| "starts_increase lo (_ # ts) = False"

lemma add_census_emits:
  assumes "add_census ua rows recv gpu = Inr (out, ua')"
  shows "(out = [] \<and> (case ua_open ua of
        Some iv \<Rightarrow> open_start ua' = open_start ua | None \<Rightarrow> True)) \<or>
    (\<exists>iv. ua_open ua = Some iv \<and> out = flush_rows (ua_expected ua) iv \<and>
       (\<exists>b. open_start ua' = Some b \<and> instant (iv_start iv) < b))"
  using assms
  by (auto simp: add_census_def open_start_def flush_usage_def interval_add_def new_interval_def require_aware_def Let_def
      split: if_splits option.splits)

lemma usage_run_increase:
  assumes "usage_run ua cs = (out, ua')" and "\<And>a. open_start ua = Some a \<Longrightarrow> case lo of None \<Rightarrow> True | Some l \<Rightarrow> l < a"
    and "open_start ua = None \<Longrightarrow> lo = None"
  shows "starts_increase lo (node_starts out)"
  using assms
proof (induction cs arbitrary: ua out lo)
  case Nil
  then show ?case by (simp add: node_starts_def)
next
  case (Cons c cs)
  obtain rows recv gpu where c: "c = (rows, recv, gpu)" by (cases c)
  show ?case
  proof (cases "add_census ua rows recv gpu")
    case (Inl e)
    with Cons c show ?thesis by auto
  next
    case (Inr r)
    obtain out1 ua1 where r: "r = (out1, ua1)" by (cases r)
    obtain out2 where run: "usage_run ua1 cs = (out2, ua')" and out: "out = out1 @ out2"
      using Cons.prems(1) c Inr r by (auto split: prod.splits)
    from add_census_emits [OF Inr [unfolded r]] show ?thesis
    proof
      assume a: "out1 = [] \<and> (case ua_open ua of Some iv \<Rightarrow> open_start ua1 = open_start ua | None \<Rightarrow> True)"
      have ne: "open_start ua1 \<noteq> None"
        using Inr r by (auto simp: add_census_def open_start_def require_aware_def Let_def split: if_splits prod.splits)
      have "starts_increase lo (node_starts out2)"
      proof (cases "ua_open ua")
        case None
        with Cons.prems(3) have "lo = None" by (simp add: open_start_def)
        with Cons.IH [OF run, of lo] ne show ?thesis by simp
      next
        case (Some iv)
        with a Cons.prems have "open_start ua1 = open_start ua" by simp
        with Cons.IH [OF run, of lo] Cons.prems(2,3) show ?thesis by simp
      qed
      with a out show ?thesis by (simp add: node_starts_def)
    next
      assume "\<exists>iv. ua_open ua = Some iv \<and> out1 = flush_rows (ua_expected ua) iv \<and>
         (\<exists>b. open_start ua1 = Some b \<and> instant (iv_start iv) < b)"
      then obtain iv b where iv: "ua_open ua = Some iv" "out1 = flush_rows (ua_expected ua) iv"
        "open_start ua1 = Some b" "instant (iv_start iv) < b" by blast
      from Cons.IH [OF run, of "Some (instant (iv_start iv))"] iv
      have "starts_increase (Some (instant (iv_start iv))) (node_starts out2)" by simp
      with Cons.prems(2) iv(1) out iv(2) show ?thesis by (simp add: open_start_def)
    qed
  qed
qed

definition tally_total :: "tally \<Rightarrow> cell" where
  "tally_total t = Cell (ty_n t) (ty_cpu t) (ty_rss t)"

lemma csum_user_rows: "csum (user_rows name rows) (\<lambda>_. True) = csum rows (\<lambda>p. True \<and> lp_username p = name)"
  by (induction rows) (auto simp: user_rows_def csum_def)

lemma users_total:
  assumes "interval_spec iv hist"
  shows "tally_total (iv_node iv) = sum_list (map (\<lambda>name. tally_total (dget_or (iv_users iv) name new_tally)) (dkeys (iv_users iv)))"
proof -
  let ?rows = "all_rows hist"
  have u: "dwf (iv_users iv)" "fst ` set (iv_users iv) = usernames ?rows"
    "\<And>name. tally_total (dget_or (iv_users iv) name new_tally) = csum ?rows (\<lambda>p. True \<and> lp_username p = name)"
    using assms by (simp_all add: interval_spec_def users_spec_def tally_spec_def tally_total_def csum_user_rows)
  have "tally_total (iv_node iv) = csum ?rows (\<lambda>_. True)"
    using assms by (simp add: interval_spec_def tally_spec_def tally_total_def)
  also have "\<dots> = (\<Sum>k \<in> fst ` set (iv_users iv). csum ?rows (\<lambda>p. True \<and> lp_username p = k))"
    unfolding u(2) by (rule csum_split [symmetric]) (auto simp: usernames_def)
  finally show ?thesis unfolding u(3) dict_sum [OF u(1)] .
qed

subsection \<open>Properties\<close>

definition ex_raw :: raw_proc where
  "ex_raw = \<lparr>rp_pid = VInt 7, rp_start_time = VInt 1, rp_uid = 1000, rp_username = Some ''ada'', rp_comm = ''python'',
     rp_exe = VNone, rp_argv0 = None, rp_cmdline = Some ''python x.py'', rp_ppid = VInt 1, rp_parent_comm = VNone,
     rp_parent_exe = VNone, rp_parent_kind = VNone, rp_state = ''R'', rp_threads = 2, rp_rss_kb = 300,
     rp_cpu_seconds = Some 5, rp_cpu_state = Some ''active'', rp_gpu_mem_mb = None, rp_interactive = True,
     rp_under_screen_or_tmux = VBool False, rp_idle_for_sec = Some 0, rp_idle_for_is_lower_bound = VBool False\<rparr>"

definition ex_live_proc :: live_proc where
  "ex_live_proc = \<lparr>lp_raw = ex_raw, lp_username = ''ada'', lp_argv0 = None, lp_cmdline = ''python x.py'', lp_category = ''python'',
     lp_activity = Some ''python-generic'', lp_cpu_state = ''active'', lp_gpu_mem_mb = None, lp_idle_bucket = ''<5m'',
     lp_owner_presence = ''absent'', lp_is_user_process = True\<rparr>"

definition ex_usage :: usage_agg where
  "ex_usage = (new_usage 300 60)\<lparr>ua_open := Some (interval_of (utc 0) [(True, [ex_live_proc])])\<rparr>"



text \<open>
  The per-user breakdowns that are not stored can be derived: in every tally that is the sum
  of some rows, the cell of a category is the sum of its by-category-and-dormancy cells, and the
  cell of a dormancy is the sum of its cells over all categories.
\<close>

theorem user_maps_derivable:
  assumes "interval_spec iv hist" and "t = dget_or (iv_users iv) name new_tally"
  shows "dget_or (ty_by_category t) c 0 = sum_list (dvalues (dget_or (ty_cat_dorm t) c [])) \<and>
    dget_or (ty_by_dormancy t) d 0 = sum_list (map (\<lambda>cat. dget_or (dget_or (ty_cat_dorm t) cat []) d 0) (dkeys (ty_cat_dorm t)))"
proof -
  have "tally_spec t (user_rows name (all_rows hist))" using assms by (simp add: interval_spec_def users_spec_def)
  from tally_derivable [OF this] show ?thesis by blast
qed

theorem user_maps_derivable_witness:
  "dget_or (ty_by_category (dget_or (iv_users (interval_of (utc 0) [(True, [ex_live_proc])])) ''ada'' new_tally)) ''python'' 0 =
   sum_list (dvalues (dget_or (ty_cat_dorm (dget_or (iv_users (interval_of (utc 0) [(True, [ex_live_proc])])) ''ada'' new_tally)) ''python'' []))"
  using user_maps_derivable [OF interval_of_spec refl] by blast



text \<open>
  Whatever the order of arrival, the node rows a fresh aggregator emits are for strictly
  increasing intervals: no interval is emitted twice.
\<close>

theorem usage_intervals_increase:
  "starts_increase None (node_starts (fst (usage_run (new_usage summary_interval census_interval) cs)))"
  by (rule usage_run_increase [OF prod.collapse [symmetric]]) (simp_all add: open_start_def new_usage_def)

end
