(* ===== verification/Rules.thy ===== *)
theory Rules
  imports Regex
begin

text \<open>
  The classification rule tables (\<open>pipeline/rules.py\<close>) and \<open>classify\<close> (\<open>pipeline/classify.py\<close>).
  The patterns are those of the source, compiled by \<open>re_compile\<close>.
\<close>

definition SPEC_CATEGORIES :: "string list" where
  "SPEC_CATEGORIES = [''ai_agent'', ''editor_server'', ''jupyter'', ''build'', ''python'', ''shell'',
     ''data_transfer'', ''fs_scan'', ''scheduler'', ''workflow'', ''system'', ''other'']"

definition DEFAULT_CATEGORY :: string where "DEFAULT_CATEGORY = ''other''"

definition CATEGORY_RULES :: "(string \<times> string \<times> int) list" where
  "CATEGORY_RULES = [
     (''editor_server'',
      raw (''vscode-server|vscode_server|~.vscode-server|cursor-server|~.cursor-server|jetbrains|'' @
        ''remote-dev-server|code-server''), 10),
     (''ai_agent'',
      raw (''(^|/)(claude|codex|opencode|aider|gemini|cline|goose|windsurf|hermes|hermes-agent|'' @
        ''hermes_cli|openclaw|open-claw|open_claw)( |$)|-m~s+(claude|codex|opencode|aider|gemini|'' @
        ''cline|goose|windsurf|hermes_cli|openclaw)[_.~s]|anthropic~.claude-code|openai~.chatgpt|'' @
        ''claude-code|claude_code|copilot-language|copilot-agent|gh-copilot|github~.copilot|'' @
        ''codeium-windsurf|codeium~.windsurf|windsurf-server|~.windsurf-server|cursor-agent|'' @
        ''roo-cline|roo-code|rooveterinaryinc~.roo-cline|continue~.continue|continuedev|~.continue/''), 20),
     (''jupyter'',
      raw ''jupyter|ipykernel|jupyter-lab|jupyterhub'', 10),
     (''scheduler'',
      raw (''(^|/)(qstat|qsub|qdel|qhold|qrls|qalter|pbsnodes|pbs_[a-z]+|mpiexec|mpirun|aprun|srun)( |'' @
        ''$)''), 10),
     (''data_transfer'',
      raw (''(^|/)(git|git-[a-z-]+|rsync|scp|sftp|globus|globus-url-copy|curl|wget|tar|gzip|gunzip|'' @
        ''bzip2|xz|zip|unzip|hsi|htar)( |$)''), 10),
     (''fs_scan'',
      raw ''(^|/)(find|du|ncdu|updatedb|locate|stat|ls)( |$)|(^|/)lfs( |$).*(find|df)|(^|/)mlocate'', 10),
     (''build'',
      raw (''(^|/)(make|gmake|cmake|ninja|gcc|g~+~+|cc|c~+~+|clang|clang~+~+|nvcc|ftn|CC|ld|ar|ranlib|'' @
        ''cargo|rustc|go|javac|configure|conda|pip|pip3|spack)( |$)''), 10),
     (''python'',
      raw ''(^|/)(python|python[0-9.]*)( |$)'', 10),
     (''shell'',
      raw (''(^|/)(sshd|bash|zsh|tcsh|csh|ksh|sh|screen|tmux|systemd|~(sd-pam~)|dbus-daemon|'' @
        ''dbus-launch|login|su|sudo)( |:|$)|^-''), 10)]"

definition ACTIVITY_RULES :: "(string \<times> string \<times> string \<times> int) list" where
  "ACTIVITY_RULES = [
     (''vscode-remote-server'', ''editor_server'',
      raw ''vscode-server|code-server'', 10),
     (''cursor-remote-server'', ''editor_server'',
      raw ''cursor-server'', 10),
     (''claude-code'', ''ai_agent'',
      raw ''claude-code|anthropic~.claude-code|(^|/)claude( |$)'', 20),
     (''codex-cli'', ''ai_agent'',
      raw ''(^|/)codex( |$)|openai~.chatgpt'', 20),
     (''windsurf'', ''ai_agent'',
      raw ''(^|/)windsurf( |$)|codeium-windsurf|codeium~.windsurf|windsurf-server|~.windsurf-server'', 20),
     (''cursor-cli'', ''ai_agent'',
      raw ''cursor-agent|(^|/)cursor( |$)'', 20),
     (''hermes'', ''ai_agent'',
      raw ''hermes-agent|hermes_cli|(^|/)hermes( |$)'', 20),
     (''openclaw'', ''ai_agent'',
      raw ''open-claw|openclaw|open_claw'', 20),
     (''roo'', ''ai_agent'',
      raw ''roo-cline|roo-code|rooveterinaryinc~.roo-cline'', 20),
     (''continue'', ''ai_agent'',
      raw ''continue~.continue|continuedev|(^|/)~.continue/'', 20),
     (''copilot-agent'', ''ai_agent'',
      raw ''copilot-agent|copilot-language-server|gh-copilot|github~.copilot'', 20),
     (''jupyter-kernel'', ''jupyter'',
      raw ''ipykernel'', 10),
     (''jupyter-server'', ''jupyter'',
      raw ''jupyter'', 10),
     (''torch-distributed'', ''python'',
      raw ''torch~.distributed|torchrun'', 10),
     (''mpi-launch'', ''scheduler'',
      raw ''(^|/)(mpiexec|mpirun|aprun|srun)( |$)'', 10),
     (''compiler-invocation'', ''build'',
      raw ''(^|/)(gcc|g~+~+|clang|nvcc|ftn|cc|c~+~+)( |$)'', 10),
     (''build-driver'', ''build'',
      raw ''(^|/)(make|gmake|cmake|ninja)( |$)'', 10),
     (''package-install'', ''build'',
      raw ''(^|/)(pip|pip3|conda|spack)( |$)'', 10),
     (''git-operation'', ''data_transfer'',
      raw ''(^|/)git( |$)|(^|/)git-[a-z-]+( |$)'', 10),
     (''data-transfer'', ''data_transfer'',
      raw ''(^|/)(rsync|scp|sftp|globus|globus-url-copy|curl|wget)( |$)'', 10),
     (''filesystem-scan'', ''fs_scan'',
      raw ''(^|/)(find|du|ncdu|updatedb)( |$)'', 10),
     (''pbs-query'', ''scheduler'',
      raw ''(^|/)(qstat|qsub|qdel|pbsnodes)( |$)'', 10),
     (''globus-compute'', ''workflow'',
      raw ''globus-compute-endpoint|globus.compute|gc_submit|gc-ctrl'', 10),
     (''balsam'', ''workflow'',
      raw ''(^|/)balsam( |$)|-m~s+balsam~.'', 10),
     (''parsl'', ''workflow'',
      raw ''(^|/)parsl( |$)|-m~s+parsl~.'', 10),
     (''argo'', ''workflow'',
      raw ''argo-shim|argo-proxy|argo.bridge|ARGO_BRIDGE_SOCK'', 10),
     (''postgres'', ''system'',
      raw ''(^|/)postgres( |$)|postmaster'', 10),
     (''dbus'', ''system'',
      raw ''dbus-daemon|dbus-launch|dbus-session'', 10),
     (''fail2ban'', ''system'',
      raw ''fail2ban-server|fail2ban'', 10),
     (''ssh-agent'', ''shell'',
      raw ''(^|/)ssh-agent( |$)'', 10),
     (''sleep'', ''shell'',
      raw ''(^|/)sleep( |$)'', 10),
     (''pytest'', ''python'',
      raw ''-m~s+pytest~b'', 10),
     (''reuse-lint'', ''other'',
      raw ''-m~s+reuse~b'', 10),
     (''python-http-server'', ''python'',
      raw ''-m~s+http~.server|preview_server|serve_boards|helios_preview_server|nxserver'', 10),
     (''starccm'', ''other'',
      raw ''-m~s+starserver|STAR-CCM'', 10),
     (''python-training'', ''python'',
      raw ''(^|[/ ])train~.py( |$)|train_.*~.py|finetune|fine.tune'', 10),
     (''python-inference'', ''python'',
      raw (''(^|[/ ])infer~.py( |$)|infer_.*~.py|(^|[/ ])predict~.py( |$)|generat.*~.py|(^|'' @
        ''[/ ])boltz( |$)''), 10),
     (''python-generic'', ''python'',
      raw ''(^|/)python[0-9.]*( |$)'', 5),
     (''shell'', ''shell'',
      raw ''(^|/)(bash|zsh|tcsh|csh|ksh|sh)( |$)|^-'', 10),
     (''ssh-session'', ''shell'',
      raw ''(^|/)sshd( |:|$)'', 10),
     (''terminal-multiplexer'', ''shell'',
      raw ''(^|/)(screen|tmux)( |$)'', 10),
     (''agent-like-unclassified'', ''ai_agent'',
      raw (''(^|/)~.vscode-server/extensions/[A-Za-z0-9_-]+~.[A-Za-z0-9_.-]*(?:agent|assistant|copilot|'' @
        ''chatbot)[A-Za-z0-9_.-]*(?:/|$)''), 15)]"

datatype classification = Classification (cls_category: string) (cls_activity: "string option")

definition rule_matches :: "string \<Rightarrow> string \<Rightarrow> bool" where
  "rule_matches rx haystack = (case re_compile False rx of None \<Rightarrow> False | Some p \<Rightarrow> re_search (prx p) haystack)"

text \<open>The two loops of \<open>classify\<close>, over the state of their local variables.\<close>

definition outranks :: "int \<Rightarrow> int option \<Rightarrow> bool" where
  "outranks priority best \<longleftrightarrow> (case best of None \<Rightarrow> True | Some b \<Rightarrow> priority > b)"

fun activity_loop :: "string \<Rightarrow> (string \<times> string \<times> string \<times> int) list \<Rightarrow>
    string option \<times> string option \<times> int option \<Rightarrow> string option \<times> string option \<times> int option" where
  "activity_loop haystack [] st = st"
| "activity_loop haystack ((act, cat, rx, priority) # rules) (activity, category, best) =
     activity_loop haystack rules
       (if outranks priority best \<and> rule_matches rx haystack then (Some act, Some cat, Some priority)
        else (activity, category, best))"

fun category_loop :: "string \<Rightarrow> (string \<times> string \<times> int) list \<Rightarrow>
    string option \<times> int option \<Rightarrow> string option \<times> int option" where
  "category_loop haystack [] st = st"
| "category_loop haystack ((cat, rx, priority) # rules) (category, cat_best) =
     category_loop haystack rules
       (if outranks priority cat_best \<and> rule_matches rx haystack then (Some cat, Some priority)
        else (category, cat_best))"

definition classify :: "string \<Rightarrow> string \<Rightarrow> int \<Rightarrow> int \<Rightarrow> classification" where
  "classify comm cmdline uid min_user_uid =
     (let haystack = if cmdline \<noteq> [] then cmdline else comm;
          (activity, category, best) = activity_loop haystack ACTIVITY_RULES (None, None, None);
          (category, cat_best) = category_loop haystack CATEGORY_RULES (category, best);
          category = if uid < min_user_uid then Some ''system'' else category
      in Classification (case category of None \<Rightarrow> DEFAULT_CATEGORY | Some c \<Rightarrow> if c = [] then DEFAULT_CATEGORY else c)
           activity)"

subsection \<open>Highest priority wins, ties go to the earlier rule\<close>

text \<open>The first element of greatest weight.\<close>

definition first_max :: "('a \<Rightarrow> int) \<Rightarrow> 'a list \<Rightarrow> 'a option" where
  "first_max w xs = find (\<lambda>x. list_all (\<lambda>y. w y \<le> w x) xs) xs"

definition better :: "('a \<Rightarrow> int) \<Rightarrow> 'a option \<Rightarrow> 'a \<Rightarrow> 'a option" where
  "better w acc x = (if outranks (w x) (map_option w acc) then Some x else acc)"

lemma foldl_better_split:
  "xs \<noteq> [] \<Longrightarrow> \<exists>pre b post. foldl (better w) None xs = Some b \<and> xs = pre @ b # post \<and>
     (\<forall>x \<in> set pre. w x < w b) \<and> (\<forall>x \<in> set post. w x \<le> w b)"
proof (induction xs rule: rev_induct)
  case (snoc x xs)
  show ?case
  proof (cases "xs = []")
    case True
    then show ?thesis by (intro exI [of _ "[]"] exI [of _ x]) (simp add: better_def outranks_def)
  next
    case False
    with snoc.IH obtain pre b post where b: "foldl (better w) None xs = Some b" and xs: "xs = pre @ b # post"
      and pre: "\<forall>x \<in> set pre. w x < w b" and post: "\<forall>x \<in> set post. w x \<le> w b" by blast
    show ?thesis
    proof (cases "w b < w x")
      case True
      with b have "foldl (better w) None (xs @ [x]) = Some x" by (simp add: better_def outranks_def)
      moreover have "\<forall>y \<in> set xs. w y < w x" using xs pre post True by auto
      ultimately show ?thesis by (intro exI [of _ xs] exI [of _ x] exI [of _ "[]"]) simp
    next
      case False
      with b have "foldl (better w) None (xs @ [x]) = Some b" by (simp add: better_def outranks_def)
      moreover have "xs @ [x] = pre @ b # (post @ [x])" using xs by simp
      ultimately show ?thesis using pre post False
        by (intro exI [of _ pre] exI [of _ b] exI [of _ "post @ [x]"]) auto
    qed
  qed
qed simp

lemma find_split: "(\<forall>x \<in> set pre. \<not> P x) \<Longrightarrow> P b \<Longrightarrow> find P (pre @ b # post) = Some b"
  by (induction pre) auto

lemma foldl_better: "foldl (better w) None xs = first_max w xs"
proof (cases "xs = []")
  case True
  then show ?thesis by (simp add: first_max_def)
next
  case False
  from foldl_better_split [OF this] obtain pre b post where b: "foldl (better w) None xs = Some b"
    and xs: "xs = pre @ b # post" and "\<forall>x \<in> set pre. w x < w b" "\<forall>x \<in> set post. w x \<le> w b" by blast
  then have "find (\<lambda>x. list_all (\<lambda>y. w y \<le> w x) xs) xs = Some b"
    unfolding xs by (intro find_split) (auto simp: list_all_iff)
  with b show ?thesis by (simp add: first_max_def)
qed

subsection \<open>The loops as a search for the best matching rule\<close>

definition act_hits :: "string \<Rightarrow> (string \<times> string \<times> string \<times> int) list" where
  "act_hits haystack = filter (\<lambda>(act, cat, rx, priority). rule_matches rx haystack) ACTIVITY_RULES"

definition cat_hits :: "string \<Rightarrow> (string \<times> string \<times> int) list" where
  "cat_hits haystack = filter (\<lambda>(cat, rx, priority). rule_matches rx haystack) CATEGORY_RULES"

text \<open>The category candidates: the activity hits in order, then the category hits in order.\<close>

definition candidates :: "string \<Rightarrow> (string \<times> int) list" where
  "candidates haystack =
     map (\<lambda>(act, cat, rx, priority). (cat, priority)) (act_hits haystack) @
     map (\<lambda>(cat, rx, priority). (cat, priority)) (cat_hits haystack)"

abbreviation prio4 :: "string \<times> string \<times> string \<times> int \<Rightarrow> int" where
  "prio4 r \<equiv> snd (snd (snd r))"

lemma activity_loop_foldl:
  "activity_loop h rules (map_option fst acc, map_option (\<lambda>r. fst (snd r)) acc, map_option prio4 acc) =
   (let acc = foldl (better prio4) acc (filter (\<lambda>(act, cat, rx, priority). rule_matches rx h) rules)
    in (map_option fst acc, map_option (\<lambda>r. fst (snd r)) acc, map_option prio4 acc))"
proof (induction rules arbitrary: acc)
  case (Cons r rules)
  obtain act cat rx priority where r: "r = (act, cat, rx, priority)" by (cases r) auto
  show ?case using Cons [of acc] Cons [of "Some r"] unfolding r
    by (simp add: better_def Let_def split: if_splits)
qed simp

lemma category_loop_foldl:
  "category_loop h rules (map_option fst acc, map_option snd acc) =
   (let acc = foldl (better snd) acc (map (\<lambda>(cat, rx, priority). (cat, priority))
      (filter (\<lambda>(cat, rx, priority). rule_matches rx h) rules))
    in (map_option fst acc, map_option snd acc))"
proof (induction rules arbitrary: acc)
  case (Cons r rules)
  obtain cat rx priority where r: "r = (cat, rx, priority)" by (cases r) auto
  show ?case using Cons [of acc] Cons [of "Some (cat, priority)"] unfolding r
    by (simp add: better_def Let_def split: if_splits)
qed simp

lemma foldl_better_map: "(\<And>x. w' (f x) = w x) \<Longrightarrow>
    foldl (better w') (map_option f acc) (map f xs) = map_option f (foldl (better w) acc xs)"
proof (induction xs arbitrary: acc)
  case (Cons x xs)
  have "better w' (map_option f acc) (f x) = map_option f (better w acc x)"
    by (simp add: better_def Cons.prems option.map_comp comp_def)
  with Cons.IH [OF Cons.prems] show ?case by simp
qed simp

lemma classify_loops:
  "activity_loop h ACTIVITY_RULES (None, None, None) = (activity, category, best) \<Longrightarrow>
   category_loop h CATEGORY_RULES (category, best) = (category', best') \<Longrightarrow>
   activity = map_option fst (first_max prio4 (act_hits h)) \<and> category' = map_option fst (first_max snd (candidates h))"
proof -
  assume a: "activity_loop h ACTIVITY_RULES (None, None, None) = (activity, category, best)"
    and c: "category_loop h CATEGORY_RULES (category, best) = (category', best')"
  let ?win = "foldl (better prio4) None (act_hits h)"
  let ?cat = "\<lambda>(act :: string, cat :: string, rx :: string, priority :: int). (cat, priority)"
  from a activity_loop_foldl [of h ACTIVITY_RULES None]
  have act: "activity = map_option fst ?win" "category = map_option (\<lambda>r. fst (snd r)) ?win" "best = map_option prio4 ?win"
    by (simp_all add: act_hits_def Let_def)
  then have "category = map_option fst (map_option ?cat ?win)" "best = map_option snd (map_option ?cat ?win)"
    by (auto simp: option.map_comp comp_def case_prod_beta)
  with c category_loop_foldl [of h CATEGORY_RULES "map_option ?cat ?win"]
  have "category' = map_option fst (foldl (better snd) (map_option ?cat ?win)
      (map (\<lambda>(cat, rx, priority). (cat, priority)) (cat_hits h)))"
    by (simp add: cat_hits_def Let_def)
  moreover have "map_option ?cat ?win = foldl (better snd) None (map ?cat (act_hits h))"
    using foldl_better_map [of snd ?cat prio4 None "act_hits h"] by (simp add: case_prod_beta)
  ultimately have "category' = map_option fst (foldl (better snd) None (candidates h))"
    by (simp add: candidates_def)
  with act show ?thesis by (simp add: foldl_better)
qed

lemma rules_compile:
  "list_all (\<lambda>(act, cat, rx, priority). re_compile False rx \<noteq> None) ACTIVITY_RULES"
  "list_all (\<lambda>(cat, rx, priority). re_compile False rx \<noteq> None) CATEGORY_RULES"
  by code_simp+

lemma rule_categories:
  "list_all (\<lambda>(act, cat, rx, priority). cat \<noteq> [] \<and> cat \<in> set SPEC_CATEGORIES) ACTIVITY_RULES"
  "list_all (\<lambda>(cat, rx, priority). cat \<noteq> [] \<and> cat \<in> set SPEC_CATEGORIES) CATEGORY_RULES"
  by (simp_all add: ACTIVITY_RULES_def CATEGORY_RULES_def SPEC_CATEGORIES_def)

lemma first_max_in: "first_max w xs = Some b \<Longrightarrow> b \<in> set xs"
  unfolding first_max_def by (metis find_Some_iff nth_mem)

lemma candidates_in_spec: "(cat, priority) \<in> set (candidates h) \<Longrightarrow> cat \<noteq> [] \<and> cat \<in> set SPEC_CATEGORIES"
  using rule_categories unfolding candidates_def act_hits_def cat_hits_def list_all_iff by fastforce

lemma classify_eq:
  "classify comm cmdline uid min_user_uid =
     (let h = if cmdline \<noteq> [] then cmdline else comm in
      Classification
        (if uid < min_user_uid then ''system''
         else case first_max snd (candidates h) of None \<Rightarrow> DEFAULT_CATEGORY | Some (cat, _) \<Rightarrow> cat)
        (map_option fst (first_max prio4 (act_hits h))))"
proof -
  define h where "h = (if cmdline \<noteq> [] then cmdline else comm)"
  obtain activity category best where a: "activity_loop h ACTIVITY_RULES (None, None, None) = (activity, category, best)"
    by (metis prod_cases3)
  obtain category' best' where c: "category_loop h CATEGORY_RULES (category, best) = (category', best')"
    by fastforce
  have loops: "activity = map_option fst (first_max prio4 (act_hits h))" "category' = map_option fst (first_max snd (candidates h))"
    using classify_loops [OF a c] by blast+
  show ?thesis
  proof (cases "first_max snd (candidates h)")
    case None
    then show ?thesis
      unfolding classify_def h_def [symmetric] Let_def a c prod.case loops by simp
  next
    case (Some b)
    obtain cat priority where b: "b = (cat, priority)" by fastforce
    from first_max_in [OF Some] candidates_in_spec b have "cat \<noteq> []" by blast
    with Some b show ?thesis
      unfolding classify_def h_def [symmetric] Let_def a c prod.case loops by simp
  qed
qed

lemma classify_in_spec: "cls_category (classify comm cmdline uid min_user_uid) \<in> set SPEC_CATEGORIES"
proof -
  have spec: "''system'' \<in> set SPEC_CATEGORIES" "DEFAULT_CATEGORY \<in> set SPEC_CATEGORIES"
    by (simp_all add: SPEC_CATEGORIES_def DEFAULT_CATEGORY_def)
  have "(case first_max snd (candidates h) of None \<Rightarrow> DEFAULT_CATEGORY | Some (cat, _) \<Rightarrow> cat) \<in> set SPEC_CATEGORIES" for h
  proof (cases "first_max snd (candidates h)")
    case None
    with spec show ?thesis by simp
  next
    case (Some b)
    with first_max_in [OF Some] candidates_in_spec [of "fst b" "snd b" h] show ?thesis by (simp add: case_prod_beta)
  qed
  with spec show ?thesis by (simp only: classify_eq Let_def classification.sel split: if_split) simp
qed

text \<open>
  C13.  \<open>classify\<close> does what its documentation says: the activity is that of the matching activity
  rule of highest priority, the earliest one among equals; the category is that of the best matching
  rule of both tables, where an activity rule wins a tie with a category rule; the uids below
  \<open>min_user_uid\<close> are forced to \<open>system\<close> and keep their activity; with no match the category is \<open>other\<close>.
\<close>

theorem classify_highest_priority:
  "classify comm cmdline uid min_user_uid =
     (let h = if cmdline \<noteq> [] then cmdline else comm in
      Classification
        (if uid < min_user_uid then ''system''
         else case first_max snd (candidates h) of None \<Rightarrow> DEFAULT_CATEGORY | Some (cat, _) \<Rightarrow> cat)
        (map_option fst (first_max prio4 (act_hits h))))"
  by (rule classify_eq)

text \<open>
  Every pattern of the two rule tables compiles, and whatever the process, its category is one of
  the documented ones.
\<close>

theorem category_in_spec:
  "list_all (\<lambda>(act, cat, rx, priority). re_compile False rx \<noteq> None) ACTIVITY_RULES \<and>
   list_all (\<lambda>(cat, rx, priority). re_compile False rx \<noteq> None) CATEGORY_RULES \<and>
   cls_category (classify comm cmdline uid min_user_uid) \<in> set SPEC_CATEGORIES"
  using rules_compile classify_in_spec by blast

end
