(* ===== verification/Redact.thy ===== *)
theory Redact
  imports Regex
begin

text \<open>
  Value-only redaction of command lines (\<open>pipeline/redact.py\<close>): the patterns as the source builds
  them, \<open>_sub\<close> on Python's \<open>re.sub\<close>, and \<open>Redactor.redact\<close>.
\<close>

definition MASK :: string where "MASK = ''***''"

subsection \<open>Patterns\<close>

definition LONG_KEYWORD :: string where
  "LONG_KEYWORD = raw (''(?:passphrase|password|passwd|secret|token|'' @
     ''(?:api|access|secret|private|ssh|sse[-_]c|sse[-_]customer|customer|encryption|signing)'' @ ''[-_]?key)'')"

definition SHORT_KEYWORD :: string where
  "SHORT_KEYWORD = raw ''(?:pass|pat|pwd|auth|credentials?)''"

definition NAME_CHAR :: string where "NAME_CHAR = raw ''[A-Za-z0-9_.-]''"

definition SECRET_NAME :: string where
  "SECRET_NAME = raw ''(?!no[-_])(?=[A-Za-z0-9])(?:'' @ NAME_CHAR @ ''*'' @ LONG_KEYWORD @ ''|(?:'' @ NAME_CHAR @
     raw ''*[-_.])?'' @ SHORT_KEYWORD @ '')''"

definition NAME_START :: string where "NAME_START = raw ''(?<![~w.-])''"

definition VALUE :: string where "VALUE = raw ''((?:`[^`]*`|%[^%]*%|~S+))''"

definition DASHES :: string where "DASHES = raw ''(?:--|-(?-i:(?!D)))''"

definition OPTION_EQ :: string where "OPTION_EQ = NAME_START @ DASHES @ SECRET_NAME @ ''='' @ VALUE"

definition OPTION_SPACE :: string where
  "OPTION_SPACE = NAME_START @ DASHES @ SECRET_NAME @ raw ''[ ~t]+(?!-)'' @ VALUE"

definition DEFINE_EQ :: string where
  "DEFINE_EQ = NAME_START @ raw ''(?-i:-D)(?!no[-_])(?=[A-Za-z0-9])(?-i:(?![A-Z0-9_]+=))'' @ NAME_CHAR @ ''*'' @
     LONG_KEYWORD @ ''='' @ VALUE"

definition KEY_OPTION :: string where
  "KEY_OPTION = NAME_START @ DASHES @ raw ''(?!no[-_])(?=[A-Za-z0-9])'' @ NAME_CHAR @
     raw ''*[-_]key(?:=|[ ~t]+)(?!-)([A-Za-z0-9_-]{24,})(?!~S)''"

definition KEYTOOL_PASSWORD :: string where
  "KEYTOOL_PASSWORD = raw ''(?<!~S)-(?:src|dest)?(?:store|key)pass[ ~t]+(?!-)'' @ VALUE"

definition OPENSSL_PASSWORD :: string where
  "OPENSSL_PASSWORD = raw ''(?<!~S)-pass(?:in|out)[ ~t]+pass:'' @ VALUE"

definition ASSIGNMENT :: string where "ASSIGNMENT = NAME_START @ SECRET_NAME @ ''='' @ VALUE"

definition URL_PASSWORD :: string where
  "URL_PASSWORD = raw ''(?<=://)[^~s/:@]+:([^~s/]+)(?=@[^~s/@]*(?:[/~s]|$))''"

definition BASIC_AUTH :: string where
  "BASIC_AUTH = raw ''(?<![~w-])(?:-u[ ~t]+|--user(?:[ ~t]+|=))[^~s:/%~`]+:([^~s%~`]+)''"

definition AUTH_HEADER :: string where
  "AUTH_HEADER = raw ''~bAuthorization:[ ~t]*((?:[A-Za-z]+[ ~t]+)?[^~s%~`]+)''"

definition BEARER :: string where "BEARER = raw ''~bBearer[ ~t]+([^~s%~`]{16,})''"

definition MYSQL_TOOLS :: "string list" where
  "MYSQL_TOOLS = [''mysql'', ''mariadb'', ''mysqldump'', ''mysqladmin'']"

definition MYSQL_PASSWORD :: string where "MYSQL_PASSWORD = raw ''(?<!~S)-p(~S+)''"

definition SSHPASS_OPTIONS :: string where
  "SSHPASS_OPTIONS = raw (''~s*~S+(?:[ ~t]+-[fdPp][ ~t]+(?:~`[^~`]*~`|%[^%]*%|~S+)'' @
     ''|[ ~t]+-(?:~`[^~`]*~`|%[^%]*%|[^~s%~`])*)*'')"

definition SSHPASS_PASSWORD :: string where "SSHPASS_PASSWORD = raw ''(?<!~S)-p[ ~t]*'' @ VALUE"

definition KNOWN_KEYS :: "string list" where
  "KNOWN_KEYS = [raw ''(?<![A-Za-z0-9])(AKIA[0-9A-Z]{16})'', raw ''(?<![A-Za-z0-9])(gh[pousr]_[A-Za-z0-9]{20,})'',
     raw ''(?<![A-Za-z0-9])(github_pat_[A-Za-z0-9_]{20,})'', raw ''(?<![A-Za-z0-9])(sk-[A-Za-z0-9_-]{16,})'',
     raw ''(?<![A-Za-z0-9])(hf_[A-Za-z0-9]{30,})'']"

subsection \<open>Substitution\<close>

text \<open>\<open>repl\<close>: the text of a match between two positions, with its first group masked.\<close>

definition repl :: "nat \<Rightarrow> string \<Rightarrow> pos \<Rightarrow> string" where
  "repl groups start q =
     (case q of (pre, _, caps) \<Rightarrow>
        let whole = rev (take (length pre - length start) pre) in
        case (if groups = 0 then None else dget caps 1) of
          None \<Rightarrow> MASK
        | Some (a, b) \<Rightarrow> take (a - length start) whole @ MASK @ drop (b - length start) whole)"

text \<open>
  \<open>pattern.sub(repl, text, count)\<close>: the leftmost match, then on from its end; after an empty match
  the next one at the same position must not be empty.  \<open>count = 0\<close> is no limit.
\<close>

definition first_match :: "rx \<Rightarrow> bool \<Rightarrow> string \<Rightarrow> string \<Rightarrow> pos option" where
  "first_match r must_advance pre suf =
     (case filter (\<lambda>q. \<not> must_advance \<or> length (fst (snd q)) < length suf) (rmatch r (pre, suf, [])) of
        [] \<Rightarrow> None | q # _ \<Rightarrow> Some q)"

lemma first_match_advances:
  assumes "first_match r must pre suf = Some q"
  shows "advances (pre, suf, []) q" "spans_ok q" "must \<Longrightarrow> length (fst (snd q)) < length suf"
proof -
  let ?qs = "filter (\<lambda>q. \<not> must \<or> length (fst (snd q)) < length suf) (rmatch r (pre, suf, []))"
  from assms obtain qs where "?qs = q # qs" unfolding first_match_def by (cases ?qs) auto
  then have "q \<in> set ?qs" by (simp only: list.set_intros)
  then have q: "q \<in> set (rmatch r (pre, suf, []))" and m: "\<not> must \<or> length (fst (snd q)) < length suf"
    unfolding filter_set [symmetric] by auto
  from rmatch_advances [OF q] show "advances (pre, suf, []) q" "spans_ok q" by (auto simp: spans_ok_def)
  from m show "must \<Longrightarrow> length (fst (snd q)) < length suf" by simp
qed

function sub_from :: "pattern \<Rightarrow> nat option \<Rightarrow> bool \<Rightarrow> string \<Rightarrow> string \<Rightarrow> string" where
  "sub_from p limit must_advance pre suf =
     (if limit = Some 0 then suf
      else (case first_match (prx p) must_advance pre suf of
          Some q \<Rightarrow>
            repl (pgroups p) pre q @
              sub_from p (map_option (\<lambda>n. n - 1) limit) (length (fst (snd q)) = length suf) (fst q) (fst (snd q))
        | None \<Rightarrow> (case suf of [] \<Rightarrow> [] | c # rest \<Rightarrow> c # sub_from p limit False (c # pre) rest)))"
  by pat_completeness auto
termination
proof (relation "measures [\<lambda>(p, limit, must, pre, suf). length suf, \<lambda>(p, limit, must, pre, suf). if must then 0 else 1]")
  fix p :: pattern and limit must pre suf q
  assume "first_match (prx p) must pre suf = Some q"
  from first_match_advances [OF this] show
    "((p, map_option (\<lambda>n. n - 1) limit, length (fst (snd q)) = length suf, fst q, fst (snd q)), p, limit, must, pre, suf)
     \<in> measures [\<lambda>(p, limit, must, pre, suf). length suf, \<lambda>(p, limit, must, pre, suf). if must then 0 else 1]"
    by (auto dest: advances_length)
qed auto

declare sub_from.simps [simp del]

definition sub_mask :: "pattern \<Rightarrow> nat \<Rightarrow> string \<Rightarrow> string" where
  "sub_mask p n text = sub_from p (if n = 0 then None else Some n) False [] text"

text \<open>A pattern constant of the module is compiled on import; \<open>redact_patterns_compile\<close> below shows that each is.\<close>

definition apply_sub :: "bool \<Rightarrow> string \<Rightarrow> string \<Rightarrow> string" where
  "apply_sub ignorecase rx text = (case re_compile ignorecase rx of None \<Rightarrow> text | Some p \<Rightarrow> sub_mask p 0 text)"

definition argv0_basename :: "string \<Rightarrow> string" where
  "argv0_basename cmdline =
     (let w = takeWhile (\<lambda>c. \<not> is_space c) (dropWhile is_space cmdline)
      in rev (takeWhile (\<lambda>c. c \<noteq> CHR ''/'') (rev w)))"

definition redact_sshpass :: "string \<Rightarrow> string" where
  "redact_sshpass text =
     (case (re_compile False SSHPASS_OPTIONS, re_compile False SSHPASS_PASSWORD) of
        (Some options, Some password) \<Rightarrow>
          (case re_match (prx options) text of
             None \<Rightarrow> text
           | Some q \<Rightarrow> sub_mask password 1 (rev (fst q)) @ fst (snd q))
      | _ \<Rightarrow> text)"

text \<open>The \<open>Redactor\<close> holds its compiled extra patterns.\<close>

definition redact :: "pattern list \<Rightarrow> string \<Rightarrow> string" where
  "redact extra cmdline =
     (let text = cmdline;
          text = if argv0_basename cmdline \<in> set MYSQL_TOOLS then apply_sub False MYSQL_PASSWORD text else text;
          text = if argv0_basename cmdline = ''sshpass'' then redact_sshpass text else text;
          text = apply_sub False KEYTOOL_PASSWORD text;
          text = apply_sub False OPENSSL_PASSWORD text;
          text = apply_sub True DEFINE_EQ text;
          text = apply_sub True OPTION_EQ text;
          text = apply_sub True OPTION_SPACE text;
          text = apply_sub True KEY_OPTION text;
          text = apply_sub True ASSIGNMENT text;
          text = apply_sub False URL_PASSWORD text;
          text = apply_sub False BASIC_AUTH text;
          text = apply_sub True AUTH_HEADER text;
          text = apply_sub True BEARER text;
          text = foldl (\<lambda>text p. sub_mask p 0 text) text extra
      in foldl (\<lambda>text rx. apply_sub False rx text) text KNOWN_KEYS)"

definition new_redactor :: "string list \<Rightarrow> pattern list option" where
  "new_redactor extra_patterns = those (map (re_compile False) extra_patterns)"

lemma redact_patterns_compile:
  "list_all (\<lambda>rx. re_compile False rx \<noteq> None)
     ([MYSQL_PASSWORD, SSHPASS_OPTIONS, SSHPASS_PASSWORD, KEYTOOL_PASSWORD, OPENSSL_PASSWORD, URL_PASSWORD, BASIC_AUTH] @ KNOWN_KEYS)"
  "list_all (\<lambda>rx. re_compile True rx \<noteq> None)
     [DEFINE_EQ, OPTION_EQ, OPTION_SPACE, KEY_OPTION, ASSIGNMENT, AUTH_HEADER, BEARER]"
  by code_simp+

subsection \<open>Redaction only masks\<close>

text \<open>\<open>masking s t\<close>: \<open>t\<close> is \<open>s\<close> with some pairwise disjoint segments replaced by the mask.\<close>

inductive masking :: "string \<Rightarrow> string \<Rightarrow> bool" where
  masking_Nil [intro!]: "masking [] []"
| masking_keep [intro]: "masking s t \<Longrightarrow> masking (c # s) (c # t)"
| masking_mask [intro]: "masking s t \<Longrightarrow> masking (u @ s) (MASK @ t)"

lemma masking_refl [simp, intro!]: "masking s s"
  by (induction s) auto

lemma masking_append: "masking s t \<Longrightarrow> masking s' t' \<Longrightarrow> masking (s @ s') (t @ t')"
proof (induction rule: masking.induct)
  case (masking_mask s t u)
  then show ?case using masking.masking_mask [of "s @ s'" "t @ t'" u] by simp
qed auto

lemma masking_segment: "a \<le> b \<Longrightarrow> masking w (take a w @ MASK @ drop b w)"
proof -
  assume "a \<le> b"
  then have "w = take a w @ take (b - a) (drop a w) @ drop b w"
    by (metis append_take_drop_id drop_drop le_add_diff_inverse2 append.assoc)
  moreover have "masking (take (b - a) (drop a w) @ drop b w) (MASK @ drop b w)" by (intro masking_mask) simp
  ultimately show ?thesis by (metis masking_append masking_refl)
qed

lemma repl_masks:
  assumes "advances (pre, suf, caps) q" "spans_ok q" "suf = u @ fst (snd q)"
  shows "masking u (repl groups pre q)"
proof -
  obtain pre' suf' caps' where q: "q = (pre', suf', caps')" by (cases q) auto
  from assms(1,3) q have pre': "pre' = rev u @ pre" by (auto simp: advances_def)
  have mask: "masking u MASK" using masking_mask [of "[]" "[]" u] by simp
  have ok: "a \<le> b" if "dget caps' 1 = Some (a, b)" for a b
    using assms(2) q map_of_SomeD [OF that] by (force simp: spans_ok_def)
  show ?thesis
    by (auto simp: repl_def q pre' Let_def mask dest: ok [unfolded One_nat_def] intro!: masking_segment diff_le_mono split: option.splits)
qed

lemma sub_from_masks: "masking suf (sub_from p limit must pre suf)"
proof (induction p limit must pre suf rule: sub_from.induct)
  case (1 p limit must pre suf)
  show ?case
  proof (cases "limit = Some 0")
    case True
    then show ?thesis by (subst sub_from.simps) simp
  next
    case False
    show ?thesis
    proof (cases "first_match (prx p) must pre suf")
      case None
      then show ?thesis
        using False "1.IH"(1) [OF False None] by (subst sub_from.simps) (auto split: list.splits)
    next
      case (Some q)
      note q = first_match_advances [OF Some]
      from q(1) obtain u where u: "suf = u @ fst (snd q)" by (auto simp: advances_def)
      have "masking u (repl (pgroups p) pre q)" using q(1,2) u by (rule repl_masks)
      from masking_append [OF this "1.IH"(2) [OF False Some]] show ?thesis
        using False Some u by (subst sub_from.simps) simp
    qed
  qed
qed

lemma sub_mask_masks: "masking text (sub_mask p n text)"
  by (simp add: sub_mask_def sub_from_masks)

abbreviation masked :: "string \<Rightarrow> string \<Rightarrow> bool" where
  "masked \<equiv> masking\<^sup>*\<^sup>*"

lemma masked_apply_sub: "masked s t \<Longrightarrow> masked s (apply_sub ci rx t)"
  by (auto simp: apply_sub_def intro: rtranclp.rtrancl_into_rtrancl sub_mask_masks split: option.splits)

lemma masked_sshpass: "masked s t \<Longrightarrow> masked s (redact_sshpass t)"
proof -
  have "masking t (sub_mask p 1 (rev (fst q)) @ fst (snd q))" if "re_match r t = Some q" for p r q
  proof -
    from match_at_advances that have "t = rev (fst q) @ fst (snd q)" by (fastforce simp: re_match_def advances_def)
    then show ?thesis by (metis masking_append masking_refl sub_mask_masks)
  qed
  then show "masked s t \<Longrightarrow> ?thesis"
    by (auto simp: redact_sshpass_def intro: rtranclp.rtrancl_into_rtrancl split: option.splits)
qed

lemma masked_foldl: "(\<And>t x. masked s t \<Longrightarrow> masked s (f t x)) \<Longrightarrow> masked s t \<Longrightarrow> masked s (foldl f t xs)"
  by (induction xs arbitrary: t) auto

lemma redact_masked: "masked cmdline (redact extra cmdline)"
  unfolding redact_def Let_def
  by (intro masked_foldl masked_apply_sub) (auto intro!: masked_apply_sub masked_sshpass
      intro: rtranclp.rtrancl_into_rtrancl sub_mask_masks)


subsection \<open>Passwords attached to \<open>-p\<close>\<close>

text \<open>The reference: the arguments of a command line, each rewritten on its own.\<close>

abbreviation ns :: "char \<Rightarrow> bool" where
  "ns c \<equiv> \<not> is_space c"

function map_words :: "(string \<Rightarrow> string) \<Rightarrow> string \<Rightarrow> string" where
  "map_words f [] = []"
| "map_words f (c # s) =
     (if is_space c then c # map_words f s
      else f (takeWhile ns (c # s)) @ map_words f (dropWhile ns (c # s)))"
  by pat_completeness auto
termination
  by (relation "measure (\<lambda>(f, s). length s)") (auto intro: le_imp_less_Suc length_dropWhile_le)

definition mask_p :: "string \<Rightarrow> string" where
  "mask_p w = (if take 2 w = ''-p'' \<and> 2 < length w then ''-p'' @ MASK else w)"

text \<open>A greedy repetition of a character class takes the longest run.\<close>

lemma rep_class:
  assumes "lo + length suf \<le> n"
  shows "let run = takeWhile (set_has ci neg items) suf in
     if lo \<le> length run
     then \<exists>qs. rep n (rmatch (CharIn ci neg items)) lo None (pre, suf, caps) =
       (rev run @ pre, dropWhile (set_has ci neg items) suf, caps) # qs
     else rep n (rmatch (CharIn ci neg items)) lo None (pre, suf, caps) = []"
  using assms
proof (induction n arbitrary: lo pre suf)
  case (Suc n)
  show ?case
  proof (cases suf)
    case (Cons c rest)
    from Suc.prems Cons have "(lo - 1) + length rest \<le> n" by auto
    from Suc.IH [OF this, of "c # pre"] show ?thesis
      by (cases lo) (auto simp: Cons Let_def)
  qed (cases lo; simp add: Let_def)
qed (simp add: Let_def)

definition nonspace :: rx where "nonspace = CharIn False False [NotSpace]"

lemma set_has_nonspace [simp]: "set_has False False [NotSpace] = ns"
  by (simp add: set_has_def fun_eq_iff)

lemma set_has_char [simp]: "set_has False False [Ch d] c = (c = d)"
  by (simp add: set_has_def)

definition mysql_rx :: rx where
  "mysql_rx = Cat (Behind True 1 nonspace)
     (Cat (CharIn False False [Ch (CHR ''-'')]) (Cat (CharIn False False [Ch (CHR ''p'')]) (Group 1 (Rep nonspace 1 None))))"

lemma mysql_compile: "re_compile False MYSQL_PASSWORD = Some (Pattern mysql_rx 1)"
  by code_simp

definition word_start :: "string \<Rightarrow> bool" where
  "word_start pre \<longleftrightarrow> pre = [] \<or> is_space (hd pre)"

lemma rmatch_behind_nonspace [simp]:
  "rmatch (Behind True (Suc 0) nonspace) (pre, suf, caps) = (if word_start pre then [(pre, suf, caps)] else [])"
  by (cases pre) (auto simp: nonspace_def word_start_def Let_def)

lemma mysql_first_match:
  "first_match mysql_rx must pre suf =
     (let v = takeWhile ns (drop 2 suf) in
      if word_start pre \<and> take 2 suf = ''-p'' \<and> v \<noteq> []
      then Some (rev v @ CHR ''p'' # CHR ''-'' # pre, dropWhile ns (drop 2 suf),
             [(1, (length pre + 2, length pre + 2 + length v))])
      else None)"
proof (cases "word_start pre \<and> take 2 suf = ''-p''")
  case False
  then have "rmatch mysql_rx (pre, suf, []) = []"
    by (cases suf; cases "tl suf") (auto simp: mysql_rx_def simp del: rmatch.simps(12) split: if_splits)
  with False show ?thesis by (auto simp: first_match_def Let_def)
next
  case True
  note ws = True
  then obtain rest where suf: "suf = CHR ''-'' # CHR ''p'' # rest"
    by (cases suf; cases "tl suf") auto
  let ?p = "CHR ''p'' # CHR ''-'' # pre" and ?v = "takeWhile ns rest"
  have m: "rmatch mysql_rx (pre, suf, []) =
      map (\<lambda>(pre', suf', caps). (pre', suf', dset caps 1 (length ?p, length pre')))
        (rep (1 + length rest) (rmatch nonspace) 1 None (?p, rest, []))"
    using True by (simp add: mysql_rx_def suf del: rep.simps rmatch.simps(12))
  have r: "if 1 \<le> length ?v then \<exists>qs. rep (1 + length rest) (rmatch nonspace) 1 None (?p, rest, []) =
         (rev ?v @ ?p, dropWhile ns rest, []) # qs
       else rep (1 + length rest) (rmatch nonspace) 1 None (?p, rest, []) = []"
    using rep_class [of 1 rest "1 + length rest" False False "[NotSpace]" ?p "[]"]
    unfolding nonspace_def set_has_nonspace Let_def by simp
  have len: "length (dropWhile ns rest) < length suf"
    using length_dropWhile_le [of ns rest] by (simp add: suf)
  show ?thesis
  proof (cases "?v = []")
    case True
    with r have "rep (1 + length rest) (rmatch nonspace) 1 None (?p, rest, []) = []" by (simp del: rep.simps)
    with m True show ?thesis by (simp add: first_match_def suf Let_def del: rep.simps)
  next
    case False
    with r obtain qs where "rep (1 + length rest) (rmatch nonspace) 1 None (?p, rest, []) =
        (rev ?v @ ?p, dropWhile ns rest, []) # qs" by (cases ?v) (auto simp del: rep.simps)
    with m len ws False show ?thesis by (simp add: first_match_def suf Let_def del: rep.simps)
  qed
qed

lemma mysql_no_match:
  "\<not> word_start pre \<or> suf = [] \<or> is_space (hd suf) \<Longrightarrow> first_match mysql_rx must pre suf = None"
  by (cases suf) (auto simp: mysql_first_match Let_def is_space_def)

lemma sub_mysql_skip:
  "suf = c # rest \<Longrightarrow> first_match mysql_rx must pre suf = None \<Longrightarrow>
   sub_from (Pattern mysql_rx 1) None must pre suf = c # sub_from (Pattern mysql_rx 1) None False (c # pre) rest"
  by (subst sub_from.simps) simp

lemma sub_mysql_inside:
  "\<not> word_start pre \<Longrightarrow>
   sub_from (Pattern mysql_rx 1) None must pre suf =
     takeWhile ns suf @ sub_from (Pattern mysql_rx 1) None False (rev (takeWhile ns suf) @ pre) (dropWhile ns suf)"
proof (induction suf arbitrary: pre must)
  case Nil
  then show ?case by (subst (1 2) sub_from.simps) (simp add: mysql_no_match)
next
  case (Cons c s)
  have n: "first_match mysql_rx b pre (c # s) = None" for b using Cons.prems by (simp add: mysql_no_match)
  show ?case
  proof (cases "is_space c")
    case True
    then show ?thesis using sub_mysql_skip [OF refl n, of must] sub_mysql_skip [OF refl n, of False] by simp
  next
    case False
    then have "\<not> word_start (c # pre)" by (simp add: word_start_def)
    from Cons.IH [OF this, of False] show ?thesis using sub_mysql_skip [OF refl n, of must] False by simp
  qed
qed

lemma mask_p_word:
  assumes "ns c"
  shows "(take 2 (c # s) = ''-p'' \<and> takeWhile ns (drop 2 (c # s)) \<noteq> []) =
     (take 2 (takeWhile ns (c # s)) = ''-p'' \<and> 2 < length (takeWhile ns (c # s)))"
  using assms by (cases s; cases "tl s") (auto simp: is_space_def)

lemma sub_mysql_words:
  "word_start pre \<or> suf = [] \<or> is_space (hd suf) \<Longrightarrow>
   sub_from (Pattern mysql_rx 1) None must pre suf = map_words mask_p suf"
proof (induction "length suf" arbitrary: pre suf must rule: less_induct)
  case less
  show ?case
  proof (cases suf)
    case Nil
    then show ?thesis by (subst sub_from.simps) (simp add: mysql_no_match)
  next
    case (Cons c s)
    show ?thesis
    proof (cases "is_space c")
      case True
      then have "first_match mysql_rx must pre suf = None" using Cons by (simp add: mysql_no_match)
      moreover have "word_start (c # pre)" using True by (simp add: word_start_def)
      ultimately show ?thesis using less.hyps [of s "c # pre" False] True Cons sub_mysql_skip [OF Cons] by simp
    next
      case False
      let ?w = "takeWhile ns suf" and ?r = "dropWhile ns suf"
      from less.prems Cons False have ws: "word_start pre" by auto
      have r: "length ?r < length suf" "?r = [] \<or> is_space (hd ?r)"
        using length_dropWhile_le [of ns s] Cons False hd_dropWhile [of ns suf] by (auto simp: less_Suc_eq_le)
      have IH: "sub_from (Pattern mysql_rx 1) None m p ?r = map_words mask_p ?r" for m p
        using less.hyps [OF r(1)] r(2) by blast
      show ?thesis
      proof (cases "take 2 suf = ''-p'' \<and> takeWhile ns (drop 2 suf) \<noteq> []")
        case True
        let ?v = "takeWhile ns (drop 2 suf)"
        from True obtain t where t: "suf = CHR ''-'' # CHR ''p'' # t" by (cases suf; cases "tl suf") auto
        have "ns (CHR ''-'')" "ns (CHR ''p'')" by (simp_all add: is_space_def)
        then have w: "?w = ''-p'' @ ?v" "?r = dropWhile ns (drop 2 suf)" by (simp_all add: t)
        have fm: "first_match mysql_rx must pre suf = Some (rev ?v @ CHR ''p'' # CHR ''-'' # pre, ?r,
            [(1, (length pre + 2, length pre + 2 + length ?v))])"
          using True ws w by (simp add: mysql_first_match Let_def)
        have rp: "repl 1 pre (rev ?v @ CHR ''p'' # CHR ''-'' # pre, ?r,
            [(1, (length pre + 2, length pre + 2 + length ?v))]) = ''-p'' @ MASK"
          by (simp add: repl_def Let_def)
        have "sub_from (Pattern mysql_rx 1) None must pre suf = (''-p'' @ MASK) @ map_words mask_p ?r"
          using fm rp IH by (subst sub_from.simps) simp
        moreover have "mask_p ?w = ''-p'' @ MASK" using True w(1) by (auto simp: mask_p_def)
        ultimately show ?thesis using Cons False by simp
      next
        case no: False
        then have "first_match mysql_rx must pre suf = None" by (auto simp: mysql_first_match Let_def)
        from sub_mysql_skip [OF Cons this] sub_mysql_inside [of "c # pre" False s] False
        have "sub_from (Pattern mysql_rx 1) None must pre suf =
            c # takeWhile ns s @ sub_from (Pattern mysql_rx 1) None False (rev (takeWhile ns s) @ c # pre) (dropWhile ns s)"
          by (simp add: word_start_def)
        also have "dropWhile ns s = ?r" using Cons False by simp
        also note IH
        also have "c # takeWhile ns s @ map_words mask_p ?r = ?w @ map_words mask_p ?r" using Cons False by simp
        also from no mask_p_word [OF False, of s] have "\<not> (take 2 ?w = ''-p'' \<and> 2 < length ?w)" unfolding Cons by blast
        then have "mask_p ?w = ?w" unfolding mask_p_def by (rule if_not_P)
        then have "?w @ map_words mask_p ?r = map_words mask_p suf" using Cons False by simp
        finally show ?thesis .
      qed
    qed
  qed
qed

text \<open>
  The pass for the MySQL tools, a regular-expression substitution, is the same as rewriting every
  argument of the command line on its own: each argument \<open>-p<password>\<close> becomes \<open>-p***\<close>, a bare \<open>-p\<close>
  and every other argument stay as they are, and so does the white space between them.
\<close>

theorem mysql_pass_by_arguments: "apply_sub False MYSQL_PASSWORD text = map_words mask_p text"
  unfolding apply_sub_def mysql_compile option.case sub_mask_def if_P [OF refl]
  by (rule sub_mysql_words) (simp add: word_start_def)

end
