(* ===== verification/Enrich.thy ===== *)
theory Enrich
  imports Process_Rows Calendar Rules Redact
begin

text \<open>Raw census rows to live process rows (\<open>pipeline/enrich.py\<close>).\<close>

definition SSHD_SESSION :: string where
  "SSHD_SESSION = raw ''^sshd(?:-session)?: [^@~s~[]+@(?P<tty>pts/~d+|notty)$''"

definition user_key :: "raw_proc \<Rightarrow> string" where
  "user_key row = (case rp_username row of Some username \<Rightarrow> username | None \<Rightarrow> ''uid:'' @ show_int (rp_uid row))"

definition cmdline_of :: "raw_proc \<Rightarrow> string" where
  "cmdline_of row = (case rp_cmdline row of None \<Rightarrow> [] | Some s \<Rightarrow> s)"

text \<open>\<open>_SSHD_SESSION.match(...)\<close> and its group \<open>tty\<close>, the only group of the pattern.\<close>

definition session_tty :: "string \<Rightarrow> string option" where
  "session_tty cmdline =
     (case re_compile False SSHD_SESSION of None \<Rightarrow> None
      | Some p \<Rightarrow> (case re_match (prx p) cmdline of None \<Rightarrow> None
         | Some (_, _, caps) \<Rightarrow> map_option (\<lambda>(a, b). take (b - a) (drop a cmdline)) (dget caps 1)))"

definition presence_step :: "(string, string) dict \<Rightarrow> raw_proc \<Rightarrow> (string, string) dict" where
  "presence_step presence row =
     (case session_tty (cmdline_of row) of
        None \<Rightarrow> presence
      | Some tty \<Rightarrow> if tty = ''notty'' then dsetdefault presence (user_key row) ''connected''
                   else dset presence (user_key row) ''interactive'')"

definition owner_presence_by_user :: "raw_proc list \<Rightarrow> (string, string) dict" where
  "owner_presence_by_user rows = foldl presence_step [] rows"

definition idle_bucket :: "string option \<Rightarrow> rat option \<Rightarrow> string" where
  "idle_bucket cpu_state idle_for_sec =
     (case (cpu_state, idle_for_sec) of
        (Some _, Some idle) \<Rightarrow>
          if idle < 300 then ''<5m'' else if idle < 3600 then ''5m-1h'' else if idle < 86400 then ''1h-1d'' else ''>1d''
      | _ \<Rightarrow> ''unknown'')"

definition enrich_row :: "(string, string) dict \<Rightarrow> pattern list \<Rightarrow> int \<Rightarrow> bool \<Rightarrow> raw_proc \<Rightarrow> live_proc" where
  "enrich_row presence redactor min_user_uid gpu_measured row =
     (let cmdline = cmdline_of row;
          cls = classify (rp_comm row) cmdline (rp_uid row) min_user_uid;
          username = user_key row
      in \<lparr>lp_raw = row, lp_username = username,
          lp_argv0 = (case rp_argv0 row of Some a \<Rightarrow> if a \<noteq> [] then Some (redact redactor a) else Some a | None \<Rightarrow> None),
          lp_cmdline = redact redactor cmdline,
          lp_category = cls_category cls,
          lp_activity = cls_activity cls,
          lp_cpu_state = (case rp_cpu_state row of Some s \<Rightarrow> if s \<noteq> [] then s else ''unknown'' | None \<Rightarrow> ''unknown''),
          lp_gpu_mem_mb = (if gpu_measured \<and> rp_gpu_mem_mb row = None then Some 0 else rp_gpu_mem_mb row),
          lp_idle_bucket = idle_bucket (rp_cpu_state row) (rp_idle_for_sec row),
          lp_owner_presence = dget_or presence username ''absent'',
          lp_is_user_process = (rp_uid row \<ge> min_user_uid \<and> cls_category cls \<noteq> ''system'')\<rparr>)"

definition enrich_census :: "raw_proc list \<Rightarrow> pattern list \<Rightarrow> int \<Rightarrow> string option \<Rightarrow> live_proc list" where
  "enrich_census rows redactor min_user_uid gpu_status =
     map (enrich_row (owner_presence_by_user rows) redactor min_user_uid (gpu_status = Some ''ok'')) rows"

subsection \<open>Owner presence\<close>

text \<open>What the presence of a user means, read off the whole census at once.\<close>

definition ttys_of :: "string \<Rightarrow> raw_proc list \<Rightarrow> string list" where
  "ttys_of user rows = List.map_filter (\<lambda>row. if user_key row = user then session_tty (cmdline_of row) else None) rows"

definition presence_spec :: "string list \<Rightarrow> string" where
  "presence_spec ttys =
     (if list_ex (\<lambda>tty. tty \<noteq> ''notty'') ttys then ''interactive'' else if ttys \<noteq> [] then ''connected'' else ''absent'')"

lemma ttys_of_snoc:
  "ttys_of user (rows @ [row]) =
     ttys_of user rows @ (if user_key row = user then (case session_tty (cmdline_of row) of None \<Rightarrow> [] | Some t \<Rightarrow> [t]) else [])"
  by (simp add: ttys_of_def map_filter_def split: option.splits)

lemma owner_presence_eq:
  "dget_or (owner_presence_by_user rows) user ''absent'' = presence_spec (ttys_of user rows) \<and>
   (dget (owner_presence_by_user rows) user = None \<longleftrightarrow> ttys_of user rows = [])"
proof (induction rows rule: rev_induct)
  case Nil
  then show ?case by (simp add: owner_presence_by_user_def ttys_of_def map_filter_def dget_or_def presence_spec_def)
next
  case (snoc row rows)
  let ?p = "owner_presence_by_user rows"
  have step: "owner_presence_by_user (rows @ [row]) = presence_step ?p row"
    by (simp add: owner_presence_by_user_def)
  show ?case
  proof (cases "session_tty (cmdline_of row)")
    case None
    with snoc show ?thesis by (simp add: step presence_step_def ttys_of_snoc)
  next
    case (Some tty)
    then show ?thesis using snoc
      by (cases "user_key row = user"; cases "tty = ''notty''"; cases "dget ?p user")
        (auto simp: step presence_step_def ttys_of_snoc presence_spec_def dget_or_def dget_dsetdefault split: if_splits)
  qed
qed

text \<open>
  The owner presence of a user does not depend on the order of the census rows: it is
  \<open>interactive\<close> when some sshd session process of that user has a terminal, else \<open>connected\<close> when there
  is one without a terminal, else \<open>absent\<close>.  The user is the owner of the process, not the name in its
  title.
\<close>

theorem owner_presence_from_sessions:
  "map lp_owner_presence (enrich_census rows redactor min_user_uid gpu_status) =
   map (\<lambda>row. presence_spec (ttys_of (user_key row) rows)) rows"
  by (simp add: enrich_census_def enrich_row_def Let_def owner_presence_eq)

text \<open>Every category that a live row carries is one of the documented ones.\<close>

lemma enrich_category: "p \<in> set (enrich_census rows redactor uid g) \<Longrightarrow> lp_category p \<in> set SPEC_CATEGORIES"
  by (auto simp: enrich_census_def enrich_row_def Let_def classify_in_spec)

lemma enrich_row_username: "lp_username (enrich_row presence redactor uid g row) = user_key row"
  by (simp add: enrich_row_def Let_def)

end
