(* ===== verification/Node_Pipeline.thy ===== *)
theory Node_Pipeline
  imports Node_Metrics Usage Enrich
begin

text \<open>
  The per-node facade (\<open>pipeline/node_pipeline.py\<close>): probe messages and session events in, storage
  records out.  A message is one of the four the probe sends, or any other, which is ignored.
\<close>

record hello_msg =
  he_boot_id :: pyval
  he_btime :: pyval
  he_probe_version :: pyval
  he_python_version :: pyval
  he_hostname_fqdn :: pyval
  he_hardware :: row

datatype message =
    Hello hello_msg
  | Counters counters_msg
  | Census census_msg "raw_proc list option"
  | ErrorMsg pyval pyval
  | OtherMsg pyval

record pipeline =
  np_system :: string
  np_host :: string
  np_label :: string
  np_min_user_uid :: int
  np_redactor :: "pattern list"
  np_minutes :: minute_agg
  np_usage :: usage_agg
  np_summary_sec :: rat
  np_session_id :: nat
  np_boot_id :: pyval
  np_probe_version :: pyval
  np_last_census_at :: "datetime option"
  np_last_minute :: "datetime option"
  np_last_interval :: "datetime option"

definition new_pipeline :: "string \<Rightarrow> string \<Rightarrow> string \<Rightarrow> rat \<Rightarrow> rat \<Rightarrow> rat \<Rightarrow> int \<Rightarrow> pattern list \<Rightarrow> pipeline" where
  "new_pipeline system host label counter_sec summary_sec census_sec min_user_uid redactor =
     \<lparr>np_system = system, np_host = host, np_label = label, np_min_user_uid = min_user_uid, np_redactor = redactor,
      np_minutes = new_minute_agg counter_sec, np_usage = new_usage summary_sec census_sec,
      np_summary_sec = summary_sec, np_session_id = 0, np_boot_id = VNone, np_probe_version = VNone,
      np_last_census_at = None, np_last_minute = None, np_last_interval = None\<rparr>"

definition np_row :: "pipeline \<Rightarrow> row \<Rightarrow> row" where
  "np_row np flds = dmerge [(''system'', VStr (np_system np)), (''node'', VStr (np_host np))] flds"

definition np_event :: "pipeline \<Rightarrow> string \<Rightarrow> pyval \<Rightarrow> datetime \<Rightarrow> nm_record" where
  "np_event np event_type detail recv =
     Record COLLECTION_EVENT (np_row np [(''ts'', VTime recv), (''event_type'', VStr event_type), (''detail'', detail)])"

definition msg_type :: "message \<Rightarrow> pyval" where
  "msg_type msg = (case msg of Hello _ \<Rightarrow> VStr ''hello'' | Counters _ \<Rightarrow> VStr ''counters'' | Census _ _ \<Rightarrow> VStr ''census''
     | ErrorMsg _ _ \<Rightarrow> VStr ''error'' | OtherMsg v \<Rightarrow> v)"

definition late :: "pipeline \<Rightarrow> message \<Rightarrow> datetime \<Rightarrow> nm_record list" where
  "late np msg recv =
     [np_event np ''late_sample'' (VDict [(''type'', msg_type msg), (''recv'', VStr (isoformat recv))]) recv]"

text \<open>\<open>row["minute"]\<close> and \<open>row["interval_start"]\<close> of the aggregators' rows.\<close>

definition row_time :: "string \<Rightarrow> row \<Rightarrow> datetime option" where
  "row_time c row = (case dget row c of Some (VTime t) \<Rightarrow> Some t | _ \<Rightarrow> None)"

fun minute_records :: "pipeline \<Rightarrow> row list \<Rightarrow> nm_record list \<times> pipeline" where
  "minute_records np [] = ([], np)"
| "minute_records np (row # rows) =
     (case minute_records (np\<lparr>np_last_minute := row_time ''minute'' row\<rparr>) rows of
        (out, np') \<Rightarrow> (Record NODE_METRICS_1M (np_row np row) # out, np'))"

fun usage_records :: "pipeline \<Rightarrow> (string \<times> row) list \<Rightarrow> nm_record list \<times> pipeline" where
  "usage_records np [] = ([], np)"
| "usage_records np ((kind, row) # items) =
     (case usage_records (np\<lparr>np_last_interval := row_time ''interval_start'' row\<rparr>) items of
        (out, np') \<Rightarrow> (Record kind (np_row np row) # out, np'))"

definition live_node :: "pipeline \<Rightarrow> datetime \<Rightarrow> string \<Rightarrow> row \<Rightarrow> nm_record" where
  "live_node np recv state extra =
     Record LIVE_NODE (np_row np ([(''label'', VStr (np_label np)), (''updated_at'', VTime recv),
       (''session_state'', VStr state)] @ extra))"

definition np_hello :: "pipeline \<Rightarrow> hello_msg \<Rightarrow> datetime \<Rightarrow> nm_record list \<times> pipeline" where
  "np_hello np msg recv =
     (let np = np\<lparr>np_boot_id := he_boot_id msg, np_probe_version := he_probe_version msg\<rparr>;
          flds = [(''boot_id'', he_boot_id msg), (''btime'', he_btime msg), (''collected_at'', VTime recv),
            (''probe_version'', he_probe_version msg), (''python_version'', he_python_version msg),
            (''hostname_fqdn'', he_hostname_fqdn msg)];
          flds = dmerge flds (he_hardware msg);
          out = [Record NODE_HARDWARE (np_row np flds)]
      in (if he_hostname_fqdn msg \<noteq> VStr (np_host np)
          then out @ [np_event np ''hostname_mismatch''
            (VDict [(''expected'', VStr (np_host np)), (''reported'', he_hostname_fqdn msg)]) recv]
          else out, np))"

definition is_late :: "datetime \<Rightarrow> datetime option \<Rightarrow> bool" where
  "is_late t prev = (case prev of None \<Rightarrow> False | Some l \<Rightarrow> instant t \<le> instant l)"

definition np_counters :: "pipeline \<Rightarrow> counters_msg \<Rightarrow> datetime \<Rightarrow> (nm_record list \<times> pipeline) res" where
  "np_counters np msg recv =
     (if is_late (floor_minute recv) (np_last_minute np) then Inr (late np (Counters msg) recv, np)
      else (case add_counters (np_minutes np) msg recv (np_session_id np) of
          Inl e \<Rightarrow> Inl e
        | Inr (rows, minutes) \<Rightarrow>
            (let (out, np) = minute_records (np\<lparr>np_minutes := minutes\<rparr>) rows;
                 total = mem_total_kb (cm_mem msg); avail = mem_available_kb (cm_mem msg)
             in Inr (out @ [live_node np recv ''up''
                  [(''boot_id'', np_boot_id np), (''probe_version'', np_probe_version np), (''load1'', cm_load1 msg),
                   (''mem_used_kb'', opt_diff total avail), (''mem_total_kb'', of_opt VInt total),
                   (''procs_total'', cm_procs_total msg), (''last_census_at'', of_opt VTime (np_last_census_at np))]], np))))"

definition np_census :: "pipeline \<Rightarrow> census_msg \<Rightarrow> raw_proc list option \<Rightarrow> datetime \<Rightarrow> (nm_record list \<times> pipeline) res" where
  "np_census np msg processes recv =
     (case processes of
        None \<Rightarrow>
          if is_late (floor_minute recv) (np_last_minute np) then Inr (late np (Census msg processes) recv, np)
          else (case add_census_minute (np_minutes np) msg recv of
              Inl e \<Rightarrow> Inl e
            | Inr minutes \<Rightarrow> Inr ([], np\<lparr>np_last_census_at := Some recv, np_minutes := minutes\<rparr>))
      | Some rows \<Rightarrow>
          if is_late (interval_floor (np_summary_sec np) recv) (np_last_interval np)
          then Inr (late np (Census msg processes) recv, np)
          else
            (let np = np\<lparr>np_last_census_at := Some recv\<rparr>;
                 enriched = enrich_census rows (np_redactor np) (np_min_user_uid np) (cn_gpu_status msg);
                 out = [Record LIVE_PROCESSES (np_row np [(''ts'', VTime recv),
                   (''processes'', VList (map (\<lambda>p. VDict (live_row p)) enriched))])]
             in case add_census (np_usage np) enriched recv (cn_gpu_status msg) of
                  Inl e \<Rightarrow> Inl e
                | Inr (items, usage) \<Rightarrow>
                    (let (recs, np) = usage_records (np\<lparr>np_usage := usage\<rparr>) items
                     in case add_census_minute (np_minutes np) msg recv of
                          Inl e \<Rightarrow> Inl e
                        | Inr minutes \<Rightarrow> Inr (out @ recs, np\<lparr>np_minutes := minutes\<rparr>))))"

definition on_message :: "pipeline \<Rightarrow> message \<Rightarrow> datetime \<Rightarrow> (nm_record list \<times> pipeline) res" where
  "on_message np msg recv =
     (case require_aware recv of
        Inl e \<Rightarrow> Inl e
      | Inr _ \<Rightarrow> (case msg of
            Hello m \<Rightarrow> Inr (np_hello np m recv)
          | Counters m \<Rightarrow> np_counters np m recv
          | Census m processes \<Rightarrow> np_census np m processes recv
          | ErrorMsg place text \<Rightarrow>
              Inr ([np_event np ''probe_error'' (VDict [(''where'', place), (''message'', text)]) recv], np)
          | OtherMsg _ \<Rightarrow> Inr ([], np)))"

definition on_event :: "pipeline \<Rightarrow> string \<Rightarrow> row \<Rightarrow> datetime \<Rightarrow> (nm_record list \<times> pipeline) res" where
  "on_event np kind detail recv =
     (case require_aware recv of
        Inl e \<Rightarrow> Inl e
      | Inr _ \<Rightarrow>
          (let np = (if kind = ''session_started'' then np\<lparr>np_session_id := np_session_id np + 1\<rparr> else np);
               out = [np_event np kind (VDict detail) recv]
           in Inr (if kind = ''session_lost'' then out @ [live_node np recv ''down'' []] else out, np)))"

definition flush_pipeline :: "pipeline \<Rightarrow> nm_record list \<times> pipeline" where
  "flush_pipeline np =
     (let (rows, minutes) = flush_minutes (np_minutes np);
          (out1, np) = minute_records (np\<lparr>np_minutes := minutes\<rparr>) rows;
          (items, usage) = flush_usage (np_usage np);
          (out2, np) = usage_records (np\<lparr>np_usage := usage\<rparr>) items
      in (out1 @ out2, np))"

subsection \<open>Sequences of calls\<close>

text \<open>What the session and the soak replay call on one pipeline; a call that raises has no effect.\<close>

datatype pipe_call = OnMessage message datetime | OnEvent string row datetime | Flush

fun pipe_step :: "pipeline \<Rightarrow> pipe_call \<Rightarrow> nm_record list \<times> pipeline" where
  "pipe_step np (OnMessage msg recv) = (case on_message np msg recv of Inl _ \<Rightarrow> ([], np) | Inr r \<Rightarrow> r)"
| "pipe_step np (OnEvent kind detail recv) = (case on_event np kind detail recv of Inl _ \<Rightarrow> ([], np) | Inr r \<Rightarrow> r)"
| "pipe_step np Flush = flush_pipeline np"

fun run_calls :: "('s \<Rightarrow> 'c \<Rightarrow> 'r list \<times> 's) \<Rightarrow> 's \<Rightarrow> 'c list \<Rightarrow> 'r list \<times> 's" where
  "run_calls step s [] = ([], s)"
| "run_calls step s (c # cs) =
     (case step s c of (rs, s) \<Rightarrow> case run_calls step s cs of (rest, s) \<Rightarrow> (rs @ rest, s))"

subsection \<open>Components that emit keys in increasing order\<close>

definition above :: "int option \<Rightarrow> int list \<Rightarrow> bool" where
  "above bound ks \<longleftrightarrow> sorted_wrt (<) ks \<and> (\<forall>k \<in> set ks. case bound of None \<Rightarrow> True | Some b \<Rightarrow> b < k)"

definition newest :: "int option \<Rightarrow> int list \<Rightarrow> int option" where
  "newest bound ks = (if ks = [] then bound else Some (last ks))"

lemma above_Nil [simp]: "above bound []"
  by (simp add: above_def)

lemma newest_Nil [simp]: "newest bound [] = bound"
  by (simp add: newest_def)

lemma newest_append: "newest bound (ks @ ls) = newest (newest bound ks) ls"
  by (simp add: newest_def)

lemma above_append: "above bound ks \<Longrightarrow> above (newest bound ks) ls \<Longrightarrow> above bound (ks @ ls)"
proof -
  assume k: "above bound ks" and l: "above (newest bound ks) ls"
  have last: "x \<le> last ks" if "x \<in> set ks" for x
    using k that by (induction ks) (auto simp: above_def less_imp_le)
  have "x < y" if "x \<in> set ks" "y \<in> set ls" for x y
  proof -
    from that(1) have "ks \<noteq> []" by auto
    with l that(2) have "last ks < y" by (auto simp: above_def newest_def)
    with last [OF that(1)] show ?thesis by simp
  qed
  moreover have "case bound of None \<Rightarrow> True | Some b \<Rightarrow> b < y" if "y \<in> set ls" for y
  proof (cases "ks = []")
    case True
    with l that show ?thesis by (simp add: above_def)
  next
    case False
    with l that have "last ks < y" by (auto simp: above_def newest_def)
    moreover have "case bound of None \<Rightarrow> True | Some b \<Rightarrow> b < last ks" using k False by (simp add: above_def)
    ultimately show ?thesis by (auto split: option.splits)
  qed
  ultimately show ?thesis using k l by (auto simp: above_def sorted_wrt_append)
qed

text \<open>
  The contract: every call keeps the invariant, and the keys of what it emits increase, start above
  the front (the newest key emitted so far) and move the front to the last of them.
\<close>

locale increasing_emitter =
  fixes step :: "'s \<Rightarrow> 'c \<Rightarrow> 'r list \<times> 's"
    and inv :: "'s \<Rightarrow> bool"
    and front :: "'s \<Rightarrow> int option"
    and keys :: "'r list \<Rightarrow> int list"
  assumes keys_append: "keys (xs @ ys) = keys xs @ keys ys"
    and step_inv: "inv s \<Longrightarrow> step s c = (rs, s') \<Longrightarrow> inv s'"
    and step_above: "inv s \<Longrightarrow> step s c = (rs, s') \<Longrightarrow> above (front s) (keys rs)"
    and step_front: "inv s \<Longrightarrow> step s c = (rs, s') \<Longrightarrow> front s' = newest (front s) (keys rs)"
begin

lemma keys_Nil: "keys [] = []"
  using keys_append [of "[]" "[]"] by simp

lemma run_above:
  "inv s \<Longrightarrow> run_calls step s cs = (rs, s') \<Longrightarrow> inv s' \<and> above (front s) (keys rs) \<and> front s' = newest (front s) (keys rs)"
proof (induction cs arbitrary: s rs)
  case Nil
  then show ?case by (simp add: keys_Nil)
next
  case (Cons c cs)
  obtain rs1 s1 where st: "step s c = (rs1, s1)" by fastforce
  obtain rs2 where run: "run_calls step s1 cs = (rs2, s')" and rs: "rs = rs1 @ rs2"
    using Cons.prems(2) st by (auto split: prod.splits)
  from Cons.IH [OF step_inv [OF Cons.prems(1) st] run] step_above [OF Cons.prems(1) st] step_front [OF Cons.prems(1) st]
  show ?case by (auto simp: rs keys_append newest_append intro: above_append)
qed

lemma run_increasing: "inv s \<Longrightarrow> sorted_wrt (<) (keys (fst (run_calls step s cs)))"
  using run_above [of s cs] by (cases "run_calls step s cs") (auto simp: above_def)

end

subsection \<open>Rows keep the identity of the node\<close>

lemma dget_np_row:
  "dwf flds \<Longrightarrow> dget (np_row np flds) k =
     (case dget flds k of Some v \<Rightarrow> Some v
      | None \<Rightarrow> if k = ''system'' then Some (VStr (np_system np)) else if k = ''node'' then Some (VStr (np_host np)) else None)"
  by (auto simp: np_row_def dget_dmerge split: option.splits)

lemma keys_np_row: "fst ` set (np_row np flds) = {''system'', ''node''} \<union> fst ` set flds"
  by (auto simp: np_row_def keys_dmerge)

lemma np_row_cong: "np_system np' = np_system np \<Longrightarrow> np_host np' = np_host np \<Longrightarrow> np_row np' flds = np_row np flds"
  by (simp add: np_row_def)

definition has_identity :: "nm_record \<Rightarrow> bool" where
  "has_identity r \<longleftrightarrow> {''system'', ''node''} \<subseteq> fst ` set (rrow r)"

lemma has_identity_np_row [simp]: "has_identity (Record k (np_row np flds))"
  by (auto simp: has_identity_def keys_np_row)

subsection \<open>The aggregators behind the pipeline\<close>

lemma NODE_METRICS_COLUMNS_distinct: "distinct NODE_METRICS_COLUMNS"
  by (simp add: NODE_METRICS_COLUMNS_def)

lemma minute_row_dwf: "dwf (minute_row e cur slot)"
  by (simp add: dwf_def minute_row_get(1) NODE_METRICS_COLUMNS_distinct)

lemma minute_row_time: "row_time ''minute'' (minute_row e cur slot) = Some (mi_minute cur)"
  by (simp add: row_time_def minute_row_def Let_def)

definition open_minute :: "minute_agg \<Rightarrow> int option" where
  "open_minute ma = map_option (\<lambda>cur. instant (mi_minute cur)) (ma_open ma)"

lemma fold_sample_minute [simp]: "mi_minute (fold_sample cur msg recv) = mi_minute cur"
  by (simp add: fold_sample_def Let_def split: option.splits)

text \<open>\<open>add_counters\<close> emits nothing and keeps or opens a minute, or closes the open one and opens a later one.\<close>

lemma add_counters_emits:
  assumes "add_counters ma msg recv sid = Inr (rows, ma')"
  shows "(rows = [] \<and> open_minute ma' = Some (case open_minute ma of None \<Rightarrow> instant (floor_minute recv) | Some k \<Rightarrow> k)) \<or>
    (\<exists>cur slot e. ma_open ma = Some cur \<and> rows = [minute_row e cur slot] \<and> instant (mi_minute cur) < instant (floor_minute recv) \<and>
       open_minute ma' = Some (instant (floor_minute recv)))"
proof -
  have aware: "require_aware recv = Inr recv"
    using assms by (cases "dt_offset recv") (simp_all add: add_counters_def require_aware_def)
  show ?thesis
    using assms unfolding add_counters_def aware
    by (auto simp: roll_minute_def close_minute_def open_minute_def new_minute_def Let_def split: option.splits if_splits)
qed

lemma add_census_minute_open: "add_census_minute ma msg recv = Inr ma' \<Longrightarrow> ma_open ma' = ma_open ma"
  by (auto simp: add_census_minute_def Let_def split: sum.splits if_splits)

lemma flush_rows_times: "(k, row) \<in> set (flush_rows e iv) \<Longrightarrow> row_time ''interval_start'' row = Some (iv_start iv) \<and> dwf row"
proof -
  have "distinct (dkeys (tally_row t st n ex g omit)) \<and> set (dkeys (tally_row t st n ex g omit)) \<subseteq> set COMMON_COLUMNS \<and>
      row_time ''interval_start'' (tally_row t st n ex g omit) = Some st" for t st n ex g omit
    by (auto simp: tally_row_def Let_def COMMON_COLUMNS_def row_time_def)
  note t = this
  have c: "''username'' \<notin> set COMMON_COLUMNS" "''user_count_avg'' \<notin> set COMMON_COLUMNS"
    "''user_count_max'' \<notin> set COMMON_COLUMNS" "''active_user_count_avg'' \<notin> set COMMON_COLUMNS"
    by (simp_all add: COMMON_COLUMNS_def)
  assume "(k, row) \<in> set (flush_rows e iv)"
  then consider t n ex g omit name where "row = (''username'', VStr name) # tally_row t (iv_start iv) n ex g omit"
    | t n ex g omit a b d where "row = tally_row t (iv_start iv) n ex g omit @
        [(''user_count_avg'', a), (''user_count_max'', b), (''active_user_count_avg'', d)]"
    by (auto simp: flush_rows_def)
  then show ?thesis
  proof cases
    case 1
    from t [of t "iv_start iv" n ex g omit] c(1) have "''username'' \<notin> set (dkeys (tally_row t (iv_start iv) n ex g omit))" by blast
    with 1 t [of t "iv_start iv" n ex g omit] show ?thesis by (simp add: dwf_def row_time_def)
  next
    case 2
    then have "dget row ''interval_start'' = Some (VTime (iv_start iv))" by (simp add: tally_row_def Let_def)
    moreover from t [of t "iv_start iv" n ex g omit] c(2,3,4) have
      "''user_count_avg'' \<notin> set (dkeys (tally_row t (iv_start iv) n ex g omit))"
      "''user_count_max'' \<notin> set (dkeys (tally_row t (iv_start iv) n ex g omit))"
      "''active_user_count_avg'' \<notin> set (dkeys (tally_row t (iv_start iv) n ex g omit))" by blast+
    with 2 t [of t "iv_start iv" n ex g omit] have "dwf row" by (simp add: dwf_def)
    ultimately show ?thesis by (simp add: row_time_def)
  qed
qed

lemma minute_records_single [simp]:
  "minute_records np [row] = ([Record NODE_METRICS_1M (np_row np row)], np\<lparr>np_last_minute := row_time ''minute'' row\<rparr>)"
  by simp

lemma usage_records_all:
  "\<forall>(k, row) \<in> set items. row_time ''interval_start'' row = Some t \<Longrightarrow>
   usage_records np items = (map (\<lambda>(k, row). Record k (np_row np row)) items,
     if items = [] then np else np\<lparr>np_last_interval := Some t\<rparr>)"
proof (induction items arbitrary: np)
  case (Cons e items)
  obtain k row where e: "e = (k, row)" by (cases e)
  have "np_row (np\<lparr>np_last_interval := x\<rparr>) = np_row np" for x by (simp add: np_row_def fun_eq_iff)
  with Cons e show ?case by auto
qed simp

subsection \<open>The invariant of the pipeline\<close>

definition lt_opt :: "int option \<Rightarrow> int option \<Rightarrow> bool" where
  "lt_opt a b \<longleftrightarrow> (case (a, b) of (Some x, Some y) \<Rightarrow> x < y | _ \<Rightarrow> True)"

definition minute_front :: "pipeline \<Rightarrow> int option" where
  "minute_front np = map_option instant (np_last_minute np)"

definition interval_front :: "pipeline \<Rightarrow> int option" where
  "interval_front np = map_option instant (np_last_interval np)"

text \<open>What is open in an aggregator is newer than what the pipeline has emitted.\<close>

definition pipe_inv :: "pipeline \<Rightarrow> bool" where
  "pipe_inv np \<longleftrightarrow> lt_opt (minute_front np) (open_minute (np_minutes np)) \<and>
     lt_opt (interval_front np) (open_start (np_usage np)) \<and> ua_interval (np_usage np) = np_summary_sec np"

definition times_of :: "string \<Rightarrow> string \<Rightarrow> nm_record list \<Rightarrow> int list" where
  "times_of kind c rs =
     List.map_filter (\<lambda>r. if rkind r = kind then map_option instant (row_time c (rrow r)) else None) rs"

abbreviation metric_minutes :: "nm_record list \<Rightarrow> int list" where
  "metric_minutes \<equiv> times_of NODE_METRICS_1M ''minute''"

abbreviation usage_starts :: "nm_record list \<Rightarrow> int list" where
  "usage_starts \<equiv> times_of NODE_USAGE_5M ''interval_start''"

lemma times_of_append: "times_of k c (xs @ ys) = times_of k c xs @ times_of k c ys"
  by (simp add: times_of_def map_filter_def)

lemma times_of_Nil [simp]: "times_of k c [] = []"
  by (simp add: times_of_def map_filter_def)

lemma times_of_Cons:
  "times_of k c (r # rs) = (if rkind r = k then (case row_time c (rrow r) of None \<Rightarrow> [] | Some t \<Rightarrow> [instant t]) else []) @ times_of k c rs"
  by (simp add: times_of_def map_filter_def split: option.splits)

lemma times_of_other: "\<forall>r \<in> set rs. rkind r \<noteq> k \<Longrightarrow> times_of k c rs = []"
  by (induction rs) (auto simp: times_of_Cons)

lemma row_time_np_row: "dwf row \<Longrightarrow> row_time c row = Some t \<Longrightarrow> row_time c (np_row np row) = Some t"
  unfolding row_time_def by (cases "dget row c") (simp_all add: dget_np_row)

lemma kinds_neq [simp]:
  "LIVE_PROCESSES \<noteq> NODE_METRICS_1M" "LIVE_PROCESSES \<noteq> NODE_USAGE_5M" "LIVE_NODE \<noteq> NODE_METRICS_1M"
  "LIVE_NODE \<noteq> NODE_USAGE_5M" "NODE_METRICS_1M \<noteq> NODE_USAGE_5M" "USER_USAGE_5M \<noteq> NODE_METRICS_1M"
  "USER_USAGE_5M \<noteq> NODE_USAGE_5M" "NODE_USAGE_5M \<noteq> NODE_METRICS_1M" "NODE_HARDWARE \<noteq> NODE_METRICS_1M"
  "NODE_HARDWARE \<noteq> NODE_USAGE_5M" "COLLECTION_EVENT \<noteq> NODE_METRICS_1M" "COLLECTION_EVENT \<noteq> NODE_USAGE_5M"
  by (simp_all add: kind_defs)

lemma record_kinds [simp]:
  "rkind (np_event np e d recv) = COLLECTION_EVENT" "rkind (live_node np recv st x) = LIVE_NODE"
  by (simp_all add: np_event_def live_node_def)

lemma usage_starts_flush:
  "usage_starts (map (\<lambda>(k, row). Record k (np_row np row)) (flush_rows e iv)) = [instant (iv_start iv)]"
proof -
  let ?rec = "\<lambda>(k, row). Record k (np_row np row)"
  obtain users row where f: "flush_rows e iv = users @ [(NODE_USAGE_5M, row)]" and u: "\<forall>(k, r) \<in> set users. k = USER_USAGE_5M"
    by (auto simp: flush_rows_def case_prod_beta)
  have "usage_starts (map ?rec users) = []"
    by (rule times_of_other) (use u in \<open>auto simp: kind_defs\<close>)
  moreover have "row_time ''interval_start'' (np_row np row) = Some (iv_start iv)"
    using flush_rows_times [of NODE_USAGE_5M row e iv] f by (auto intro: row_time_np_row)
  ultimately show ?thesis unfolding f by (simp add: times_of_append times_of_Cons)
qed

lemma metric_minutes_flush:
  "metric_minutes (map (\<lambda>(k, row). Record k (np_row np row)) (flush_rows e iv)) = []"
  by (rule times_of_other) (auto simp: flush_rows_def kind_defs)

text \<open>What one call must achieve, for both fronts.\<close>

definition good :: "pipeline \<Rightarrow> nm_record list \<Rightarrow> pipeline \<Rightarrow> bool" where
  "good np rs np' \<longleftrightarrow> pipe_inv np' \<and>
     above (minute_front np) (metric_minutes rs) \<and> minute_front np' = newest (minute_front np) (metric_minutes rs) \<and>
     above (interval_front np) (usage_starts rs) \<and> interval_front np' = newest (interval_front np) (usage_starts rs)"

lemma good_silent:
  assumes "pipe_inv np'" "np_last_minute np' = np_last_minute np" "np_last_interval np' = np_last_interval np"
    and "\<forall>r \<in> set rs. rkind r \<noteq> NODE_METRICS_1M \<and> rkind r \<noteq> NODE_USAGE_5M"
  shows "good np rs np'"
  using assms times_of_other [of rs NODE_METRICS_1M "''minute''"] times_of_other [of rs NODE_USAGE_5M "''interval_start''"]
  by (simp add: good_def minute_front_def interval_front_def)

lemma above_single [simp]: "above b [k] = lt_opt b (Some k)"
  by (auto simp: above_def lt_opt_def split: option.splits)

lemma lt_opt_simps [simp]: "lt_opt None b" "lt_opt a None"
  by (auto simp: lt_opt_def split: option.splits)

lemma lt_opt_Some [simp]: "lt_opt (Some a) (Some b) = (a < b)"
  by (simp add: lt_opt_def)

lemma not_late: "\<not> is_late t prev \<Longrightarrow> lt_opt (map_option instant prev) (Some (instant t))"
  by (auto simp: is_late_def split: option.splits)

lemma np_hello_good: "pipe_inv np \<Longrightarrow> np_hello np msg recv = (rs, np') \<Longrightarrow> good np rs np'"
  by (rule good_silent) (auto simp: np_hello_def Let_def pipe_inv_def minute_front_def interval_front_def split: if_splits)

lemma np_counters_good:
  assumes inv: "pipe_inv np" and step: "np_counters np msg recv = Inr (rs, np')"
  shows "good np rs np'"
proof (cases "is_late (floor_minute recv) (np_last_minute np)")
  case True
  with step inv show ?thesis by (intro good_silent) (auto simp: np_counters_def late_def)
next
  case False
  note nl = not_late [OF False]
  from step False obtain rows minutes where add: "add_counters (np_minutes np) msg recv (np_session_id np) = Inr (rows, minutes)"
    by (auto simp: np_counters_def split: sum.splits)
  from add_counters_emits [OF add] show ?thesis
  proof (elim disjE conjE exE)
    assume r: "rows = []" and om: "open_minute minutes = Some (case open_minute (np_minutes np) of None \<Rightarrow> instant (floor_minute recv) | Some k \<Rightarrow> k)"
    from step False add r have np': "np' = np\<lparr>np_minutes := minutes\<rparr>" and rs: "\<forall>r \<in> set rs. rkind r = LIVE_NODE"
      by (auto simp: np_counters_def Let_def)
    have "pipe_inv np'" using inv nl om np'
      by (auto simp: pipe_inv_def minute_front_def interval_front_def split: option.splits)
    with np' rs show ?thesis by (intro good_silent) auto
  next
    fix cur slot e
    assume cur: "ma_open (np_minutes np) = Some cur" and r: "rows = [minute_row e cur slot]"
      and lt: "instant (mi_minute cur) < instant (floor_minute recv)" and om: "open_minute minutes = Some (instant (floor_minute recv))"
    let ?row = "minute_row e cur slot"
    from step False add r obtain ln where np': "np' = np\<lparr>np_minutes := minutes, np_last_minute := Some (mi_minute cur)\<rparr>"
      and rs: "rs = [Record NODE_METRICS_1M (np_row (np\<lparr>np_minutes := minutes\<rparr>) ?row), ln]" and ln: "rkind ln = LIVE_NODE"
      by (auto simp: np_counters_def Let_def minute_row_time)
    have mm: "metric_minutes rs = [instant (mi_minute cur)]" "usage_starts rs = []"
      by (simp_all add: rs ln times_of_Cons row_time_np_row [OF minute_row_dwf minute_row_time])
    show ?thesis unfolding good_def mm using inv cur lt om np'
      by (auto simp: pipe_inv_def minute_front_def interval_front_def open_minute_def newest_def)
  qed
qed

lemma add_census_start:
  "add_census ua rows recv gpu = Inr (items, ua') \<Longrightarrow>
   ua_interval ua' = ua_interval ua \<and>
   ((items = [] \<and> open_start ua' = Some (case open_start ua of None \<Rightarrow> instant (interval_floor (ua_interval ua) recv) | Some k \<Rightarrow> k)) \<or>
    (\<exists>iv. ua_open ua = Some iv \<and> items = flush_rows (ua_expected ua) iv \<and>
       instant (iv_start iv) < instant (interval_floor (ua_interval ua) recv) \<and>
       open_start ua' = Some (instant (interval_floor (ua_interval ua) recv))))"
  by (auto simp: add_census_def open_start_def flush_usage_def interval_add_def new_interval_def require_aware_def Let_def
      split: if_splits option.splits)

lemma flush_rows_records:
  "usage_records np (flush_rows e iv) =
     (map (\<lambda>(k, row). Record k (np_row np row)) (flush_rows e iv), np\<lparr>np_last_interval := Some (iv_start iv)\<rparr>)"
proof -
  have "\<forall>(k, row) \<in> set (flush_rows e iv). row_time ''interval_start'' row = Some (iv_start iv)"
    using flush_rows_times by blast
  from usage_records_all [OF this] show ?thesis by (simp add: flush_rows_def)
qed

lemma np_census_good:
  assumes inv: "pipe_inv np" and step: "np_census np msg processes recv = Inr (rs, np')"
  shows "good np rs np'"
proof (cases processes)
  case None
  from step inv show ?thesis
    by (intro good_silent) (auto simp: np_census_def None late_def pipe_inv_def minute_front_def interval_front_def open_minute_def
        dest: add_census_minute_open split: if_splits sum.splits)
next
  case (Some rows)
  show ?thesis
  proof (cases "is_late (interval_floor (np_summary_sec np) recv) (np_last_interval np)")
    case True
    with step inv Some show ?thesis by (intro good_silent) (auto simp: np_census_def late_def)
  next
    case False
    note nl = not_late [OF False]
    let ?np = "np\<lparr>np_last_census_at := Some recv\<rparr>"
    let ?en = "enrich_census rows (np_redactor np) (np_min_user_uid np) (cn_gpu_status msg)"
    from step Some False obtain items usage where
      add: "add_census (np_usage np) ?en recv (cn_gpu_status msg) = Inr (items, usage)"
      by (auto simp: np_census_def Let_def split: sum.splits)
    obtain recs np2 where ur: "usage_records (?np\<lparr>np_usage := usage\<rparr>) items = (recs, np2)" by fastforce
    from step Some False add ur obtain live minutes where np': "np' = np2\<lparr>np_minutes := minutes\<rparr>"
      and rs: "rs = live # recs" and live: "rkind live = LIVE_PROCESSES" and m: "add_census_minute (np_minutes np2) msg recv = Inr minutes"
      by (auto simp: np_census_def Let_def split: sum.splits)
    have times: "metric_minutes rs = metric_minutes recs" "usage_starts rs = usage_starts recs"
      by (simp_all add: rs live times_of_Cons)
    note open_same = add_census_minute_open [OF m]
    note c = add_census_start [OF add]
    from c have "items = [] \<or> (\<exists>iv. items = flush_rows (ua_expected (np_usage np)) iv)" by blast
    then have mins: "np_minutes np2 = np_minutes np" using ur by (auto simp: flush_rows_records)
    from c show ?thesis
    proof (elim conjE disjE exE)
      assume "items = []" and iv: "ua_interval usage = ua_interval (np_usage np)"
        and om: "open_start usage = Some (case open_start (np_usage np) of None \<Rightarrow> instant (interval_floor (ua_interval (np_usage np)) recv) | Some k \<Rightarrow> k)"
      then have "recs = []" "np2 = ?np\<lparr>np_usage := usage\<rparr>" using ur by auto
      moreover have "lt_opt (interval_front np) (open_start usage)" using inv nl om
        by (auto simp: pipe_inv_def interval_front_def split: option.splits)
      ultimately show ?thesis using inv np' iv open_same times
        by (auto simp: good_def pipe_inv_def minute_front_def interval_front_def open_minute_def)
    next
      fix iv
      assume cur: "ua_open (np_usage np) = Some iv" and items: "items = flush_rows (ua_expected (np_usage np)) iv"
        and lt: "instant (iv_start iv) < instant (interval_floor (ua_interval (np_usage np)) recv)"
        and om: "open_start usage = Some (instant (interval_floor (ua_interval (np_usage np)) recv))"
        and ivl: "ua_interval usage = ua_interval (np_usage np)"
      have r: "recs = map (\<lambda>(k, row). Record k (np_row (?np\<lparr>np_usage := usage\<rparr>) row)) items"
        "np2 = ?np\<lparr>np_usage := usage, np_last_interval := Some (iv_start iv)\<rparr>"
        using ur items by (auto simp: flush_rows_records)
      have "metric_minutes rs = []" "usage_starts rs = [instant (iv_start iv)]"
        unfolding times r(1) items by (rule metric_minutes_flush, rule usage_starts_flush)
      with r(2) inv cur lt om ivl np' open_same show ?thesis
        by (auto simp: good_def pipe_inv_def minute_front_def interval_front_def open_minute_def open_start_def newest_def)
    qed
  qed
qed

lemma on_message_good: "pipe_inv np \<Longrightarrow> on_message np msg recv = Inr (rs, np') \<Longrightarrow> good np rs np'"
proof (cases msg)
  case (Hello m)
  then show "pipe_inv np \<Longrightarrow> on_message np msg recv = Inr (rs, np') \<Longrightarrow> ?thesis"
    by (auto simp: on_message_def intro: np_hello_good split: sum.splits)
next
  case (ErrorMsg place what)
  then show "pipe_inv np \<Longrightarrow> on_message np msg recv = Inr (rs, np') \<Longrightarrow> ?thesis"
    by (intro good_silent) (auto simp: on_message_def split: sum.splits)
next
  case (OtherMsg v)
  then show "pipe_inv np \<Longrightarrow> on_message np msg recv = Inr (rs, np') \<Longrightarrow> ?thesis"
    by (intro good_silent) (auto simp: on_message_def split: sum.splits)
qed (auto simp: on_message_def intro: np_counters_good np_census_good split: sum.splits)

lemma on_event_good: "pipe_inv np \<Longrightarrow> on_event np kind detail recv = Inr (rs, np') \<Longrightarrow> good np rs np'"
  by (rule good_silent)
    (auto simp: on_event_def Let_def pipe_inv_def minute_front_def interval_front_def split: sum.splits if_splits)

lemma flush_pipeline_good:
  assumes inv: "pipe_inv np" and step: "flush_pipeline np = (rs, np')"
  shows "good np rs np'"
proof -
  obtain rows minutes where fm: "flush_minutes (np_minutes np) = (rows, minutes)" by fastforce
  obtain out1 np1 where m: "minute_records (np\<lparr>np_minutes := minutes\<rparr>) rows = (out1, np1)" by fastforce
  have om: "ma_open minutes = None" using fm by (auto simp: flush_minutes_def close_minute_def Let_def split: option.splits)
  have m1: "np_usage np1 = np_usage np" "np_minutes np1 = minutes" "np_last_interval np1 = np_last_interval np"
      "np_summary_sec np1 = np_summary_sec np" "usage_starts out1 = []"
      "above (minute_front np) (metric_minutes out1)" "minute_front np1 = newest (minute_front np) (metric_minutes out1)"
    using fm m inv row_time_np_row [OF minute_row_dwf minute_row_time]
    by (auto simp: flush_minutes_def close_minute_def Let_def times_of_Cons minute_row_time minute_front_def newest_def
        pipe_inv_def open_minute_def split: option.splits)
  obtain items usage where fu: "flush_usage (np_usage np1) = (items, usage)" by fastforce
  obtain out2 np2 where u: "usage_records (np1\<lparr>np_usage := usage\<rparr>) items = (out2, np2)" by fastforce
  from step fm m fu u have res: "rs = out1 @ out2" "np' = np2" by (simp_all add: flush_pipeline_def)
  have u1: "ua_open usage = None" "ua_interval usage = ua_interval (np_usage np)"
    using fu m1(1) by (auto simp: flush_usage_def split: option.splits)
  show ?thesis
  proof (cases "ua_open (np_usage np)")
    case None
    with fu m1(1) u have "out2 = []" "np2 = np1\<lparr>np_usage := usage\<rparr>" by (auto simp: flush_usage_def)
    with res m1 u1 om inv show ?thesis
      by (auto simp: good_def pipe_inv_def minute_front_def interval_front_def open_minute_def open_start_def)
  next
    case (Some iv)
    with fu m1(1) have items: "items = flush_rows (ua_expected (np_usage np)) iv" by (simp add: flush_usage_def)
    have r: "out2 = map (\<lambda>(k, row). Record k (np_row (np1\<lparr>np_usage := usage\<rparr>) row)) items"
      "np2 = np1\<lparr>np_usage := usage, np_last_interval := Some (iv_start iv)\<rparr>"
      using u items by (auto simp: flush_rows_records)
    have t: "metric_minutes out2 = []" "usage_starts out2 = [instant (iv_start iv)]"
      unfolding r(1) items by (rule metric_minutes_flush, rule usage_starts_flush)
    have "lt_opt (interval_front np) (Some (instant (iv_start iv)))"
      using inv Some by (simp add: pipe_inv_def open_start_def)
    with res m1 u1 om inv r(2) t show ?thesis
      by (auto simp: good_def pipe_inv_def minute_front_def interval_front_def open_minute_def open_start_def times_of_append newest_def)
  qed
qed

lemma pipe_step_good: "pipe_inv np \<Longrightarrow> pipe_step np c = (rs, np') \<Longrightarrow> good np rs np'"
proof -
  have idle: "pipe_inv np \<Longrightarrow> good np [] np" by (rule good_silent) auto
  then show "pipe_inv np \<Longrightarrow> pipe_step np c = (rs, np') \<Longrightarrow> ?thesis"
    by (cases c) (auto intro: on_message_good on_event_good flush_pipeline_good split: sum.splits)
qed

lemma new_pipeline_inv: "pipe_inv (new_pipeline system host label cs ss cen uid red)"
  by (simp add: pipe_inv_def new_pipeline_def minute_front_def interval_front_def new_usage_def)

interpretation minutes: increasing_emitter pipe_step pipe_inv minute_front metric_minutes
  by unfold_locales (auto simp: times_of_append good_def dest: pipe_step_good)

interpretation intervals: increasing_emitter pipe_step pipe_inv interval_front usage_starts
  by unfold_locales (auto simp: times_of_append good_def dest: pipe_step_good)

subsection \<open>Properties\<close>

text \<open>
  C15.  Whatever sequence of messages, session events and flushes a pipeline sees, with whatever receive
  times (a clock that steps back included), the minutes of its metric rows strictly increase and so do
  the starts of its usage intervals: no minute and no interval is ever emitted twice.
\<close>

theorem pipeline_emits_in_order:
  "sorted_wrt (<) (metric_minutes (fst (run_calls pipe_step (new_pipeline system host label cs ss cen uid red) calls))) \<and>
   sorted_wrt (<) (usage_starts (fst (run_calls pipe_step (new_pipeline system host label cs ss cen uid red) calls)))"
  using minutes.run_increasing [OF new_pipeline_inv] intervals.run_increasing [OF new_pipeline_inv] by blast

text \<open>Every record names its node.\<close>

lemma minute_records_identity: "list_all has_identity (fst (minute_records np rows))"
proof (induction rows arbitrary: np)
  case (Cons row rows)
  from Cons [of "np\<lparr>np_last_minute := row_time ''minute'' row\<rparr>"] show ?case by (auto split: prod.splits)
qed simp

lemma usage_records_identity: "list_all has_identity (fst (usage_records np items))"
  by (induction np items rule: usage_records.induct) (auto split: prod.splits)

lemma event_identity [simp]:
  "has_identity (np_event np e d recv)" "has_identity (live_node np recv st x)" "list_all has_identity (late np m recv)"
  by (simp_all add: np_event_def live_node_def late_def)

lemma np_counters_identity: "np_counters np msg recv = Inr (rs, np') \<Longrightarrow> list_all has_identity rs"
  using minute_records_identity by (auto simp: np_counters_def Let_def split: if_splits sum.splits prod.splits) (metis fst_conv)

lemma np_census_identity: "np_census np msg processes recv = Inr (rs, np') \<Longrightarrow> list_all has_identity rs"
  using usage_records_identity
  by (auto simp: np_census_def Let_def split: option.splits if_splits sum.splits prod.splits) (metis fst_conv)

lemma pipe_step_identity: "list_all has_identity (fst (pipe_step np c))"
proof (cases c)
  case (OnMessage msg recv)
  then show ?thesis
    by (auto simp: on_message_def np_hello_def Let_def split: sum.splits message.splits
        dest: np_counters_identity np_census_identity)
next
  case (OnEvent kind detail recv)
  then show ?thesis by (auto simp: on_event_def Let_def split: sum.splits)
next
  case Flush
  then show ?thesis using minute_records_identity usage_records_identity
    by (auto simp: flush_pipeline_def Let_def split: prod.splits) (metis fst_conv)+
qed

lemma run_identity: "list_all has_identity (fst (run_calls pipe_step np calls))"
proof (induction calls arbitrary: np)
  case (Cons c calls)
  from Cons pipe_step_identity [of np c] show ?case by (auto split: prod.splits) (metis fst_conv)
qed simp

lemma mem_le_newest: "above b ks \<Longrightarrow> k \<in> set ks \<Longrightarrow> \<exists>l. newest b ks = Some l \<and> k \<le> l"
proof -
  assume a: "above b ks" and k: "k \<in> set ks"
  then have "k \<le> last ks" by (induction ks) (auto simp: above_def less_imp_le)
  with k show ?thesis by (auto simp: newest_def)
qed

lemma late_counters:
  assumes run: "run_calls pipe_step np calls = (rs, np')" and inv: "pipe_inv np"
    and m: "m \<in> set (metric_minutes rs)" "instant (floor_minute recv) \<le> m" and aware: "dt_offset recv \<noteq> None"
  shows "on_message np' (Counters msg) recv = Inr (late np' (Counters msg) recv, np')"
proof -
  from minutes.run_above [OF inv run] mem_le_newest m(1) obtain l where "minute_front np' = Some l" "m \<le> l" by metis
  with m(2) have "is_late (floor_minute recv) (np_last_minute np')" by (auto simp: is_late_def minute_front_def)
  with aware show ?thesis by (auto simp: on_message_def require_aware_def np_counters_def)
qed

lemma late_census:
  assumes run: "run_calls pipe_step np calls = (rs, np')" and inv: "pipe_inv np"
    and m: "m \<in> set (usage_starts rs)" "instant (interval_floor (np_summary_sec np') recv) \<le> m" and aware: "dt_offset recv \<noteq> None"
  shows "on_message np' (Census msg (Some rows)) recv = Inr (late np' (Census msg (Some rows)) recv, np')"
proof -
  from intervals.run_above [OF inv run] mem_le_newest m(1) obtain l where "interval_front np' = Some l" "m \<le> l" by metis
  with m(2) have "is_late (interval_floor (np_summary_sec np') recv) (np_last_interval np')"
    by (auto simp: is_late_def interval_front_def)
  with aware show ?thesis by (auto simp: on_message_def require_aware_def np_census_def)
qed

text \<open>
  Once a minute has been emitted, counters received in that or an earlier minute change nothing in
  the pipeline and yield exactly one record, a \<open>late_sample\<close> event; and likewise a process census of an
  interval that has been emitted.  Lateness is reported, never silently folded into a later row.
\<close>

theorem late_samples_reported:
  assumes "run_calls pipe_step (new_pipeline system host label cs ss cen uid red) calls = (rs, np)"
    and "m \<in> set (metric_minutes rs)" "instant (floor_minute recv) \<le> m" "dt_offset recv \<noteq> None"
    and "k \<in> set (usage_starts rs)" "instant (interval_floor (np_summary_sec np) recv') \<le> k" "dt_offset recv' \<noteq> None"
  shows "on_message np (Counters msg) recv = Inr (late np (Counters msg) recv, np) \<and>
    on_message np (Census cmsg (Some rows)) recv' = Inr (late np (Census cmsg (Some rows)) recv', np)"
  using late_counters [OF assms(1) new_pipeline_inv assms(2-4)] late_census [OF assms(1) new_pipeline_inv assms(5-7)] by blast

definition ex_counters :: counters_msg where
  "ex_counters = \<lparr>cm_ts = None, cm_cpu_jiffies = [], cm_net = [], cm_md_ops = [],
     cm_mem = \<lparr>mem_total_kb = None, mem_available_kb = None, mem_cached_kb = VNone, mem_shmem_kb = VNone,
       mem_swap_total_kb = None, mem_swap_free_kb = None\<rparr>,
     cm_probe_self = \<lparr>ps_cpu_seconds = None, ps_children_cpu_seconds = None, ps_rss_kb = None, ps_maxrss_kb = VNone\<rparr>,
     cm_load1 = VNone, cm_load5 = VNone, cm_load15 = VNone, cm_procs_running = VNone, cm_procs_total = VNone,
     cm_socket_count = VNone\<rparr>"

definition ex_census :: census_msg where
  "ex_census = \<lparr>cn_gpus = [], cn_scan_seconds = None, cn_gpu_status = None\<rparr>"

definition ex_pipeline :: pipeline where
  "ex_pipeline = new_pipeline ''s'' ''n'' ''l'' 10 300 60 1000 []"

definition ex_calls :: "pipe_call list" where
  "ex_calls = [OnMessage (Counters ex_counters) (utc 600000000), OnMessage (Census ex_census (Some [])) (utc 600000000), Flush]"

theorem late_samples_reported_witness:
  "let np = snd (run_calls pipe_step ex_pipeline ex_calls); t = utc 600000000 in
     on_message np (Counters ex_counters) t = Inr (late np (Counters ex_counters) t, np) \<and>
     on_message np (Census ex_census (Some [])) t = Inr (late np (Census ex_census (Some [])) t, np)"
proof -
  let ?np = "snd (run_calls pipe_step ex_pipeline ex_calls)" and ?t = "utc 600000000"
  have m: "600000000 \<in> set (metric_minutes (fst (run_calls pipe_step ex_pipeline ex_calls)))" by code_simp
  have u: "600000000 \<in> set (usage_starts (fst (run_calls pipe_step ex_pipeline ex_calls)))" by code_simp
  have t: "instant (floor_minute ?t) \<le> 600000000" "instant (interval_floor (np_summary_sec ?np) ?t) \<le> 600000000"
    "dt_offset ?t \<noteq> None" by code_simp+
  from late_samples_reported [OF prod.collapse [symmetric, of "run_calls pipe_step ex_pipeline ex_calls", unfolded ex_pipeline_def]
      m [unfolded ex_pipeline_def] t(1,3) u [unfolded ex_pipeline_def] t(2) [unfolded ex_pipeline_def] t(3)]
  show ?thesis unfolding Let_def ex_pipeline_def by blast
qed

end
