(* ===== verification/Session.thy ===== *)
theory Session
  imports Records
begin

text \<open>
  One ssh session per node, kept alive (\<open>collector/session.py\<close>).  Bytes are characters.  What the
  process, the clock and \<open>stop()\<close> do is a script of readings that the operations consume; \<open>json.loads\<close>
  and the UTF-8 decoder with replacement are arguments.
\<close>

definition STREAM_LIMIT :: int where "STREAM_LIMIT = 33554432"
definition STDERR_LINE_MAX_CHARS :: nat where "STDERR_LINE_MAX_CHARS = 500"
definition STDERR_LINES_PER_SESSION :: nat where "STDERR_LINES_PER_SESSION = 20"
definition STDERR_TAIL_BYTES :: nat where "STDERR_TAIL_BYTES = 2048"
definition MALFORMED_SAMPLE_CHARS :: nat where "MALFORMED_SAMPLE_CHARS = 200"
definition MAX_BACKOFF_DOUBLINGS :: nat where "MAX_BACKOFF_DOUBLINGS = 30"

definition LF :: char where "LF = CHR 0x0A"

text \<open>What a session hands to its callbacks.\<close>

datatype callback = Message row | Event string row

subsection \<open>The log of standard error\<close>

record stderr_log =
  sl_line :: string
  sl_tail :: string
  sl_emitted :: nat
  sl_suppressed :: nat

definition new_stderr_log :: stderr_log where
  "new_stderr_log = \<lparr>sl_line = [], sl_tail = [], sl_emitted = 0, sl_suppressed = 0\<rparr>"

text \<open>\<open>xs[-n:]\<close> for a positive \<open>n\<close>.\<close>

definition last_n :: "nat \<Rightarrow> 'a list \<Rightarrow> 'a list" where
  "last_n n xs = drop (length xs - n) xs"

definition rstrip_cr :: "string \<Rightarrow> string" where
  "rstrip_cr s = rev (dropWhile (\<lambda>c. c = CHR 0x0D) (rev s))"

text \<open>\<open>blank\<close> is \<open>not text.strip()\<close>.\<close>

definition blank :: "string \<Rightarrow> bool" where
  "blank s \<longleftrightarrow> list_all (\<lambda>c. let n = of_char c :: nat in 9 \<le> n \<and> n \<le> 13 \<or> 28 \<le> n \<and> n \<le> 32 \<or> n = 133 \<or> n = 160) s"

definition finish_line :: "(string \<Rightarrow> string) \<Rightarrow> stderr_log \<Rightarrow> row list \<times> stderr_log" where
  "finish_line decode sl =
     (let txt = take STDERR_LINE_MAX_CHARS (rstrip_cr (decode (sl_line sl))); sl = sl\<lparr>sl_line := []\<rparr> in
      if blank txt then ([], sl)
      else if sl_emitted sl < STDERR_LINES_PER_SESSION
      then ([[(''line'', VStr txt)]], sl\<lparr>sl_emitted := sl_emitted sl + 1\<rparr>)
      else ([], sl\<lparr>sl_suppressed := sl_suppressed sl + 1\<rparr>))"

definition keep_bytes :: nat where "keep_bytes = STDERR_LINE_MAX_CHARS * 4"

definition grow_line :: "string \<Rightarrow> stderr_log \<Rightarrow> stderr_log" where
  "grow_line part sl = sl\<lparr>sl_line := sl_line sl @ take (keep_bytes - length (sl_line sl)) part\<rparr>"

lemma dropWhile_tl_shorter: "dropWhile P xs \<noteq> [] \<Longrightarrow> length (dropWhile P xs) - Suc 0 < length xs"
  using length_dropWhile_le [of P xs] by (cases "dropWhile P xs") auto

text \<open>The loop of \<open>feed\<close> over the lines of a chunk.\<close>

function feed_lines :: "(string \<Rightarrow> string) \<Rightarrow> string \<Rightarrow> stderr_log \<Rightarrow> row list \<times> stderr_log" where
  "feed_lines decode chunk sl =
     (let part = takeWhile (\<lambda>c. c \<noteq> LF) chunk; rest = dropWhile (\<lambda>c. c \<noteq> LF) chunk; sl = grow_line part sl in
      if rest = [] then ([], sl)
      else (case finish_line decode sl of (es, sl) \<Rightarrow>
          case feed_lines decode (tl rest) sl of (es', sl) \<Rightarrow> (es @ es', sl)))"
  by pat_completeness auto
termination
  by (relation "measure (\<lambda>(decode, chunk, sl). length chunk)") (auto intro!: dropWhile_tl_shorter)

declare feed_lines.simps [simp del]

definition feed :: "(string \<Rightarrow> string) \<Rightarrow> string \<Rightarrow> stderr_log \<Rightarrow> row list \<times> stderr_log" where
  "feed decode chunk sl =
     feed_lines decode chunk
       (sl\<lparr>sl_tail := last_n STDERR_TAIL_BYTES (sl_tail sl @ last_n STDERR_TAIL_BYTES chunk)\<rparr>)"

definition finish_log :: "(string \<Rightarrow> string) \<Rightarrow> stderr_log \<Rightarrow> row list \<times> stderr_log" where
  "finish_log decode sl =
     (case finish_line decode sl of (es, sl) \<Rightarrow>
        (if sl_suppressed sl \<noteq> 0 then es @ [[(''suppressed'', VInt (int (sl_suppressed sl)))]] else es, sl))"

fun drain :: "(string \<Rightarrow> string) \<Rightarrow> string list \<Rightarrow> stderr_log \<Rightarrow> row list \<times> stderr_log" where
  "drain decode [] sl = ([], sl)"
| "drain decode (chunk # chunks) sl =
     (if chunk = [] then ([], sl)
      else (case feed decode chunk sl of (es, sl) \<Rightarrow> case drain decode chunks sl of (es', sl) \<Rightarrow> (es @ es', sl)))"

subsection \<open>Lines of standard output\<close>

record node_session =
  ns_boot_id :: pyval
  ns_bye_reason :: "string option"

definition note_boot_id :: "pyval \<Rightarrow> node_session \<Rightarrow> callback list \<times> node_session" where
  "note_boot_id boot_id ns =
     (if boot_id = VNone then ([], ns)
      else (if ns_boot_id ns \<noteq> VNone \<and> boot_id \<noteq> ns_boot_id ns
            then [Event ''node_rebooted'' [(''old_boot_id'', ns_boot_id ns), (''new_boot_id'', boot_id)]] else [],
            ns\<lparr>ns_boot_id := boot_id\<rparr>))"

definition handle_line :: "(string \<Rightarrow> pyval option) \<Rightarrow> (string \<Rightarrow> string) \<Rightarrow> string \<Rightarrow> node_session \<Rightarrow> callback list \<times> node_session" where
  "handle_line loads decode raw ns =
     (let txt = if raw \<noteq> [] \<and> last raw = LF then butlast raw else raw in
      case loads txt of
        Some (VDict msg) \<Rightarrow>
          if rget msg ''type'' = VStr ''hello'' then
            (case note_boot_id (rget msg ''boot_id'') ns of (es, ns) \<Rightarrow> (es @ [Message msg], ns))
          else if rget msg ''type'' = VStr ''bye'' then
            ([Message msg],
             ns\<lparr>ns_bye_reason := Some (case rget msg ''reason'' of VStr r \<Rightarrow> if r \<noteq> [] then r else ''bye'' | _ \<Rightarrow> ''bye'')\<rparr>)
          else ([Message msg], ns)
      | _ \<Rightarrow>
          ([Event ''malformed_line'' [(''bytes'', VInt (int (length txt))),
             (''sample'', VStr (take MALFORMED_SAMPLE_CHARS (decode (take (MALFORMED_SAMPLE_CHARS * 4) txt))))]], ns))"

text \<open>
  One turn of the loop of \<open>_pump\<close>: the clock before the read and what \<open>readline\<close> did within its
  timeout.  A script that ends stands for a reader that is still waiting (and is cancelled on \<open>stop\<close>).
\<close>

datatype reading = Line string | TooLong | Eof | TimedOut

datatype pump_end = AtDeadline | AtSilence | AtEof

fun pump :: "(string \<Rightarrow> pyval option) \<Rightarrow> (string \<Rightarrow> string) \<Rightarrow> rat \<Rightarrow> rat option \<Rightarrow> (rat \<times> reading) list \<Rightarrow> node_session \<Rightarrow>
    callback list \<times> pump_end option \<times> node_session" where
  "pump loads decode deadline silence [] ns = ([], None, ns)"
| "pump loads decode deadline silence ((now, r) # script) ns =
     (let remaining = deadline - now in
      if remaining \<le> 0 then ([], Some AtDeadline, ns)
      else
        (let by_deadline = (case silence of None \<Rightarrow> True | Some s \<Rightarrow> remaining < s) in
         case r of
           TimedOut \<Rightarrow> ([], Some (if by_deadline then AtDeadline else AtSilence), ns)
         | TooLong \<Rightarrow>
             (case pump loads decode deadline silence script ns of (es, e, ns) \<Rightarrow>
                (Event ''malformed_line'' [(''bytes'', VInt STREAM_LIMIT), (''sample'', VStr [])] # es, e, ns))
         | Eof \<Rightarrow> ([], Some AtEof, ns)
         | Line raw \<Rightarrow>
             if raw = [] then ([], Some AtEof, ns)
             else (case handle_line loads decode raw ns of (es1, ns) \<Rightarrow>
                case pump loads decode deadline silence script ns of (es2, e, ns) \<Rightarrow> (es1 @ es2, e, ns))))"

datatype outcome = SpawnFailed | Stop | Rotate | EofOutcome | Silence | Exit

text \<open>\<open>_stream\<close>: \<open>None\<close> is the reader cancelled because \<open>stop()\<close> was called.\<close>

definition stream_outcome :: "pump_end option \<Rightarrow> node_session \<Rightarrow> outcome" where
  "stream_outcome e ns =
     (case e of None \<Rightarrow> Stop
      | Some e \<Rightarrow> if ns_bye_reason ns \<noteq> None \<or> e = AtDeadline then Rotate
          else (case e of AtSilence \<Rightarrow> Silence | AtEof \<Rightarrow> EofOutcome | AtDeadline \<Rightarrow> Rotate))"

definition reason_name :: "outcome \<Rightarrow> string" where
  "reason_name out = (case out of SpawnFailed \<Rightarrow> ''spawn_failed'' | Stop \<Rightarrow> ''stop'' | Rotate \<Rightarrow> ''rotate''
     | EofOutcome \<Rightarrow> ''eof'' | Silence \<Rightarrow> ''silence'' | Exit \<Rightarrow> ''exit'')"

subsection \<open>One session\<close>

text \<open>
  What happens to one session: whether the spawn fails and with what message; the process id; the
  times it starts and its stream ends; the readings of the stream and, after a rotation or stop, of
  the rest of standard output; the chunks of standard error; whether the process exits within the
  grace and its exit status.
\<close>

record session_script =
  sc_spawn_error :: "string option"
  sc_pid :: int
  sc_started :: rat
  sc_ended :: rat
  sc_stream :: "(rat \<times> reading) list"
  sc_rest :: "(rat \<times> reading) list"
  sc_rest_from :: rat
  sc_stderr :: "string list"
  sc_exits :: bool
  sc_exit_code :: "int option"

definition ROTATE_EOF_WAIT_SEC :: rat where "ROTATE_EOF_WAIT_SEC = 10"

definition lost_event :: "outcome \<Rightarrow> int option \<Rightarrow> rat \<Rightarrow> string \<Rightarrow> callback" where
  "lost_event out code uptime tail =
     Event ''session_lost'' [(''reason'', VStr (reason_name out)), (''exit_code'', of_opt VInt code),
       (''uptime_sec'', vnum (round_digits 3 uptime)), (''stderr_tail'', VStr tail)]"

text \<open>
  \<open>_session\<close>.  The standard error events come from a task of their own; they are listed before the
  closing event, which is where they are at the latest.
\<close>

definition session :: "(string \<Rightarrow> pyval option) \<Rightarrow> (string \<Rightarrow> string) \<Rightarrow> rat \<Rightarrow> rat \<Rightarrow> nat \<Rightarrow> session_script \<Rightarrow> node_session \<Rightarrow>
    callback list \<times> outcome \<times> rat \<times> node_session" where
  "session loads decode silence_timeout max_lifetime attempt sc ns =
     (case sc_spawn_error sc of
        Some msg \<Rightarrow> ([lost_event SpawnFailed None 0 (last_n STDERR_TAIL_BYTES msg)], SpawnFailed, 0, ns)
      | None \<Rightarrow>
          (let ns = ns\<lparr>ns_bye_reason := None\<rparr>;
               (es1, e, ns) = pump loads decode (sc_started sc + max_lifetime) (Some silence_timeout) (sc_stream sc) ns;
               out = stream_outcome e ns;
               (es2, ns) = (if out = Rotate \<or> out = Stop
                  then (case pump loads decode (sc_rest_from sc + ROTATE_EOF_WAIT_SEC) None (sc_rest sc) ns of (es, _, ns) \<Rightarrow> (es, ns))
                  else ([], ns));
               out = (if out = EofOutcome \<and> sc_exits sc then Exit else out);
               (errs1, sl) = drain decode (sc_stderr sc) new_stderr_log;
               (errs2, sl) = finish_log decode sl;
               uptime = sc_ended sc - sc_started sc;
               closing = (case out of
                    Rotate \<Rightarrow> [Event ''session_rotated'' [(''uptime_sec'', vnum (round_digits 3 uptime)),
                       (''reason'', VStr (case ns_bye_reason ns of Some r \<Rightarrow> r | None \<Rightarrow> ''max_lifetime''))]]
                  | Stop \<Rightarrow> []
                  | _ \<Rightarrow> [lost_event out (sc_exit_code sc) uptime (decode (sl_tail sl))])
           in (Event ''session_started'' [(''attempt'', VInt (int attempt)), (''pid'', VInt (sc_pid sc))] # es1 @ es2 @
                 map (Event ''probe_stderr'') (errs1 @ errs2) @ closing, out, uptime, ns)))"

subsection \<open>Reconnecting\<close>

record retry_cfg =
  rc_backoff :: "rat \<times> rat"
  rc_healthy_after :: rat

definition reconnect_delay :: "retry_cfg \<Rightarrow> nat \<Rightarrow> rat \<Rightarrow> rat" where
  "reconnect_delay rc failures rnd =
     (let base = fst (rc_backoff rc) * 2 ^ min (failures - 1) MAX_BACKOFF_DOUBLINGS
      in min (snd (rc_backoff rc)) base * (1 / 2 + rnd / 2))"

text \<open>
  \<open>run\<close>: one turn per session, with the script of the session, the random number drawn for the delay
  and whether \<open>stop()\<close> has been called when the session is over, which it has after the outcome \<open>stop\<close>.
\<close>

fun run_session :: "(string \<Rightarrow> pyval option) \<Rightarrow> (string \<Rightarrow> string) \<Rightarrow> rat \<Rightarrow> rat \<Rightarrow> retry_cfg \<Rightarrow> nat \<Rightarrow> nat \<Rightarrow>
    (session_script \<times> rat \<times> bool) list \<Rightarrow> node_session \<Rightarrow> callback list \<times> rat list" where
  "run_session loads decode silence life rc attempt failures [] ns = ([], [])"
| "run_session loads decode silence life rc attempt failures ((sc, rnd, stopped) # script) ns =
     (let attempt = attempt + 1;
          (es, out, uptime, ns) = session loads decode silence life attempt sc ns;
          failures = (if uptime \<ge> rc_healthy_after rc then 0 else failures)
      in if stopped \<or> out = Stop then (es, [])
         else if out = Rotate \<and> (ns_bye_reason ns = None \<or> uptime \<ge> rc_healthy_after rc) then
           (case run_session loads decode silence life rc attempt failures script ns of (es', ds) \<Rightarrow> (es @ es', ds))
         else
           (let failures = failures + 1; delay = reconnect_delay rc failures rnd in
            case run_session loads decode silence life rc attempt failures script ns of (es', ds) \<Rightarrow>
              (es @ [Event ''reconnect_wait'' [(''delay_sec'', vnum (round_digits 3 delay)), (''failures'', VInt (int failures))]] @ es',
               delay # ds)))"

subsection \<open>Standard error does not depend on how it is chunked\<close>

text \<open>The reference: one byte at a time.\<close>

fun feed_bytes :: "(string \<Rightarrow> string) \<Rightarrow> string \<Rightarrow> stderr_log \<Rightarrow> row list \<times> stderr_log" where
  "feed_bytes decode [] sl = ([], sl)"
| "feed_bytes decode (c # s) sl =
     (if c = LF then (case finish_line decode sl of (es, sl) \<Rightarrow> case feed_bytes decode s sl of (es', sl) \<Rightarrow> (es @ es', sl))
      else feed_bytes decode s (grow_line [c] sl))"

lemma grow_line_Nil [simp]: "grow_line [] sl = sl"
  by (simp add: grow_line_def)

lemma grow_line_append: "grow_line (a @ b) sl = grow_line b (grow_line a sl)"
  by (cases "length a \<le> keep_bytes - length (sl_line sl)") (simp_all add: grow_line_def)

lemma feed_bytes_part: "LF \<notin> set part \<Longrightarrow> feed_bytes decode (part @ rest) sl = feed_bytes decode rest (grow_line part sl)"
proof (induction part arbitrary: sl)
  case (Cons c part)
  then show ?case using grow_line_append [of "[c]" part sl] by auto
qed simp

lemma feed_lines_bytes: "feed_lines decode chunk sl = feed_bytes decode chunk sl"
proof (induction decode chunk sl rule: feed_lines.induct)
  case (1 decode chunk sl)
  let ?part = "takeWhile (\<lambda>c. c \<noteq> LF) chunk" and ?rest = "dropWhile (\<lambda>c. c \<noteq> LF) chunk"
  have part: "LF \<notin> set ?part" by (auto dest: set_takeWhileD)
  have b: "feed_bytes decode chunk sl = feed_bytes decode ?rest (grow_line ?part sl)"
    using feed_bytes_part [OF part, of decode ?rest sl] by simp
  show ?case
  proof (cases "?rest = []")
    case True
    then have "feed_lines decode chunk sl = ([], grow_line ?part sl)" by (subst feed_lines.simps) (simp add: Let_def)
    with b True show ?thesis by simp
  next
    case False
    then have r: "?rest = LF # tl ?rest" using hd_dropWhile [of "\<lambda>c. c \<noteq> LF" chunk] by (cases ?rest) auto
    obtain es sl1 where f: "finish_line decode (grow_line ?part sl) = (es, sl1)" by fastforce
    have "feed_lines decode chunk sl = (case feed_lines decode (tl ?rest) sl1 of (es', sl) \<Rightarrow> (es @ es', sl))"
      by (subst feed_lines.simps) (simp only: Let_def False f if_False prod.case)
    also have "\<dots> = feed_bytes decode (LF # tl ?rest) (grow_line ?part sl)"
      using 1 [OF refl refl refl False f [symmetric]] f by simp
    also note r [symmetric]
    finally show ?thesis using b by simp
  qed
qed

lemma feed_bytes_append:
  "feed_bytes decode (a @ b) sl =
     (case feed_bytes decode a sl of (es, sl) \<Rightarrow> case feed_bytes decode b sl of (es', sl) \<Rightarrow> (es @ es', sl))"
  by (induction decode a sl rule: feed_bytes.induct) (auto split: prod.splits)

lemma finish_line_tail:
  "finish_line decode (sl\<lparr>sl_tail := t\<rparr>) = (case finish_line decode sl of (es, sl) \<Rightarrow> (es, sl\<lparr>sl_tail := t\<rparr>))"
  by (cases sl) (simp add: finish_line_def Let_def)

lemma grow_line_tail: "grow_line p (sl\<lparr>sl_tail := t\<rparr>) = (grow_line p sl)\<lparr>sl_tail := t\<rparr>"
  by (cases sl) (simp add: grow_line_def)

lemma feed_bytes_tail:
  "feed_bytes decode s (sl\<lparr>sl_tail := t\<rparr>) = (case feed_bytes decode s sl of (es, sl) \<Rightarrow> (es, sl\<lparr>sl_tail := t\<rparr>))"
proof (induction s arbitrary: sl)
  case (Cons c s)
  obtain es sl1 where f: "finish_line decode sl = (es, sl1)" by fastforce
  obtain es2 sl2 where r: "feed_bytes decode s sl1 = (es2, sl2)" by fastforce
  show ?case using Cons [of sl1] Cons [of "grow_line [c] sl"] f r
    by (simp add: finish_line_tail grow_line_tail)
qed simp

lemma last_n_rev: "last_n n xs = rev (take n (rev xs))"
  by (simp add: last_n_def take_rev)

lemma take_take_append: "take n (take n x @ y) = take n (x @ y)"
  by (simp add: min_def)

lemma last_n_tail: "last_n n (a @ last_n n b) = last_n n (a @ b)"
  by (simp add: last_n_rev take_take_append del: take_append)

lemma last_n_head: "last_n n (last_n n a @ b) = last_n n (a @ b)"
proof -
  have "take n (y @ take n x) = take n (y @ x)" for x y :: "'a list" by (simp add: min_def)
  then show ?thesis by (simp add: last_n_rev del: take_append)
qed

lemma feed_eq: "feed decode chunk sl =
    (case feed_bytes decode chunk sl of (es, sl') \<Rightarrow> (es, sl'\<lparr>sl_tail := last_n STDERR_TAIL_BYTES (sl_tail sl @ chunk)\<rparr>))"
  by (simp add: feed_def feed_lines_bytes feed_bytes_tail last_n_tail)

lemma feed_append:
  "feed decode (a @ b) sl = (case feed decode a sl of (es, sl) \<Rightarrow> case feed decode b sl of (es', sl) \<Rightarrow> (es @ es', sl))"
proof -
  obtain es1 sl1 where a: "feed_bytes decode a sl = (es1, sl1)" by fastforce
  obtain es2 sl2 where b: "feed_bytes decode b sl1 = (es2, sl2)" by fastforce
  show ?thesis using a b by (simp add: feed_eq feed_bytes_append feed_bytes_tail last_n_head)
qed

lemma drain_concat:
  "drain decode (filter (\<lambda>c. c \<noteq> []) (chunk # chunks)) sl = feed decode (concat (chunk # chunks)) sl"
  if "length (sl_tail sl) \<le> STDERR_TAIL_BYTES"
  using that
proof (induction chunks arbitrary: chunk sl)
  case Nil
  have "feed decode [] sl = ([], sl)" using Nil by (simp add: feed_eq last_n_def)
  then show ?case by (auto split: prod.splits)
next
  case (Cons c chunks)
  have e: "feed decode [] sl = ([], sl)" using Cons.prems by (simp add: feed_eq last_n_def)
  have t: "length (sl_tail (snd (feed decode chunk sl))) \<le> STDERR_TAIL_BYTES"
    by (auto simp: feed_eq last_n_def split: prod.splits)
  show ?case
  proof (cases "chunk = []")
    case True
    with Cons.IH [of sl c] Cons.prems show ?thesis by simp
  next
    case False
    obtain es1 sl1 where f: "feed decode chunk sl = (es1, sl1)" by fastforce
    with t Cons.IH [of sl1 c] have "drain decode (filter (\<lambda>c. c \<noteq> []) (c # chunks)) sl1 = feed decode (concat (c # chunks)) sl1" by simp
    with False f show ?thesis by (simp add: feed_append split: prod.splits)
  qed
qed

text \<open>
  The events and the tail that the standard error of a session yields depend only on the bytes,
  not on how the pipe delivered them: feeding the chunks one by one gives what feeding their
  concatenation gives.
\<close>

theorem stderr_chunking_irrelevant:
  "drain decode (filter (\<lambda>c. c \<noteq> []) (chunk # chunks)) new_stderr_log = feed decode (concat (chunk # chunks)) new_stderr_log"
  by (rule drain_concat) (simp add: new_stderr_log_def)

subsection \<open>Bounds on standard error\<close>

definition log_ok :: "stderr_log \<Rightarrow> bool" where
  "log_ok sl \<longleftrightarrow> sl_emitted sl \<le> STDERR_LINES_PER_SESSION \<and> length (sl_line sl) \<le> keep_bytes"

lemma finish_line_ok:
  "finish_line decode sl = (es, sl') \<Longrightarrow> log_ok sl \<Longrightarrow> log_ok sl' \<and> sl_emitted sl' = sl_emitted sl + length es"
  by (auto simp: finish_line_def log_ok_def Let_def split: if_splits)

lemma grow_line_ok: "log_ok sl \<Longrightarrow> log_ok (grow_line p sl) \<and> sl_emitted (grow_line p sl) = sl_emitted sl"
  by (auto simp: grow_line_def log_ok_def)

lemma feed_bytes_ok:
  "feed_bytes decode s sl = (es, sl') \<Longrightarrow> log_ok sl \<Longrightarrow> log_ok sl' \<and> sl_emitted sl' = sl_emitted sl + length es"
proof (induction s arbitrary: sl es)
  case (Cons c s)
  show ?case
  proof (cases "c = LF")
    case True
    obtain es1 sl1 where f: "finish_line decode sl = (es1, sl1)" by fastforce
    obtain es2 where r: "feed_bytes decode s sl1 = (es2, sl')" "es = es1 @ es2"
      using Cons.prems(1) True f by (auto split: prod.splits)
    from finish_line_ok [OF f Cons.prems(2)] Cons.IH [OF r(1)] r(2) show ?thesis by simp
  next
    case False
    with Cons.prems(1) have "feed_bytes decode s (grow_line [c] sl) = (es, sl')" by simp
    from Cons.IH [OF this] grow_line_ok [OF Cons.prems(2)] show ?thesis by auto
  qed
qed simp

lemma feed_ok:
  "feed decode s sl = (es, sl') \<Longrightarrow> log_ok sl \<Longrightarrow>
   log_ok sl' \<and> sl_emitted sl' = sl_emitted sl + length es \<and> length (sl_tail sl') \<le> STDERR_TAIL_BYTES"
proof -
  assume f: "feed decode s sl = (es, sl')" and ok: "log_ok sl"
  obtain es1 sl1 where b: "feed_bytes decode s sl = (es1, sl1)" by fastforce
  from feed_bytes_ok [OF b ok] f b show ?thesis by (auto simp: feed_eq log_ok_def last_n_def)
qed

lemma drain_ok:
  "drain decode chunks sl = (es, sl') \<Longrightarrow> log_ok sl \<Longrightarrow> length (sl_tail sl) \<le> STDERR_TAIL_BYTES \<Longrightarrow>
   log_ok sl' \<and> sl_emitted sl' = sl_emitted sl + length es \<and> length (sl_tail sl') \<le> STDERR_TAIL_BYTES"
proof (induction chunks arbitrary: sl es)
  case (Cons c chunks)
  obtain es1 sl1 where f: "feed decode c sl = (es1, sl1)" by fastforce
  show ?case
  proof (cases "c = []")
    case True
    with Cons.prems show ?thesis by auto
  next
    case False
    obtain es2 where r: "drain decode chunks sl1 = (es2, sl')" "es = es1 @ es2"
      using Cons.prems(1) False f by (auto split: prod.splits)
    from feed_ok [OF f Cons.prems(2)] Cons.IH [OF r(1)] r(2) show ?thesis by simp
  qed
qed simp

text \<open>
  However much a process writes to standard error, and in whatever chunks, the log keeps at most
  2000 bytes of the current line and 2048 bytes of tail, and a session reports at most 20 lines and one
  count of the suppressed ones.
\<close>

theorem stderr_log_bounded:
  "case drain decode chunks new_stderr_log of (es, sl) \<Rightarrow>
     length (sl_line sl) \<le> STDERR_LINE_MAX_CHARS * 4 \<and> length (sl_tail sl) \<le> STDERR_TAIL_BYTES \<and>
     (case finish_log decode sl of (es', _) \<Rightarrow> length (es @ es') \<le> STDERR_LINES_PER_SESSION + 1)"
proof -
  obtain es sl where d: "drain decode chunks new_stderr_log = (es, sl)" by fastforce
  have "log_ok new_stderr_log" "length (sl_tail new_stderr_log) \<le> STDERR_TAIL_BYTES"
    by (simp_all add: log_ok_def new_stderr_log_def)
  from drain_ok [OF d this] have ok: "log_ok sl" "sl_emitted sl = length es" "length (sl_tail sl) \<le> STDERR_TAIL_BYTES"
    by (auto simp: new_stderr_log_def)
  obtain es1 sl1 where f: "finish_line decode sl = (es1, sl1)" by fastforce
  from finish_line_ok [OF f ok(1)] ok(2) have "length (es @ es1) \<le> STDERR_LINES_PER_SESSION" by (auto simp: log_ok_def)
  with d f ok show ?thesis by (auto simp: finish_log_def log_ok_def keep_bytes_def)
qed

subsection \<open>Backoff\<close>

lemma reconnect_delay_bounds:
  assumes "0 \<le> lo" "0 \<le> hi" "rc_backoff rc = (lo, hi)" "0 \<le> rnd" "rnd \<le> 1"
  shows "min lo hi / 2 \<le> reconnect_delay rc failures rnd \<and> reconnect_delay rc failures rnd \<le> hi"
proof -
  define m where "m = min hi (lo * 2 ^ min (failures - 1) MAX_BACKOFF_DOUBLINGS)"
  have "(1 :: rat) \<le> 2 ^ min (failures - 1) MAX_BACKOFF_DOUBLINGS" by simp
  with mult_left_mono [OF this assms(1)] have lo: "min lo hi \<le> m" by (auto simp: m_def)
  have "m \<le> hi" "0 \<le> m" using assms(1,2) by (simp_all add: m_def)
  moreover have "m * (1 / 2) \<le> m * (1 / 2 + rnd / 2)" "m * (1 / 2 + rnd / 2) \<le> m * 1"
    using assms(4,5) \<open>0 \<le> m\<close> by (intro mult_left_mono; simp)+
  ultimately have "min lo hi / 2 \<le> m * (1 / 2 + rnd / 2)" "m * (1 / 2 + rnd / 2) \<le> hi" using lo by linarith+
  then show ?thesis by (simp add: reconnect_delay_def assms(3) m_def)
qed

lemma run_session_delays:
  assumes "0 \<le> lo" "0 \<le> hi" "rc_backoff rc = (lo, hi)"
  shows "list_all (\<lambda>(sc, rnd, stopped). 0 \<le> rnd \<and> rnd \<le> 1) script \<Longrightarrow>
    list_all (\<lambda>d. min lo hi / 2 \<le> d \<and> d \<le> hi) (snd (run_session loads decode silence life rc attempt failures script ns))"
proof (induction script arbitrary: attempt failures ns)
  case (Cons e script)
  obtain sc rnd stopped where e: "e = (sc, rnd, stopped)" by (cases e)
  obtain es out uptime ns1 where s: "session loads decode silence life (attempt + 1) sc ns = (es, out, uptime, ns1)" by (metis prod_cases4)
  have rnd: "0 \<le> rnd" "rnd \<le> 1" using Cons.prems e by auto
  have IH: "list_all (\<lambda>d. min lo hi / 2 \<le> d \<and> d \<le> hi) (snd (run_session loads decode silence life rc at' f' script ns'))" for at' f' ns'
    using Cons by simp
  show ?case using IH [of "attempt + 1" _ ns1] reconnect_delay_bounds [OF assms rnd] s
    by (auto simp: e Let_def split: prod.splits) (metis snd_conv)+
qed simp

text \<open>
  Every wait before a reconnect lies between half the smaller of the two backoff bounds and the
  upper bound, however many failures came before: it never becomes zero and never exceeds the ceiling.
\<close>

theorem reconnect_waits_bounded:
  assumes "0 \<le> lo" "0 \<le> hi" "rc_backoff rc = (lo, hi)" "list_all (\<lambda>(sc, rnd, stopped). 0 \<le> rnd \<and> rnd \<le> 1) script"
  shows "list_all (\<lambda>d. min lo hi / 2 \<le> d \<and> d \<le> hi) (snd (run_session loads decode silence life rc 0 0 script ns))"
  using run_session_delays [OF assms(1-3)] assms(4) by blast

definition ex_script :: session_script where
  "ex_script = \<lparr>sc_spawn_error = Some ''no such file'', sc_pid = 0, sc_started = 0, sc_ended = 0, sc_stream = [], sc_rest = [],
     sc_rest_from = 0, sc_stderr = [], sc_exits = False, sc_exit_code = None\<rparr>"

theorem reconnect_waits_bounded_witness:
  "snd (run_session (\<lambda>_. None) id 30 86400 \<lparr>rc_backoff = (1, 3), rc_healthy_after = 60\<rparr> 0 0
      [(ex_script, 1, False), (ex_script, 1, False), (ex_script, 1, False)] \<lparr>ns_boot_id = VNone, ns_bye_reason = None\<rparr>) = [1, 2, 3] \<and>
   list_all (\<lambda>d. min 1 3 / 2 \<le> d \<and> d \<le> 3)
     (snd (run_session (\<lambda>_. None) id 30 86400 \<lparr>rc_backoff = (1, 3), rc_healthy_after = 60\<rparr> 0 0
      [(ex_script, 1, False), (ex_script, 1, False), (ex_script, 1, False)] \<lparr>ns_boot_id = VNone, ns_bye_reason = None\<rparr>))"
proof
  show "snd (run_session (\<lambda>_. None) id 30 86400 \<lparr>rc_backoff = (1, 3), rc_healthy_after = 60\<rparr> 0 0
      [(ex_script, 1, False), (ex_script, 1, False), (ex_script, 1, False)] \<lparr>ns_boot_id = VNone, ns_bye_reason = None\<rparr>) = [1, 2, 3]"
    by (simp add: ex_script_def session_def reconnect_delay_def MAX_BACKOFF_DOUBLINGS_def Let_def)
qed (rule reconnect_waits_bounded, simp_all)

subsection \<open>The order of the events\<close>

text \<open>
  The protocol of the callbacks of one node: a session starts when none is up; messages and diagnostics
  come only from a session that is up; it ends with one \<open>session_rotated\<close> or \<open>session_lost\<close>; a spawn
  that fails is lost without having started; a wait happens only between sessions.
\<close>

fun protocol :: "bool \<Rightarrow> callback list \<Rightarrow> bool option" where
  "protocol up [] = Some up"
| "protocol up (Message m # cs) = (if up then protocol up cs else None)"
| "protocol up (Event k d # cs) =
     (if k = ''session_started'' then (if up then None else protocol True cs)
      else if k = ''session_rotated'' then (if up then protocol False cs else None)
      else if k = ''session_lost'' then
        (if up \<noteq> (rget d ''reason'' = VStr ''spawn_failed'') then protocol False cs else None)
      else if k = ''reconnect_wait'' then (if up then None else protocol up cs)
      else (if up then protocol up cs else None))"

definition diagnostic :: "callback \<Rightarrow> bool" where
  "diagnostic c = (case c of Message _ \<Rightarrow> True
     | Event k _ \<Rightarrow> k \<notin> {''session_started'', ''session_rotated'', ''session_lost'', ''reconnect_wait''})"

lemma protocol_append: "protocol up (a @ b) = Option.bind (protocol up a) (\<lambda>u. protocol u b)"
  by (induction up a rule: protocol.induct) auto

lemma protocol_diagnostic: "list_all diagnostic cs \<Longrightarrow> protocol True cs = Some True"
  by (induction "True" cs rule: protocol.induct) (auto simp: diagnostic_def)

lemma handle_line_diagnostic: "handle_line loads decode raw ns = (es, ns') \<Longrightarrow> list_all diagnostic es"
  by (auto simp: handle_line_def note_boot_id_def diagnostic_def Let_def split: if_splits option.splits pyval.splits)

lemma pump_diagnostic: "list_all diagnostic (fst (pump loads decode deadline silence script ns))"
proof (induction loads decode deadline silence script ns rule: pump.induct)
  case (2 loads decode deadline silence now r script ns)
  then show ?case
    by (auto simp: Let_def diagnostic_def [of "Event _ _"] split: reading.splits prod.splits dest: handle_line_diagnostic)
      (use handle_line_diagnostic in fastforce)+
qed simp

lemma stderr_diagnostic: "list_all diagnostic (map (Event ''probe_stderr'') es)"
  by (induction es) (simp_all add: diagnostic_def)

lemma lost_reason [simp]: "rget [(''reason'', VStr (reason_name out)), x, y, z] ''reason'' = VStr (reason_name out)"
  by (simp add: rget_def dget_or_def)

lemma reason_spawn [simp]: "reason_name out = ''spawn_failed'' \<longleftrightarrow> out = SpawnFailed"
  by (cases out) (simp_all add: reason_name_def)

lemma stream_outcome_cases: "stream_outcome e ns \<noteq> SpawnFailed"
  by (auto simp: stream_outcome_def split: option.splits pump_end.splits)

lemma session_protocol:
  assumes "session loads decode silence life attempt sc ns = (es, out, uptime, ns')"
  shows "protocol False es = Some (out = Stop)"
proof (cases "sc_spawn_error sc")
  case (Some msg)
  with assms show ?thesis by (auto simp: session_def lost_event_def)
next
  case None
  let ?ns = "ns\<lparr>ns_bye_reason := None\<rparr>"
  obtain es1 e ns1 where p: "pump loads decode (sc_started sc + life) (Some silence) (sc_stream sc) ?ns = (es1, e, ns1)"
    by (metis prod_cases3)
  obtain es2 e2 ns2 where q: "pump loads decode (sc_rest_from sc + ROTATE_EOF_WAIT_SEC) None (sc_rest sc) ns1 = (es2, e2, ns2)"
    by (metis prod_cases3)
  obtain errs1 sl1 where d: "drain decode (sc_stderr sc) new_stderr_log = (errs1, sl1)" by fastforce
  obtain errs2 sl2 where f: "finish_log decode sl1 = (errs2, sl2)" by fastforce
  have "list_all diagnostic es1" "list_all diagnostic es2" using pump_diagnostic p q by (metis fst_conv)+
  then have body: "protocol True es1 = Some True" "protocol True es2 = Some True"
      "protocol True (map (Event ''probe_stderr'') errs) = Some True" for errs
    using stderr_diagnostic by (simp_all only: protocol_diagnostic)
  show ?thesis using assms stream_outcome_cases [of e ns1]
    by (cases "stream_outcome e ns1")
      (auto simp: session_def None p q d f Let_def protocol_append body lost_event_def simp del: map_append)
qed

lemma run_session_protocol: "protocol False (fst (run_session loads decode silence life rc attempt failures script ns)) \<noteq> None"
proof (induction script arbitrary: attempt failures ns)
  case (Cons e script)
  obtain sc rnd stopped where e: "e = (sc, rnd, stopped)" by (cases e)
  obtain es out uptime ns1 where s: "session loads decode silence life (attempt + 1) sc ns = (es, out, uptime, ns1)" by (metis prod_cases4)
  note p = session_protocol [OF s]
  have IH: "protocol False es' \<noteq> None" if "run_session loads decode silence life rc at' f' script ns1 = (es', ds)" for es' ds at' f'
    using Cons [of at' f' ns1] that by simp
  show ?case
  proof (cases "stopped \<or> out = Stop")
    case True
    with s p show ?thesis by (auto simp: e Let_def)
  next
    case False
    with p have "protocol False es = Some False" by simp
    with False s show ?thesis using IH by (auto simp: e Let_def protocol_append split: prod.splits)
  qed
qed simp

text \<open>
  C18.  Whatever the processes, the clock and the random numbers do, the callbacks of a node session
  follow the protocol: sessions do not overlap, each one that started ends with exactly one rotation or
  loss unless it was stopped, no message or diagnostic comes from outside a session, and the waits lie
  between sessions.
\<close>

theorem session_events_follow_protocol:
  "protocol False (fst (run_session loads decode silence life rc 0 0 script ns)) \<noteq> None"
  by (rule run_session_protocol)

end
