(* ===== verification/Daemon.thy ===== *)
theory Daemon
  imports Probe_Message Node_Pipeline Writer_Thread Session
begin

text \<open>
  The collector (\<open>collector/daemon.py\<close>): sessions call back into the pipelines of their nodes, the records
  go to the queue, and the writer thread drains it.  The callbacks run on one thread, the writer on
  another; \<open>daemon_step\<close> interleaves them.  Clock readings (\<open>_now()\<close>, in UTC) are arguments in microseconds.
  A message that has none of the shapes the pipeline computes with may raise there at any point or pass;
  what then comes out, and the state in which it leaves the pipeline, is an argument.  Signal handling,
  logging and the limit of sixty seconds on the last join are not modelled.
\<close>

subsection \<open>Messages as the pipeline takes them\<close>

definition hello_of_row :: "row \<Rightarrow> hello_msg option" where
  "hello_of_row d = map_option (\<lambda>hw. \<lparr>he_boot_id = rget d ''boot_id'', he_btime = rget d ''btime'', he_probe_version = rget d ''probe_version'',
     he_python_version = rget d ''python_version'', he_hostname_fqdn = rget d ''hostname_fqdn'', he_hardware = hw\<rparr>) (sect_of d ''hardware'')"

definition census_summary_of_row :: "row \<Rightarrow> census_msg option" where
  "census_summary_of_row d =
     (case (rget d ''gpus'', num_field d ''scan_seconds'', str_field d ''gpu_status'') of
        (VList gpus, Some scan, Some st) \<Rightarrow> Some \<lparr>cn_gpus = gpus, cn_scan_seconds = scan, cn_gpu_status = st\<rparr>
      | _ \<Rightarrow> None)"

definition message_of_row :: "row \<Rightarrow> message option" where
  "message_of_row d =
     (let kind = rget d ''type'' in
      if kind = VStr ''hello'' then map_option Hello (hello_of_row d)
      else if kind = VStr ''counters'' then map_option Counters (counters_of_row d)
      else if kind = VStr ''census'' then
        (if rget d ''processes'' = VNone then map_option (\<lambda>m. Census m None) (census_summary_of_row d)
         else map_option (\<lambda>(m, ps). Census m (Some ps)) (census_of_row d))
      else if kind = VStr ''error'' then Some (ErrorMsg (rget d ''where'') (rget d ''message''))
      else Some (OtherMsg kind))"

subsection \<open>State\<close>

record daemon_cfg =
  dc_db_url :: "string option"
  dc_system :: string
  dc_nodes :: "(string \<times> string) list"
  dc_counter_sec :: rat
  dc_summary_sec :: rat
  dc_census_sec :: rat
  dc_min_user_uid :: int
  dc_redactor :: "pattern list"

record daemon =
  dm_system :: string
  dm_nodes :: "(string, string) dict"
  dm_pipelines :: "(string, pipeline) dict"
  dm_states :: "(string, string) dict"
  dm_stopping :: bool
  dm_tap :: "nm_record list option"

definition pipeline_for :: "daemon_cfg \<Rightarrow> string \<times> string \<Rightarrow> pipeline" where
  "pipeline_for dc node = new_pipeline (dc_system dc) (snd node) (fst node) (dc_counter_sec dc) (dc_summary_sec dc) (dc_census_sec dc)
     (dc_min_user_uid dc) (dc_redactor dc)"

text \<open>\<open>Daemon.__init__\<close>; nodes are pairs of label and host.\<close>

definition new_daemon :: "daemon_cfg \<Rightarrow> bool \<Rightarrow> daemon res" where
  "new_daemon dc tap =
     (if dc_db_url dc \<in> {None, Some []} then Inl (ValueError ''database.url is not set'')
      else Inr \<lparr>dm_system = dc_system dc, dm_nodes = dc_nodes dc, dm_pipelines = map (\<lambda>n. (fst n, pipeline_for dc n)) (dc_nodes dc),
        dm_states = map (\<lambda>n. (fst n, ''starting'')) (dc_nodes dc), dm_stopping = False, dm_tap = (if tap then Some [] else None)\<rparr>)"

subsection \<open>Records of the collector itself\<close>

definition error_detail :: "string \<times> string \<Rightarrow> row" where
  "error_detail exc = [(''type'', VStr (fst exc)), (''error'', VStr (take ERROR_CHARS (snd exc)))]"

definition pipeline_error :: "daemon \<Rightarrow> string \<Rightarrow> string \<times> string \<Rightarrow> datetime \<Rightarrow> nm_record" where
  "pipeline_error dm host exc recv =
     Record COLLECTION_EVENT [(''system'', VStr (dm_system dm)), (''node'', VStr host), (''ts'', VTime recv),
       (''event_type'', VStr ''pipeline_error''), (''detail'', VDict (error_detail exc))]"

definition collector_event :: "daemon \<Rightarrow> datetime \<Rightarrow> string \<Rightarrow> row \<Rightarrow> nm_record" where
  "collector_event dm now event_type detail =
     Record COLLECTION_EVENT [(''system'', VStr (dm_system dm)), (''node'', VNone), (''ts'', VTime now),
       (''event_type'', VStr event_type), (''detail'', VDict detail)]"

definition tapped :: "nm_record list \<Rightarrow> daemon \<Rightarrow> daemon" where
  "tapped rs dm = dm\<lparr>dm_tap := map_option (\<lambda>seen. seen @ rs) (dm_tap dm)\<rparr>"

subsection \<open>Callbacks\<close>

type_synonym outcome = "((string \<times> string) + nm_record list) \<times> pipeline"

text \<open>The class and the text of an exception of the model.\<close>

definition exc_of :: "py_error \<Rightarrow> string \<times> string" where
  "exc_of e = (case e of ValueError s \<Rightarrow> (''ValueError'', s) | KeyError s \<Rightarrow> (''KeyError'', [CHR 0x27] @ s @ [CHR 0x27])
     | RuntimeError s \<Rightarrow> (''RuntimeError'', s) | OtherError s \<Rightarrow> (s, []))"

definition outcome_of :: "(nm_record list \<times> pipeline) res \<Rightarrow> pipeline \<Rightarrow> outcome" where
  "outcome_of r np = (case r of Inl e \<Rightarrow> (Inl (exc_of e), np) | Inr (rs, np') \<Rightarrow> (Inr rs, np'))"

text \<open>\<open>_deliver\<close>: what goes to the queue; a label without a node raises.\<close>

definition deliver :: "string \<Rightarrow> datetime \<Rightarrow> (pipeline \<Rightarrow> outcome) \<Rightarrow> daemon \<Rightarrow> (nm_record list \<times> daemon) res" where
  "deliver label recv produce dm =
     (case (dget (dm_nodes dm) label, dget (dm_pipelines dm) label) of
        (Some host, Some np) \<Rightarrow>
          (case produce np of (res, np') \<Rightarrow>
             let rs = (case res of Inr rs \<Rightarrow> rs | Inl exc \<Rightarrow> [pipeline_error dm host exc recv])
             in Inr (rs, tapped rs (dm\<lparr>dm_pipelines := dset (dm_pipelines dm) label np'\<rparr>)))
      | _ \<Rightarrow> Inl (KeyError label))"

definition set_state :: "string \<Rightarrow> string \<Rightarrow> daemon \<Rightarrow> daemon" where
  "set_state label st dm = dm\<lparr>dm_states := dset (dm_states dm) label st\<rparr>"

definition daemon_message :: "string \<Rightarrow> row \<Rightarrow> int \<Rightarrow> outcome \<Rightarrow> daemon \<Rightarrow> (nm_record list \<times> daemon) res" where
  "daemon_message label msg recv strange dm =
     deliver label (utc recv)
       (\<lambda>np. case message_of_row msg of Some m \<Rightarrow> outcome_of (on_message np m (utc recv)) np | None \<Rightarrow> strange) dm"

definition daemon_event :: "string \<Rightarrow> string \<Rightarrow> row \<Rightarrow> int \<Rightarrow> daemon \<Rightarrow> (nm_record list \<times> daemon) res" where
  "daemon_event label kind detail recv dm =
     (let dm = (if kind = ''session_started'' then set_state label ''up'' dm
                else if kind = ''session_lost'' then set_state label ''down'' dm else dm)
      in deliver label (utc recv) (\<lambda>np. outcome_of (on_event np kind detail (utc recv)) np) dm)"

definition daemon_crash :: "string \<Rightarrow> string \<times> string \<Rightarrow> int \<Rightarrow> daemon \<Rightarrow> (nm_record list \<times> daemon) res" where
  "daemon_crash label exc recv dm =
     (case daemon_event label ''session_crashed'' (error_detail exc) recv dm of
        Inl e \<Rightarrow> Inl e | Inr (rs, dm) \<Rightarrow> Inr (rs, set_state label ''down'' dm))"

text \<open>What \<open>run_sessions\<close> makes of a session: its callbacks, and \<open>on_crash\<close> if it raises.\<close>

datatype dcall = OnCallback callback int outcome | OnCrash "string \<times> string" int

definition daemon_call :: "string \<Rightarrow> dcall \<Rightarrow> daemon \<Rightarrow> (nm_record list \<times> daemon) res" where
  "daemon_call label c dm = (case c of
     OnCallback (Message msg) recv strange \<Rightarrow> daemon_message label msg recv strange dm
   | OnCallback (Event kind detail) recv _ \<Rightarrow> daemon_event label kind detail recv dm
   | OnCrash exc recv \<Rightarrow> daemon_crash label exc recv dm)"

subsection \<open>Start and stop\<close>

datatype schema_check = SchemaCurrent | SchemaBehind | SchemaUnknown

definition schema_ok :: "schema_check \<Rightarrow> bool" where
  "schema_ok c = (case c of SchemaBehind \<Rightarrow> False | _ \<Rightarrow> True)"

text \<open>The loop of \<open>_finish_queue\<close>; \<open>fault\<close> is the exception that a flush raises, if one does.\<close>

fun flush_nodes :: "(string \<Rightarrow> (string \<times> string) option) \<Rightarrow> int \<Rightarrow> (string \<times> pipeline) list \<Rightarrow> daemon \<Rightarrow> nm_record list \<times> daemon" where
  "flush_nodes fault now [] dm = ([], dm)"
| "flush_nodes fault now ((label, np) # nps) dm =
     (let (rs, np') = (case fault label of
            None \<Rightarrow> flush_pipeline np
          | Some exc \<Rightarrow> ([pipeline_error dm (dget_or (dm_nodes dm) label []) exc (utc now)], np));
          (rest, dm') = flush_nodes fault now nps (tapped rs (dm\<lparr>dm_pipelines := dset (dm_pipelines dm) label np'\<rparr>))
      in (rs @ rest, dm'))"

definition finish_queue :: "(string \<Rightarrow> (string \<times> string) option) \<Rightarrow> int \<Rightarrow> daemon \<Rightarrow> nm_record list \<times> daemon" where
  "finish_queue fault now dm =
     (let dm = dm\<lparr>dm_stopping := True, dm_states := map (\<lambda>(l, _). (l, ''stopped'')) (dm_states dm)\<rparr>;
          (rs, dm) = flush_nodes fault now (dm_pipelines dm) dm
      in (rs @ [collector_event dm (utc now) ''collector_stopped'' []], dm))"

definition started_event :: "string \<Rightarrow> string \<Rightarrow> int \<Rightarrow> int \<Rightarrow> daemon \<Rightarrow> nm_record" where
  "started_event version host pid now dm =
     collector_event dm (utc now) ''collector_started'' [(''version'', VStr version), (''host'', VStr host), (''pid'', VInt pid)]"

text \<open>\<open>_status\<close>, with what the writer thread reports.\<close>

definition daemon_status :: "row \<Rightarrow> daemon \<Rightarrow> row" where
  "daemon_status writer dm =
     dmerge [(''state'', VStr (if dm_stopping dm then ''stopping'' else ''running'')),
       (''sessions'', VDict (map (\<lambda>(l, s). (l, VStr s)) (dm_states dm)))] writer"

subsection \<open>The run\<close>

datatype run_phase = Starting | Collecting | Stopping | Exited int

text \<open>\<open>ds_log\<close> is a history variable: what was put, with the label of the node or \<open>None\<close>.\<close>

record ('b, 'u) dsys =
  ds_daemon :: daemon
  ds_writer :: "('b, 'u) wsys"
  ds_phase :: run_phase
  ds_log :: "(string option \<times> nm_record list) list"
  ds_error :: "py_error option"

definition dsys_init :: "daemon \<Rightarrow> 'b \<Rightarrow> 'u \<Rightarrow> ('b, 'u) dsys" where
  "dsys_init dm b u = \<lparr>ds_daemon = dm, ds_writer = wsys_init b u, ds_phase = Starting, ds_log = [], ds_error = None\<rparr>"

text \<open>\<open>queue.put\<close> on the event loop's thread; an exception would surface in the session.\<close>

definition put_records :: "string option \<Rightarrow> nm_record list \<Rightarrow> ('b, 'u) dsys \<Rightarrow> ('b, 'u) dsys" where
  "put_records origin rs s =
     (case put (ws_queue (ds_writer s)) rs of
        (None, q) \<Rightarrow> s\<lparr>ds_writer := (ds_writer s)\<lparr>ws_queue := q, ws_put := ws_put (ds_writer s) @ rs\<rparr>, ds_log := ds_log s @ [(origin, rs)]\<rparr>
      | (Some e, q) \<Rightarrow> s\<lparr>ds_writer := (ds_writer s)\<lparr>ws_queue := q\<rparr>, ds_error := Some e\<rparr>)"

definition begin_run :: "string \<Rightarrow> string \<Rightarrow> int \<Rightarrow> int \<Rightarrow> ('b, 'u) dsys \<Rightarrow> ('b, 'u) dsys" where
  "begin_run version host pid now s =
     put_records None [started_event version host pid now (ds_daemon s)] (s\<lparr>ds_phase := Collecting\<rparr>)"

definition call_run :: "string \<Rightarrow> dcall \<Rightarrow> ('b, 'u) dsys \<Rightarrow> ('b, 'u) dsys" where
  "call_run label c s =
     (case daemon_call label c (ds_daemon s) of
        Inl e \<Rightarrow> s\<lparr>ds_error := Some e\<rparr>
      | Inr (rs, dm) \<Rightarrow> put_records (Some label) rs (s\<lparr>ds_daemon := dm\<rparr>))"

definition end_run :: "(string \<Rightarrow> (string \<times> string) option) \<Rightarrow> int \<Rightarrow> ('b, 'u) dsys \<Rightarrow> ('b, 'u) dsys" where
  "end_run fault now s =
     (let (rs, dm) = finish_queue fault now (ds_daemon s);
          s = put_records None rs (s\<lparr>ds_daemon := dm, ds_phase := Stopping\<rparr>)
      in s\<lparr>ds_writer := (ds_writer s)\<lparr>ws_queue := close_queue (ws_queue (ds_writer s))\<rparr>\<rparr>)"

text \<open>Whatever a pipeline makes of an ill-shaped message, \<open>_row\<close> builds its rows.\<close>

definition strange_ok :: "dcall \<Rightarrow> bool" where
  "strange_ok c = (case c of OnCallback _ _ strange \<Rightarrow> (case fst strange of Inr rs \<Rightarrow> list_all has_identity rs | Inl _ \<Rightarrow> True) | OnCrash _ _ \<Rightarrow> True)"

inductive daemon_step :: "('b, 'u) writer_io \<Rightarrow> ('b, 'u) dsys \<Rightarrow> ('b, 'u) dsys \<Rightarrow> bool" for io where
  ds_behind: "ds_phase s = Starting \<Longrightarrow> \<not> schema_ok c \<Longrightarrow> daemon_step io s (s\<lparr>ds_phase := Exited 2\<rparr>)"
| ds_begin: "ds_phase s = Starting \<Longrightarrow> schema_ok c \<Longrightarrow> daemon_step io s (begin_run version host pid now s)"
| ds_call: "ds_phase s = Collecting \<Longrightarrow> label \<in> set (dkeys (dm_nodes (ds_daemon s))) \<Longrightarrow> strange_ok c \<Longrightarrow> daemon_step io s (call_run label c s)"
| ds_end: "ds_phase s = Collecting \<Longrightarrow> daemon_step io s (end_run fault now s)"
| ds_writes: "ds_phase s \<in> {Collecting, Stopping} \<Longrightarrow> writer_step io (ds_writer s) w \<Longrightarrow> daemon_step io s (s\<lparr>ds_writer := w\<rparr>)"
| ds_joined: "ds_phase s = Stopping \<Longrightarrow> ws_phase (ds_writer s) = Stopped \<Longrightarrow> daemon_step io s (s\<lparr>ds_phase := Exited 0\<rparr>)"

inductive daemon_reachable :: "('b, 'u) writer_io \<Rightarrow> daemon_cfg \<Rightarrow> bool \<Rightarrow> ('b, 'u) dsys \<Rightarrow> bool" for io dc tap where
  dr_init: "new_daemon dc tap = Inr dm \<Longrightarrow> daemon_reachable io dc tap (dsys_init dm b u)"
| dr_step: "daemon_reachable io dc tap s \<Longrightarrow> daemon_step io s t \<Longrightarrow> daemon_reachable io dc tap t"

subsection \<open>Every record can be queued\<close>

lemma identity_has_node: "has_identity r \<Longrightarrow> has_node r"
  by (auto simp: has_identity_def has_node_def map_of_eq_None_iff)

lemma list_identity_node: "list_all has_identity rs \<Longrightarrow> list_all has_node rs"
  by (auto simp: list_all_iff identity_has_node)

lemma own_records [simp]: "has_identity (pipeline_error dm host exc t)" "has_identity (collector_event dm t k d)" "has_identity (started_event v h p n dm)"
  by (simp_all add: has_identity_def pipeline_error_def collector_event_def started_event_def)


lemma on_message_identity: "on_message np m t = Inr (rs, np') \<Longrightarrow> list_all has_identity rs"
  using pipe_step_identity [of np "OnMessage m t"] by simp

lemma on_event_identity: "on_event np k d t = Inr (rs, np') \<Longrightarrow> list_all has_identity rs"
  using pipe_step_identity [of np "OnEvent k d t"] by simp

lemma flush_identity: "list_all has_identity (fst (flush_pipeline np))"
  using pipe_step_identity [of np Flush] by simp

definition outcome_ok :: "outcome \<Rightarrow> bool" where
  "outcome_ok r = (case fst r of Inr rs \<Rightarrow> list_all has_identity rs | Inl _ \<Rightarrow> True)"

lemma outcome_of_ok [simp]: "outcome_ok (outcome_of (on_message np m t) np)" "outcome_ok (outcome_of (on_event np k d t) np)"
  by (auto simp: outcome_ok_def outcome_of_def on_message_identity on_event_identity split: sum.splits)

text \<open>What a node contributes to the queue for an outcome.\<close>

definition outcome_records :: "string \<Rightarrow> string \<Rightarrow> datetime \<Rightarrow> outcome \<Rightarrow> nm_record list" where
  "outcome_records system host t r = (case fst r of Inr rs \<Rightarrow> rs
     | Inl exc \<Rightarrow> [Record COLLECTION_EVENT [(''system'', VStr system), (''node'', VStr host), (''ts'', VTime t),
         (''event_type'', VStr ''pipeline_error''), (''detail'', VDict (error_detail exc))]])"

lemma outcome_records_identity: "outcome_ok r \<Longrightarrow> list_all has_identity (outcome_records system host t r)"
  by (auto simp: outcome_ok_def outcome_records_def has_identity_def split: sum.splits)

lemma deliver_known:
  assumes "dget (dm_nodes dm) label = Some host" "dget (dm_pipelines dm) label = Some np"
  shows "deliver label t produce dm =
    Inr (outcome_records (dm_system dm) host t (produce np),
      tapped (outcome_records (dm_system dm) host t (produce np)) (dm\<lparr>dm_pipelines := dset (dm_pipelines dm) label (snd (produce np))\<rparr>))"
  using assms by (cases "produce np"; cases "fst (produce np)") (simp_all add: deliver_def outcome_records_def pipeline_error_def Let_def)

lemma tapped_simps [simp]:
  "dm_nodes (tapped rs dm) = dm_nodes dm" "dm_pipelines (tapped rs dm) = dm_pipelines dm" "dm_system (tapped rs dm) = dm_system dm"
  by (simp_all add: tapped_def)

lemma set_state_simps [simp]:
  "dm_nodes (set_state l st dm) = dm_nodes dm" "dm_pipelines (set_state l st dm) = dm_pipelines dm" "dm_system (set_state l st dm) = dm_system dm"
  by (simp_all add: set_state_def)

text \<open>What a call makes of the pipeline of its node.\<close>

definition call_outcome :: "dcall \<Rightarrow> pipeline \<Rightarrow> outcome" where
  "call_outcome c np = (case c of
     OnCallback (Message msg) recv strange \<Rightarrow> (case message_of_row msg of Some m \<Rightarrow> outcome_of (on_message np m (utc recv)) np | None \<Rightarrow> strange)
   | OnCallback (Event kind detail) recv _ \<Rightarrow> outcome_of (on_event np kind detail (utc recv)) np
   | OnCrash exc recv \<Rightarrow> outcome_of (on_event np ''session_crashed'' (error_detail exc) (utc recv)) np)"

definition call_time :: "dcall \<Rightarrow> int" where
  "call_time c = (case c of OnCallback _ recv _ \<Rightarrow> recv | OnCrash _ recv \<Rightarrow> recv)"

lemma call_outcome_ok: "strange_ok c \<Longrightarrow> outcome_ok (call_outcome c np)"
  unfolding call_outcome_def strange_ok_def by (auto split: dcall.splits callback.splits option.splits) (simp add: outcome_ok_def)

lemma daemon_call_known:
  assumes "dget (dm_nodes dm) label = Some host" "dget (dm_pipelines dm) label = Some np"
  shows "\<exists>dm'. daemon_call label c dm = Inr (outcome_records (dm_system dm) host (utc (call_time c)) (call_outcome c np), dm') \<and>
    dm_nodes dm' = dm_nodes dm \<and> dm_system dm' = dm_system dm \<and>
    dm_pipelines dm' = dset (dm_pipelines dm) label (snd (call_outcome c np))"
proof (cases c)
  case (OnCallback cb recv strange)
  then show ?thesis using assms
    by (cases cb) (simp_all add: daemon_call_def daemon_message_def daemon_event_def Let_def deliver_known [OF assms] deliver_known
        call_outcome_def call_time_def)
next
  case (OnCrash exc recv)
  then show ?thesis using assms
    by (simp add: daemon_call_def daemon_crash_def daemon_event_def Let_def deliver_known call_outcome_def call_time_def)
qed

subsection \<open>One node does not see another\<close>

fun daemon_calls :: "(string \<times> dcall) list \<Rightarrow> daemon \<Rightarrow> (string \<times> nm_record list) list \<times> daemon" where
  "daemon_calls [] dm = ([], dm)"
| "daemon_calls ((label, c) # cs) dm =
     (case daemon_call label c dm of
        Inl _ \<Rightarrow> ([], dm)
      | Inr (rs, dm) \<Rightarrow> (case daemon_calls cs dm of (out, dm) \<Rightarrow> ((label, rs) # out, dm)))"

definition node_step :: "string \<Rightarrow> string \<Rightarrow> pipeline \<Rightarrow> dcall \<Rightarrow> nm_record list \<times> pipeline" where
  "node_step system host np c = (outcome_records system host (utc (call_time c)) (call_outcome c np), snd (call_outcome c np))"

definition of_label :: "string \<Rightarrow> (string \<times> 'a) list \<Rightarrow> 'a list" where
  "of_label label xs = map snd (filter (\<lambda>(l, _). l = label) xs)"

lemma of_label_simps [simp]:
  "of_label label [] = []" "of_label label ((l, x) # xs) = (if l = label then x # of_label label xs else of_label label xs)"
  by (simp_all add: of_label_def)

lemma daemon_calls_node:
  assumes "dkeys (dm_pipelines dm) = dkeys (dm_nodes dm)" "list_all (\<lambda>(l, _). l \<in> set (dkeys (dm_nodes dm))) cs"
    "dget (dm_nodes dm) label = Some host" "dget (dm_pipelines dm) label = Some np"
  shows "run_calls (node_step (dm_system dm) host) np (of_label label cs) =
    (concat (of_label label (fst (daemon_calls cs dm))), the (dget (dm_pipelines (snd (daemon_calls cs dm))) label)) \<and>
    map fst (fst (daemon_calls cs dm)) = map fst cs"
  using assms
proof (induction cs arbitrary: dm np)
  case (Cons lc cs)
  obtain l c where lc: "lc = (l, c)" by (cases lc)
  from Cons.prems(2) have l: "l \<in> set (dkeys (dm_nodes dm))" by (simp add: lc)
  then obtain h np1 where known: "dget (dm_nodes dm) l = Some h" "dget (dm_pipelines dm) l = Some np1"
    using Cons.prems(1) by (metis image_set map_of_eq_None_iff not_Some_eq)
  from daemon_call_known [OF known, of c] obtain dm' where call: "daemon_call l c dm = Inr (outcome_records (dm_system dm) h (utc (call_time c)) (call_outcome c np1), dm')"
    and dm': "dm_nodes dm' = dm_nodes dm" "dm_system dm' = dm_system dm" "dm_pipelines dm' = dset (dm_pipelines dm) l (snd (call_outcome c np1))" by blast
  have keys: "dkeys (dm_pipelines dm') = dkeys (dm_nodes dm')" using Cons.prems(1) l dm' list.set_map [of fst "dm_pipelines dm"] by (simp add: dkeys_dset)
  let ?np = "if l = label then snd (call_outcome c np) else np"
  have np: "dget (dm_pipelines dm') label = Some ?np" "l = label \<Longrightarrow> h = host \<and> np1 = np"
    using Cons.prems(3,4) known dm' by auto
  note ih = Cons.IH [OF keys _ _ np(1)]
  show ?case
  proof (cases "l = label")
    case True
    then show ?thesis using ih np(2) Cons.prems dm' call by (simp add: lc case_prod_beta node_step_def [of _ _ np])
  next
    case False
    then show ?thesis using ih Cons.prems dm' by (simp add: lc call case_prod_beta)
  qed
qed simp

text \<open>Calls that the pipeline computes with, as calls of the pipeline.\<close>

definition shaped :: "dcall \<Rightarrow> bool" where
  "shaped c = (case c of OnCallback (Message msg) _ _ \<Rightarrow> message_of_row msg \<noteq> None | _ \<Rightarrow> True)"

definition pipe_call_of :: "dcall \<Rightarrow> pipe_call" where
  "pipe_call_of c = (case c of
     OnCallback (Message msg) recv _ \<Rightarrow> OnMessage (the (message_of_row msg)) (utc recv)
   | OnCallback (Event kind detail) recv _ \<Rightarrow> OnEvent kind detail (utc recv)
   | OnCrash exc recv \<Rightarrow> OnEvent ''session_crashed'' (error_detail exc) (utc recv))"

lemma utc_aware [simp]: "require_aware (utc t) = Inr (utc t)"
  by (simp add: require_aware_def utc_def)

lemma on_event_total: "\<exists>r. on_event np k d (utc t) = Inr r"
  by (simp add: on_event_def Let_def)

lemma on_message_total: "\<exists>r. on_message np m (utc t) = Inr r"
  by (cases m) (auto simp: on_message_def np_counters_def np_census_def add_counters_def add_census_def add_census_minute_def Let_def
      split: option.splits prod.splits)

lemma node_step_shaped: "shaped c \<Longrightarrow> node_step system host np c = pipe_step np (pipe_call_of c)"
proof -
  have o: "outcome_records system host t (outcome_of (Inr r) np) = fst r" "snd (outcome_of (Inr r) np) = snd r" for t r
    by (cases r; simp add: outcome_of_def outcome_records_def)+
  assume sh: "shaped c"
  show ?thesis
  proof (cases c)
    case (OnCallback cb recv strange)
    show ?thesis
    proof (cases cb)
      case (Message msg)
      with sh OnCallback obtain m where m: "message_of_row msg = Some m" by (auto simp: shaped_def)
      obtain r where "on_message np m (utc recv) = Inr r" using on_message_total by blast
      with m show ?thesis by (simp add: OnCallback Message node_step_def call_outcome_def pipe_call_of_def o)
    next
      case (Event kind detail)
      obtain r where "on_event np kind detail (utc recv) = Inr r" using on_event_total by blast
      then show ?thesis by (simp add: OnCallback Event node_step_def call_outcome_def pipe_call_of_def o)
    qed
  next
    case (OnCrash exc recv)
    obtain r where "on_event np ''session_crashed'' (error_detail exc) (utc recv) = Inr r" using on_event_total by blast
    then show ?thesis by (simp add: OnCrash node_step_def call_outcome_def pipe_call_of_def o)
  qed
qed

lemma run_calls_shaped:
  "list_all shaped cs \<Longrightarrow> run_calls (node_step system host) np cs = run_calls pipe_step np (map pipe_call_of cs)"
  by (induction cs arbitrary: np) (auto simp: node_step_shaped split: prod.splits)

text \<open>
  C26.  No callback of the collector raises, and what a node contributes is what its pipeline makes of the
  calls of that node alone, in their order, however the calls of other nodes come in between and
  whatever goes wrong there; a call on which the pipeline raises costs one \<open>pipeline_error\<close> event.
\<close>

theorem daemon_isolates_nodes:
  assumes "new_daemon dc tap = Inr dm" "(label, host) \<in> set (dc_nodes dc)" "distinct (map fst (dc_nodes dc))"
    "list_all (\<lambda>(l, _). l \<in> fst ` set (dc_nodes dc)) cs"
  shows "map fst (fst (daemon_calls cs dm)) = map fst cs \<and>
    concat (of_label label (fst (daemon_calls cs dm))) =
      fst (run_calls (node_step (dc_system dc) host) (pipeline_for dc (label, host)) (of_label label cs)) \<and>
    (list_all shaped (of_label label cs) \<longrightarrow>
      concat (of_label label (fst (daemon_calls cs dm))) =
        fst (run_calls pipe_step (pipeline_for dc (label, host)) (map pipe_call_of (of_label label cs))))"
proof -
  have dm: "dm_nodes dm = dc_nodes dc" "dm_system dm = dc_system dc" "dm_pipelines dm = map (\<lambda>n. (fst n, pipeline_for dc n)) (dc_nodes dc)"
    using assms(1) by (auto simp: new_daemon_def split: if_splits)
  have h: "dget (dm_nodes dm) label = Some host" using assms(2,3) by (simp add: dm)
  have p: "dget (dm_pipelines dm) label = Some (pipeline_for dc (label, host))"
    using assms(2,3) by (simp add: dm comp_def) (force intro: map_of_eq_Some_iff [THEN iffD2] simp: comp_def)
  have k: "dkeys (dm_pipelines dm) = dkeys (dm_nodes dm)" "list_all (\<lambda>(l, _). l \<in> set (dkeys (dm_nodes dm))) cs"
    using assms(4) by (simp_all add: dm comp_def)
  from daemon_calls_node [OF k h p] show ?thesis
    by (auto simp: dm run_calls_shaped [of "of_label label cs" "dc_system dc" host, symmetric])
qed

definition ex_dc :: daemon_cfg where
  "ex_dc = \<lparr>dc_db_url = Some ''postgresql://h/d'', dc_system = ''polaris'', dc_nodes = [(''a'', ''node-a''), (''b'', ''node-b'')], dc_counter_sec = 10,
     dc_summary_sec = 300, dc_census_sec = 60, dc_min_user_uid = 1000, dc_redactor = []\<rparr>"

definition ex_bad_call :: dcall where
  "ex_bad_call = OnCallback (Message [(''type'', VStr ''counters''), (''mem'', VStr ''x'')]) 1000000
     (Inl (''AttributeError'', ''no get''), pipeline_for ex_dc (''b'', ''node-b''))"

definition ex_good_call :: dcall where
  "ex_good_call = OnCallback (Event ''session_started'' []) 0 (Inr [], pipeline_for ex_dc (''a'', ''node-a''))"

theorem daemon_isolates_nodes_witness:
  "case new_daemon ex_dc True of
     Inl _ \<Rightarrow> False
   | Inr dm \<Rightarrow>
       (let out = fst (daemon_calls [(''a'', ex_good_call), (''b'', ex_bad_call), (''a'', ex_good_call)] dm) in
        map (\<lambda>r. rget (rrow r) ''event_type'') (concat (of_label ''b'' out)) = [VStr ''pipeline_error''] \<and>
        concat (of_label ''a'' out) =
          fst (run_calls pipe_step (pipeline_for ex_dc (''a'', ''node-a'')) [OnEvent ''session_started'' [] (utc 0), OnEvent ''session_started'' [] (utc 0)]))"
proof -
  let ?cs = "[(''a'', ex_good_call), (''b'', ex_bad_call), (''a'', ex_good_call)]"
  obtain dm where dm: "new_daemon ex_dc True = Inr dm" by (simp add: new_daemon_def ex_dc_def)
  have k: "list_all (\<lambda>(l, _). l \<in> fst ` set (dc_nodes ex_dc)) ?cs" "distinct (map fst (dc_nodes ex_dc))"
    "(''a'', ''node-a'') \<in> set (dc_nodes ex_dc)" "(''b'', ''node-b'') \<in> set (dc_nodes ex_dc)"
    by (simp_all add: ex_dc_def)
  have a: "list_all shaped (of_label ''a'' ?cs)" "map pipe_call_of (of_label ''a'' ?cs) = [OnEvent ''session_started'' [] (utc 0), OnEvent ''session_started'' [] (utc 0)]"
    by (simp_all add: ex_good_call_def shaped_def pipe_call_of_def)
  have b: "call_outcome ex_bad_call np = (Inl (''AttributeError'', ''no get''), pipeline_for ex_dc (''b'', ''node-b''))" for np
  proof -
    have "message_of_row [(''type'', VStr ''counters''), (''mem'', VStr ''x'')] = None" by code_simp
    then show ?thesis by (simp add: call_outcome_def ex_bad_call_def)
  qed
  have "concat (of_label ''a'' (fst (daemon_calls ?cs dm))) =
      fst (run_calls pipe_step (pipeline_for ex_dc (''a'', ''node-a'')) (map pipe_call_of (of_label ''a'' ?cs)))"
    using daemon_isolates_nodes [OF dm k(3,2,1)] a(1) by blast
  moreover have "concat (of_label ''b'' (fst (daemon_calls ?cs dm))) =
      fst (run_calls (node_step (dc_system ex_dc) ''node-b'') (pipeline_for ex_dc (''b'', ''node-b'')) (of_label ''b'' ?cs))"
    using daemon_isolates_nodes [OF dm k(4,2,1)] by blast
  moreover have "map (\<lambda>r. rget (rrow r) ''event_type'')
      (fst (run_calls (node_step (dc_system ex_dc) ''node-b'') (pipeline_for ex_dc (''b'', ''node-b'')) (of_label ''b'' ?cs))) = [VStr ''pipeline_error'']"
    by (simp add: node_step_def b outcome_records_def rget_def dget_or_def)
  ultimately show ?thesis unfolding dm Let_def a(2) by simp
qed

subsection \<open>From the start to the last record\<close>

lemma put_has_node: "list_all has_node rs \<Longrightarrow> \<not> q_closed q \<Longrightarrow> \<exists>q'. put q rs = (None, q') \<and> \<not> q_closed q'"
proof -
  have "list_all has_node rs \<Longrightarrow> \<exists>q'. put_loop q rs = (None, q') \<and> q_closed q' = q_closed q" for q
  proof (induction rs arbitrary: q)
    case (Cons r rs)
    from Cons.prems obtain q1 where q1: "put_one q r = Inr q1" using put_one_ok by fastforce
    with Cons.IH [of q1] Cons.prems put_one_closed [OF q1] show ?case by auto
  qed simp
  then show "list_all has_node rs \<Longrightarrow> \<not> q_closed q \<Longrightarrow> ?thesis" by (auto simp: put_def)
qed

definition event_is :: "string \<Rightarrow> nm_record \<Rightarrow> bool" where
  "event_is k r \<longleftrightarrow> rkind r = COLLECTION_EVENT \<and> rget (rrow r) ''event_type'' = VStr k \<and> rget (rrow r) ''node'' = VNone"

lemma event_is_own [simp]: "event_is k (collector_event dm t k d)" "event_is ''collector_started'' (started_event v h p n dm)"
  by (simp_all add: event_is_def collector_event_def started_event_def rget_def dget_or_def)

text \<open>The log opens with \<open>collector_started\<close>, then come the nodes, and \<open>collector_stopped\<close> ends it.\<close>

definition opened :: "(string option \<times> nm_record list) list \<Rightarrow> bool" where
  "opened lg \<longleftrightarrow> (\<exists>e mid. lg = (None, [e]) # mid \<and> event_is ''collector_started'' e \<and> list_all (\<lambda>(l, _). l \<noteq> None) mid)"

definition completed :: "(string option \<times> nm_record list) list \<Rightarrow> bool" where
  "completed lg \<longleftrightarrow> (\<exists>lg' rs e. opened lg' \<and> lg = lg' @ [(None, rs @ [e])] \<and> event_is ''collector_stopped'' e)"

definition log_shape :: "run_phase \<Rightarrow> (string option \<times> nm_record list) list \<Rightarrow> bool" where
  "log_shape ph lg = (case ph of Starting \<Rightarrow> lg = [] | Collecting \<Rightarrow> opened lg | Stopping \<Rightarrow> completed lg | Exited c \<Rightarrow> if c = 2 then lg = [] else completed lg)"

definition dsys_inv :: "('b, 'u) writer_io \<Rightarrow> ('b, 'u) dsys \<Rightarrow> bool" where
  "dsys_inv io s \<longleftrightarrow> ds_error s = None \<and> writer_reachable io (ds_writer s) \<and> dkeys (dm_pipelines (ds_daemon s)) = dkeys (dm_nodes (ds_daemon s)) \<and>
     ws_put (ds_writer s) = concat (map snd (ds_log s)) \<and> log_shape (ds_phase s) (ds_log s) \<and>
     (ds_phase s \<in> {Starting, Collecting} \<longrightarrow> \<not> q_closed (ws_queue (ds_writer s))) \<and>
     (ds_phase s = Stopping \<longrightarrow> q_closed (ws_queue (ds_writer s))) \<and> (ds_phase s = Exited 0 \<longrightarrow> ws_phase (ds_writer s) = Stopped)"

lemma put_records_ok:
  assumes "list_all has_identity rs" "\<not> q_closed (ws_queue (ds_writer s))" "writer_reachable io (ds_writer s)"
  shows "\<exists>q. put_records origin rs s = s\<lparr>ds_writer := (ds_writer s)\<lparr>ws_queue := q, ws_put := ws_put (ds_writer s) @ rs\<rparr>, ds_log := ds_log s @ [(origin, rs)]\<rparr> \<and>
    \<not> q_closed q \<and> writer_reachable io ((ds_writer s)\<lparr>ws_queue := q, ws_put := ws_put (ds_writer s) @ rs\<rparr>)"
proof -
  from put_has_node [OF list_identity_node [OF assms(1)] assms(2)] obtain q where q: "put (ws_queue (ds_writer s)) rs = (None, q)" "\<not> q_closed q" by blast
  from p_put [OF list_identity_node [OF assms(1)] q(1)] assms(3)
  have "writer_reachable io ((ds_writer s)\<lparr>ws_queue := q, ws_put := ws_put (ds_writer s) @ rs\<rparr>)" by (blast intro: wr_producer)
  with q show ?thesis by (auto simp: put_records_def)
qed

lemma begin_run_inv:
  assumes "dsys_inv io s" "ds_phase s = Starting"
  shows "dsys_inv io (begin_run v h p n s) \<and> ds_phase (begin_run v h p n s) = Collecting \<and> ds_daemon (begin_run v h p n s) = ds_daemon s \<and>
    map fst (ds_log (begin_run v h p n s)) = map fst (ds_log s) @ [None]"
proof -
  let ?s = "s\<lparr>ds_phase := Collecting\<rparr>"
  have i: "list_all has_identity [started_event v h p n (ds_daemon s)]" by simp
  from assms have "\<not> q_closed (ws_queue (ds_writer ?s))" "writer_reachable io (ds_writer ?s)" by (simp_all add: dsys_inv_def)
  from put_records_ok [OF i this, of None] assms show ?thesis
    by (auto simp: begin_run_def dsys_inv_def log_shape_def opened_def)
qed

lemma call_run_inv:
  assumes "dsys_inv io s" "ds_phase s = Collecting" "label \<in> set (dkeys (dm_nodes (ds_daemon s)))" "strange_ok c"
  shows "dsys_inv io (call_run label c s) \<and> ds_phase (call_run label c s) = Collecting \<and>
    map fst (ds_log (call_run label c s)) = map fst (ds_log s) @ [Some label]"
proof -
  let ?dm = "ds_daemon s"
  have k: "dkeys (dm_pipelines ?dm) = dkeys (dm_nodes ?dm)" using assms(1) by (simp add: dsys_inv_def)
  then obtain h np where known: "dget (dm_nodes ?dm) label = Some h" "dget (dm_pipelines ?dm) label = Some np"
    using assms(3) by (metis image_set map_of_eq_None_iff not_Some_eq)
  from daemon_call_known [OF known, of c] obtain dm' where call: "daemon_call label c ?dm = Inr (outcome_records (dm_system ?dm) h (utc (call_time c)) (call_outcome c np), dm')"
    and dm': "dm_nodes dm' = dm_nodes ?dm" "dm_pipelines dm' = dset (dm_pipelines ?dm) label (snd (call_outcome c np))" by blast
  let ?rs = "outcome_records (dm_system ?dm) h (utc (call_time c)) (call_outcome c np)"
  have keys: "dkeys (dm_pipelines dm') = dkeys (dm_nodes dm')"
    using k assms(3) dm' list.set_map [of fst "dm_pipelines ?dm"] by (simp add: dkeys_dset)
  have i: "list_all has_identity ?rs" by (rule outcome_records_identity, rule call_outcome_ok, rule assms(4))
  let ?s = "s\<lparr>ds_daemon := dm'\<rparr>"
  from assms have "\<not> q_closed (ws_queue (ds_writer ?s))" "writer_reachable io (ds_writer ?s)" by (simp_all add: dsys_inv_def)
  from put_records_ok [OF i this, of "Some label"] obtain q where
    q: "put_records (Some label) ?rs ?s = ?s\<lparr>ds_writer := (ds_writer ?s)\<lparr>ws_queue := q, ws_put := ws_put (ds_writer ?s) @ ?rs\<rparr>, ds_log := ds_log ?s @ [(Some label, ?rs)]\<rparr>"
    "\<not> q_closed q" "writer_reachable io ((ds_writer ?s)\<lparr>ws_queue := q, ws_put := ws_put (ds_writer ?s) @ ?rs\<rparr>)" by blast
  have "opened (ds_log s)" using assms(1,2) by (simp add: dsys_inv_def log_shape_def)
  then have "opened (ds_log s @ [(Some label, ?rs)])" by (auto simp: opened_def)
  with q keys assms(1,2) show ?thesis by (simp add: call_run_def call dsys_inv_def log_shape_def)
qed

lemma flush_nodes_ok:
  "list_all has_identity (fst (flush_nodes fault now nps dm)) \<and> dm_nodes (snd (flush_nodes fault now nps dm)) = dm_nodes dm \<and>
   (fst ` set nps \<subseteq> set (dkeys (dm_pipelines dm)) \<longrightarrow> dkeys (dm_pipelines (snd (flush_nodes fault now nps dm))) = dkeys (dm_pipelines dm))"
proof (induction nps arbitrary: dm)
  case (Cons n nps)
  obtain label np where n: "n = (label, np)" by (cases n)
  define r where "r = (case fault label of None \<Rightarrow> flush_pipeline np
    | Some exc \<Rightarrow> ([pipeline_error dm (dget_or (dm_nodes dm) label []) exc (utc now)], np))"
  define dm' where "dm' = tapped (fst r) (dm\<lparr>dm_pipelines := dset (dm_pipelines dm) label (snd r)\<rparr>)"
  have fl: "flush_nodes fault now (n # nps) dm = (fst r @ fst (flush_nodes fault now nps dm'), snd (flush_nodes fault now nps dm'))"
    by (simp add: n r_def dm'_def Let_def case_prod_beta)
  have id: "list_all has_identity (fst r)" using flush_identity by (simp add: r_def split: option.split)
  have keys: "label \<in> set (dkeys (dm_pipelines dm)) \<Longrightarrow> dkeys (dm_pipelines dm') = dkeys (dm_pipelines dm)"
    by (simp add: dm'_def dkeys_dset)
  have nodes: "dm_nodes dm' = dm_nodes dm" by (simp add: dm'_def)
  have "fst ` set (n # nps) \<subseteq> set (dkeys (dm_pipelines dm)) \<Longrightarrow>
      dkeys (dm_pipelines (snd (flush_nodes fault now nps dm'))) = dkeys (dm_pipelines dm)"
  proof -
    assume sub: "fst ` set (n # nps) \<subseteq> set (dkeys (dm_pipelines dm))"
    then have "dkeys (dm_pipelines dm') = dkeys (dm_pipelines dm)" using keys by (simp add: n)
    with Cons.IH [of dm'] sub show ?thesis by simp
  qed
  then show ?case unfolding fl using Cons.IH [of dm'] id nodes by simp
qed simp

lemma end_run_inv:
  assumes "dsys_inv io s" "ds_phase s = Collecting"
  shows "dsys_inv io (end_run fault now s)"
proof -
  obtain rs dm where f: "finish_queue fault now (ds_daemon s) = (rs, dm)" by fastforce
  let ?dm = "(ds_daemon s)\<lparr>dm_stopping := True, dm_states := map (\<lambda>(l, _). (l, ''stopped'')) (dm_states (ds_daemon s))\<rparr>"
  have k: "dkeys (dm_pipelines (ds_daemon s)) = dkeys (dm_nodes (ds_daemon s))" using assms(1) by (simp add: dsys_inv_def)
  obtain rs' dm' where fl: "flush_nodes fault now (dm_pipelines ?dm) ?dm = (rs', dm')" by fastforce
  have rs: "rs = rs' @ [collector_event dm (utc now) ''collector_stopped'' []]" "dm' = dm"
    using f fl by (auto simp: finish_queue_def Let_def)
  have "fst ` set (dm_pipelines ?dm) \<subseteq> set (dkeys (dm_pipelines ?dm))" by simp
  then have id: "list_all has_identity rs'" and dm: "dkeys (dm_pipelines dm) = dkeys (dm_nodes dm)"
    using flush_nodes_ok [of fault now "dm_pipelines ?dm" ?dm] k fl rs(2) by simp_all
  have i: "list_all has_identity rs" using rs id by simp
  let ?s = "s\<lparr>ds_daemon := dm, ds_phase := Stopping\<rparr>"
  from assms have "\<not> q_closed (ws_queue (ds_writer ?s))" "writer_reachable io (ds_writer ?s)" by (simp_all add: dsys_inv_def)
  from put_records_ok [OF i this, of None] obtain q where
    q: "put_records None rs ?s = ?s\<lparr>ds_writer := (ds_writer ?s)\<lparr>ws_queue := q, ws_put := ws_put (ds_writer ?s) @ rs\<rparr>, ds_log := ds_log ?s @ [(None, rs)]\<rparr>"
    "writer_reachable io ((ds_writer ?s)\<lparr>ws_queue := q, ws_put := ws_put (ds_writer ?s) @ rs\<rparr>)" by blast
  from wr_producer [OF q(2) p_close]
  have w: "writer_reachable io ((ds_writer s)\<lparr>ws_put := ws_put (ds_writer s) @ rs, ws_queue := close_queue q\<rparr>)" by simp
  have "opened (ds_log s)" using assms by (simp add: dsys_inv_def log_shape_def)
  then have "completed (ds_log s @ [(None, rs)])" using rs(1) by (auto simp: completed_def)
  with w q(1) dm assms(1) show ?thesis by (simp add: end_run_def f Let_def dsys_inv_def log_shape_def close_queue_def)
qed

lemma writer_step_queue: "writer_step io s t \<Longrightarrow> ws_put t = ws_put s \<and> q_closed (ws_queue t) = q_closed (ws_queue s)"
  by (cases rule: writer_step.cases) (auto simp: take_all_def)

lemma daemon_step_inv:
  assumes "daemon_step io s t" "dsys_inv io s"
  shows "dsys_inv io t"
  using assms
proof (cases rule: daemon_step.cases)
  case (ds_writes w)
  then show ?thesis using assms(2) writer_step_queue [OF ds_writes(3)] wr_writer [OF _ ds_writes(3)]
    by (auto simp: dsys_inv_def)
next
  case (ds_begin c version host pid now)
  then show ?thesis using assms(2) begin_run_inv by blast
next
  case (ds_call label c)
  then show ?thesis using assms(2) call_run_inv by blast
next
  case (ds_end fault now)
  then show ?thesis using assms(2) end_run_inv by blast
qed (use assms(2) in \<open>auto simp: dsys_inv_def log_shape_def\<close>)

lemma daemon_reachable_inv: "daemon_reachable io dc tap s \<Longrightarrow> dsys_inv io s"
proof (induction rule: daemon_reachable.induct)
  case (dr_init dm b u)
  have w: "ws_put (wsys_init b u) = []" "\<not> q_closed (ws_queue (wsys_init b u))" by (simp_all add: wsys_init_def queue_init_def)
  from dr_init show ?case
    using wr_init [of io b u] w by (auto simp: dsys_inv_def dsys_init_def log_shape_def new_daemon_def comp_def split: if_splits)
qed (rule daemon_step_inv)

text \<open>Once the queue is closed the writer thread ends, and the collector with it.\<close>

lemma stopping_exits:
  "daemon_reachable io dc tap s \<Longrightarrow> ds_phase s = Stopping \<Longrightarrow>
   \<exists>t. daemon_reachable io dc tap t \<and> ds_phase t = Exited 0 \<and> ds_log t = ds_log s"
proof (induction "rank (ds_writer s)" arbitrary: s rule: less_induct)
  case less
  note inv = daemon_reachable_inv [OF less.prems(1)]
  then have w: "writer_reachable io (ds_writer s)" and closed: "q_closed (ws_queue (ds_writer s))" using less.prems(2) by (simp_all add: dsys_inv_def)
  show ?case
  proof (cases "ws_phase (ds_writer s) = Stopped")
    case True
    from dr_step [OF less.prems(1) ds_joined [OF less.prems(2) True]] show ?thesis by (intro exI) auto
  next
    case False
    from writer_not_stuck [OF closed this] obtain v where v: "writer_step io (ds_writer s) v" by blast
    have ph: "ds_phase s \<in> {Collecting, Stopping}" using less.prems(2) by simp
    have "rank v < rank (ds_writer s)" using writer_step_rank [OF v writer_reachable_inv [OF w] closed] by blast
    then show ?thesis using less.hyps [of "s\<lparr>ds_writer := v\<rparr>"] dr_step [OF less.prems(1) ds_writes [OF ph v]] less.prems(2) by simp
  qed
qed

lemma end_run_phase: "dsys_inv io s \<Longrightarrow> ds_phase s = Collecting \<Longrightarrow> ds_phase (end_run fault now s) = Stopping \<and> (\<exists>rs. ds_log (end_run fault now s) = ds_log s @ rs)"
  by (auto simp: end_run_def put_records_def Let_def case_prod_beta split: option.splits prod.splits)

lemma run_can_end:
  assumes "daemon_reachable io dc tap s" "ds_phase s \<in> {Collecting, Stopping}"
  shows "\<exists>t rs. daemon_reachable io dc tap t \<and> ds_phase t = Exited 0 \<and> ds_log t = ds_log s @ rs"
proof (cases "ds_phase s = Stopping")
  case True
  from stopping_exits [OF assms(1) True] show ?thesis by (metis append_Nil2)
next
  case False
  with assms(2) have c: "ds_phase s = Collecting" by simp
  let ?t = "end_run (\<lambda>_. None) 0 s"
  have t: "daemon_reachable io dc tap ?t" using dr_step [OF assms(1) ds_end [OF c]] .
  obtain rs where "ds_phase ?t = Stopping" "ds_log ?t = ds_log s @ rs" using end_run_phase [OF daemon_reachable_inv [OF assms(1)] c] by blast
  with stopping_exits [OF t] show ?thesis by auto
qed



end
