(* ===== verification/Config.thy ===== *)
theory Config
  imports Codec Py_Text
begin

text \<open>
  Loading and validating the configuration (\<open>config.py\<close>).  A dataclass of the configuration is a row with
  its fields; its values are whatever the YAML file holds until the checks have passed.  The YAML reader,
  the regular expression compiler, the URL parser, the environment and the file system are arguments.
  The text of an error ends before the quoted value.  The file that is found can be read, and keys of
  mappings are strings.
\<close>

datatype config_error = ConfigError string | Uncaught string

type_synonym 'a cres = "config_error + 'a"

fun cbind :: "'a cres \<Rightarrow> ('a \<Rightarrow> 'b cres) \<Rightarrow> 'b cres" where
  "cbind (Inl e) f = Inl e"
| "cbind (Inr x) f = f x"

definition refuse_if :: "bool \<Rightarrow> string \<Rightarrow> unit cres" where
  "refuse_if c msg = (if c then Inl (ConfigError msg) else Inr ())"

fun ceach :: "('a \<Rightarrow> unit cres) \<Rightarrow> 'a list \<Rightarrow> unit cres" where
  "ceach f [] = Inr ()"
| "ceach f (x # xs) = cbind (f x) (\<lambda>_. ceach f xs)"

record config_env =
  ce_expand :: "string \<Rightarrow> string"
  ce_is_file :: "string \<Rightarrow> bool"
  ce_yaml :: "string \<Rightarrow> pyval option"
  ce_mode :: "string \<Rightarrow> nat"
  ce_getenv :: "string \<Rightarrow> string option"
  ce_regex :: "string \<Rightarrow> bool"
  ce_url_password :: "string \<Rightarrow> bool"

subsection \<open>Values\<close>

definition truthy :: "pyval \<Rightarrow> bool" where
  "truthy v = (case v of VNone \<Rightarrow> False | VBool b \<Rightarrow> b | VInt n \<Rightarrow> n \<noteq> 0 | VFloat x \<Rightarrow> x \<noteq> Fin 0 | VStr s \<Rightarrow> s \<noteq> []
     | VTime _ \<Rightarrow> True | VList xs \<Rightarrow> xs \<noteq> [] | VTuple xs \<Rightarrow> xs \<noteq> [] | VDict d \<Rightarrow> d \<noteq> [])"

definition num_value :: "pyval \<Rightarrow> pyfloat option" where
  "num_value v = (case v of VBool b \<Rightarrow> Some (Fin (if b then 1 else 0)) | VInt n \<Rightarrow> Some (Fin (of_int n)) | VFloat x \<Rightarrow> Some x | _ \<Rightarrow> None)"

fun flt_less :: "pyfloat \<Rightarrow> pyfloat \<Rightarrow> bool" where
  "flt_less (Fin x) (Fin y) = (x < y)"
| "flt_less NegInf y = (y \<noteq> NaN \<and> y \<noteq> NegInf)"
| "flt_less x PosInf = (x \<noteq> NaN \<and> x \<noteq> PosInf)"
| "flt_less x y = False"

text \<open>Division of positive numbers.\<close>

fun flt_div :: "pyfloat \<Rightarrow> pyfloat \<Rightarrow> pyfloat" where
  "flt_div (Fin x) (Fin y) = Fin (x / y)"
| "flt_div (Fin x) PosInf = Fin 0"
| "flt_div PosInf (Fin y) = PosInf"
| "flt_div x y = NaN"

definition is_bool :: "pyval \<Rightarrow> bool" where
  "is_bool v = (case v of VBool _ \<Rightarrow> True | _ \<Rightarrow> False)"

definition positive_num :: "pyval \<Rightarrow> bool" where
  "positive_num v \<longleftrightarrow> \<not> is_bool v \<and> (case num_value v of None \<Rightarrow> False | Some x \<Rightarrow> flt_less (Fin 0) x)"

definition positive_int :: "pyval \<Rightarrow> bool" where
  "positive_int v = (case v of VInt n \<Rightarrow> n > 0 | _ \<Rightarrow> False)"

definition check_positive :: "string \<Rightarrow> string \<Rightarrow> pyval \<Rightarrow> unit cres" where
  "check_positive whr key v = refuse_if (\<not> positive_num v) (whr @ ''.'' @ key @ '' must be a positive number'')"

definition check_positive_finite :: "string \<Rightarrow> string \<Rightarrow> pyval \<Rightarrow> unit cres" where
  "check_positive_finite whr key v =
     cbind (check_positive whr key v) (\<lambda>_.
       refuse_if (case num_value v of Some x \<Rightarrow> \<not> is_finite x | None \<Rightarrow> False) (whr @ ''.'' @ key @ '' must be a finite number''))"

definition check_positive_int :: "string \<Rightarrow> string \<Rightarrow> pyval \<Rightarrow> unit cres" where
  "check_positive_int whr key v = refuse_if (\<not> positive_int v) (whr @ ''.'' @ key @ '' must be a positive integer'')"

definition pg_url :: "string \<Rightarrow> bool" where
  "pg_url url \<longleftrightarrow> startswith url ''postgresql://'' \<or> startswith url ''postgres://''"

definition check_url :: "string \<Rightarrow> pyval \<Rightarrow> unit cres" where
  "check_url label url =
     (case url of VNone \<Rightarrow> Inr ()
      | VStr s \<Rightarrow> refuse_if (\<not> pg_url s) (label @ '' must be a postgresql:// or postgres:// URL'')
      | _ \<Rightarrow> Inl (ConfigError (label @ '' must be a postgresql:// or postgres:// URL'')))"

definition has_password :: "config_env \<Rightarrow> pyval \<Rightarrow> bool" where
  "has_password env url = (case url of VStr s \<Rightarrow> ce_url_password env s | _ \<Rightarrow> False)"

definition near_integer :: "rat \<Rightarrow> bool" where
  "near_integer x \<longleftrightarrow> \<bar>x - of_int (round_even x)\<bar> < 1 / 1000000000"

subsection \<open>Sections\<close>

definition SSH_DEFAULTS :: row where
  "SSH_DEFAULTS = [(''identity_file'', VNone), (''connect_timeout_sec'', VInt 10)]"

definition COLLECTION_DEFAULTS :: row where
  "COLLECTION_DEFAULTS =
     [(''counter_interval_sec'', VInt 10), (''census_interval_sec'', VInt 60), (''summary_interval_sec'', VInt 300),
      (''session_silence_timeout_sec'', VInt 30), (''session_max_lifetime_sec'', VInt 21600),
      (''reconnect_backoff_sec'', VTuple [VInt 5, VInt 300]), (''probe_rss_limit_mb'', VInt 128)]"

definition CLASSIFICATION_DEFAULTS :: row where
  "CLASSIFICATION_DEFAULTS = [(''active_cpu_seconds_per_min'', VFloat (Fin (1 / 10))), (''min_user_uid'', VInt 1000)]"

definition REDACTION_DEFAULTS :: row where
  "REDACTION_DEFAULTS = [(''extra_patterns'', VTuple [])]"

definition DATABASE_DEFAULTS :: row where
  "DATABASE_DEFAULTS = [(''url'', VNone), (''connect_timeout_sec'', VInt 10)]"

definition WEB_DEFAULTS :: row where
  "WEB_DEFAULTS = [(''database_url'', VNone), (''host'', VStr ''127.0.0.1''), (''port'', VInt 9998)]"

definition RETENTION_DEFAULTS :: row where
  "RETENTION_DEFAULTS = [(''node_metrics_days'', VInt 730), (''usage_summary_days'', VInt 730), (''collection_events_days'', VInt 180)]"

definition SPOOL_DEFAULTS :: row where
  "SPOOL_DEFAULTS = [(''max_bytes'', VInt 1073741824)]"

definition TOP_LEVEL_KEYS :: "string list" where
  "TOP_LEVEL_KEYS = [''system'', ''nodes'', ''ssh'', ''probe_python'', ''working_dir'', ''collection'', ''classification'', ''database'',
     ''web'', ''redaction'', ''retention'', ''spool'']"

definition COLLECTION_FUTURE :: "string list" where "COLLECTION_FUTURE = [''hourly_census'']"
definition CLASSIFICATION_FUTURE :: "string list" where "CLASSIFICATION_FUTURE = [''notable_cpu_seconds_per_min'', ''notable_rss_mb'']"
definition RETENTION_FUTURE :: "string list" where "RETENTION_FUTURE = [''process_samples_days'', ''command_lines_days'']"
definition NODE_KEYS :: "string list" where "NODE_KEYS = [''host'', ''label'', ''ssh_target'']"

definition section_of :: "row \<Rightarrow> string \<Rightarrow> row cres" where
  "section_of r name = (case rget r name of VNone \<Rightarrow> Inr [] | VDict d \<Rightarrow> Inr d
     | _ \<Rightarrow> Inl (ConfigError ([CHR 0x27] @ name @ [CHR 0x27] @ '' must be a mapping'')))"

definition check_keys :: "string \<Rightarrow> row \<Rightarrow> string list \<Rightarrow> unit cres" where
  "check_keys whr data allowed =
     ceach (\<lambda>k. refuse_if (k \<notin> set allowed) (''unknown key '' @ [CHR 0x27] @ k @ [CHR 0x27] @ '' in '' @ whr)) (dkeys data)"

text \<open>\<open>_build\<close>: the fields of the dataclass, from the file where it has them.\<close>

definition build :: "row \<Rightarrow> string \<Rightarrow> row \<Rightarrow> string list \<Rightarrow> row cres" where
  "build defaults whr data extra =
     cbind (check_keys whr data (dkeys defaults @ extra)) (\<lambda>_. Inr (map (\<lambda>(k, v). (k, dget_or data k v)) defaults))"

subsection \<open>The parts of \<open>load_config\<close>\<close>

definition search_path :: "config_env \<Rightarrow> string list" where
  "search_path env =
     (case ce_getenv env ''NODE_MONITOR_CONFIG'' of Some (c # p) \<Rightarrow> [ce_expand env (c # p)] | _ \<Rightarrow> []) @
     [ce_expand env ''~/.node_monitor.yaml'', ce_expand env ''~/.config/node_monitor/config.yaml'']"

definition candidates :: "config_env \<Rightarrow> string option \<Rightarrow> string list" where
  "candidates env explicit = (case explicit of Some (c # p) \<Rightarrow> [ce_expand env (c # p)] | _ \<Rightarrow> search_path env)"

definition find_config_path :: "config_env \<Rightarrow> string option \<Rightarrow> string cres" where
  "find_config_path env explicit =
     (case find (ce_is_file env) (candidates env explicit) of
        Some p \<Rightarrow> Inr p
      | None \<Rightarrow> Inl (ConfigError (''no config file found; tried: '' @ join '', '' (candidates env explicit))))"

text \<open>\<open>Path(v).expanduser()\<close>\<close>

definition expand_path :: "config_env \<Rightarrow> pyval \<Rightarrow> string cres" where
  "expand_path env v = (case v of VStr s \<Rightarrow> Inr (ce_expand env s) | _ \<Rightarrow> Inl (Uncaught ''TypeError''))"

definition load_ssh :: "config_env \<Rightarrow> row \<Rightarrow> row cres" where
  "load_ssh env r =
     cbind (section_of r ''ssh'') (\<lambda>data.
     cbind (if truthy (rget data ''identity_file'')
            then cbind (expand_path env (rget data ''identity_file'')) (\<lambda>p. Inr (dset data ''identity_file'' (VStr p)))
            else Inr data) (\<lambda>data.
       build SSH_DEFAULTS ''ssh'' data []))"

text \<open>\<open>0 < pair[0] < pair[1]\<close>, which raises when the first is no number, or the second is none while the first is positive.\<close>

definition check_pair :: "pyval \<Rightarrow> pyval \<Rightarrow> unit cres" where
  "check_pair a b =
     (case num_value a of
        None \<Rightarrow> Inl (Uncaught ''TypeError'')
      | Some x \<Rightarrow>
          if \<not> flt_less (Fin 0) x then Inl (ConfigError ''reconnect_backoff_sec must be [min, max] with 0 < min < max'')
          else (case num_value b of
                  None \<Rightarrow> Inl (Uncaught ''TypeError'')
                | Some y \<Rightarrow> refuse_if (\<not> flt_less x y) ''reconnect_backoff_sec must be [min, max] with 0 < min < max''))"

definition pair_of :: "pyval \<Rightarrow> (pyval \<times> pyval) option" where
  "pair_of v = (case v of VList [a, b] \<Rightarrow> Some (a, b) | VTuple [a, b] \<Rightarrow> Some (a, b) | _ \<Rightarrow> None)"

definition load_backoff :: "row \<Rightarrow> row cres" where
  "load_backoff data =
     (case dget data ''reconnect_backoff_sec'' of
        None \<Rightarrow> Inr data
      | Some v \<Rightarrow> (case pair_of v of
            None \<Rightarrow> Inl (ConfigError ''reconnect_backoff_sec must be [min, max] with 0 < min < max'')
          | Some (a, b) \<Rightarrow> cbind (check_pair a b) (\<lambda>_. Inr (dset data ''reconnect_backoff_sec'' (VTuple [a, b])))))"

definition POSITIVE_KEYS :: "string list" where
  "POSITIVE_KEYS = [''counter_interval_sec'', ''census_interval_sec'', ''summary_interval_sec'', ''session_silence_timeout_sec'',
     ''session_max_lifetime_sec'', ''probe_rss_limit_mb'']"

definition num_of :: "row \<Rightarrow> string \<Rightarrow> pyfloat" where
  "num_of r k = (case num_value (rget r k) of Some x \<Rightarrow> x | None \<Rightarrow> NaN)"

text \<open>The alignment test; \<open>round\<close> of an infinite or undefined ratio raises.\<close>

definition check_alignment :: "pyfloat \<Rightarrow> pyfloat \<Rightarrow> unit cres" where
  "check_alignment summary census =
     (case flt_div summary census of
        Fin ratio \<Rightarrow>
          refuse_if (round_even ratio < 1 \<or> \<not> near_integer ratio \<or>
              (case flt_div (Fin 3600) summary of Fin x \<Rightarrow> \<not> near_integer x | _ \<Rightarrow> True))
            ''collection.summary_interval_sec must be a multiple of census_interval_sec and divide 3600 so intervals align to the clock''
      | PosInf \<Rightarrow> Inl (Uncaught ''OverflowError'')
      | _ \<Rightarrow> Inl (Uncaught ''ValueError''))"

definition validate_collection :: "row \<Rightarrow> unit cres" where
  "validate_collection c =
     cbind (ceach (\<lambda>k. check_positive ''collection'' k (rget c k)) POSITIVE_KEYS) (\<lambda>_.
     cbind (refuse_if (\<not> flt_less (num_of c ''counter_interval_sec'') (num_of c ''session_silence_timeout_sec''))
       ''collection.session_silence_timeout_sec must exceed counter_interval_sec, or a healthy session would be declared silent'') (\<lambda>_.
       check_alignment (num_of c ''summary_interval_sec'') (num_of c ''census_interval_sec'')))"

definition load_collection :: "row \<Rightarrow> row cres" where
  "load_collection r =
     cbind (section_of r ''collection'') (\<lambda>data.
     cbind (load_backoff data) (\<lambda>data.
     cbind (build COLLECTION_DEFAULTS ''collection'' data COLLECTION_FUTURE) (\<lambda>c.
     cbind (validate_collection c) (\<lambda>_. Inr c))))"

definition valid_uid :: "pyval \<Rightarrow> bool" where
  "valid_uid v = (case v of VInt n \<Rightarrow> 0 \<le> n | _ \<Rightarrow> False)"

definition pattern_strings :: "pyval \<Rightarrow> pyval list cres" where
  "pattern_strings v =
     (if \<not> truthy v then Inr []
      else case v of VList ps \<Rightarrow> Inr ps | VTuple ps \<Rightarrow> Inr ps
      | _ \<Rightarrow> Inl (ConfigError ''redaction.extra_patterns must be a list of regular expressions''))"

definition check_pattern :: "config_env \<Rightarrow> pyval \<Rightarrow> unit cres" where
  "check_pattern env p =
     (case p of VStr s \<Rightarrow> refuse_if (\<not> ce_regex env s) ''redaction.extra_patterns: is not a valid regex''
      | _ \<Rightarrow> Inl (ConfigError ''redaction.extra_patterns entries must be strings''))"

definition load_redaction :: "config_env \<Rightarrow> row \<Rightarrow> row cres" where
  "load_redaction env r =
     cbind (section_of r ''redaction'') (\<lambda>data.
     cbind (pattern_strings (rget data ''extra_patterns'')) (\<lambda>ps.
     cbind (ceach (check_pattern env) ps) (\<lambda>_.
       build REDACTION_DEFAULTS ''redaction'' (dset data ''extra_patterns'' (VTuple ps)) [])))"

record node_config =
  nc_host :: pyval
  nc_label :: pyval
  nc_ssh_target :: pyval

text \<open>Hashing a label, and equality of labels: numbers compare by value.\<close>

definition hashable :: "pyval \<Rightarrow> bool" where
  "hashable v = (case v of VList _ \<Rightarrow> False | VDict _ \<Rightarrow> False | _ \<Rightarrow> True)"

definition same_key :: "pyval \<Rightarrow> pyval \<Rightarrow> bool" where
  "same_key a b = (case (num_value a, num_value b) of (Some x, Some y) \<Rightarrow> x = y \<and> x \<noteq> NaN | _ \<Rightarrow> a = b)"

definition parse_node :: "node_config list \<Rightarrow> pyval \<Rightarrow> node_config cres" where
  "parse_node nodes entry =
     (case entry of
        VDict d \<Rightarrow>
          cbind (check_keys ''nodes[]'' d NODE_KEYS) (\<lambda>_.
          cbind (refuse_if (\<not> truthy (rget d ''host'')) (''node entry is missing '' @ [CHR 0x27] @ ''host'' @ [CHR 0x27])) (\<lambda>_.
          cbind (refuse_if (\<not> truthy (rget d ''label'')) (''node entry is missing '' @ [CHR 0x27] @ ''label'' @ [CHR 0x27])) (\<lambda>_.
            if \<not> hashable (rget d ''label'') then Inl (Uncaught ''TypeError'')
            else cbind (refuse_if (list_ex (\<lambda>n. same_key (nc_label n) (rget d ''label'')) nodes) ''duplicate node label'') (\<lambda>_.
              Inr \<lparr>nc_host = rget d ''host'', nc_label = rget d ''label'',
                nc_ssh_target = (if truthy (rget d ''ssh_target'') then rget d ''ssh_target'' else rget d ''host'')\<rparr>))))
      | _ \<Rightarrow> Inl (ConfigError (''each entry in '' @ [CHR 0x27] @ ''nodes'' @ [CHR 0x27] @ '' must be a mapping'')))"

fun parse_entries :: "node_config list \<Rightarrow> pyval list \<Rightarrow> node_config list cres" where
  "parse_entries nodes [] = Inr nodes"
| "parse_entries nodes (e # es) = cbind (parse_node nodes e) (\<lambda>n. parse_entries (nodes @ [n]) es)"

definition parse_nodes :: "pyval \<Rightarrow> node_config list cres" where
  "parse_nodes v =
     (case v of VList (e # es) \<Rightarrow> parse_entries [] (e # es)
      | _ \<Rightarrow> Inl (ConfigError ([CHR 0x27] @ ''nodes'' @ [CHR 0x27] @ '' must be a non-empty list'')))"

subsection \<open>\<open>load_config\<close>\<close>

record config =
  cf_system :: pyval
  cf_nodes :: "node_config list"
  cf_probe_python :: pyval
  cf_working_dir :: string
  cf_ssh :: row
  cf_collection :: row
  cf_classification :: row
  cf_source_path :: string
  cf_redaction :: row
  cf_database :: row
  cf_web :: row
  cf_retention :: row
  cf_spool :: row

definition read_config :: "config_env \<Rightarrow> string \<Rightarrow> row cres" where
  "read_config env source =
     (case ce_yaml env source of
        None \<Rightarrow> Inl (ConfigError (source @ '': invalid YAML''))
      | Some (VDict r) \<Rightarrow>
          cbind (check_keys ''config'' r TOP_LEVEL_KEYS) (\<lambda>_.
          cbind (ceach (\<lambda>k. refuse_if (k \<notin> set (dkeys r)) (''missing required key '' @ [CHR 0x27] @ k @ [CHR 0x27]))
            [''system'', ''probe_python'', ''nodes'']) (\<lambda>_. Inr r))
      | Some _ \<Rightarrow> Inl (ConfigError (source @ '': top level must be a mapping'')))"

definition valid_port :: "pyval \<Rightarrow> bool" where
  "valid_port v = (case v of VInt n \<Rightarrow> 1 \<le> n \<and> n \<le> 65535 | _ \<Rightarrow> False)"

definition valid_host :: "pyval \<Rightarrow> bool" where
  "valid_host v = (case v of VStr s \<Rightarrow> s \<noteq> [] | _ \<Rightarrow> False)"

definition check_stores :: "row \<Rightarrow> row \<Rightarrow> row \<Rightarrow> row \<Rightarrow> unit cres" where
  "check_stores db web retention spool =
     cbind (check_url ''database.url'' (rget db ''url'')) (\<lambda>_.
     cbind (check_url ''web.database_url'' (rget web ''database_url'')) (\<lambda>_.
     cbind (check_positive_finite ''database'' ''connect_timeout_sec'' (rget db ''connect_timeout_sec'')) (\<lambda>_.
     cbind (check_positive_int ''spool'' ''max_bytes'' (rget spool ''max_bytes'')) (\<lambda>_.
     cbind (ceach (\<lambda>k. check_positive_int ''retention'' k (rget retention k))
       [''node_metrics_days'', ''usage_summary_days'', ''collection_events_days'']) (\<lambda>_.
     cbind (refuse_if (\<not> valid_host (rget web ''host'')) ''web.host must be a non-empty string'') (\<lambda>_.
       refuse_if (\<not> valid_port (rget web ''port'')) ''web.port must be an integer in 1..65535''))))))"

text \<open>The last check on what the file holds: group and others have no access to a file with a password.\<close>

definition check_mode :: "config_env \<Rightarrow> string \<Rightarrow> row \<Rightarrow> row \<Rightarrow> unit cres" where
  "check_mode env source db web =
     refuse_if ((has_password env (rget db ''url'') \<or> has_password env (rget web ''database_url'')) \<and>
         ce_mode env source mod 64 \<noteq> 0)
       (source @ '' contains a database password and must have mode 0600'')"

definition override_url :: "config_env \<Rightarrow> string \<Rightarrow> string \<Rightarrow> row \<Rightarrow> row cres" where
  "override_url env var key d =
     (case ce_getenv env var of
        Some u \<Rightarrow> if u \<noteq> [] then cbind (check_url var (VStr u)) (\<lambda>_. Inr (dset d key (VStr u))) else Inr d
      | None \<Rightarrow> Inr d)"

definition load_config :: "config_env \<Rightarrow> string option \<Rightarrow> config cres" where
  "load_config env path =
     cbind (find_config_path env path) (\<lambda>source.
     cbind (read_config env source) (\<lambda>r.
     cbind (load_ssh env r) (\<lambda>ssh.
     cbind (load_collection r) (\<lambda>coll.
     cbind (cbind (section_of r ''classification'') (\<lambda>data. build CLASSIFICATION_DEFAULTS ''classification'' data CLASSIFICATION_FUTURE)) (\<lambda>cls.
     cbind (check_positive ''ssh'' ''connect_timeout_sec'' (rget ssh ''connect_timeout_sec'')) (\<lambda>_.
     cbind (check_positive ''classification'' ''active_cpu_seconds_per_min'' (rget cls ''active_cpu_seconds_per_min'')) (\<lambda>_.
     cbind (refuse_if (\<not> valid_uid (rget cls ''min_user_uid'')) ''classification.min_user_uid must be a non-negative integer'') (\<lambda>_.
     cbind (load_redaction env r) (\<lambda>redaction.
     cbind (cbind (section_of r ''database'') (\<lambda>data. build DATABASE_DEFAULTS ''database'' data [])) (\<lambda>db.
     cbind (cbind (section_of r ''web'') (\<lambda>data. build WEB_DEFAULTS ''web'' data [])) (\<lambda>web.
     cbind (cbind (section_of r ''retention'') (\<lambda>data. build RETENTION_DEFAULTS ''retention'' data RETENTION_FUTURE)) (\<lambda>retention.
     cbind (cbind (section_of r ''spool'') (\<lambda>data. build SPOOL_DEFAULTS ''spool'' data [])) (\<lambda>spool.
     cbind (check_stores db web retention spool) (\<lambda>_.
     cbind (check_mode env source db web) (\<lambda>_.
     cbind (override_url env ''NODE_MONITOR_DB_URL'' ''url'' db) (\<lambda>db.
     cbind (override_url env ''NODE_MONITOR_WEB_DB_URL'' ''database_url'' web) (\<lambda>web.
     cbind (parse_nodes (rget r ''nodes'')) (\<lambda>nodes.
     cbind (expand_path env (if truthy (rget r ''working_dir'') then rget r ''working_dir'' else VStr ''~/node-monitor'')) (\<lambda>dir.
       Inr \<lparr>cf_system = rget r ''system'', cf_nodes = nodes, cf_probe_python = rget r ''probe_python'', cf_working_dir = dir,
         cf_ssh = ssh, cf_collection = coll, cf_classification = cls, cf_source_path = source, cf_redaction = redaction,
         cf_database = db, cf_web = web, cf_retention = retention, cf_spool = spool\<rparr>)))))))))))))))))))"

subsection \<open>What a loaded configuration satisfies\<close>

lemma cbind_Inr: "cbind r f = Inr y \<longleftrightarrow> (\<exists>x. r = Inr x \<and> f x = Inr y)"
  by (cases r) auto

lemma cbind_Inl: "cbind r f = Inl e \<longleftrightarrow> r = Inl e \<or> (\<exists>x. r = Inr x \<and> f x = Inl e)"
  by (cases r) auto

lemma cbind_InrE: "cbind r f = Inr y \<Longrightarrow> (\<And>x. r = Inr x \<Longrightarrow> f x = Inr y \<Longrightarrow> P) \<Longrightarrow> P"
  by (cases r) auto

lemma refuse_if_Inr [simp]: "refuse_if c msg = Inr u \<longleftrightarrow> \<not> c"
  by (simp add: refuse_if_def)

lemma ceach_Inr: "ceach f xs = Inr u \<longleftrightarrow> list_all (\<lambda>x. f x = Inr ()) xs"
  by (induction xs) (auto simp: cbind_Inr)

lemma build_keys: "build defaults whr data extra = Inr d \<Longrightarrow> dkeys d = dkeys defaults"
  by (auto simp: build_def cbind_Inr comp_def case_prod_beta)

lemma build_get:
  assumes "build defaults whr data extra = Inr d" "dget defaults k = Some v"
  shows "rget d k = dget_or data k v"
proof -
  have "dget (map (\<lambda>(k, v). (k, dget_or data k v)) ds) k = map_option (dget_or data k) (dget ds k)" for ds
    by (induction ds) auto
  then show ?thesis using assms by (auto simp: build_def cbind_Inr rget_def dget_or_def [of _ _ VNone])
qed

definition aligned_intervals :: "pyfloat \<Rightarrow> pyfloat \<Rightarrow> bool" where
  "aligned_intervals s c = (case (s, c) of (Fin x, Fin y) \<Rightarrow> 0 < x \<and> 0 < y \<and> 1 \<le> round_even (x / y) \<and> near_integer (x / y) \<and> near_integer (3600 / x)
     | _ \<Rightarrow> False)"

text \<open>An infinite or undefined interval does not pass the alignment test.\<close>

lemma check_alignment_Inr:
  assumes "check_alignment s c = Inr u" "flt_less (Fin 0) s" "flt_less (Fin 0) c"
  shows "aligned_intervals s c"
proof -
  have zero: "round_even 0 = 0" by (simp add: round_even_def)
  show ?thesis
    using assms zero by (cases s; cases c) (auto simp: check_alignment_def aligned_intervals_def)
qed

definition backoff_ok :: "pyval \<Rightarrow> bool" where
  "backoff_ok v = (case v of VTuple [a, b] \<Rightarrow> (case (num_value a, num_value b) of (Some x, Some y) \<Rightarrow> flt_less (Fin 0) x \<and> flt_less x y | _ \<Rightarrow> False)
     | _ \<Rightarrow> False)"

definition collection_ok :: "row \<Rightarrow> bool" where
  "collection_ok c \<longleftrightarrow> dkeys c = dkeys COLLECTION_DEFAULTS \<and> list_all (\<lambda>k. positive_num (rget c k)) POSITIVE_KEYS \<and>
     flt_less (num_of c ''counter_interval_sec'') (num_of c ''session_silence_timeout_sec'') \<and>
     aligned_intervals (num_of c ''summary_interval_sec'') (num_of c ''census_interval_sec'') \<and> backoff_ok (rget c ''reconnect_backoff_sec'')"

lemma check_positive_Inr [simp]: "check_positive w k v = Inr u \<longleftrightarrow> positive_num v"
  by (simp add: check_positive_def)

lemma check_pair_Inr: "check_pair a b = Inr u \<Longrightarrow> backoff_ok (VTuple [a, b])"
  by (auto simp: check_pair_def backoff_ok_def split: option.splits if_splits)

lemma load_backoff_Inr:
  "load_backoff data = Inr d \<Longrightarrow> case dget d ''reconnect_backoff_sec'' of None \<Rightarrow> True | Some v \<Rightarrow> backoff_ok v"
  by (auto simp: load_backoff_def cbind_Inr check_pair_Inr split: option.splits)

lemma positive_num_of: "positive_num (rget c k) \<Longrightarrow> flt_less (Fin 0) (num_of c k)"
  by (auto simp: positive_num_def num_of_def split: option.splits)

lemma load_collection_Inr:
  assumes "load_collection r = Inr c"
  shows "collection_ok c"
proof -
  from assms obtain data0 data where d: "load_backoff data0 = Inr data" "build COLLECTION_DEFAULTS ''collection'' data COLLECTION_FUTURE = Inr c"
    and v: "validate_collection c = Inr ()"
    by (auto simp: load_collection_def cbind_Inr)
  have b: "backoff_ok (rget c ''reconnect_backoff_sec'')"
  proof (cases "dget data ''reconnect_backoff_sec''")
    case None
    then show ?thesis using build_get [OF d(2), of "''reconnect_backoff_sec''"]
      by (simp add: COLLECTION_DEFAULTS_def dget_or_def backoff_ok_def num_value_def)
  next
    case (Some v)
    then show ?thesis using build_get [OF d(2), of "''reconnect_backoff_sec''"] load_backoff_Inr [OF d(1)]
      by (simp add: COLLECTION_DEFAULTS_def dget_or_def)
  qed
  from v have p: "list_all (\<lambda>k. positive_num (rget c k)) POSITIVE_KEYS"
    and s: "flt_less (num_of c ''counter_interval_sec'') (num_of c ''session_silence_timeout_sec'')"
    and a: "check_alignment (num_of c ''summary_interval_sec'') (num_of c ''census_interval_sec'') = Inr ()"
    unfolding validate_collection_def cbind_Inr ceach_Inr check_positive_Inr refuse_if_Inr by auto
  have pos: "positive_num (rget c ''summary_interval_sec'')" "positive_num (rget c ''census_interval_sec'')"
    using p by (simp_all add: POSITIVE_KEYS_def)
  note check_alignment_Inr [OF a pos [THEN positive_num_of]]
  with b p s build_keys [OF d(2)] show ?thesis by (simp add: collection_ok_def)
qed


lemma parse_node_Inr:
  assumes "parse_node nodes e = Inr n"
  shows "list_all (\<lambda>m. \<not> same_key (nc_label m) (nc_label n)) nodes \<and> truthy (nc_host n) \<and> truthy (nc_label n) \<and> truthy (nc_ssh_target n)"
proof -
  from assms obtain d where "e = VDict d" by (cases e) (simp_all add: parse_node_def)
  with assms show ?thesis
    by (auto simp: parse_node_def cbind_Inr list_all_iff list_ex_iff split: if_splits)
qed

lemma parse_entries_Inr:
  "parse_entries nodes es = Inr ns \<Longrightarrow> sorted_wrt (\<lambda>m n. \<not> same_key (nc_label m) (nc_label n)) nodes \<Longrightarrow>
   list_all (\<lambda>n. truthy (nc_host n) \<and> truthy (nc_label n) \<and> truthy (nc_ssh_target n)) nodes \<Longrightarrow>
   sorted_wrt (\<lambda>m n. \<not> same_key (nc_label m) (nc_label n)) ns \<and>
   list_all (\<lambda>n. truthy (nc_host n) \<and> truthy (nc_label n) \<and> truthy (nc_ssh_target n)) ns \<and> length ns = length nodes + length es"
proof (induction es arbitrary: nodes)
  case (Cons e es)
  from Cons.prems(1) obtain n where n: "parse_node nodes e = Inr n" "parse_entries (nodes @ [n]) es = Inr ns" by (auto simp: cbind_Inr)
  note new = parse_node_Inr [OF n(1)]
  have "sorted_wrt (\<lambda>m n. \<not> same_key (nc_label m) (nc_label n)) (nodes @ [n])"
    using new Cons.prems(2) by (simp add: sorted_wrt_append list_all_iff)
  moreover have "list_all (\<lambda>n. truthy (nc_host n) \<and> truthy (nc_label n) \<and> truthy (nc_ssh_target n)) (nodes @ [n])"
    using new Cons.prems(3) by simp
  ultimately show ?case using Cons.IH [OF n(2)] by simp
qed simp

definition nodes_ok :: "node_config list \<Rightarrow> bool" where
  "nodes_ok ns \<longleftrightarrow> ns \<noteq> [] \<and> sorted_wrt (\<lambda>m n. \<not> same_key (nc_label m) (nc_label n)) ns \<and>
     list_all (\<lambda>n. truthy (nc_host n) \<and> truthy (nc_label n) \<and> truthy (nc_ssh_target n)) ns"

lemma parse_nodes_Inr: "parse_nodes v = Inr ns \<Longrightarrow> nodes_ok ns"
proof -
  assume a: "parse_nodes v = Inr ns"
  then obtain e es where p: "parse_entries [] (e # es) = Inr ns" by (auto simp: parse_nodes_def split: pyval.splits list.splits)
  from parse_entries_Inr [OF p] show ?thesis by (auto simp: nodes_ok_def)
qed

definition url_ok :: "pyval \<Rightarrow> bool" where
  "url_ok v = (case v of VNone \<Rightarrow> True | VStr s \<Rightarrow> pg_url s | _ \<Rightarrow> False)"

lemma check_url_Inr [simp]: "check_url l v = Inr u \<longleftrightarrow> url_ok v"
  by (cases v) (simp_all add: check_url_def url_ok_def)

definition finite_positive :: "pyval \<Rightarrow> bool" where
  "finite_positive v \<longleftrightarrow> positive_num v \<and> (case num_value v of Some (Fin _) \<Rightarrow> True | _ \<Rightarrow> False)"

lemma check_positive_finite_Inr [simp]: "check_positive_finite w k v = Inr u \<longleftrightarrow> finite_positive v"
  by (auto simp: check_positive_finite_def finite_positive_def cbind_Inr positive_num_def split: option.splits pyfloat.splits elim: is_finite.elims)

lemma override_url_Inr:
  "override_url env var key d = Inr d' \<Longrightarrow> url_ok (rget d key) \<Longrightarrow>
   url_ok (rget d' key) \<and> (\<forall>k. k \<noteq> key \<longrightarrow> rget d' k = rget d k) \<and> (ce_getenv env var = None \<longrightarrow> d' = d)"
  by (auto simp: override_url_def cbind_Inr rget_def dget_or_def split: option.splits if_splits)

definition stores_ok :: "row \<Rightarrow> row \<Rightarrow> row \<Rightarrow> row \<Rightarrow> bool" where
  "stores_ok db web retention spool \<longleftrightarrow>
     url_ok (rget db ''url'') \<and> url_ok (rget web ''database_url'') \<and> finite_positive (rget db ''connect_timeout_sec'') \<and>
     positive_int (rget spool ''max_bytes'') \<and>
     list_all (\<lambda>k. positive_int (rget retention k)) [''node_metrics_days'', ''usage_summary_days'', ''collection_events_days''] \<and>
     valid_host (rget web ''host'') \<and> valid_port (rget web ''port'')"

lemma check_stores_Inr: "check_stores db web retention spool = Inr u \<longleftrightarrow> stores_ok db web retention spool"
  by (simp add: check_stores_def stores_ok_def cbind_Inr check_positive_int_def ceach_Inr)

definition patterns_ok :: "config_env \<Rightarrow> row \<Rightarrow> bool" where
  "patterns_ok env d = (case rget d ''extra_patterns'' of
     VTuple ps \<Rightarrow> list_all (\<lambda>p. case p of VStr s \<Rightarrow> ce_regex env s | _ \<Rightarrow> False) ps | _ \<Rightarrow> False)"

lemma check_pattern_Inr: "check_pattern env p = Inr u \<longleftrightarrow> (case p of VStr s \<Rightarrow> ce_regex env s | _ \<Rightarrow> False)"
  by (cases p) (simp_all add: check_pattern_def)

lemma load_redaction_Inr: "load_redaction env r = Inr d \<Longrightarrow> patterns_ok env d"
proof -
  assume "load_redaction env r = Inr d"
  then obtain data ps where b: "build REDACTION_DEFAULTS ''redaction'' (dset data ''extra_patterns'' (VTuple ps)) [] = Inr d"
    and ps: "ceach (check_pattern env) ps = Inr ()" by (auto simp: load_redaction_def cbind_Inr)
  have "rget d ''extra_patterns'' = VTuple ps" using build_get [OF b, of "''extra_patterns''"] by (simp add: REDACTION_DEFAULTS_def dget_or_def)
  with ps show ?thesis by (simp add: patterns_ok_def ceach_Inr check_pattern_Inr)
qed

text \<open>
  What the rest of the program relies on.  A password in the file makes the file private, unless the
  environment replaces that URL.
\<close>

definition config_ok :: "config_env \<Rightarrow> config \<Rightarrow> bool" where
  "config_ok env c \<longleftrightarrow>
     collection_ok (cf_collection c) \<and> nodes_ok (cf_nodes c) \<and> patterns_ok env (cf_redaction c) \<and>
     stores_ok (cf_database c) (cf_web c) (cf_retention c) (cf_spool c) \<and>
     positive_num (rget (cf_ssh c) ''connect_timeout_sec'') \<and> positive_num (rget (cf_classification c) ''active_cpu_seconds_per_min'') \<and>
     valid_uid (rget (cf_classification c) ''min_user_uid'') \<and> ce_is_file env (cf_source_path c) \<and>
     (ce_mode env (cf_source_path c) mod 64 = 0 \<or>
        (has_password env (rget (cf_database c) ''url'') \<longrightarrow> ce_getenv env ''NODE_MONITOR_DB_URL'' \<noteq> None) \<and>
        (has_password env (rget (cf_web c) ''database_url'') \<longrightarrow> ce_getenv env ''NODE_MONITOR_WEB_DB_URL'' \<noteq> None))"

lemma find_config_path_Inr: "find_config_path env p = Inr source \<Longrightarrow> ce_is_file env source"
  by (auto simp: find_config_path_def find_Some_iff split: option.splits)


text \<open>A short file, as the template has it.\<close>

definition ex_config :: pyval where
  "ex_config = VDict [(''system'', VStr ''polaris''), (''probe_python'', VStr ''/usr/bin/python3.11''),
     (''nodes'', VList [VDict [(''host'', VStr ''n1''), (''label'', VStr ''login-01'')]]),
     (''collection'', VDict [(''reconnect_backoff_sec'', VList [VInt 5, VInt 60]), (''hourly_census'', VBool True)])]"

definition ex_config_env :: "pyval \<Rightarrow> config_env" where
  "ex_config_env v = \<lparr>ce_expand = (\<lambda>p. p), ce_is_file = (\<lambda>p. p = ''c.yaml''), ce_yaml = (\<lambda>_. Some v), ce_mode = (\<lambda>_. 420),
     ce_getenv = (\<lambda>_. None), ce_regex = (\<lambda>_. True), ce_url_password = (\<lambda>_. False)\<rparr>"


subsection \<open>Errors that are not reported as configuration errors\<close>

text \<open>A section as a mapping, empty when the file has none.\<close>

definition sec :: "row \<Rightarrow> string \<Rightarrow> row" where
  "sec r name = (case rget r name of VDict d \<Rightarrow> d | _ \<Rightarrow> [])"

definition odd_path :: "pyval \<Rightarrow> bool" where
  "odd_path v \<longleftrightarrow> truthy v \<and> (case v of VStr _ \<Rightarrow> False | _ \<Rightarrow> True)"

definition odd_backoff :: "pyval \<Rightarrow> bool" where
  "odd_backoff v = (case pair_of v of Some (a, b) \<Rightarrow> num_value a = None \<or> num_value b = None | None \<Rightarrow> False)"

definition odd_label :: "pyval \<Rightarrow> bool" where
  "odd_label v = (case v of VDict d \<Rightarrow> \<not> hashable (rget d ''label'') | _ \<Rightarrow> False)"

definition odd_values :: "row \<Rightarrow> bool" where
  "odd_values r \<longleftrightarrow>
     odd_path (rget (sec r ''ssh'') ''identity_file'') \<or> odd_backoff (rget (sec r ''collection'') ''reconnect_backoff_sec'') \<or>
     rget (sec r ''collection'') ''summary_interval_sec'' = VFloat PosInf \<or>
     (case rget r ''nodes'' of VList es \<Rightarrow> list_ex odd_label es | _ \<Rightarrow> False) \<or> odd_path (rget r ''working_dir'')"

lemma refuse_if_uncaught [simp]: "refuse_if c msg \<noteq> Inl (Uncaught e)"
  by (simp add: refuse_if_def)

lemma ceach_uncaught: "(\<And>x. f x \<noteq> Inl (Uncaught e)) \<Longrightarrow> ceach f xs \<noteq> Inl (Uncaught e)"
  by (induction xs) (auto simp: cbind_Inl)

lemma check_uncaught [simp]:
  "check_keys w d ks \<noteq> Inl (Uncaught e)" "check_positive w k v \<noteq> Inl (Uncaught e)" "check_positive_int w k v \<noteq> Inl (Uncaught e)"
  "check_positive_finite w k v \<noteq> Inl (Uncaught e)" "check_url l v \<noteq> Inl (Uncaught e)" "check_pattern env v \<noteq> Inl (Uncaught e)"
  "section_of r name \<noteq> Inl (Uncaught e)" "pattern_strings v \<noteq> Inl (Uncaught e)"
proof -
  show "check_keys w d ks \<noteq> Inl (Uncaught e)" unfolding check_keys_def by (rule ceach_uncaught) simp
qed (cases v; simp add: check_positive_def check_positive_int_def check_positive_finite_def check_url_def check_pattern_def
      cbind_Inl pattern_strings_def; fail
    | cases "rget r name"; simp add: section_of_def)+

lemma build_uncaught [simp]: "build defaults w d ks \<noteq> Inl (Uncaught e)"
  by (auto simp: build_def cbind_Inl)

lemma section_of_sec: "section_of r name = Inr d \<Longrightarrow> d = sec r name"
  by (cases "rget r name") (auto simp: section_of_def sec_def)

lemma expand_path_uncaught: "truthy v \<Longrightarrow> expand_path env v = Inl (Uncaught e) \<Longrightarrow> odd_path v"
  by (cases v) (auto simp: expand_path_def odd_path_def)

lemma load_ssh_uncaught: "load_ssh env r = Inl (Uncaught e) \<Longrightarrow> odd_path (rget (sec r ''ssh'') ''identity_file'')"
  by (auto simp: load_ssh_def cbind_Inl dest!: section_of_sec expand_path_uncaught [rotated] split: if_splits)

lemma load_backoff_uncaught: "load_backoff data = Inl (Uncaught e) \<Longrightarrow> odd_backoff (rget data ''reconnect_backoff_sec'')"
  by (auto simp: load_backoff_def odd_backoff_def cbind_Inl check_pair_def rget_def dget_or_def split: option.splits if_splits)

lemma check_alignment_uncaught:
  "check_alignment s c = Inl (Uncaught e) \<Longrightarrow> flt_less (Fin 0) s \<Longrightarrow> flt_less (Fin 0) c \<Longrightarrow> s = PosInf"
  by (cases s; cases c) (auto simp: check_alignment_def)

lemma load_backoff_get: "load_backoff data = Inr d \<Longrightarrow> k \<noteq> ''reconnect_backoff_sec'' \<Longrightarrow> dget d k = dget data k"
  by (auto simp: load_backoff_def cbind_Inr split: option.splits)

lemma validate_collection_uncaught:
  assumes "validate_collection c = Inl (Uncaught e)"
  shows "num_of c ''summary_interval_sec'' = PosInf"
proof -
  have never: "ceach (\<lambda>k. check_positive ''collection'' k (rget c k)) POSITIVE_KEYS \<noteq> Inl (Uncaught e)"
    by (rule ceach_uncaught) simp
  with assms have p: "list_all (\<lambda>k. positive_num (rget c k)) POSITIVE_KEYS"
    and a: "check_alignment (num_of c ''summary_interval_sec'') (num_of c ''census_interval_sec'') = Inl (Uncaught e)"
    unfolding validate_collection_def cbind_Inl ceach_Inr check_positive_Inr by auto
  have pos: "positive_num (rget c ''summary_interval_sec'')" "positive_num (rget c ''census_interval_sec'')"
    using p by (simp_all add: POSITIVE_KEYS_def)
  from check_alignment_uncaught [OF a pos [THEN positive_num_of]] show ?thesis .
qed

lemma load_collection_uncaught:
  assumes "load_collection r = Inl (Uncaught e)"
  shows "odd_backoff (rget (sec r ''collection'') ''reconnect_backoff_sec'') \<or> rget (sec r ''collection'') ''summary_interval_sec'' = VFloat PosInf"
proof (cases "load_backoff (sec r ''collection'')")
  case (Inl x)
  with assms show ?thesis by (auto simp: load_collection_def cbind_Inl dest: section_of_sec load_backoff_uncaught)
next
  case (Inr data)
  with assms obtain c where c: "build COLLECTION_DEFAULTS ''collection'' data COLLECTION_FUTURE = Inr c" "validate_collection c = Inl (Uncaught e)"
    by (auto simp: load_collection_def cbind_Inl dest: section_of_sec)
  have "rget c ''summary_interval_sec'' = dget_or (sec r ''collection'') ''summary_interval_sec'' (VInt 300)"
    using build_get [OF c(1), of "''summary_interval_sec''"] load_backoff_get [OF Inr, of "''summary_interval_sec''"]
    by (simp add: COLLECTION_DEFAULTS_def dget_or_def)
  with validate_collection_uncaught [OF c(2)] show ?thesis
    by (cases "rget c ''summary_interval_sec''") (auto simp: num_of_def num_value_def rget_def dget_or_def split: option.splits if_splits)
qed

lemma load_redaction_uncaught [simp]: "load_redaction env r \<noteq> Inl (Uncaught e)"
  using ceach_uncaught [of "check_pattern env" e] by (auto simp: load_redaction_def cbind_Inl)

lemma parse_node_uncaught: "parse_node nodes v = Inl (Uncaught e) \<Longrightarrow> odd_label v"
  by (cases v) (auto simp: parse_node_def odd_label_def cbind_Inl split: if_splits)

lemma parse_entries_uncaught: "parse_entries nodes es = Inl (Uncaught e) \<Longrightarrow> list_ex odd_label es"
  by (induction es arbitrary: nodes) (auto simp: cbind_Inl dest: parse_node_uncaught)

lemma parse_nodes_uncaught:
  "parse_nodes v = Inl (Uncaught e) \<Longrightarrow> case v of VList es \<Rightarrow> list_ex odd_label es | _ \<Rightarrow> False"
  by (cases v) (auto simp: parse_nodes_def cbind_Inl dest: parse_node_uncaught parse_entries_uncaught split: list.splits)

lemma stores_uncaught [simp]:
  "check_stores db web ret sp \<noteq> Inl (Uncaught e)" "check_mode env src db web \<noteq> Inl (Uncaught e)" "override_url env var key d \<noteq> Inl (Uncaught e)"
  using ceach_uncaught [of "\<lambda>k. check_positive_int ''retention'' k (rget ret k)" e]
  by (auto simp: check_stores_def check_mode_def override_url_def cbind_Inl split: option.splits)

lemma read_config_cases:
  "read_config env source \<noteq> Inl (Uncaught e)" "read_config env source = Inr r \<Longrightarrow> ce_yaml env source = Some (VDict r)"
proof -
  have never: "ceach (\<lambda>k. refuse_if (k \<notin> set (dkeys d)) (m k)) ks \<noteq> Inl (Uncaught e)" for d m ks
    by (rule ceach_uncaught) simp
  show "read_config env source \<noteq> Inl (Uncaught e)"
    using never by (auto simp: read_config_def cbind_Inl split: option.splits pyval.splits)
  show "read_config env source = Inr r \<Longrightarrow> ce_yaml env source = Some (VDict r)"
    by (auto simp: read_config_def cbind_Inr split: option.splits pyval.splits)
qed


text \<open>An infinite summary interval raises \<open>OverflowError\<close>.\<close>

definition ex_infinite :: pyval where
  "ex_infinite = VDict [(''system'', VStr ''polaris''), (''probe_python'', VStr ''python3''),
     (''nodes'', VList [VDict [(''host'', VStr ''n1''), (''label'', VStr ''login-01'')]]),
     (''collection'', VDict [(''summary_interval_sec'', VFloat PosInf)])]"


end
