(* ===== verification/Instance.thy ===== *)
theory Instance
  imports NM_Prelude
begin

text \<open>
  The guard against two collectors (\<open>collector/instance.py\<close>): an advisory lock on \<open>state/daemon.lock\<close> and
  the file \<open>state/daemon.json\<close>, which says who holds it.  Processes run \<open>InstanceLock.acquire\<close> and
  \<open>release\<close>, \<open>lock_held\<close>, \<open>running_info\<close> and \<open>clear_stale\<close>; each of their system calls is one step, the
  steps of different processes interleave, and a process may be killed between any two of them.  The
  kernel grants the lock to one process and drops it when that process dies.  The lock file is never
  removed, a process runs one operation at a time, and errors other than a missing file or a held lock
  are not modelled.
\<close>

type_synonym pid = int

text \<open>What \<open>daemon.json\<close> holds; a file that is no JSON reads as \<open>None\<close>.\<close>

datatype info_file = Absent | Garbled | Info pid

fun read_info :: "info_file \<Rightarrow> pid option" where
  "read_info (Info p) = Some p"
| "read_info Absent = None"
| "read_info Garbled = None"

record state_dir =
  sd_lock_file :: bool
  sd_holder :: "pid option"
  sd_info :: info_file
  sd_tmp :: info_file

datatype query = LockHeld | RunningInfo | ClearStale

text \<open>Where a process is.\<close>

datatype pc =
    Idle
  | AcquireOpened
  | AcquireLocked
  | AcquireWrote
  | Running
  | ReleaseUnlinked
  | AcquireFailed
  | Refused "pid option"
  | QueryOpened query
  | QueryMissing
  | QueryLocked query
  | QueryRead "pid option" bool
  | QueryRemoved "pid option" bool
  | QueryHeld
  | Answer query bool "pid option"

text \<open>\<open>acquire\<close>: the lock without waiting, then \<open>daemon.json\<close> by way of a temporary file.\<close>

definition acquire_flock :: "pid \<Rightarrow> state_dir \<Rightarrow> state_dir \<times> pc" where
  "acquire_flock p d = (case sd_holder d of Some _ \<Rightarrow> (d, AcquireFailed) | None \<Rightarrow> (d\<lparr>sd_holder := Some p\<rparr>, AcquireLocked))"

definition acquire_write :: "pid \<Rightarrow> state_dir \<Rightarrow> state_dir \<times> pc" where
  "acquire_write p d = (d\<lparr>sd_tmp := Info p\<rparr>, AcquireWrote)"

definition acquire_replace :: "state_dir \<Rightarrow> state_dir \<times> pc" where
  "acquire_replace d = (d\<lparr>sd_info := sd_tmp d, sd_tmp := Absent\<rparr>, Running)"

text \<open>\<open>release\<close>\<close>

definition release_unlink :: "state_dir \<Rightarrow> state_dir \<times> pc" where
  "release_unlink d = (d\<lparr>sd_info := Absent\<rparr>, ReleaseUnlinked)"

definition release_unlock :: "state_dir \<Rightarrow> state_dir \<times> pc" where
  "release_unlock d = (d\<lparr>sd_holder := None\<rparr>, Idle)"

text \<open>\<open>_probe\<close> for \<open>lock_held\<close>, \<open>running_info\<close> and \<open>clear_stale\<close>.\<close>

definition probe_flock :: "pid \<Rightarrow> query \<Rightarrow> state_dir \<Rightarrow> state_dir \<times> pc" where
  "probe_flock p q d =
     (case sd_holder d of
        Some _ \<Rightarrow> (d, if q = RunningInfo then QueryHeld else Answer q True None)
      | None \<Rightarrow> (d\<lparr>sd_holder := Some p\<rparr>, QueryLocked q))"

definition probe_free :: "query \<Rightarrow> state_dir \<Rightarrow> state_dir \<times> pc" where
  "probe_free q d =
     (if q = ClearStale then (d, QueryRead (read_info (sd_info d)) True) else (d\<lparr>sd_holder := None\<rparr>, Answer q False None))"

text \<open>
  The function \<open>remove\<close> of \<open>clear_stale\<close>, after its reading of the file, and the end of the probe.  The
  flag says whether the lock is held: where there is no lock file, \<open>_probe\<close> calls it without.
\<close>

definition clear_remove :: "pid option \<Rightarrow> bool \<Rightarrow> state_dir \<Rightarrow> state_dir \<times> pc" where
  "clear_remove found locked d = (d\<lparr>sd_info := Absent\<rparr>, QueryRemoved found locked)"

definition clear_close :: "pid option \<Rightarrow> bool \<Rightarrow> state_dir \<Rightarrow> state_dir \<times> pc" where
  "clear_close found locked d = (if locked then d\<lparr>sd_holder := None\<rparr> else d, Answer ClearStale False found)"

definition running_read :: "state_dir \<Rightarrow> state_dir \<times> pc" where
  "running_read d = (d, Answer RunningInfo True (read_info (sd_info d)))"

text \<open>The next system call of process \<open>p\<close>.\<close>

fun advance :: "pid \<Rightarrow> state_dir \<Rightarrow> pc \<Rightarrow> state_dir \<times> pc" where
  "advance p d AcquireOpened = acquire_flock p d"
| "advance p d AcquireFailed = (d, Refused (read_info (sd_info d)))"
| "advance p d AcquireLocked = acquire_write p d"
| "advance p d AcquireWrote = acquire_replace d"
| "advance p d Running = release_unlink d"
| "advance p d ReleaseUnlinked = release_unlock d"
| "advance p d (QueryOpened q) = probe_flock p q d"
| "advance p d QueryMissing = (d, QueryRead (read_info (sd_info d)) False)"
| "advance p d (QueryLocked q) = probe_free q d"
| "advance p d (QueryRead found locked) = clear_remove found locked d"
| "advance p d (QueryRemoved found locked) = clear_close found locked d"
| "advance p d QueryHeld = running_read d"
| "advance p d (Refused i) = (d, Idle)"
| "advance p d (Answer q b i) = (d, Idle)"
| "advance p d Idle = (d, Idle)"

lemmas call_defs = acquire_flock_def acquire_write_def acquire_replace_def release_unlink_def release_unlock_def probe_flock_def probe_free_def
  clear_remove_def clear_close_def running_read_def

text \<open>The call that begins an operation opens the lock file; only \<open>acquire\<close> creates it.\<close>

definition begin_acquire :: "state_dir \<Rightarrow> state_dir \<times> pc" where
  "begin_acquire d = (d\<lparr>sd_lock_file := True\<rparr>, AcquireOpened)"

definition begin_query :: "query \<Rightarrow> state_dir \<Rightarrow> state_dir \<times> pc" where
  "begin_query q d =
     (if sd_lock_file d then (d, QueryOpened q) else (d, if q = ClearStale then QueryMissing else Answer q False None))"

text \<open>A process that dies drops its lock.\<close>

definition kill_process :: "pid \<Rightarrow> state_dir \<Rightarrow> state_dir" where
  "kill_process p d = (if sd_holder d = Some p then d\<lparr>sd_holder := None\<rparr> else d)"

record host_state =
  hs_dir :: state_dir
  hs_pc :: "pid \<Rightarrow> pc"

definition set_proc :: "pid \<Rightarrow> state_dir \<times> pc \<Rightarrow> host_state \<Rightarrow> host_state" where
  "set_proc p r s = s\<lparr>hs_dir := fst r, hs_pc := (hs_pc s)(p := snd r)\<rparr>"

datatype action = Acquire pid | Query query pid | Advance pid | Kill pid

definition act :: "action \<Rightarrow> host_state \<Rightarrow> host_state" where
  "act a s = (case a of
     Acquire p \<Rightarrow> if hs_pc s p = Idle then set_proc p (begin_acquire (hs_dir s)) s else s
   | Query q p \<Rightarrow> if hs_pc s p = Idle then set_proc p (begin_query q (hs_dir s)) s else s
   | Advance p \<Rightarrow> set_proc p (advance p (hs_dir s) (hs_pc s p)) s
   | Kill p \<Rightarrow> set_proc p (kill_process p (hs_dir s), Idle) s)"

inductive reachable_from :: "host_state \<Rightarrow> host_state \<Rightarrow> bool" for s0 where
  rf_start: "reachable_from s0 s0"
| rf_act: "reachable_from s0 s \<Longrightarrow> reachable_from s0 (act a s)"

text \<open>No process is at work; the files may be left over from a crash.\<close>

definition quiet :: "state_dir \<Rightarrow> host_state" where
  "quiet d = \<lparr>hs_dir = d\<lparr>sd_holder := None\<rparr>, hs_pc = (\<lambda>_. Idle)\<rparr>"

subsection \<open>The lock holder and its name\<close>

text \<open>The places at which a process holds the lock.\<close>

definition owns :: "pc \<Rightarrow> bool" where
  "owns c = (case c of AcquireLocked \<Rightarrow> True | AcquireWrote \<Rightarrow> True | Running \<Rightarrow> True | ReleaseUnlinked \<Rightarrow> True | QueryLocked _ \<Rightarrow> True
     | QueryRead _ l \<Rightarrow> l | QueryRemoved _ l \<Rightarrow> l | _ \<Rightarrow> False)"

text \<open>The places of \<open>clear_stale\<close> without the lock.\<close>

definition unlocked_clear :: "pc \<Rightarrow> bool" where
  "unlocked_clear c = (case c of QueryMissing \<Rightarrow> True | QueryRead _ l \<Rightarrow> \<not> l | QueryRemoved _ l \<Rightarrow> \<not> l | _ \<Rightarrow> False)"

definition lock_inv :: "host_state \<Rightarrow> bool" where
  "lock_inv s \<longleftrightarrow> (\<forall>p. owns (hs_pc s p) \<longleftrightarrow> sd_holder (hs_dir s) = Some p)"

definition named_inv :: "host_state \<Rightarrow> bool" where
  "named_inv s \<longleftrightarrow> sd_lock_file (hs_dir s) \<and>
     (\<forall>p. \<not> unlocked_clear (hs_pc s p) \<and>
        (hs_pc s p = AcquireWrote \<longrightarrow> sd_tmp (hs_dir s) = Info p) \<and>
        (hs_pc s p = Running \<longrightarrow> sd_info (hs_dir s) = Info p))"

lemmas dir_ops = set_proc_def begin_acquire_def begin_query_def kill_process_def

lemma owns_simps [simp]:
  "\<not> owns Idle" "\<not> owns AcquireOpened" "owns AcquireLocked" "owns AcquireWrote" "owns Running" "owns ReleaseUnlinked" "\<not> owns (Refused i)" "\<not> owns AcquireFailed"
  "\<not> owns (QueryOpened q)" "\<not> owns QueryMissing" "owns (QueryLocked q)" "owns (QueryRead i l) = l" "owns (QueryRemoved i l) = l"
  "\<not> owns QueryHeld" "\<not> owns (Answer q b i)"
  by (simp_all add: owns_def)

lemma unlocked_clear_simps [simp]:
  "\<not> unlocked_clear Idle" "\<not> unlocked_clear AcquireOpened" "\<not> unlocked_clear AcquireLocked" "\<not> unlocked_clear AcquireWrote"
  "\<not> unlocked_clear Running" "\<not> unlocked_clear ReleaseUnlinked" "\<not> unlocked_clear (Refused i)" "\<not> unlocked_clear AcquireFailed" "\<not> unlocked_clear (QueryOpened q)"
  "unlocked_clear QueryMissing" "\<not> unlocked_clear (QueryLocked q)" "unlocked_clear (QueryRead i l) = (\<not> l)"
  "unlocked_clear (QueryRemoved i l) = (\<not> l)" "\<not> unlocked_clear QueryHeld" "\<not> unlocked_clear (Answer q b i)"
  by (simp_all add: unlocked_clear_def)

text \<open>What one call of \<open>p\<close> may do to the lock.\<close>

lemma advance_holder:
  assumes "advance p d c = (d', c')" "owns c \<longleftrightarrow> sd_holder d = Some p"
  shows "(owns c' \<longleftrightarrow> sd_holder d' = Some p) \<and> (sd_holder d' = sd_holder d \<or> sd_holder d \<in> {None, Some p} \<and> sd_holder d' \<in> {None, Some p})"
  using assms by (cases c; cases "sd_holder d"; force simp: call_defs split: if_splits)

lemma act_lock_inv: "lock_inv s \<Longrightarrow> lock_inv (act a s)"
proof (cases a)
  case (Advance p)
  assume inv: "lock_inv s"
  obtain d' c' where r: "advance p (hs_dir s) (hs_pc s p) = (d', c')" by fastforce
  have "owns (hs_pc s p) \<longleftrightarrow> sd_holder (hs_dir s) = Some p" using inv by (simp add: lock_inv_def)
  from advance_holder [OF r this] inv show ?thesis
    by (fastforce simp: Advance act_def lock_inv_def dir_ops r)
next
  case (Kill p)
  then show "lock_inv s \<Longrightarrow> ?thesis" by (auto simp: act_def lock_inv_def dir_ops)
next
  case (Acquire p)
  assume inv: "lock_inv s"
  show ?thesis
  proof (cases "hs_pc s p = Idle")
    case True
    have "sd_holder (hs_dir s) \<noteq> Some p" using inv True by (metis lock_inv_def owns_simps(1))
    with inv True show ?thesis by (auto simp: Acquire act_def lock_inv_def dir_ops)
  qed (use inv in \<open>simp add: Acquire act_def\<close>)
next
  case (Query q p)
  assume inv: "lock_inv s"
  show ?thesis
  proof (cases "hs_pc s p = Idle")
    case True
    have "sd_holder (hs_dir s) \<noteq> Some p" using inv True by (metis lock_inv_def owns_simps(1))
    with inv True show ?thesis by (auto simp: Query act_def lock_inv_def dir_ops)
  qed (use inv in \<open>simp add: Query act_def\<close>)
qed

lemma advance_named:
  assumes "advance p d c = (d', c')" "owns c \<longleftrightarrow> sd_holder d = Some p" "sd_lock_file d" "\<not> unlocked_clear c"
    "c = AcquireWrote \<Longrightarrow> sd_tmp d = Info p" "c = Running \<Longrightarrow> sd_info d = Info p"
  shows "sd_lock_file d' \<and> \<not> unlocked_clear c' \<and> (c' = AcquireWrote \<longrightarrow> sd_tmp d' = Info p) \<and> (c' = Running \<longrightarrow> sd_info d' = Info p) \<and>
    (owns c \<or> sd_tmp d' = sd_tmp d \<and> sd_info d' = sd_info d)"
  using assms by (cases c) (auto simp: call_defs split: option.splits if_splits)

lemma act_named_inv:
  assumes "lock_inv s" "named_inv s"
  shows "named_inv (act a s)"
proof (cases a)
  case (Advance p)
  obtain d' c' where r: "advance p (hs_dir s) (hs_pc s p) = (d', c')" by fastforce
  have o: "owns (hs_pc s p) \<longleftrightarrow> sd_holder (hs_dir s) = Some p" using assms(1) by (simp add: lock_inv_def)
  have alone: "owns (hs_pc s p) \<Longrightarrow> q \<noteq> p \<Longrightarrow> \<not> owns (hs_pc s q)" for q using assms(1) by (auto simp: lock_inv_def)
  note n = advance_named [OF r o]
  have "named_inv (set_proc p (d', c') s)"
    unfolding named_inv_def
  proof (intro conjI allI)
    show "sd_lock_file (hs_dir (set_proc p (d', c') s))" using n assms(2) by (simp add: named_inv_def dir_ops)
    fix q
    have "owns (hs_pc s p) \<Longrightarrow> q \<noteq> p \<Longrightarrow> hs_pc s q \<noteq> AcquireWrote \<and> hs_pc s q \<noteq> Running" using alone [of q] by auto
    then have "\<not> unlocked_clear (hs_pc (set_proc p (d', c') s) q) \<and>
        (hs_pc (set_proc p (d', c') s) q = AcquireWrote \<longrightarrow> sd_tmp (hs_dir (set_proc p (d', c') s)) = Info q) \<and>
        (hs_pc (set_proc p (d', c') s) q = Running \<longrightarrow> sd_info (hs_dir (set_proc p (d', c') s)) = Info q)"
      using n assms(2) by (cases "q = p") (auto simp: named_inv_def dir_ops)
    then show "\<not> unlocked_clear (hs_pc (set_proc p (d', c') s) q)"
      "hs_pc (set_proc p (d', c') s) q = AcquireWrote \<longrightarrow> sd_tmp (hs_dir (set_proc p (d', c') s)) = Info q"
      "hs_pc (set_proc p (d', c') s) q = Running \<longrightarrow> sd_info (hs_dir (set_proc p (d', c') s)) = Info q" by blast+
  qed
  then show ?thesis by (simp add: Advance act_def r)
qed (use assms(2) in \<open>auto simp: act_def named_inv_def dir_ops\<close>)

lemma reachable_lock_inv: "reachable_from (quiet d) s \<Longrightarrow> lock_inv s"
  by (induction rule: reachable_from.induct) (auto simp: act_lock_inv, simp add: lock_inv_def quiet_def)


lemma reachable_named_inv:
  assumes "sd_lock_file d" "reachable_from (quiet d) s"
  shows "named_inv s"
  using assms(2)
proof (induction rule: reachable_from.induct)
  case rf_start
  show ?case using assms(1) by (simp add: named_inv_def quiet_def)
next
  case (rf_act s a)
  then show ?case using reachable_lock_inv act_named_inv by blast
qed


definition acts :: "action list \<Rightarrow> host_state \<Rightarrow> host_state" where
  "acts as s = foldl (\<lambda>s a. act a s) s as"

lemma acts_reachable: "reachable_from s0 s \<Longrightarrow> reachable_from s0 (acts as s)"
  by (induction as arbitrary: s) (auto simp: acts_def intro: rf_act)

definition stale_dir :: "bool \<Rightarrow> state_dir" where
  "stale_dir lock_file = \<lparr>sd_lock_file = lock_file, sd_holder = None, sd_info = Info 11, sd_tmp = Absent\<rparr>"

definition start_up :: "pid \<Rightarrow> action list" where
  "start_up p = [Acquire p, Advance p, Advance p, Advance p]"


subsection \<open>Races\<close>

text \<open>
  Where the lock file does not exist yet, \<open>clear_stale\<close> removes \<open>daemon.json\<close> without the lock, and may
  remove that of a collector which has just started: nobody can stop it by name any more.
\<close>

theorem clear_stale_race:
  "\<exists>s. reachable_from (quiet (stale_dir False)) s \<and> hs_pc s 5 = Running \<and> sd_info (hs_dir s) = Absent"
proof -
  let ?s = "acts ([Query ClearStale 7, Advance 7] @ start_up 5 @ [Advance 7]) (quiet (stale_dir False))"
  have "hs_pc ?s 5 = Running \<and> sd_info (hs_dir ?s) = Absent" by code_simp
  then show ?thesis using acts_reachable [OF rf_start] by blast
qed

text \<open>
  While one query holds the lock for a moment, another takes it for a running collector and answers with
  the leftover of a crashed one, and a collector that starts is refused.
\<close>

theorem query_looks_like_daemon:
  "\<exists>s. reachable_from (quiet (stale_dir True)) s \<and> (\<forall>p. hs_pc s p \<noteq> Running) \<and>
     hs_pc s 6 = Answer RunningInfo True (Some 11) \<and> hs_pc s 5 = Refused (Some 11)"
proof -
  let ?s = "acts [Query LockHeld 7, Advance 7, Query RunningInfo 6, Advance 6, Advance 6, Acquire 5, Advance 5, Advance 5] (quiet (stale_dir True))"
  have "hs_pc ?s 6 = Answer RunningInfo True (Some 11) \<and> hs_pc ?s 5 = Refused (Some 11)" by code_simp
  moreover have "hs_pc ?s p \<noteq> Running" for p
    by (simp add: acts_def act_def dir_ops call_defs quiet_def stale_dir_def)
  ultimately show ?thesis using acts_reachable [OF rf_start] by blast
qed

end
