(* ===== verification/Probe_Stream.thy ===== *)
theory Probe_Stream
  imports Probe_Message
begin

text \<open>
  The streaming half of the probe (\<open>probe/probe.py\<close>): its configuration, the lines it writes, the
  schedule of the main loop (\<open>Probe_Lock\<close> holds the lock that keeps it alone on its node).  The JSON encoder is a
  parameter: it yields the pieces of a line, and may raise after some of them.
\<close>

subsection \<open>Configuration\<close>

definition GPU_SUSPEND_SEC :: rat where "GPU_SUSPEND_SEC = 600"
definition PARENT_POLL_SEC :: rat where "PARENT_POLL_SEC = 1"
definition ERROR_MESSAGE_MAX :: nat where "ERROR_MESSAGE_MAX = 500"
definition EMIT_CHUNK_BYTES :: nat where "EMIT_CHUNK_BYTES = 65536"
definition SELF_SMAPS_ROLLUP :: string where "SELF_SMAPS_ROLLUP = ''/proc/self/smaps_rollup''"
definition SELF_STATUS :: string where "SELF_STATUS = ''/proc/self/status''"

definition default_config :: "int \<Rightarrow> row" where
  "default_config uid =
     [(''counter_interval_sec'', VInt 10), (''census_interval_sec'', VInt 60), (''active_cpu_seconds_per_min'', vnum (1 / 10)),
      (''lock_path'', VStr (''/dev/shm/node-monitor-'' @ show_int uid @ ''.lock'')), (''proc_root'', VStr ''/proc''), (''sys_root'', VStr ''/sys''),
      (''gpu'', VBool True), (''probe_rss_limit_mb'', VInt 128), (''gpu_timeout_sec'', vnum 5), (''gpu_suspend_sec'', VInt 600),
      (''self_smaps_rollup_path'', VStr SELF_SMAPS_ROLLUP), (''self_status_path'', VStr SELF_STATUS)]"

definition resolve_config :: "int \<Rightarrow> row option \<Rightarrow> row" where
  "resolve_config uid config =
     foldl (\<lambda>merged (k, v). if v = VNone then merged else dset merged k v) (default_config uid) (case config of None \<Rightarrow> [] | Some d \<Rightarrow> d)"

subsection \<open>Lines\<close>

definition trunc_int :: "rat \<Rightarrow> int" where
  "trunc_int x = (if x \<ge> 0 then \<lfloor>x\<rfloor> else \<lceil>x\<rceil>)"

text \<open>\<open>_utc_timestamp\<close>: \<open>strftime\<close> of the seconds, then three digits of milliseconds.\<close>

definition utc_timestamp :: "rat \<Rightarrow> string" where
  "utc_timestamp now =
     (let ms = trunc_int (now * 1000); c = civil_of ((ms div 1000) * 1000000); d = c_date c in
      show_int (d_year d) @ ''-'' @ pad 2 (d_month d) @ ''-'' @ pad 2 (d_day d) @ ''T'' @ pad 2 (c_hour c) @ '':'' @ pad 2 (c_minute c) @ '':'' @
      pad 2 (c_second c) @ ''.'' @ pad 3 (nat (ms mod 1000)) @ ''Z'')"

text \<open>\<open>_encoded_chunks\<close>: what the generator yields for the pieces, and its last piece.\<close>

fun chunk_loop :: "string list \<Rightarrow> string list \<Rightarrow> nat \<Rightarrow> string list \<times> string" where
  "chunk_loop [] pending n = ([], concat pending)"
| "chunk_loop (piece # ps) pending n =
     (if pending \<noteq> [] \<and> n + length piece > EMIT_CHUNK_BYTES
      then (case chunk_loop ps [piece] (length piece) of (cs, rest) \<Rightarrow> (concat pending # cs, rest))
      else chunk_loop ps (pending @ [piece]) (n + length piece))"

definition encoded_chunks :: "string list \<Rightarrow> string list" where
  "encoded_chunks pieces = (case chunk_loop (pieces @ [[NL]]) [] 0 of (cs, rest) \<Rightarrow> cs @ [rest])"

text \<open>What it has yielded when the encoder raises after these pieces.\<close>

definition chunks_before_error :: "string list \<Rightarrow> string list" where
  "chunks_before_error pieces = fst (chunk_loop pieces [] 0)"

type_synonym encoder = "row \<Rightarrow> string list \<times> py_error option"

record emitter =
  em_seq :: nat
  em_out :: string
  em_signum :: "int option"

definition new_emitter :: emitter where
  "new_emitter = \<lparr>em_seq = 0, em_out = [], em_signum = None\<rparr>"

datatype emit_result = Written | Raised py_error | Exited int

definition error_fields :: "string \<Rightarrow> string \<Rightarrow> row" where
  "error_fields whr message = [(''where'', VStr whr), (''message'', VStr (take ERROR_MESSAGE_MAX message))]"

definition message_of :: "string \<Rightarrow> nat \<Rightarrow> rat \<Rightarrow> row \<Rightarrow> row" where
  "message_of kind sq now fs = dmerge [(''type'', VStr kind), (''seq'', VInt (int sq)), (''ts'', VStr (utc_timestamp now))] fs"

text \<open>
  \<open>_write\<close>: \<open>gone\<close> says that the reader is gone, which is noticed while writing; what it has received by
  then is of no consequence.
\<close>

definition write_line :: "encoder \<Rightarrow> rat \<Rightarrow> bool \<Rightarrow> string \<Rightarrow> row \<Rightarrow> emitter \<Rightarrow> emit_result \<times> emitter" where
  "write_line enc now gone kind fs em =
     (if gone then (Exited 0, em)
      else case enc (message_of kind (em_seq em) now fs) of
        (pieces, None) \<Rightarrow> (Written, em\<lparr>em_out := em_out em @ concat (encoded_chunks pieces), em_seq := em_seq em + 1\<rparr>)
      | (pieces, Some e) \<Rightarrow>
          (let cs = chunks_before_error pieces in
           (Raised e, em\<lparr>em_out := em_out em @ concat cs @ (if cs = [] then [] else [NL])\<rparr>)))"

definition signal_name :: "int \<Rightarrow> string" where
  "signal_name n = (if n = 15 then ''SIGTERM'' else if n = 1 then ''SIGHUP'' else if n = 2 then ''SIGINT'' else ''signal'')"

definition report_signal :: "encoder \<Rightarrow> rat \<Rightarrow> bool \<Rightarrow> int \<Rightarrow> emitter \<Rightarrow> emit_result \<times> emitter" where
  "report_signal enc now gone signum em =
     (case write_line enc now gone ''error''
        (error_fields ''signal'' (''terminated by '' @ signal_name signum @ '' ('' @ show_int signum @ '')'')) em of
        (Raised e, em) \<Rightarrow> (Raised e, em) | (_, em) \<Rightarrow> (Exited (128 + signum), em))"

definition emit_line :: "encoder \<Rightarrow> rat \<Rightarrow> bool \<Rightarrow> string \<Rightarrow> row \<Rightarrow> emitter \<Rightarrow> emit_result \<times> emitter" where
  "emit_line enc now gone kind fs em =
     (case em_signum em of Some signum \<Rightarrow> report_signal enc now gone signum em | None \<Rightarrow> write_line enc now gone kind fs em)"

definition on_signal :: "int \<Rightarrow> emitter \<Rightarrow> emitter" where
  "on_signal signum em = (if em_signum em = None then em\<lparr>em_signum := Some signum\<rparr> else em)"

subsection \<open>The schedule\<close>

definition next_due :: "rat \<Rightarrow> rat \<Rightarrow> rat \<Rightarrow> rat" where
  "next_due due interval now =
     (let due = due + interval in
      if due \<le> now then due + (if interval > 0 then interval * of_int (trunc_int ((now - due) / interval) + 1) else now - due) else due)"

record schedule =
  sd_counters :: rat
  sd_census :: rat

text \<open>
  One round of the main loop: the parent, the clock at each look, and the probe's size after a census.
  It yields what was emitted, with the clock at which it was due, and either goes on, having slept so
  long, or returns.
\<close>

record round_env =
  re_parent_same :: bool
  re_t1 :: rat
  re_t2 :: rat
  re_t3 :: rat
  re_t4 :: rat
  re_t5 :: rat
  re_rss_kb :: "int option"

datatype emission = EmitCounters rat | EmitCensus rat | EmitBye int

datatype round_end = Sleep rat | NoSleep | Return

definition rss_exceeded :: "rat \<Rightarrow> int option \<Rightarrow> bool" where
  "rss_exceeded limit_kb rss = (case rss of None \<Rightarrow> False | Some n \<Rightarrow> of_int n > limit_kb)"

definition stream_round :: "rat \<Rightarrow> rat \<Rightarrow> rat \<Rightarrow> round_env \<Rightarrow> schedule \<Rightarrow> emission list \<times> round_end \<times> schedule" where
  "stream_round counter_interval census_interval rss_limit_kb env sd =
     (if \<not> re_parent_same env then ([], Return, sd)
      else
        (let (es1, sd) = (if re_t1 env \<ge> sd_counters sd
               then ([EmitCounters (re_t1 env)], sd\<lparr>sd_counters := next_due (sd_counters sd) counter_interval (re_t2 env)\<rparr>)
               else ([], sd));
             (es2, leave, sd) = (if re_t3 env \<ge> sd_census sd
               then if rss_exceeded rss_limit_kb (re_rss_kb env)
                 then ([EmitCensus (re_t3 env), EmitBye (the (re_rss_kb env))], True, sd)
                 else ([EmitCensus (re_t3 env)], False, sd\<lparr>sd_census := next_due (sd_census sd) census_interval (re_t4 env)\<rparr>)
               else ([], False, sd));
             wait = min (sd_counters sd) (sd_census sd) - re_t5 env
         in (es1 @ es2, if leave then Return else if wait > 0 then Sleep (min wait PARENT_POLL_SEC) else NoSleep, sd)))"

fun stream_loop :: "rat \<Rightarrow> rat \<Rightarrow> rat \<Rightarrow> round_env list \<Rightarrow> schedule \<Rightarrow> emission list" where
  "stream_loop ci ni rss [] sd = []"
| "stream_loop ci ni rss (env # envs) sd =
     (case stream_round ci ni rss env sd of (es, e, sd) \<Rightarrow> es @ (if e = Return then [] else stream_loop ci ni rss envs sd))"

subsection \<open>A line is written whole\<close>

lemma chunk_loop_concat: "chunk_loop ps pending n = (cs, rest) \<Longrightarrow> concat cs @ rest = concat pending @ concat ps"
proof (induction ps arbitrary: pending n cs)
  case (Cons piece ps)
  then show ?case by (fastforce split: if_splits prod.splits)
qed simp

lemma chunk_loop_bounded:
  "chunk_loop ps pending n = (cs, rest) \<Longrightarrow> n = length (concat pending) \<Longrightarrow>
   n \<le> EMIT_CHUNK_BYTES \<or> length pending = 1 \<Longrightarrow> set pending \<union> set ps \<subseteq> A \<Longrightarrow>
   list_all (\<lambda>c. length c \<le> EMIT_CHUNK_BYTES \<or> c \<in> A) (cs @ [rest])"
proof (induction ps arbitrary: pending n cs)
  case Nil
  then show ?case by (cases pending) auto
next
  case (Cons piece ps)
  show ?case
  proof (cases "pending \<noteq> [] \<and> n + length piece > EMIT_CHUNK_BYTES")
    case True
    with Cons.prems(1) obtain cs' where r: "chunk_loop ps [piece] (length piece) = (cs', rest)" "cs = concat pending # cs'"
      by (auto split: prod.splits)
    have "list_all (\<lambda>c. length c \<le> EMIT_CHUNK_BYTES \<or> c \<in> A) (cs' @ [rest])"
      using Cons.IH [OF r(1)] Cons.prems(4) by auto
    moreover have "length (concat pending) \<le> EMIT_CHUNK_BYTES \<or> concat pending \<in> A"
      using Cons.prems(2-4) by (auto simp: length_Suc_conv)
    ultimately show ?thesis using r(2) by simp
  next
    case False
    with Cons.prems(1) have r: "chunk_loop ps (pending @ [piece]) (n + length piece) = (cs, rest)" by auto
    show ?thesis using Cons.IH [OF r] Cons.prems False by (cases "pending = []") auto
  qed
qed

lemma encoded_chunks_concat: "concat (encoded_chunks pieces) = concat pieces @ [NL]"
  using chunk_loop_concat by (auto simp: encoded_chunks_def split: prod.splits)

text \<open>
  The chunks in which a message is written are the line that the encoder yields with a newline at
  its end, whatever the pieces; no chunk is longer than \<open>EMIT_CHUNK_BYTES\<close> unless it is a single piece.
\<close>

theorem chunks_are_the_line:
  "concat (encoded_chunks pieces) = concat pieces @ [NL] \<and>
   list_all (\<lambda>c. length c \<le> EMIT_CHUNK_BYTES \<or> c \<in> set pieces) (encoded_chunks pieces)"
proof -
  obtain cs rest where c: "chunk_loop (pieces @ [[NL]]) [] 0 = (cs, rest)" by fastforce
  have "list_all (\<lambda>c. length c \<le> EMIT_CHUNK_BYTES \<or> c \<in> insert [NL] (set pieces)) (cs @ [rest])"
    by (rule chunk_loop_bounded [OF c]) auto
  then have "list_all (\<lambda>c. length c \<le> EMIT_CHUNK_BYTES \<or> c \<in> set pieces) (cs @ [rest])"
    by (auto simp: list_all_iff EMIT_CHUNK_BYTES_def)
  then have "list_all (\<lambda>c. length c \<le> EMIT_CHUNK_BYTES \<or> c \<in> set pieces) (encoded_chunks pieces)"
    using c by (simp add: encoded_chunks_def)
  with encoded_chunks_concat show ?thesis by blast
qed

text \<open>
  The lines of a sequence of messages: a complete line for a message that the encoder can represent,
  with the next sequence number, and the fragment that was already out when it could not.
\<close>

fun emit_run :: "encoder \<Rightarrow> (rat \<times> string \<times> row) list \<Rightarrow> emitter \<Rightarrow> emitter" where
  "emit_run enc [] em = em"
| "emit_run enc ((now, kind, fs) # evs) em = emit_run enc evs (snd (emit_line enc now False kind fs em))"

fun spec_lines :: "encoder \<Rightarrow> (rat \<times> string \<times> row) list \<Rightarrow> nat \<Rightarrow> (row option \<times> string) list" where
  "spec_lines enc [] n = []"
| "spec_lines enc ((now, kind, fs) # evs) n =
     (let m = message_of kind n now fs in
      case enc m of
        (ps, None) \<Rightarrow> (Some m, concat ps) # spec_lines enc evs (n + 1)
      | (ps, Some e) \<Rightarrow>
          (if chunks_before_error ps = [] then [] else [(None, concat (chunks_before_error ps))]) @ spec_lines enc evs n)"

lemma emit_run_lines:
  "em_signum em = None \<Longrightarrow> em_out (emit_run enc evs em) = em_out em @ concat (map (\<lambda>l. snd l @ [NL]) (spec_lines enc evs (em_seq em)))"
proof (induction evs arbitrary: em)
  case (Cons ev evs)
  obtain now kind fs where ev: "ev = (now, kind, fs)" by (cases ev)
  obtain ps err where e: "enc (message_of kind (em_seq em) now fs) = (ps, err)" by fastforce
  define em' where "em' = snd (emit_line enc now False kind fs em)"
  have s: "em_signum em' = None" using Cons.prems e by (cases err) (auto simp: em'_def emit_line_def write_line_def Let_def)
  from Cons.IH [OF s] Cons.prems e show ?case
    by (cases err) (auto simp: ev em'_def emit_line_def write_line_def Let_def encoded_chunks_concat)
qed simp

lemma split_lines: "list_all (\<lambda>l. NL \<notin> set l) ls \<Longrightarrow> split_on NL (concat (map (\<lambda>l. l @ [NL]) ls)) = ls @ [[]]"
  by (induction ls) (simp_all add: split_on_sep split_on_free)

lemma chunks_before_error_sub: "set (concat (chunks_before_error ps)) \<subseteq> set (concat ps)"
proof -
  obtain cs rest where c: "chunk_loop ps [] 0 = (cs, rest)" by fastforce
  from chunk_loop_concat [OF c] have "set (concat cs) \<subseteq> set (concat ps)" by (metis concat.simps(1) append_Nil set_append sup_ge1)
  with c show ?thesis by (simp add: chunks_before_error_def)
qed

text \<open>
  Read line by line, the output of the probe is exactly the messages it emitted, each whole and in
  order with consecutive sequence numbers, and the fragments of messages that could not be encoded, each
  on a line of its own: a fragment never runs into the message after it and never takes a number.
\<close>

theorem output_is_whole_lines:
  assumes "\<And>m. NL \<notin> set (concat (fst (enc m)))"
  shows "split_on NL (em_out (emit_run enc evs new_emitter)) = map snd (spec_lines enc evs 0) @ [[]]"
proof -
  have free: "list_all (\<lambda>l. NL \<notin> set l) (map snd (spec_lines enc evs n))" for n
  proof (induction evs arbitrary: n)
    case (Cons ev evs)
    obtain now kind fs where ev: "ev = (now, kind, fs)" by (cases ev)
    obtain ps err where e: "enc (message_of kind n now fs) = (ps, err)" by fastforce
    have "NL \<notin> set (concat ps)" using assms [of "message_of kind n now fs"] e by simp
    with Cons.IH chunks_before_error_sub [of ps] e show ?case by (cases err) (auto simp: ev Let_def)
  qed simp
  have "em_out (emit_run enc evs new_emitter) = concat (map (\<lambda>l. l @ [NL]) (map snd (spec_lines enc evs 0)))"
    using emit_run_lines [of new_emitter enc evs] by (simp add: new_emitter_def comp_def)
  then show ?thesis using split_lines [OF free] by simp
qed

text \<open>An encoder that cannot represent messages of kind \<open>bad\<close>.\<close>

definition ex_enc :: encoder where
  "ex_enc m = (case rget m ''type'' of VStr k \<Rightarrow> if k = ''bad'' then ([''{'', replicate 65536 (CHR ''x'')], Some (ValueError ''nan'')) else ([''{'', k, ''}''], None)
     | _ \<Rightarrow> ([], Some (ValueError ''type'')))"

theorem output_is_whole_lines_witness:
  "split_on NL (em_out (emit_run ex_enc [(0, ''a'', []), (0, ''bad'', []), (0, ''b'', [])] new_emitter)) = [''{a}'', ''{'', ''{b}'', []]"
proof -
  have nl: "NL \<notin> set (concat (fst (ex_enc m)))" if "\<And>k. rget m ''type'' = VStr k \<Longrightarrow> NL \<notin> set k" for m
    using that by (auto simp: ex_enc_def NL_def split: pyval.splits)
  define enc where "enc = (\<lambda>m. if NL \<in> set (concat (fst (ex_enc m))) then ([], None) else ex_enc m)"
  have t: "rget (message_of k n now []) ''type'' = VStr k" for k n now by (simp add: message_of_def rget_def dget_or_def)
  have big: "chunks_before_error [''{'', replicate 65536 (CHR ''x'')] = [''{'']"
    by (simp add: chunks_before_error_def EMIT_CHUNK_BYTES_def)
  have e: "enc (message_of k n now []) = ex_enc (message_of k n now [])" if "NL \<notin> set k" for k n now
    using nl [of "message_of k n now []"] that by (simp add: enc_def t)
  have k: "NL \<notin> set ''a''" "NL \<notin> set ''bad''" "NL \<notin> set ''b''" by (simp_all add: NL_def)
  have run: "emit_run enc [(0, ''a'', []), (0, ''bad'', []), (0, ''b'', [])] new_emitter = emit_run ex_enc [(0, ''a'', []), (0, ''bad'', []), (0, ''b'', [])] new_emitter"
    by (simp add: emit_line_def write_line_def new_emitter_def e [OF k(1)] e [OF k(2)] e [OF k(3)] ex_enc_def t Let_def)
  have "split_on NL (em_out (emit_run enc [(0, ''a'', []), (0, ''bad'', []), (0, ''b'', [])] new_emitter)) =
      map snd (spec_lines enc [(0, ''a'', []), (0, ''bad'', []), (0, ''b'', [])] 0) @ [[]]"
    by (rule output_is_whole_lines) (simp add: enc_def)
  then show ?thesis
    unfolding run by (simp add: e [OF k(1)] e [OF k(2)] e [OF k(3)] ex_enc_def t big Let_def)
qed

subsection \<open>The schedule does not burst\<close>

definition slot :: "rat \<Rightarrow> rat \<Rightarrow> rat \<Rightarrow> int" where
  "slot start interval t = \<lfloor>(t - start) / interval\<rfloor>"

lemma slot_less: "0 < interval \<Longrightarrow> slot start interval t < k \<longleftrightarrow> t < start + of_int k * interval"
  by (simp add: slot_def floor_less_iff pos_divide_less_eq algebra_simps)

lemma slot_ge: "0 < interval \<Longrightarrow> k \<le> slot start interval t \<longleftrightarrow> start + of_int k * interval \<le> t"
  by (simp add: slot_def le_floor_iff pos_le_divide_eq algebra_simps)

lemma slot_mono: "0 < interval \<Longrightarrow> t \<le> t' \<Longrightarrow> slot start interval t \<le> slot start interval t'"
  by (simp add: slot_def floor_mono divide_right_mono)

text \<open>The next time is a later slot of the grid, in the future.\<close>

lemma next_due_grid:
  assumes "0 < i" "due = start + of_int k * i"
  shows "\<exists>k'. next_due due i now = start + of_int k' * i \<and> k < k' \<and> slot start i now < k'"
proof (cases "due + i \<le> now")
  case False
  then show ?thesis using assms
    by (intro exI [of _ "k + 1"]) (simp add: next_due_def Let_def slot_less algebra_simps)
next
  case True
  define q where "q = \<lfloor>(now - (due + i)) / i\<rfloor>"
  have q: "0 \<le> q" using True assms(1) by (simp add: q_def)
  have "(now - (due + i)) / i < of_int (q + 1)" unfolding q_def by linarith
  then have "now < due + i + of_int (q + 1) * i" using assms(1) by (simp add: pos_divide_less_eq algebra_simps)
  moreover have "next_due due i now = due + i + i * of_int (q + 1)"
    using True assms(1) by (simp add: next_due_def Let_def trunc_int_def q_def)
  ultimately show ?thesis using q assms
    by (intro exI [of _ "k + 1 + (q + 1)"]) (simp add: slot_less algebra_simps)
qed

definition counter_times :: "emission list \<Rightarrow> rat list" where
  "counter_times es = List.map_filter (\<lambda>e. case e of EmitCounters t \<Rightarrow> Some t | _ \<Rightarrow> None) es"

definition census_times :: "emission list \<Rightarrow> rat list" where
  "census_times es = List.map_filter (\<lambda>e. case e of EmitCensus t \<Rightarrow> Some t | _ \<Rightarrow> None) es"

lemma emission_times [simp]:
  "counter_times [] = []" "census_times [] = []"
  "counter_times (EmitCounters t # es) = t # counter_times es" "counter_times (EmitCensus t # es) = counter_times es"
  "counter_times (EmitBye n # es) = counter_times es" "census_times (EmitCounters t # es) = census_times es"
  "census_times (EmitCensus t # es) = t # census_times es" "census_times (EmitBye n # es) = census_times es"
  "counter_times (es @ es') = counter_times es @ counter_times es'" "census_times (es @ es') = census_times es @ census_times es'"
  by (simp_all add: counter_times_def census_times_def map_filter_def)

definition clock_ok :: "round_env \<Rightarrow> bool" where
  "clock_ok env \<longleftrightarrow> re_t1 env \<le> re_t2 env \<and> re_t3 env \<le> re_t4 env"

lemma stream_round_cases:
  assumes "stream_round ci ni rss env sd = (es, e, sd')"
  shows "counter_times es = (if re_parent_same env \<and> re_t1 env \<ge> sd_counters sd then [re_t1 env] else [])"
    and "sd_counters sd' = (if re_parent_same env \<and> re_t1 env \<ge> sd_counters sd then next_due (sd_counters sd) ci (re_t2 env) else sd_counters sd)"
    and "census_times es = (if re_parent_same env \<and> re_t3 env \<ge> sd_census sd then [re_t3 env] else [])"
    and "e \<noteq> Return \<Longrightarrow> sd_census sd' = (if re_t3 env \<ge> sd_census sd then next_due (sd_census sd) ni (re_t4 env) else sd_census sd)"
  using assms by (auto simp: stream_round_def Let_def split: if_splits option.splits prod.splits)

text \<open>Slots that increase strictly, from \<open>k\<close> on.\<close>

definition rising :: "int \<Rightarrow> int list \<Rightarrow> bool" where
  "rising k ks \<longleftrightarrow> list_all (\<lambda>x. k \<le> x) ks \<and> sorted_wrt (<) ks"

lemma rising_Cons: "k \<le> x \<Longrightarrow> x < k' \<Longrightarrow> rising k' ks \<Longrightarrow> rising k (x # ks)"
  by (auto simp: rising_def list_all_iff)

lemma rising_from: "rising k' ks \<Longrightarrow> k \<le> k' \<Longrightarrow> rising k ks"
  by (auto simp: rising_def list_all_iff)

lemma due_rising:
  assumes "0 < i" "due = start + of_int k * i" "due \<le> t" "t \<le> t'"
  obtains k' where "next_due due i t' = start + of_int k' * i" "\<And>ks. rising k' ks \<Longrightarrow> rising k (slot start i t # ks)"
proof -
  from next_due_grid [OF assms(1,2), of t'] obtain k' where k': "next_due due i t' = start + of_int k' * i" "slot start i t' < k'" by blast
  have "k \<le> slot start i t" using assms by (simp add: slot_ge)
  moreover have "slot start i t < k'" using slot_mono [OF assms(1,4), of start] k'(2) by linarith
  ultimately show ?thesis using that [OF k'(1)] by (blast intro: rising_Cons)
qed

lemma stream_loop_counters:
  assumes "0 < ci"
  shows "list_all clock_ok envs \<Longrightarrow> sd_counters sd = start + of_int k * ci \<Longrightarrow>
    rising k (map (slot start ci) (counter_times (stream_loop ci ni rss envs sd)))"
proof (induction envs arbitrary: sd k)
  case Nil
  then show ?case by (simp add: rising_def)
next
  case (Cons env envs)
  obtain es e sd' where r: "stream_round ci ni rss env sd = (es, e, sd')" by (metis prod_cases3)
  note c = stream_round_cases(1,2) [OF r]
  have rec: "rising k' (map (slot start ci) (counter_times (if e = Return then [] else stream_loop ci ni rss envs sd')))"
    if "sd_counters sd' = start + of_int k' * ci" for k' using Cons.IH [of sd' k'] that Cons.prems(1) by (simp add: rising_def)
  show ?case
  proof (cases "re_parent_same env \<and> re_t1 env \<ge> sd_counters sd")
    case True
    then have due: "sd_counters sd \<le> re_t1 env" and t: "re_t1 env \<le> re_t2 env" using Cons.prems(1) by (auto simp: clock_ok_def)
    from due_rising [OF assms Cons.prems(2) due t] obtain k' where
      k': "next_due (sd_counters sd) ci (re_t2 env) = start + of_int k' * ci" "\<And>ks. rising k' ks \<Longrightarrow> rising k (slot start ci (re_t1 env) # ks)" by blast
    show ?thesis using r True c(1) k'(2) [OF rec] c(2) k'(1) by simp
  next
    case False
    then show ?thesis using r c rec [of k] Cons.prems(2) by auto
  qed
qed

lemma stream_loop_censuses:
  assumes "0 < ni"
  shows "list_all clock_ok envs \<Longrightarrow> sd_census sd = start + of_int k * ni \<Longrightarrow>
    rising k (map (slot start ni) (census_times (stream_loop ci ni rss envs sd)))"
proof (induction envs arbitrary: sd k)
  case Nil
  then show ?case by (simp add: rising_def)
next
  case (Cons env envs)
  obtain es e sd' where r: "stream_round ci ni rss env sd = (es, e, sd')" by (metis prod_cases3)
  note c = stream_round_cases(3,4) [OF r]
  have rec: "rising k' (map (slot start ni) (census_times (if e = Return then [] else stream_loop ci ni rss envs sd')))"
    if "e \<noteq> Return \<Longrightarrow> sd_census sd' = start + of_int k' * ni" for k' using Cons.IH [of sd' k'] that Cons.prems(1) by (auto simp: rising_def)
  show ?case
  proof (cases "re_parent_same env \<and> re_t3 env \<ge> sd_census sd")
    case True
    then have due: "sd_census sd \<le> re_t3 env" and t: "re_t3 env \<le> re_t4 env" using Cons.prems(1) by (auto simp: clock_ok_def)
    from due_rising [OF assms Cons.prems(2) due t] obtain k' where
      k': "next_due (sd_census sd) ni (re_t4 env) = start + of_int k' * ni" "\<And>ks. rising k' ks \<Longrightarrow> rising k (slot start ni (re_t3 env) # ks)" by blast
    show ?thesis using r True c(1) k'(2) [OF rec] c(2) k'(1) by simp
  next
    case False
    have "e \<noteq> Return \<Longrightarrow> sd_census sd' = sd_census sd" using c(2) r False by (auto simp: stream_round_def)
    then show ?thesis using r c(1) rec [of k] Cons.prems(2) False by auto
  qed
qed

text \<open>
  C21.  However slow a collection is, the probe sends at most one counters message and at most one census
  in each slot of its interval, counted from the start of the stream: missed slots are skipped, not
  made up for.
\<close>

theorem stream_skips_missed_slots:
  assumes "0 < counter_interval" "0 < census_interval" "list_all clock_ok envs"
  shows "sorted_wrt (<) (map (slot start counter_interval)
      (counter_times (stream_loop counter_interval census_interval rss envs \<lparr>sd_counters = start, sd_census = start\<rparr>))) \<and>
    sorted_wrt (<) (map (slot start census_interval)
      (census_times (stream_loop counter_interval census_interval rss envs \<lparr>sd_counters = start, sd_census = start\<rparr>)))"
  using stream_loop_counters [OF assms(1,3), of "\<lparr>sd_counters = start, sd_census = start\<rparr>" start 0]
    stream_loop_censuses [OF assms(2,3), of "\<lparr>sd_counters = start, sd_census = start\<rparr>" start 0]
  by (simp add: rising_def)

definition ex_round :: "rat \<Rightarrow> rat \<Rightarrow> round_env" where
  "ex_round t d = \<lparr>re_parent_same = True, re_t1 = t, re_t2 = t + d, re_t3 = t + d, re_t4 = t + d + d, re_t5 = t + d + d, re_rss_kb = Some 20\<rparr>"

theorem stream_skips_missed_slots_witness:
  "counter_times (stream_loop 10 60 131072 [ex_round 0 1, ex_round 9 1, ex_round 10 25, ex_round 39 1, ex_round 45 1] \<lparr>sd_counters = 0, sd_census = 0\<rparr>) = [0, 10, 45] \<and>
   sorted_wrt (<) (map (slot 0 10)
     (counter_times (stream_loop 10 60 131072 [ex_round 0 1, ex_round 9 1, ex_round 10 25, ex_round 39 1, ex_round 45 1] \<lparr>sd_counters = 0, sd_census = 0\<rparr>)))"
proof
  show "counter_times (stream_loop 10 60 131072 [ex_round 0 1, ex_round 9 1, ex_round 10 25, ex_round 39 1, ex_round 45 1] \<lparr>sd_counters = 0, sd_census = 0\<rparr>) = [0, 10, 45]"
    by code_simp
  show "sorted_wrt (<) (map (slot 0 10)
     (counter_times (stream_loop 10 60 131072 [ex_round 0 1, ex_round 9 1, ex_round 10 25, ex_round 39 1, ex_round 45 1] \<lparr>sd_counters = 0, sd_census = 0\<rparr>)))"
    by (rule conjunct1 [OF stream_skips_missed_slots]) (simp_all add: ex_round_def clock_ok_def)
qed

subsection \<open>Timestamps\<close>

lemma digit_chars:
  "CHR ''0'' = digit_char 0" "CHR ''1'' = digit_char 1" "CHR ''2'' = digit_char 2" "CHR ''3'' = digit_char 3" "CHR ''6'' = digit_char 6"
  by code_simp+

lemma digit_char_inj: "d < 10 \<Longrightarrow> e < 10 \<Longrightarrow> digit_char d = digit_char e \<longleftrightarrow> d = e"
  by (metis digit_val_digit_char)

lemma is_digit_space: "\<not> is_digit CHR '' ''"
  by code_simp

lemma digit_char_space: "d < 10 \<Longrightarrow> digit_char d \<noteq> CHR '' ''"
  using is_digit_digit_char [of d] by (metis is_digit_space)

lemma scan_field_pad:
  assumes "n < 100" "two (digit_char (n div 10)) (digit_char (n mod 10))"
  shows "scan_field two one (pad 2 n @ r) = Some (n, r)"
proof -
  have "n div 10 < 10" using assms(1) by simp
  then show ?thesis using assms(2) by (simp add: pad_numeral scan_field_def digit_val_digit_char digit_char_space)
qed

lemma scan_sixty_pad: "n < 60 \<Longrightarrow> scan_sixty leap (pad 2 n @ r) = Some (n, r)"
  unfolding scan_sixty_def by (rule scan_field_pad) (simp_all add: is_digit_digit_char digit_val_digit_char less_mult_imp_div_less)

lemma scan_hour_pad: "n < 24 \<Longrightarrow> scan_hour (pad 2 n @ r) = Some (n, r)"
  unfolding scan_hour_def by (rule scan_field_pad) (simp_all add: is_digit_digit_char digit_chars digit_char_inj, presburger)

lemma nonzero_digit_char: "d < 10 \<Longrightarrow> nonzero_digit (digit_char d) \<longleftrightarrow> d \<noteq> 0"
  by (simp add: nonzero_digit_def is_digit_digit_char digit_chars digit_char_inj)

lemma scan_month_pad: "1 \<le> n \<Longrightarrow> n \<le> 12 \<Longrightarrow> scan_month (pad 2 n @ r) = Some (n, r)"
  unfolding scan_month_def by (rule scan_field_pad) (simp_all add: nonzero_digit_char digit_chars digit_char_inj, presburger)

lemma scan_day_pad: "1 \<le> n \<Longrightarrow> n \<le> 31 \<Longrightarrow> scan_day (pad 2 n @ r) = Some (n, r)"
  unfolding scan_day_def by (rule scan_field_pad) (simp_all add: nonzero_digit_char is_digit_digit_char digit_chars digit_char_inj digit_char_space, presburger)

lemma scan_fraction_pad: "n < 1000 \<Longrightarrow> \<not> is_digit c \<Longrightarrow> scan_fraction (pad 3 n @ c # r) = Some (n * 1000, c # r)"
proof -
  assume n: "n < 1000" and c: "\<not> is_digit c"
  have "takeWhile is_digit (pad 3 n @ c # r) = pad 3 n"
    using pad_digits [of 3 n] c by (simp add: list_all_iff)
  moreover have "pad 3 n \<noteq> []" by (metis length_pad length_0_conv numeral_eq_iff zero_neq_numeral)
  ultimately show ?thesis using parse_pad_fits [of n 3] n by (simp add: scan_fraction_def Let_def)
qed

lemma num_width_year:
  assumes "1000 \<le> n" "n \<le> 9999"
  shows "num_width n = 4"
proof -
  have "10 \<le> n div 10" "10 \<le> n div 10 div 10" "1 \<le> n div 10 div 10 div 10" "n div 10 div 10 div 10 < 10"
    using assms by (simp_all add: div_mult2_eq [symmetric] less_eq_div_iff_mult_less_eq less_mult_imp_div_less)
  then show ?thesis
    using assms num_width.simps [of n] num_width.simps [of "n div 10"] num_width.simps [of "n div 10 div 10"]
      num_width.simps [of "n div 10 div 10 div 10"] by simp
qed

lemma show_year: "1000 \<le> y \<Longrightarrow> y \<le> 9999 \<Longrightarrow> show_int y = pad 4 (nat y)"
  by (simp add: show_int_def show_nat_def num_width_year)

lemma month_days_le: "m < 12 \<Longrightarrow> month_days y ! m \<le> 31"
  by (simp add: month_days_def nth_Cons split: nat.splits)

lemma parse_civil:
  assumes "civil_ok c" "1000 \<le> d_year (c_date c)" "d_year (c_date c) \<le> 9999" "f < 1000"
  shows "parse_ts (show_int (d_year (c_date c)) @ ''-'' @ pad 2 (d_month (c_date c)) @ ''-'' @ pad 2 (d_day (c_date c)) @ ''T'' @
      pad 2 (c_hour c) @ '':'' @ pad 2 (c_minute c) @ '':'' @ pad 2 (c_second c) @ ''.'' @ pad 3 f @ ''Z'') =
    Some (utc (of_civil (c\<lparr>c_us := f * 1000\<rparr>)))"
proof -
  obtain y mo d h mi sec us where c: "c = \<lparr>c_date = \<lparr>d_year = y, d_month = mo, d_day = d\<rparr>, c_hour = h, c_minute = mi, c_second = sec, c_us = us\<rparr>"
    by (metis civil.surjective date.surjective old.unit.exhaust)
  have ok: "1 \<le> mo" "mo \<le> 12" "1 \<le> d" "d \<le> month_days y ! (mo - 1)" "h < 24" "mi < 60" "sec < 60" "1000 \<le> y" "y \<le> 9999"
    using assms by (auto simp: c civil_ok_def date_ok_def)
  have d: "d \<le> 31" using month_days_le [of "mo - 1" y] ok by linarith
  have y: "nat y < 10 ^ 4" using ok by simp
  have z: "\<not> is_digit CHR ''Z''" by code_simp
  show ?thesis
    using ok assms(4) z
    by (simp add: parse_ts_def c show_year scan_num_pad [OF y] scan_month_pad scan_day_pad d scan_hour_pad scan_sixty_pad
        scan_fraction_pad scan_letter_def Let_def civil_ok_def date_ok_def)
qed

lemma of_civil_us: "of_civil (c\<lparr>c_us := u\<rparr>) = of_civil c - int (c_us c) + int u"
  by (simp add: of_civil_def)

text \<open>
  The timestamp that the probe writes is read back by the aggregator as that very moment to the
  millisecond, in UTC, for every year of four digits.
\<close>

theorem probe_timestamp_roundtrip:
  assumes "1000 \<le> d_year (c_date (civil_of (trunc_int (now * 1000) * 1000)))" "d_year (c_date (civil_of (trunc_int (now * 1000) * 1000))) \<le> 9999"
  shows "parse_ts (utc_timestamp now) = Some (utc (trunc_int (now * 1000) * 1000))"
proof -
  define ms where "ms = trunc_int (now * 1000)"
  define c where "c = civil_of (ms div 1000 * 1000000)"
  have "(ms div 1000 * 1000000) mod us_per_day = ms div 1000 mod 86400 * 1000000"
    using mod_mult_mult2 [of "ms div 1000" 1000000 86400] by (simp add: us_per_day_def)
  then have us: "c_us c = 0" by (simp add: c_def civil_of_def Let_def nat_mult_distrib)
  have "(ms div 1000 * 1000000) div us_per_day = ms div 1000 div 86400"
    using div_mult_mult2 [of 1000000 "ms div 1000" 86400] by (simp add: us_per_day_def)
  moreover have "(ms * 1000) div us_per_day = ms div (1000 * 86400)"
    using div_mult_mult2 [of 1000 ms 86400000] by (simp add: us_per_day_def)
  ultimately have date: "c_date (civil_of (ms * 1000)) = c_date c"
    by (simp add: c_def civil_of_def Let_def zdiv_zmult2_eq [of 86400 ms 1000, simplified])
  have ok: "civil_ok c" by (simp add: c_def civil_ok_civil_of)
  have f: "nat (ms mod 1000) < 1000" by simp
  have s: "ms div 1000 * 1000000 + ms mod 1000 * 1000 = ms * 1000" using div_mult_mod_eq [of ms 1000] by linarith
  have "of_civil (c\<lparr>c_us := nat (ms mod 1000) * 1000\<rparr>) = ms * 1000"
    using s by (simp add: of_civil_us us) (simp add: c_def of_civil_civil_of)
  then show ?thesis
    using parse_civil [OF ok _ _ f] assms date by (simp add: utc_timestamp_def Let_def ms_def [symmetric] c_def [symmetric])
qed

lemma year_of_us: "d_year (c_date (civil_of us)) = ord_year (us div us_per_day + epoch_ordinal)"
  by (simp add: civil_of_def fromordinal_def Let_def split: prod.splits)

theorem probe_timestamp_roundtrip_witness:
  "utc_timestamp (14320000001 / 8) = ''2026-09-21T14:13:20.125Z'' \<and> parse_ts ''2026-09-21T14:13:20.125Z'' = Some (utc 1790000000125000)"
proof -
  have ms: "trunc_int 1790000000125 = 1790000000125" by (simp add: trunc_int_def)
  have y: "d_year (c_date (civil_of 1790000000125000)) = 2026" unfolding year_of_us us_per_day_def epoch_ordinal_def by code_simp
  have d: "fromordinal 739880 = \<lparr>d_year = 2026, d_month = 9, d_day = 21\<rparr>" by code_simp
  have u: "utc_timestamp (14320000001 / 8) = ''2026-09-21T14:13:20.125Z''"
    by (simp add: utc_timestamp_def ms Let_def civil_of_def us_per_day_def epoch_ordinal_def d show_year pad_numeral digit_char_def, code_simp)
  show ?thesis using probe_timestamp_roundtrip [of "14320000001 / 8"] by (simp add: ms y u)
qed

end
