(* ===== verification/Probe_Signal.thy ===== *)
theory Probe_Signal
  imports Probe_Stream
begin

text \<open>
  A terminating signal at the probe (\<open>probe/probe.py\<close>, \<open>_Emitter\<close> and \<open>_watchdog\<close>): the main thread and the watchdog
  thread share the emitter, its lock and the pending signal.  A thread is where it stands in the code together with
  what it holds there; each function of the code is a step relation on a thread and the shared state, a step being what
  happens between two moments at which the other thread can tell a difference.  The process has ended when \<open>sh_exit\<close>
  is set.  An encoder error that nobody catches ends the process with code 1, and an exception in the
  watchdog ends it as the end of standard input does.  Standard input has a descriptor.
\<close>

definition SIGNAL_REPORT_GRACE_SEC :: rat where "SIGNAL_REPORT_GRACE_SEC = 5"

datatype probe_thread = MainThread | Watchdog

text \<open>
  Where a thread stands: outside the emitter (the watchdog: before it looks at its parent); in \<open>_acquire_or_exit\<close>
  before the look at the signal, and waiting for the lock with what it saw; with the lock, before the look at the
  signal; writing a line, with what is left of it and the encoder's error that ended it; waiting for the lock in
  \<open>check_signal\<close>; writing the report; waiting for standard input.
\<close>

datatype standing =
    Idle
  | Look string row
  | Wait string row "int option"
  | Held string row
  | Writing string "py_error option"
  | CheckWait
  | Reporting int string
  | Polling

record shared =
  sh_em :: emitter
  sh_signal_at :: rat
  sh_lock :: "probe_thread option"
  sh_exit :: "int option"
  sh_now :: rat

record probe_sys =
  sys_main :: standing
  sys_dog :: standing
  sys_shared :: shared

definition new_shared :: "rat \<Rightarrow> shared" where
  "new_shared now = \<lparr>sh_em = new_emitter, sh_signal_at = 0, sh_lock = None, sh_exit = None, sh_now = now\<rparr>"

definition new_sys :: "rat \<Rightarrow> probe_sys" where
  "new_sys now = \<lparr>sys_main = Idle, sys_dog = Idle, sys_shared = new_shared now\<rparr>"

definition overdue :: "shared \<Rightarrow> bool" where
  "overdue sh \<longleftrightarrow> sh_now sh - sh_signal_at sh \<ge> SIGNAL_REPORT_GRACE_SEC"

abbreviation signum :: "shared \<Rightarrow> int option" where
  "signum sh \<equiv> em_signum (sh_em sh)"

definition exit_with :: "int \<Rightarrow> shared \<Rightarrow> shared" where
  "exit_with code sh = sh\<lparr>sh_exit := Some code\<rparr>"

definition acquired :: "probe_thread \<Rightarrow> shared \<Rightarrow> shared" where
  "acquired t sh = sh\<lparr>sh_lock := Some t\<rparr>"

definition released :: "shared \<Rightarrow> shared" where
  "released sh = sh\<lparr>sh_lock := None\<rparr>"

definition line_counted :: "shared \<Rightarrow> shared" where
  "line_counted sh = sh\<lparr>sh_em := (sh_em sh)\<lparr>em_seq := em_seq (sh_em sh) + 1\<rparr>\<rparr>"

definition bytes_out :: "string \<Rightarrow> shared \<Rightarrow> shared" where
  "bytes_out bs sh = sh\<lparr>sh_em := (sh_em sh)\<lparr>em_out := em_out (sh_em sh) @ bs\<rparr>\<rparr>"

subsection \<open>Writing a line\<close>

text \<open>What \<open>_write\<close> puts out for a message, and the encoder's error it then raises.\<close>

definition line_text :: "encoder \<Rightarrow> row \<Rightarrow> string \<times> py_error option" where
  "line_text enc m =
     (case enc m of
        (pieces, None) \<Rightarrow> (concat (encoded_chunks pieces), None)
      | (pieces, Some e) \<Rightarrow> (let cs = chunks_before_error pieces in (concat cs @ (if cs = [] then [] else [NL]), Some e)))"

text \<open>The report of a signal holds strings and integers only, which the encoder represents.\<close>

definition report_text :: "encoder \<Rightarrow> nat \<Rightarrow> rat \<Rightarrow> int \<Rightarrow> string" where
  "report_text enc sq now n =
     concat (encoded_chunks (fst (enc (message_of ''error'' sq now
       (error_fields ''signal'' (''terminated by '' @ signal_name n @ '' ('' @ show_int n @ '')''))))))"

text \<open>One turn of the loop of \<open>_write_all\<close>: what went out and what is left, \<open>None\<close> for an \<open>OSError\<close>.\<close>

datatype write_answer = Wrote nat | WouldBlock | WriteFailed

definition write_turn :: "write_answer \<Rightarrow> string \<Rightarrow> (string \<times> string) option" where
  "write_turn a view = (case a of Wrote n \<Rightarrow> Some (take n view, drop n view) | WouldBlock \<Rightarrow> Some ([], view) | WriteFailed \<Rightarrow> None)"

text \<open>The kinds of step: of the surroundings, a turn of writing, any other step of a thread, the first of a line.\<close>

datatype act = Env | Put | Act | Start rat string row

inductive write_step :: "act \<Rightarrow> standing \<times> shared \<Rightarrow> standing \<times> shared \<Rightarrow> bool" where
  put_line: "\<lbrakk>left \<noteq> []; write_turn a left = Some (bs, rest)\<rbrakk> \<Longrightarrow>
    write_step Put (Writing left err, sh) (Writing rest err, bytes_out bs sh)"
| line_lost: "\<lbrakk>left \<noteq> []; write_turn a left = None\<rbrakk> \<Longrightarrow> write_step Act (Writing left err, sh) (Writing left err, exit_with 0 sh)"
| line_done: "write_step Act (Writing [] None, sh) (Idle, released (line_counted sh))"
| line_raised: "write_step Act (Writing [] (Some e), sh) (Idle, released sh)"
| line_uncaught: "write_step Act (Writing [] (Some e), sh) (Idle, exit_with 1 (released sh))"
| put_report: "\<lbrakk>left \<noteq> []; write_turn a left = Some (bs, rest)\<rbrakk> \<Longrightarrow>
    write_step Put (Reporting n left, sh) (Reporting n rest, bytes_out bs sh)"
| report_lost: "\<lbrakk>left \<noteq> []; write_turn a left = None\<rbrakk> \<Longrightarrow> write_step Act (Reporting n left, sh) (Reporting n left, exit_with (128 + n) sh)"
| report_done: "write_step Act (Reporting n [], sh) (Reporting n [], exit_with (128 + n) sh)"

subsection \<open>\<open>emit\<close> and \<open>check_signal\<close>\<close>

text \<open>\<open>emit\<close>, which only the main thread calls, up to the write; \<open>now\<close> is the wall clock of the message.\<close>

inductive emit_step :: "encoder \<Rightarrow> act \<Rightarrow> standing \<times> shared \<Rightarrow> standing \<times> shared \<Rightarrow> bool" for enc where
  emit_call: "emit_step enc Act (Idle, sh) (Look kind fs, sh)"
| look: "signum sh = None \<or> \<not> overdue sh \<Longrightarrow> emit_step enc Act (Look kind fs, sh) (Wait kind fs (signum sh), sh)"
| look_late: "\<lbrakk>signum sh = Some n; overdue sh\<rbrakk> \<Longrightarrow> emit_step enc Act (Look kind fs, sh) (Look kind fs, exit_with (128 + n) sh)"
| wait_gets: "sh_lock sh = None \<Longrightarrow> emit_step enc Act (Wait kind fs sg, sh) (Held kind fs, acquired MainThread sh)"
| wait_again: "sh_lock sh \<noteq> None \<Longrightarrow> emit_step enc Act (Wait kind fs None, sh) (Look kind fs, sh)"
| wait_late: "\<lbrakk>sh_lock sh \<noteq> None; overdue sh\<rbrakk> \<Longrightarrow>
    emit_step enc Act (Wait kind fs (Some n), sh) (Wait kind fs (Some n), exit_with (128 + n) sh)"
| held_reports: "signum sh = Some n \<Longrightarrow>
    emit_step enc Act (Held kind fs, sh) (Reporting n (report_text enc (em_seq (sh_em sh)) now n), sh)"
| held_writes: "\<lbrakk>signum sh = None; line_text enc (message_of kind (em_seq (sh_em sh)) now fs) = (left, err)\<rbrakk> \<Longrightarrow>
    emit_step enc (Start now kind fs) (Held kind fs, sh) (Writing left err, sh)"

text \<open>The main thread goes on with its round, the watchdog turns to standard input.\<close>

definition after_check :: "probe_thread \<Rightarrow> standing" where
  "after_check t = (case t of MainThread \<Rightarrow> Idle | Watchdog \<Rightarrow> Polling)"

inductive check_step :: "encoder \<Rightarrow> probe_thread \<Rightarrow> act \<Rightarrow> standing \<times> shared \<Rightarrow> standing \<times> shared \<Rightarrow> bool" for enc t where
  check_clear: "signum sh = None \<Longrightarrow> check_step enc t Act (Idle, sh) (after_check t, sh)"
| check_pending: "signum sh \<noteq> None \<Longrightarrow> check_step enc t Act (Idle, sh) (CheckWait, sh)"
| check_gets: "\<lbrakk>sh_lock sh = None; signum sh = Some n\<rbrakk> \<Longrightarrow>
    check_step enc t Act (CheckWait, sh) (Reporting n (report_text enc (em_seq (sh_em sh)) now n), acquired t sh)"
| check_late: "\<lbrakk>sh_lock sh \<noteq> None; signum sh = Some n; overdue sh\<rbrakk> \<Longrightarrow>
    check_step enc t Act (CheckWait, sh) (CheckWait, exit_with (128 + n) sh)"
| check_back: "\<lbrakk>sh_lock sh \<noteq> None; \<not> overdue sh\<rbrakk> \<Longrightarrow> check_step enc t Act (CheckWait, sh) (after_check t, sh)"

subsection \<open>The threads\<close>

text \<open>\<open>_watchdog\<close> around the check: a changed parent, the end of standard input, data or nothing to read.\<close>

inductive watchdog_step :: "act \<Rightarrow> standing \<times> shared \<Rightarrow> standing \<times> shared \<Rightarrow> bool" where
  parent_changed: "watchdog_step Act (Idle, sh) (Idle, exit_with 0 sh)"
| stdin_closed: "watchdog_step Act (Polling, sh) (Polling, exit_with 0 sh)"
| poll_again: "watchdog_step Act (Polling, sh) (Idle, sh)"

text \<open>\<open>stream\<close> returns 0 between two messages: the parent changed, or the probe has said \<open>bye\<close>.\<close>

inductive main_step :: "act \<Rightarrow> standing \<times> shared \<Rightarrow> standing \<times> shared \<Rightarrow> bool" where
  main_returns: "main_step Act (Idle, sh) (Idle, exit_with 0 sh)"

text \<open>\<open>_on_signal\<close>, which Python runs in the main thread at any moment, and the clock.\<close>

inductive env_step :: "shared \<Rightarrow> shared \<Rightarrow> bool" where
  signal_arrives: "env_step sh (sh\<lparr>sh_em := on_signal n (sh_em sh), sh_signal_at := (if signum sh = None then sh_now sh else sh_signal_at sh)\<rparr>)"
| clock_moves: "sh_now sh \<le> now \<Longrightarrow> env_step sh (sh\<lparr>sh_now := now\<rparr>)"

definition main_acts :: "encoder \<Rightarrow> act \<Rightarrow> standing \<times> shared \<Rightarrow> standing \<times> shared \<Rightarrow> bool" where
  "main_acts enc a x y \<longleftrightarrow> emit_step enc a x y \<or> check_step enc MainThread a x y \<or> write_step a x y \<or> main_step a x y"

definition dog_acts :: "encoder \<Rightarrow> act \<Rightarrow> standing \<times> shared \<Rightarrow> standing \<times> shared \<Rightarrow> bool" where
  "dog_acts enc a x y \<longleftrightarrow> check_step enc Watchdog a x y \<or> write_step a x y \<or> watchdog_step a x y"

inductive probe_step :: "encoder \<Rightarrow> act \<Rightarrow> probe_sys \<Rightarrow> probe_sys \<Rightarrow> bool" for enc where
  by_main: "\<lbrakk>sh_exit (sys_shared s) = None; main_acts enc a (sys_main s, sys_shared s) (p, sh)\<rbrakk> \<Longrightarrow>
    probe_step enc a s (s\<lparr>sys_main := p, sys_shared := sh\<rparr>)"
| by_dog: "\<lbrakk>sh_exit (sys_shared s) = None; dog_acts enc a (sys_dog s, sys_shared s) (p, sh)\<rbrakk> \<Longrightarrow>
    probe_step enc a s (s\<lparr>sys_dog := p, sys_shared := sh\<rparr>)"
| by_env: "\<lbrakk>sh_exit (sys_shared s) = None; env_step (sys_shared s) sh\<rbrakk> \<Longrightarrow> probe_step enc Env s (s\<lparr>sys_shared := sh\<rparr>)"

inductive probe_run :: "encoder \<Rightarrow> probe_sys \<Rightarrow> act list \<Rightarrow> probe_sys \<Rightarrow> bool" for enc s0 where
  run_start: "probe_run enc s0 [] s0"
| run_step: "\<lbrakk>probe_run enc s0 as s; probe_step enc a s s'\<rbrakk> \<Longrightarrow> probe_run enc s0 (as @ [a]) s'"

inductive_cases write_stepE: "write_step a (p, sh) y"
inductive_cases emit_stepE: "emit_step enc a (p, sh) y"
inductive_cases check_stepE: "check_step enc t a (p, sh) y"
inductive_cases watchdog_stepE: "watchdog_step a (p, sh) y"
inductive_cases main_stepE: "main_step a (p, sh) y"
inductive_cases env_stepE: "env_step sh sh'"

text \<open>The messages whose lines were begun, as the sequential emitter takes them.\<close>

fun begun :: "act list \<Rightarrow> (rat \<times> string \<times> row) list" where
  "begun [] = []"
| "begun (Start now kind fs # as) = (now, kind, fs) # begun as"
| "begun (_ # as) = begun as"

subsection \<open>Whole lines, and the report last\<close>

definition holds_lock :: "standing \<Rightarrow> bool" where
  "holds_lock p = (case p of Held _ _ \<Rightarrow> True | Writing _ _ \<Rightarrow> True | Reporting _ _ \<Rightarrow> True | _ \<Rightarrow> False)"

text \<open>What a standing says of the pending signal.\<close>

definition signal_seen :: "standing \<Rightarrow> int option \<Rightarrow> bool" where
  "signal_seen p sg = (case p of Reporting n _ \<Rightarrow> sg = Some n | Wait _ _ (Some n) \<Rightarrow> sg = Some n | CheckWait \<Rightarrow> sg \<noteq> None | _ \<Rightarrow> True)"

definition dog_place :: "standing \<Rightarrow> bool" where
  "dog_place p = (case p of Idle \<Rightarrow> True | Polling \<Rightarrow> True | CheckWait \<Rightarrow> True | Reporting _ _ \<Rightarrow> True | _ \<Rightarrow> False)"

text \<open>The output against that of the sequential emitter: \<open>whole\<close> and its number of lines.\<close>

definition output_at :: "encoder \<Rightarrow> string \<Rightarrow> nat \<Rightarrow> standing \<Rightarrow> emitter \<Rightarrow> bool" where
  "output_at enc whole n p em =
     (case p of
        Writing left err \<Rightarrow> em_out em @ left = whole \<and> (case err of None \<Rightarrow> em_seq em + 1 | Some _ \<Rightarrow> em_seq em) = n
      | Reporting sg left \<Rightarrow> \<exists>now bs. em_out em = whole @ bs \<and> bs @ left = report_text enc n now sg
      | _ \<Rightarrow> em_out em = whole \<and> em_seq em = n)"

definition holder :: "probe_sys \<Rightarrow> standing" where
  "holder s = (if sh_lock (sys_shared s) = Some Watchdog then sys_dog s else sys_main s)"

definition exit_ok :: "shared \<Rightarrow> bool" where
  "exit_ok sh = (case sh_exit sh of None \<Rightarrow> True | Some c \<Rightarrow> c \<in> {0, 1} \<or> (\<exists>n. signum sh = Some n \<and> c = 128 + n))"

definition sys_inv :: "encoder \<Rightarrow> string \<Rightarrow> nat \<Rightarrow> probe_sys \<Rightarrow> bool" where
  "sys_inv enc whole n s \<longleftrightarrow>
     (sh_lock (sys_shared s) = Some MainThread \<longleftrightarrow> holds_lock (sys_main s)) \<and>
     (sh_lock (sys_shared s) = Some Watchdog \<longleftrightarrow> holds_lock (sys_dog s)) \<and>
     dog_place (sys_dog s) \<and> sys_main s \<noteq> Polling \<and>
     signal_seen (sys_main s) (signum (sys_shared s)) \<and> signal_seen (sys_dog s) (signum (sys_shared s)) \<and>
     output_at enc whole n (holder s) (sh_em (sys_shared s)) \<and> exit_ok (sys_shared s)"

lemma begun_append [simp]: "begun (as @ bs) = begun as @ begun bs"
  by (induction as rule: begun.induct) simp_all

lemma emit_run_append: "emit_run enc (evs @ evs') em = emit_run enc evs' (emit_run enc evs em)"
  by (induction evs arbitrary: em) auto

lemma emit_line_signum: "em_signum em = None \<Longrightarrow> em_signum (snd (emit_line enc now False kind fs em)) = None"
  by (auto simp: emit_line_def write_line_def Let_def split: prod.splits option.splits)

lemma emit_run_signum: "em_signum em = None \<Longrightarrow> em_signum (emit_run enc evs em) = None"
  by (induction evs arbitrary: em) (auto simp: emit_line_signum)

lemma emit_line_text:
  assumes "em_signum em = None" "line_text enc (message_of kind (em_seq em) now fs) = (left, err)"
  shows "em_out (snd (emit_line enc now False kind fs em)) = em_out em @ left"
    and "em_seq (snd (emit_line enc now False kind fs em)) = (case err of None \<Rightarrow> em_seq em + 1 | Some _ \<Rightarrow> em_seq em)"
  using assms by (auto simp: emit_line_def write_line_def line_text_def Let_def split: prod.splits option.splits)

lemmas shared_ops = exit_with_def acquired_def released_def line_counted_def bytes_out_def

lemmas inv_defs = sys_inv_def holds_lock_def signal_seen_def dog_place_def output_at_def holder_def exit_ok_def

lemma write_turn_split: "write_turn a left = Some (bs, rest) \<Longrightarrow> bs @ rest = left"
  by (auto simp: write_turn_def split: write_answer.splits)

text \<open>A step of a thread other than the first of a line keeps the invariant; the first of a line adds the line.\<close>

lemma main_acts_inv:
  assumes "sys_inv enc whole n s" "main_acts enc a (sys_main s, sys_shared s) (p, sh)" "sh_exit (sys_shared s) = None" "begun [a] = []"
  shows "sys_inv enc whole n (s\<lparr>sys_main := p, sys_shared := sh\<rparr>)"
  using assms(2) unfolding main_acts_def
proof (elim disjE)
  assume "emit_step enc a (sys_main s, sys_shared s) (p, sh)"
  then show ?thesis using assms(1,3,4)
    by (elim emit_stepE) (auto simp: inv_defs shared_ops split: standing.splits option.splits)
next
  assume "check_step enc MainThread a (sys_main s, sys_shared s) (p, sh)"
  then show ?thesis using assms(1,3,4)
    by (elim check_stepE) (auto simp: inv_defs shared_ops after_check_def split: standing.splits option.splits)
next
  assume "write_step a (sys_main s, sys_shared s) (p, sh)"
  then show ?thesis using assms(1,3,4)
    by (elim write_stepE) (auto simp: inv_defs shared_ops dest!: write_turn_split split: standing.splits option.splits)
next
  assume "main_step a (sys_main s, sys_shared s) (p, sh)"
  then show ?thesis using assms(1,3,4)
    by (elim main_stepE) (auto simp: inv_defs shared_ops split: standing.splits option.splits)
qed

lemma dog_acts_inv:
  assumes "sys_inv enc whole n s" "dog_acts enc a (sys_dog s, sys_shared s) (p, sh)" "sh_exit (sys_shared s) = None"
  shows "sys_inv enc whole n (s\<lparr>sys_dog := p, sys_shared := sh\<rparr>)"
  using assms(2) unfolding dog_acts_def
proof (elim disjE)
  assume "check_step enc Watchdog a (sys_dog s, sys_shared s) (p, sh)"
  then show ?thesis using assms(1,3)
    by (elim check_stepE) (auto simp: inv_defs shared_ops after_check_def split: standing.splits option.splits)
next
  assume "write_step a (sys_dog s, sys_shared s) (p, sh)"
  then show ?thesis using assms(1,3)
    by (elim write_stepE) (auto simp: inv_defs shared_ops dest!: write_turn_split split: standing.splits option.splits)
next
  assume "watchdog_step a (sys_dog s, sys_shared s) (p, sh)"
  then show ?thesis using assms(1,3)
    by (elim watchdog_stepE) (auto simp: inv_defs shared_ops split: standing.splits option.splits)
qed

lemma env_step_inv:
  "\<lbrakk>sys_inv enc whole n s; env_step (sys_shared s) sh; sh_exit (sys_shared s) = None\<rbrakk> \<Longrightarrow> sys_inv enc whole n (s\<lparr>sys_shared := sh\<rparr>)"
  by (elim env_stepE) (auto simp: inv_defs on_signal_def split: standing.splits option.splits)

lemma start_inv:
  assumes "sys_inv enc (em_out em) (em_seq em) s" "main_acts enc (Start now kind fs) (sys_main s, sys_shared s) (p, sh)"
    "em_signum em = None" "em' = snd (emit_line enc now False kind fs em)"
  shows "sys_inv enc (em_out em') (em_seq em') (s\<lparr>sys_main := p, sys_shared := sh\<rparr>)"
proof -
  have "emit_step enc (Start now kind fs) (sys_main s, sys_shared s) (p, sh)"
    using assms(2) by (auto simp: main_acts_def elim: check_stepE write_stepE main_stepE)
  then obtain left err where h: "sys_main s = Held kind fs" "sh = sys_shared s" "p = Writing left err"
      and l: "line_text enc (message_of kind (em_seq (sh_em sh)) now fs) = (left, err)"
    by (elim emit_stepE) auto
  have e: "em_out (sh_em sh) = em_out em" "em_seq (sh_em sh) = em_seq em" "sh_lock sh = Some MainThread"
    using assms(1) h by (auto simp: inv_defs split: if_splits)
  note t = emit_line_text [OF assms(3) l [unfolded e(2)]]
  show ?thesis using assms(1) h e t by (auto simp: inv_defs assms(4) split: option.splits)
qed

lemma probe_step_inv:
  assumes "probe_step enc a s s'" "sys_inv enc (em_out em) (em_seq em) s" "em_signum em = None" "em' = emit_run enc (begun [a]) em"
  shows "sys_inv enc (em_out em') (em_seq em') s'"
  using assms(1)
proof cases
  case (by_main p sh)
  show ?thesis
  proof (cases "begun [a] = []")
    case True
    then show ?thesis using main_acts_inv [OF assms(2) by_main(3,2)] assms(4) by_main(1) by simp
  next
    case False
    then obtain now kind fs where a: "a = Start now kind fs" by (cases a) auto
    show ?thesis using start_inv [OF assms(2) by_main(3) [unfolded a] assms(3)] assms(4) by (simp add: a by_main(1))
  qed
next
  case (by_dog p sh)
  have "begun [a] = []"
    using by_dog(3) by (auto simp: dog_acts_def elim: check_stepE write_stepE watchdog_stepE)
  then show ?thesis using dog_acts_inv [OF assms(2) by_dog(3,2)] assms(4) by_dog(1) by simp
next
  case (by_env sh)
  then show ?thesis using env_step_inv [OF assms(2)] assms(4) by simp
qed

lemma new_sys_inv: "sys_inv enc (em_out new_emitter) (em_seq new_emitter) (new_sys t0)"
  by (simp add: inv_defs new_sys_def new_shared_def)

lemma probe_run_inv:
  "\<lbrakk>probe_run enc (new_sys t0) as s; em = emit_run enc (begun as) new_emitter\<rbrakk> \<Longrightarrow> sys_inv enc (em_out em) (em_seq em) s"
proof (induction arbitrary: em rule: probe_run.induct)
  case run_start
  then show ?case using new_sys_inv by simp
next
  case (run_step as s a s')
  have "em_signum (emit_run enc (begun as) new_emitter) = None" by (rule emit_run_signum) (simp add: new_emitter_def)
  from probe_step_inv [OF run_step.hyps(2) run_step.IH [OF refl] this refl] run_step.prems show ?case
    by (simp add: emit_run_append)
qed


subsection \<open>A pending signal ends the probe\<close>

definition late :: "shared \<Rightarrow> bool" where
  "late sh \<longleftrightarrow> signum sh \<noteq> None \<and> overdue sh"

text \<open>How many steps a thread has before it at most, once the grace is over.\<close>

definition steps_left :: "standing \<Rightarrow> nat" where
  "steps_left p = (case p of Writing _ _ \<Rightarrow> 6 | Polling \<Rightarrow> 6 | Idle \<Rightarrow> 5 | Wait _ _ None \<Rightarrow> 4 | Wait _ _ (Some _) \<Rightarrow> 3 | Look _ _ \<Rightarrow> 3
     | CheckWait \<Rightarrow> 3 | Held _ _ \<Rightarrow> 2 | Reporting _ _ \<Rightarrow> 1)"

definition sys_left :: "probe_sys \<Rightarrow> nat" where
  "sys_left s = (if sh_exit (sys_shared s) = None then steps_left (sys_main s) + steps_left (sys_dog s) else 0)"

definition moves :: "act list \<Rightarrow> nat" where
  "moves as = length (filter (\<lambda>a. a \<noteq> Env \<and> a \<noteq> Put) as)"

lemma steps_left_bounds: "1 \<le> steps_left p" "steps_left p \<le> 6"
  by (auto simp: steps_left_def split: standing.splits option.splits)

lemmas late_defs = late_def overdue_def shared_ops steps_left_def

lemma thread_late:
  assumes "main_acts enc a (p, sh) (p', sh') \<or> dog_acts enc a (p, sh) (p', sh')" "late sh" "sh_exit sh = None"
  shows "late sh' \<and> (sh_exit sh' = None \<longrightarrow> steps_left p' + moves [a] \<le> steps_left p)"
proof -
  have "emit_step enc a (p, sh) (p', sh') \<or> (\<exists>t. check_step enc t a (p, sh) (p', sh')) \<or> write_step a (p, sh) (p', sh')
      \<or> main_step a (p, sh) (p', sh') \<or> watchdog_step a (p, sh) (p', sh')"
    using assms(1) unfolding main_acts_def dog_acts_def by blast
  then show ?thesis using assms(2,3)
    by (auto elim!: emit_stepE check_stepE write_stepE main_stepE watchdog_stepE simp: late_defs moves_def split: option.splits)
qed

lemma env_late: "\<lbrakk>env_step sh sh'; late sh\<rbrakk> \<Longrightarrow> late sh' \<and> sh_exit sh' = sh_exit sh"
  by (elim env_stepE) (auto simp: late_def overdue_def on_signal_def)

lemma moves_le: "moves [a] \<le> 1"
  by (simp add: moves_def)

lemma probe_step_late:
  assumes "probe_step enc a s s'" "late (sys_shared s)"
  shows "late (sys_shared s') \<and> sys_left s' + moves [a] \<le> sys_left s"
  using assms(1)
proof cases
  case (by_main p sh)
  have b: "1 \<le> steps_left (sys_main s)" by (rule steps_left_bounds)
  have "main_acts enc a (sys_main s, sys_shared s) (p, sh) \<or> dog_acts enc a (sys_main s, sys_shared s) (p, sh)" using by_main(3) by blast
  from thread_late [OF this assms(2) by_main(2)] b moves_le [of a] show ?thesis by (auto simp: by_main(1,2) sys_left_def)
next
  case (by_dog p sh)
  have b: "1 \<le> steps_left (sys_dog s)" by (rule steps_left_bounds)
  have "main_acts enc a (sys_dog s, sys_shared s) (p, sh) \<or> dog_acts enc a (sys_dog s, sys_shared s) (p, sh)" using by_dog(3) by blast
  from thread_late [OF this assms(2) by_dog(2)] b moves_le [of a] show ?thesis by (auto simp: by_dog(1,2) sys_left_def)
next
  case (by_env sh)
  with env_late [OF by_env(4) assms(2)] show ?thesis by (auto simp: sys_left_def moves_def)
qed

lemma probe_run_late:
  "\<lbrakk>probe_run enc s as s'; late (sys_shared s)\<rbrakk> \<Longrightarrow> late (sys_shared s') \<and> sys_left s' + moves as \<le> sys_left s"
proof (induction rule: probe_run.induct)
  case (run_step as s' a s'')
  have "moves (as @ [a]) = moves as + moves [a]" by (simp add: moves_def)
  with probe_step_late [OF run_step.hyps(2)] run_step.IH run_step.prems show ?case by fastforce
qed (simp add: moves_def)

lemma probe_run_trans: "\<lbrakk>probe_run enc s' bs s''; probe_run enc s as s'\<rbrakk> \<Longrightarrow> probe_run enc s (as @ bs) s''"
  by (induction rule: probe_run.induct) (auto dest: probe_run.run_step simp flip: append_assoc)

lemma dog_can_move:
  assumes "p \<in> {Idle, Polling, CheckWait}" "signum sh = Some sg" "overdue sh"
  shows "\<exists>y. dog_acts enc Act (p, sh) y"
proof -
  have c: "\<exists>y. check_step enc Watchdog Act (CheckWait, sh) y"
    using check_gets [OF _ assms(2)] check_late [OF _ assms(2,3)] by (cases "sh_lock sh = None") blast+
  have i: "check_step enc Watchdog Act (Idle, sh) (CheckWait, sh)" by (rule check_pending) (simp add: assms(2))
  show ?thesis using assms(1) c i poll_again [of sh] unfolding dog_acts_def by blast
qed

lemma main_can_move:
  assumes "\<not> holds_lock p" "p \<noteq> Polling" "signum sh = Some sg" "overdue sh" "sh_lock sh \<noteq> None"
  shows "\<exists>y. main_acts enc Act (p, sh) y"
proof (cases p)
  case Idle
  then show ?thesis using emit_call unfolding main_acts_def by blast
next
  case Look
  then show ?thesis using look_late [OF assms(3,4)] unfolding main_acts_def by blast
next
  case (Wait kind fs seen)
  then show ?thesis using wait_again [OF assms(5)] wait_late [OF assms(5,4)] unfolding main_acts_def by (cases seen) blast+
next
  case CheckWait
  then show ?thesis using check_late [OF assms(5,3,4)] unfolding main_acts_def by blast
qed (use assms(1,2) in \<open>simp_all add: holds_lock_def\<close>)

text \<open>While the process lives one of the threads can go on, and not by writing.\<close>

lemma late_progress:
  assumes "sys_inv enc whole n s" "late (sys_shared s)" "sh_exit (sys_shared s) = None"
  shows "\<exists>s'. probe_step enc Act s s'"
proof -
  let ?sh = "sys_shared s"
  obtain sg where sg: "signum ?sh = Some sg" and od: "overdue ?sh" using assms(2) by (auto simp: late_def)
  have dog: "\<exists>s'. probe_step enc Act s s'" if "dog_acts enc Act (sys_dog s, ?sh) y" for y
    using that assms(3) by (cases y) (blast intro: probe_step.by_dog)
  have main: "\<exists>s'. probe_step enc Act s s'" if "main_acts enc Act (sys_main s, ?sh) y" for y
    using that assms(3) by (cases y) (blast intro: probe_step.by_main)
  consider "sys_dog s \<in> {Idle, Polling, CheckWait}" | m left where "sys_dog s = Reporting m left"
    using assms(1) by (cases "sys_dog s") (auto simp: sys_inv_def dog_place_def)
  then show ?thesis
  proof cases
    case 1
    then show ?thesis using dog dog_can_move [OF 1 sg od] by blast
  next
    case 2
    then have "sh_lock ?sh = Some Watchdog" using assms(1) by (auto simp: sys_inv_def holds_lock_def)
    moreover have "\<not> holds_lock (sys_main s)" "sys_main s \<noteq> Polling" using assms(1) calculation by (auto simp: sys_inv_def)
    ultimately show ?thesis using main main_can_move [OF _ _ sg od] by blast
  qed
qed

text \<open>
  C29.  Once a signal has been pending for the grace, the probe takes at most twelve more steps other than writing
  before it has ended, however long the reader of its output stalls and whatever else arrives; and as long as it has
  not ended, one of its threads can take such a step.
\<close>

theorem pending_signal_ends_probe:
  assumes "probe_run enc (new_sys t0) as s" "signum (sys_shared s) \<noteq> None" "overdue (sys_shared s)" "probe_run enc s bs s'"
  shows "moves bs \<le> 12 \<and> (sh_exit (sys_shared s') = None \<longrightarrow> moves bs < 12 \<and> (\<exists>s''. probe_step enc Act s' s''))"
proof -
  have l: "late (sys_shared s)" using assms(2,3) by (simp add: late_def)
  have "sys_left s \<le> 12"
    using steps_left_bounds(2) [of "sys_main s"] steps_left_bounds(2) [of "sys_dog s"] by (simp add: sys_left_def)
  with probe_run_late [OF assms(4) l] have m: "late (sys_shared s')" "sys_left s' + moves bs \<le> 12" by auto
  have "\<exists>s''. probe_step enc Act s' s''" if "sh_exit (sys_shared s') = None"
    using late_progress [OF probe_run_inv [OF probe_run_trans [OF assms(4,1)] refl] m(1) that] .
  moreover have "0 < sys_left s'" if "sh_exit (sys_shared s') = None"
    using that steps_left_bounds(1) [of "sys_main s'"] by (simp add: sys_left_def)
  ultimately show ?thesis using m(2) by auto
qed

subsection \<open>Runs\<close>

text \<open>
  A signal that arrives in the middle of a line: the main thread finishes the line, then the watchdog reports.  The
  encoder writes every message as \<open>x\<close>.
\<close>

definition ex_line :: encoder where "ex_line m = ([''x''], None)"

definition ex_shared :: "nat \<Rightarrow> string \<Rightarrow> int option \<Rightarrow> probe_thread option \<Rightarrow> int option \<Rightarrow> shared" where
  "ex_shared sq out sg lk ex = \<lparr>sh_em = \<lparr>em_seq = sq, em_out = out, em_signum = sg\<rparr>, sh_signal_at = 0, sh_lock = lk, sh_exit = ex, sh_now = 0\<rparr>"

definition ex_sys :: "standing \<Rightarrow> standing \<Rightarrow> shared \<Rightarrow> probe_sys" where
  "ex_sys m d sh = \<lparr>sys_main = m, sys_dog = d, sys_shared = sh\<rparr>"

lemma ex_simps [simp]:
  "sys_main (ex_sys m d sh) = m" "sys_dog (ex_sys m d sh) = d" "sys_shared (ex_sys m d sh) = sh"
  "sh_lock (ex_shared sq out sg lk ex) = lk" "sh_exit (ex_shared sq out sg lk ex) = ex" "signum (ex_shared sq out sg lk ex) = sg"
  "em_out (sh_em (ex_shared sq out sg lk ex)) = out" "em_seq (sh_em (ex_shared sq out sg lk ex)) = sq"
  "\<not> overdue (ex_shared sq out sg lk ex)"
  "acquired t (ex_shared sq out sg lk ex) = ex_shared sq out sg (Some t) ex"
  "released (ex_shared sq out sg lk ex) = ex_shared sq out sg None ex"
  "line_counted (ex_shared sq out sg lk ex) = ex_shared (sq + 1) out sg lk ex"
  "bytes_out bs (ex_shared sq out sg lk ex) = ex_shared sq (out @ bs) sg lk ex"
  "exit_with c (ex_shared sq out sg lk ex) = ex_shared sq out sg lk (Some c)"
  by (simp_all add: ex_sys_def ex_shared_def shared_ops overdue_def SIGNAL_REPORT_GRACE_SEC_def)

lemma ex_text: "line_text ex_line m = ([CHR ''x'', NL], None)" "report_text ex_line sq now n = [CHR ''x'', NL]"
  by (simp_all add: line_text_def report_text_def ex_line_def encoded_chunks_concat)

lemma ex_main:
  "\<lbrakk>main_acts enc a (m, sh) (m', sh'); sh_exit sh = None; s' = ex_sys m' d sh'\<rbrakk> \<Longrightarrow> probe_step enc a (ex_sys m d sh) s'"
  using by_main [of "ex_sys m d sh" enc a m' sh'] by (simp add: ex_sys_def)

lemma ex_dog:
  "\<lbrakk>dog_acts enc a (d, sh) (d', sh'); sh_exit sh = None; s' = ex_sys m d' sh'\<rbrakk> \<Longrightarrow> probe_step enc a (ex_sys m d sh) s'"
  using by_dog [of "ex_sys m d sh" enc a d' sh'] by (simp add: ex_sys_def)

definition ex_acts :: "act list" where
  "ex_acts = [Act, Act, Act, Start 0 ''a'' [], Put, Env, Put, Act, Act, Act, Put, Act]"

lemma ex_run:
  "probe_run ex_line (new_sys 0) ex_acts
     (ex_sys Idle (Reporting 15 []) (ex_shared 1 [CHR ''x'', NL, CHR ''x'', NL] (Some 15) (Some Watchdog) (Some 143)))"
proof -
  let ?M = "Some MainThread" and ?D = "Some Watchdog"
  let ?s = "\<lambda>out sg lk ex. ex_shared 0 out sg lk ex" and ?t = "\<lambda>out lk ex. ex_shared 1 out (Some 15) lk ex"
  have s1: "probe_step ex_line Act (ex_sys Idle Idle (?s [] None None None)) (ex_sys (Look ''a'' []) Idle (?s [] None None None))"
    by (rule ex_main) (auto simp: main_acts_def intro: emit_call)
  have s2: "probe_step ex_line Act (ex_sys (Look ''a'' []) Idle (?s [] None None None)) (ex_sys (Wait ''a'' [] None) Idle (?s [] None None None))"
    by (rule ex_main) (use look [of "?s [] None None None"] in \<open>auto simp: main_acts_def\<close>)
  have s3: "probe_step ex_line Act (ex_sys (Wait ''a'' [] None) Idle (?s [] None None None)) (ex_sys (Held ''a'' []) Idle (?s [] None ?M None))"
    by (rule ex_main) (use wait_gets [of "?s [] None None None"] in \<open>auto simp: main_acts_def\<close>)
  have s4: "probe_step ex_line (Start 0 ''a'' []) (ex_sys (Held ''a'' []) Idle (?s [] None ?M None)) (ex_sys (Writing [CHR ''x'', NL] None) Idle (?s [] None ?M None))"
    by (rule ex_main) (use held_writes [of "?s [] None ?M None" ex_line] in \<open>auto simp: main_acts_def ex_text\<close>)
  have s5: "probe_step ex_line Put (ex_sys (Writing [CHR ''x'', NL] None) Idle (?s [] None ?M None)) (ex_sys (Writing [NL] None) Idle (?s ''x'' None ?M None))"
    by (rule ex_main) (use put_line [of "[CHR ''x'', NL]" "Wrote 1" _ _ None "?s [] None ?M None"] in \<open>auto simp: main_acts_def write_turn_def\<close>)
  have "env_step (?s ''x'' None ?M None) (?s ''x'' (Some 15) ?M None)"
    using signal_arrives [of "?s ''x'' None ?M None" 15] by (simp add: ex_shared_def on_signal_def)
  then have s6: "probe_step ex_line Env (ex_sys (Writing [NL] None) Idle (?s ''x'' None ?M None)) (ex_sys (Writing [NL] None) Idle (?s ''x'' (Some 15) ?M None))"
    using by_env [of "ex_sys (Writing [NL] None) Idle (?s ''x'' None ?M None)"] by (simp add: ex_sys_def)
  have s7: "probe_step ex_line Put (ex_sys (Writing [NL] None) Idle (?s ''x'' (Some 15) ?M None)) (ex_sys (Writing [] None) Idle (?s [CHR ''x'', NL] (Some 15) ?M None))"
    by (rule ex_main) (use put_line [of "[NL]" "Wrote 1" _ _ None "?s ''x'' (Some 15) ?M None"] in \<open>auto simp: main_acts_def write_turn_def\<close>)
  have s8: "probe_step ex_line Act (ex_sys (Writing [] None) Idle (?s [CHR ''x'', NL] (Some 15) ?M None)) (ex_sys Idle Idle (?t [CHR ''x'', NL] None None))"
    by (rule ex_main) (use line_done [of "?s [CHR ''x'', NL] (Some 15) ?M None"] in \<open>auto simp: main_acts_def\<close>)
  have s9: "probe_step ex_line Act (ex_sys Idle Idle (?t [CHR ''x'', NL] None None)) (ex_sys Idle CheckWait (?t [CHR ''x'', NL] None None))"
    by (rule ex_dog) (use check_pending [of "?t [CHR ''x'', NL] None None"] in \<open>auto simp: dog_acts_def\<close>)
  have s10: "probe_step ex_line Act (ex_sys Idle CheckWait (?t [CHR ''x'', NL] None None)) (ex_sys Idle (Reporting 15 [CHR ''x'', NL]) (?t [CHR ''x'', NL] ?D None))"
    by (rule ex_dog) (use check_gets [of "?t [CHR ''x'', NL] None None" 15 ex_line] in \<open>auto simp: dog_acts_def ex_text\<close>)
  have s11: "probe_step ex_line Put (ex_sys Idle (Reporting 15 [CHR ''x'', NL]) (?t [CHR ''x'', NL] ?D None)) (ex_sys Idle (Reporting 15 []) (?t [CHR ''x'', NL, CHR ''x'', NL] ?D None))"
    by (rule ex_dog) (use put_report [of "[CHR ''x'', NL]" "Wrote 2" _ _ 15 "?t [CHR ''x'', NL] ?D None"] in \<open>auto simp: dog_acts_def write_turn_def\<close>)
  have s12: "probe_step ex_line Act (ex_sys Idle (Reporting 15 []) (?t [CHR ''x'', NL, CHR ''x'', NL] ?D None)) (ex_sys Idle (Reporting 15 []) (?t [CHR ''x'', NL, CHR ''x'', NL] ?D (Some 143)))"
    by (rule ex_dog) (use report_done [of 15 "?t [CHR ''x'', NL, CHR ''x'', NL] ?D None"] in \<open>auto simp: dog_acts_def\<close>)
  have "probe_run ex_line (new_sys 0) [] (ex_sys Idle Idle (?s [] None None None))"
    using run_start [of ex_line "new_sys 0"] by (simp add: ex_sys_def ex_shared_def new_sys_def new_shared_def new_emitter_def)
  note this [THEN run_step, OF s1, THEN run_step, OF s2, THEN run_step, OF s3, THEN run_step, OF s4, THEN run_step, OF s5, THEN run_step, OF s6,
      THEN run_step, OF s7, THEN run_step, OF s8, THEN run_step, OF s9, THEN run_step, OF s10, THEN run_step, OF s11, THEN run_step, OF s12]
  then show ?thesis by (simp add: ex_acts_def)
qed


text \<open>A signal, and then five seconds.\<close>

lemma ex_grace:
  "probe_run enc (new_sys 0) [Env, Env]
     (new_sys 0\<lparr>sys_shared := new_shared 5\<lparr>sh_em := new_emitter\<lparr>em_signum := Some 15\<rparr>\<rparr>\<rparr>)"
proof -
  have s1: "env_step (new_shared 0) (new_shared 0\<lparr>sh_em := new_emitter\<lparr>em_signum := Some 15\<rparr>\<rparr>)"
    using signal_arrives [of "new_shared 0" 15] by (simp add: new_shared_def on_signal_def new_emitter_def)
  have s2: "env_step (new_shared 0\<lparr>sh_em := new_emitter\<lparr>em_signum := Some 15\<rparr>\<rparr>) (new_shared 5\<lparr>sh_em := new_emitter\<lparr>em_signum := Some 15\<rparr>\<rparr>)"
    using clock_moves [of "new_shared 0\<lparr>sh_em := new_emitter\<lparr>em_signum := Some 15\<rparr>\<rparr>" 5] by (simp add: new_shared_def)
  have p1: "probe_step enc Env (new_sys 0) (new_sys 0\<lparr>sys_shared := new_shared 0\<lparr>sh_em := new_emitter\<lparr>em_signum := Some 15\<rparr>\<rparr>\<rparr>)"
    by (rule by_env) (use s1 in \<open>simp_all add: new_sys_def new_shared_def\<close>)
  have "probe_step enc Env (new_sys 0\<lparr>sys_shared := new_shared 0\<lparr>sh_em := new_emitter\<lparr>em_signum := Some 15\<rparr>\<rparr>\<rparr>)
      (new_sys 0\<lparr>sys_shared := new_shared 0\<lparr>sh_em := new_emitter\<lparr>em_signum := Some 15\<rparr>\<rparr>, sys_shared := new_shared 5\<lparr>sh_em := new_emitter\<lparr>em_signum := Some 15\<rparr>\<rparr>\<rparr>)"
    by (rule by_env) (use s2 in \<open>simp_all add: new_shared_def\<close>)
  with run_start [of enc "new_sys 0", THEN run_step, OF p1, THEN run_step] show ?thesis by simp
qed

theorem pending_signal_ends_probe_witness:
  "\<exists>s s'. probe_run ex_line (new_sys 0) [Env, Env] s \<and> moves [] < 12 \<and> probe_step ex_line Act s s'"
proof -
  let ?s = "new_sys 0\<lparr>sys_shared := new_shared 5\<lparr>sh_em := new_emitter\<lparr>em_signum := Some 15\<rparr>\<rparr>\<rparr>"
  have "signum (sys_shared ?s) \<noteq> None" "overdue (sys_shared ?s)" "sh_exit (sys_shared ?s) = None"
    by (simp_all add: new_shared_def overdue_def SIGNAL_REPORT_GRACE_SEC_def)
  with pending_signal_ends_probe [OF ex_grace _ _ run_start] ex_grace show ?thesis by blast
qed

end
