(* ===== verification/Probe_Lock.thy ===== *)
theory Probe_Lock
  imports Probe_Host
begin

text \<open>
  \<open>ProbeLock\<close> of \<open>probe/probe.py\<close>: one probe per user and node.  A new probe takes the lock over from the
  one that holds it, which may be anything by now: only a process whose command line bears the marker is
  ever signalled.
\<close>

definition MARKER :: string where "MARKER = ''node-monitor-probe''"

datatype lock_end = Locked | HeldByOther "int option" string | StillWaiting

definition SIGTERM :: int where "SIGTERM = 15"
definition SIGKILL :: int where "SIGKILL = 9"

text \<open>
  The waits are polls: each finds the lock free or not, and the deadline passed or not.  A wait that the
  script does not finish is \<open>StillWaiting\<close>.
\<close>

fun wait_for_lock :: "(bool \<times> bool) list \<Rightarrow> bool option" where
  "wait_for_lock [] = None"
| "wait_for_lock ((free, late) # ps) = (if free then Some True else if late then Some False else wait_for_lock ps)"

text \<open>The first loop of \<open>_acquire\<close>: until the lock is free or the file names a pid.\<close>

fun await_pid :: "(bool \<times> int option \<times> bool) list \<Rightarrow> lock_end + int" where
  "await_pid [] = Inl StillWaiting"
| "await_pid ((free, pid, late) # ps) =
     (if free then Inl Locked
      else case pid of Some p \<Rightarrow> Inr p
      | None \<Rightarrow> if late then Inl (HeldByOther None ''lock file names no pid'') else await_pid ps)"

text \<open>\<open>_signal_probe\<close>: what the command line of the holder reads at that moment, and the signals sent.\<close>

definition signal_probe :: "int \<Rightarrow> int \<Rightarrow> string option \<Rightarrow> int \<Rightarrow> lock_end option \<times> (int \<times> int) list" where
  "signal_probe own pid cmdline sig =
     (if pid \<le> 1 \<or> pid = own then (Some (HeldByOther (Some pid) ''refusing to signal this pid''), [])
      else case cmdline of None \<Rightarrow> (None, [])
      | Some c \<Rightarrow> if \<not> contains MARKER c then (Some (HeldByOther (Some pid) ''lock holder is not a node-monitor probe''), [])
          else (None, [(pid, sig)]))"

fun takeover :: "int \<Rightarrow> int \<Rightarrow> (int \<times> string option \<times> (bool \<times> bool) list) list \<Rightarrow> lock_end \<times> (int \<times> int) list" where
  "takeover own pid [] = (HeldByOther (Some pid) ''previous probe did not release the lock'', [])"
| "takeover own pid ((sig, cmdline, polls) # rest) =
     (case signal_probe own pid cmdline sig of
        (Some e, sent) \<Rightarrow> (e, sent)
      | (None, sent) \<Rightarrow>
          (case wait_for_lock polls of
             None \<Rightarrow> (StillWaiting, sent)
           | Some True \<Rightarrow> (Locked, sent)
           | Some False \<Rightarrow> (case takeover own pid rest of (e, sent') \<Rightarrow> (e, sent @ sent'))))"

definition acquire_lock :: "int \<Rightarrow> (bool \<times> int option \<times> bool) list \<Rightarrow> string option \<Rightarrow> (bool \<times> bool) list \<Rightarrow> string option \<Rightarrow> (bool \<times> bool) list \<Rightarrow>
    lock_end \<times> (int \<times> int) list" where
  "acquire_lock own first cmd1 polls1 cmd2 polls2 =
     (case await_pid first of
        Inl e \<Rightarrow> (e, [])
      | Inr pid \<Rightarrow> takeover own pid [(SIGTERM, cmd1, polls1), (SIGKILL, cmd2, polls2)])"

text \<open>\<open>_read_lock_pid\<close>: the first 64 bytes of the lock file.\<close>

definition read_lock_pid :: "contents \<Rightarrow> int option" where
  "read_lock_pid c = (case c of ReadError _ \<Rightarrow> None
     | Contents s \<Rightarrow>
         (let t = strip (map (\<lambda>c. if (of_char c :: nat) \<ge> 128 then CHR ''?'' else c) (take 64 s))
          in if isdigit t then py_int t else None))"


subsection \<open>Whom a new probe signals\<close>

lemma wait_for_lock_True: "wait_for_lock polls = Some True \<Longrightarrow> list_ex fst polls"
  by (induction polls rule: wait_for_lock.induct) (auto split: if_splits)

lemma wait_for_lock_False: "wait_for_lock polls = Some False \<Longrightarrow> list_ex (\<lambda>(free, late). late \<and> \<not> free) polls"
  by (induction polls rule: wait_for_lock.induct) (auto split: if_splits)

lemma await_pid_Inr: "await_pid first = Inr pid \<Longrightarrow> list_ex (\<lambda>(free, p, _). \<not> free \<and> p = Some pid) first"
  by (induction first rule: await_pid.induct) (auto split: if_splits option.splits)

lemma await_pid_Locked: "await_pid first = Inl Locked \<Longrightarrow> list_ex fst first"
  by (induction first rule: await_pid.induct) (auto split: if_splits option.splits)

text \<open>The holder of the lock may be signalled: not ourselves, not init, and by its command line a probe.\<close>

definition may_signal :: "int \<Rightarrow> int \<Rightarrow> string option \<Rightarrow> bool" where
  "may_signal own pid cmdline \<longleftrightarrow> 1 < pid \<and> pid \<noteq> own \<and> (case cmdline of None \<Rightarrow> False | Some c \<Rightarrow> contains MARKER c)"

lemma signal_probe_sent: "signal_probe own pid cmdline sig = (e, sent) \<Longrightarrow> sent = (if may_signal own pid cmdline then [(pid, sig)] else [])"
  by (auto simp: signal_probe_def may_signal_def split: if_splits option.splits)

lemma takeover_Cons:
  assumes "takeover own pid ((sig, cmdline, polls) # rest) = (e, sent)"
  obtains (stop) "sent = (if may_signal own pid cmdline then [(pid, sig)] else [])" "e = Locked \<longrightarrow> list_ex fst polls"
  | (go_on) sent' where "sent = (if may_signal own pid cmdline then [(pid, sig)] else []) @ sent'"
      "wait_for_lock polls = Some False" "takeover own pid rest = (e, sent')"
proof -
  obtain r s where p: "signal_probe own pid cmdline sig = (r, s)" by fastforce
  note s = signal_probe_sent [OF p]
  have r: "r \<noteq> Some Locked" using p by (auto simp: signal_probe_def split: if_splits option.splits)
  show thesis
  proof (cases r)
    case (Some x)
    then show thesis using assms p s r by (intro stop) auto
  next
    case None
    consider "wait_for_lock polls = None" | "wait_for_lock polls = Some True" | "wait_for_lock polls = Some False"
      by (cases "wait_for_lock polls") auto
    then show thesis
    proof cases
      case 3
      then show thesis using assms p None s by (cases "takeover own pid rest") (auto intro!: go_on)
    qed (use assms p None s wait_for_lock_True in \<open>auto intro!: stop\<close>)
  qed
qed

text \<open>At most one \<open>SIGTERM\<close> and after it one \<open>SIGKILL\<close>, if the wait has run out.\<close>

definition escalation :: "int \<Rightarrow> int \<Rightarrow> string option \<Rightarrow> bool \<Rightarrow> string option \<Rightarrow> (int \<times> int) list \<Rightarrow> bool" where
  "escalation own pid cmd1 waited cmd2 sent \<longleftrightarrow>
     sent = (if may_signal own pid cmd1 then [(pid, SIGTERM)] else []) \<or>
     waited \<and> sent = (if may_signal own pid cmd1 then [(pid, SIGTERM)] else []) @ (if may_signal own pid cmd2 then [(pid, SIGKILL)] else [])"

text \<open>
  C22.  A probe that finds the lock taken signals nobody but the process that the lock file names, while
  that process is neither itself nor init and its command line, read again before each signal, carries the
  marker; it sends at most one \<open>SIGTERM\<close> and after it one \<open>SIGKILL\<close>, the latter only once the wait for the
  lock has run out; and it goes on to run only if a poll found the lock free.
\<close>

theorem lock_takeover_signals_probes_only:
  assumes "acquire_lock own first cmd1 polls1 cmd2 polls2 = (e, sent)"
  shows "(sent = [] \<or>
      (\<exists>pid. list_ex (\<lambda>(free, p, _). \<not> free \<and> p = Some pid) first \<and>
         escalation own pid cmd1 (list_ex (\<lambda>(free, late). late \<and> \<not> free) polls1) cmd2 sent)) \<and>
    (e = Locked \<longrightarrow> list_ex fst first \<or> list_ex fst polls1 \<or> list_ex fst polls2)"
proof (cases "await_pid first")
  case (Inl x)
  then show ?thesis using assms await_pid_Locked [of first] by (auto simp: acquire_lock_def)
next
  case (Inr pid)
  note named = await_pid_Inr [OF Inr]
  from assms Inr have t: "takeover own pid [(SIGTERM, cmd1, polls1), (SIGKILL, cmd2, polls2)] = (e, sent)"
    by (simp add: acquire_lock_def)
  then show ?thesis
  proof (cases rule: takeover_Cons)
    case stop
    then show ?thesis using named by (auto simp: escalation_def)
  next
    case (go_on sent')
    note late = wait_for_lock_False [OF go_on(2)]
    from go_on(3) have "(sent' = (if may_signal own pid cmd2 then [(pid, SIGKILL)] else [])) \<and> (e = Locked \<longrightarrow> list_ex fst polls2)"
    proof (cases rule: takeover_Cons)
      case (go_on sent'')
      then show ?thesis by auto
    qed auto
    then show ?thesis using go_on(1) named late unfolding escalation_def by blast
  qed
qed

theorem lock_takeover_signals_probes_only_witness:
  "acquire_lock 7 [(False, None, False), (False, Some 9, False)] (Some ''python3 node-monitor-probe'') [(False, True)]
       (Some ''vim'') [] = (HeldByOther (Some 9) ''lock holder is not a node-monitor probe'', [(9, SIGTERM)]) \<and>
   may_signal 7 9 (Some ''python3 node-monitor-probe'') \<and>
   (\<exists>e sent. acquire_lock 7 [(False, None, False), (False, Some 9, False)] (Some ''python3 node-monitor-probe'') [(False, True)]
       (Some ''node-monitor-probe'') [(False, False), (True, False)] = (e, sent) \<and> sent = [(9, SIGTERM), (9, SIGKILL)] \<and>
      (e = Locked \<longrightarrow> list_ex fst [(False, None :: int option, False), (False, Some 9, False)] \<or> list_ex fst [(False, True)] \<or> list_ex fst [(False, False), (True, False)]))"
proof -
  have run: "acquire_lock 7 [(False, None, False), (False, Some 9, False)] (Some ''python3 node-monitor-probe'') [(False, True)]
       (Some ''node-monitor-probe'') [(False, False), (True, False)] = (Locked, [(9, SIGTERM), (9, SIGKILL)])"
    by code_simp
  moreover have "may_signal 7 9 (Some ''python3 node-monitor-probe'')" by code_simp
  moreover have "acquire_lock 7 [(False, None, False), (False, Some 9, False)] (Some ''python3 node-monitor-probe'') [(False, True)]
       (Some ''vim'') [] = (HeldByOther (Some 9) ''lock holder is not a node-monitor probe'', [(9, SIGTERM)])"
    by code_simp
  ultimately show ?thesis using conjunct2 [OF lock_takeover_signals_probes_only [OF run]] by simp
qed

end
