(* ===== verification/Soak_Record.thy ===== *)
theory Soak_Record
  imports Maintenance
begin

text \<open>
  Recording probe streams (\<open>collector/soak.py\<close>, \<open>SoakRecorder\<close>).  The messages are those of the probe, by the fields
  that the recorder and the report read; fields it only passes on are Python values.  The length of a message's
  compact JSON text is an argument; the JSON lines of a file are kept as the lines they encode.
\<close>

subsection \<open>Messages and lines\<close>

record soak_proc =
  so_username :: pyval
  so_cpu_seconds :: "rat option"
  so_idle_for_sec :: "rat option"
  so_cpu_state :: "string option"
  so_idle_lower :: bool

record census_shape =
  sh_process_count :: nat
  sh_user_count :: nat
  sh_active :: nat
  sh_idle :: nat
  sh_null :: nat
  sh_idle_lower_count :: nat
  sh_idle_for_max :: "rat option"
  sh_cpu_min :: "rat option"
  sh_cpu_max :: "rat option"
  sh_bytes :: nat

datatype census_body = Processes "soak_proc list" | Shaped census_shape

record soak_census =
  ce_seq :: pyval
  ce_ts :: pyval
  ce_interval_sec :: pyval
  ce_scan_seconds :: "rat option"
  ce_coverage :: pyval
  ce_gpus :: pyval
  ce_gpu_status :: "string option"
  ce_body :: census_body

record self_part =
  ps_cpu :: "rat option"
  ps_children_cpu :: "rat option"
  ps_maxrss :: "rat option"
  ps_rss :: "rat option"

datatype soak_msg =
    CountersMsg "self_part option"
  | CensusMsg soak_census
  | ErrorMsg "string option"
  | ByeMsg
  | OtherMsg

datatype soak_body = Msg soak_msg | Event string row

record soak_line =
  sl_recv :: datetime
  sl_body :: soak_body

subsection \<open>Shaping\<close>

text \<open>Python's \<open>min\<close> and \<open>max\<close> of a list, \<open>None\<close> when it is empty.\<close>

definition list_max :: "rat list \<Rightarrow> rat option" where
  "list_max xs = (case xs of [] \<Rightarrow> None | x # xs \<Rightarrow> Some (foldl max x xs))"

definition list_min :: "rat list \<Rightarrow> rat option" where
  "list_min xs = (case xs of [] \<Rightarrow> None | x # xs \<Rightarrow> Some (foldl min x xs))"

definition somes :: "'a option list \<Rightarrow> 'a list" where
  "somes xs = map the (filter (\<lambda>x. x \<noteq> None) xs)"

definition shape_of :: "(soak_census \<Rightarrow> nat) \<Rightarrow> soak_census \<Rightarrow> soak_proc list \<Rightarrow> census_shape" where
  "shape_of size_of c procs =
     \<lparr>sh_process_count = length procs, sh_user_count = length (remdups (map so_username procs)),
      sh_active = length (filter (\<lambda>p. so_cpu_state p = Some ''active'') procs),
      sh_idle = length (filter (\<lambda>p. so_cpu_state p = Some ''idle'') procs),
      sh_null = length (filter (\<lambda>p. so_cpu_state p \<noteq> Some ''active'' \<and> so_cpu_state p \<noteq> Some ''idle'') procs),
      sh_idle_lower_count = length (filter so_idle_lower procs),
      sh_idle_for_max = list_max (somes (map so_idle_for_sec procs)),
      sh_cpu_min = list_min (somes (map so_cpu_seconds procs)), sh_cpu_max = list_max (somes (map so_cpu_seconds procs)),
      sh_bytes = size_of c\<rparr>"

definition shape :: "(soak_census \<Rightarrow> nat) \<Rightarrow> bool \<Rightarrow> soak_msg \<Rightarrow> soak_msg" where
  "shape size_of full m =
     (case m of
        CensusMsg c \<Rightarrow>
          if full then m
          else (case ce_body c of Processes ps \<Rightarrow> CensusMsg (c\<lparr>ce_body := Shaped (shape_of size_of c ps)\<rparr>) | Shaped _ \<Rightarrow> m)
      | _ \<Rightarrow> m)"

subsection \<open>The recorder\<close>

text \<open>What may go wrong in one call: shaping or encoding the message, closing the old file, opening the new one, writing.\<close>

datatype soak_fault = Works | BodyFails | CloseFails | OpenFails | WriteFails

record recorder =
  rc_full :: bool
  rc_files :: "(string, string \<times> bool) dict"
  rc_write_errors :: nat
  rc_disk :: "(string, soak_line list) dict"

definition new_recorder :: "bool \<Rightarrow> (string, soak_line list) dict \<Rightarrow> recorder" where
  "new_recorder full disk = \<lparr>rc_full = full, rc_files = [], rc_write_errors = 0, rc_disk = disk\<rparr>"

text \<open>\<open>strftime("%Y%m%d")\<close> and the name of the file.\<close>

definition day_of :: "datetime \<Rightarrow> string" where
  "day_of now = (let d = utc_date now in pad 4 (nat (d_year d)) @ pad 2 (d_month d) @ pad 2 (d_day d))"

definition soak_name :: "string \<Rightarrow> string \<Rightarrow> string" where
  "soak_name label day = label @ ''-'' @ day @ ''.jsonl''"

definition write_error :: "recorder \<Rightarrow> recorder" where
  "write_error rc = rc\<lparr>rc_write_errors := Suc (rc_write_errors rc)\<rparr>"

text \<open>The open file of a label for a day: the one at hand, or a new one once the old is closed.\<close>

definition roll_file :: "soak_fault \<Rightarrow> string \<Rightarrow> string \<Rightarrow> recorder \<Rightarrow> bool \<times> recorder" where
  "roll_file fault label day rc =
     (let entry = dget (rc_files rc) label in
      if (case entry of None \<Rightarrow> True | Some (d, _) \<Rightarrow> d \<noteq> day) then
        (let closing = (case entry of Some (d, True) \<Rightarrow> True | _ \<Rightarrow> False);
             rc = (case entry of None \<Rightarrow> rc | Some (d, _) \<Rightarrow> rc\<lparr>rc_files := dset (rc_files rc) label (d, False)\<rparr>)
         in if fault = CloseFails \<and> closing \<or> fault = OpenFails then (False, rc)
            else (True, rc\<lparr>rc_files := dset (rc_files rc) label (day, True),
                          rc_disk := dsetdefault (rc_disk rc) (soak_name label day) []\<rparr>))
      else (True, rc))"

definition append_line :: "soak_fault \<Rightarrow> string \<Rightarrow> string \<Rightarrow> soak_line \<Rightarrow> recorder \<Rightarrow> recorder" where
  "append_line fault label day line rc =
     (if fault = WriteFails \<or> (case dget (rc_files rc) label of Some (_, is_open) \<Rightarrow> \<not> is_open | None \<Rightarrow> True) then write_error rc
      else rc\<lparr>rc_disk := dset (rc_disk rc) (soak_name label day) (dget_or (rc_disk rc) (soak_name label day) [] @ [line])\<rparr>)"

definition soak_write :: "soak_fault \<Rightarrow> string \<Rightarrow> soak_line \<Rightarrow> recorder \<Rightarrow> recorder" where
  "soak_write fault label line rc =
     (if fault = BodyFails then write_error rc
      else case roll_file fault label (day_of (sl_recv line)) rc of
        (ok, rc) \<Rightarrow> if ok then append_line fault label (day_of (sl_recv line)) line rc else write_error rc)"

definition rec_message :: "(soak_census \<Rightarrow> nat) \<Rightarrow> soak_fault \<Rightarrow> string \<Rightarrow> datetime \<Rightarrow> soak_msg \<Rightarrow> recorder \<Rightarrow> recorder" where
  "rec_message size_of fault label now m rc =
     soak_write fault label \<lparr>sl_recv = now, sl_body = Msg (shape size_of (rc_full rc) m)\<rparr> rc"

definition rec_event :: "soak_fault \<Rightarrow> string \<Rightarrow> datetime \<Rightarrow> string \<Rightarrow> row \<Rightarrow> recorder \<Rightarrow> recorder" where
  "rec_event fault label now kind detail rc = soak_write fault label \<lparr>sl_recv = now, sl_body = Event kind detail\<rparr> rc"

text \<open>\<open>close\<close>: every file is closed, and the number of errors is reported if there were any.\<close>

definition rc_close :: "recorder \<Rightarrow> recorder \<times> nat option" where
  "rc_close rc = (rc\<lparr>rc_files := []\<rparr>, if rc_write_errors rc = 0 then None else Some (rc_write_errors rc))"

subsection \<open>Reading a recording back\<close>

text \<open>\<open>_FILE_RE\<close> on a name that \<open>glob("*.jsonl")\<close> gives: the label and the day; \<open>.+\<close> matches no newline.\<close>

definition file_key :: "string \<Rightarrow> (string \<times> string) option" where
  "file_key n =
     (let k = length n - 15; label = take k n; day = take 8 (drop (Suc k) n) in
      if 16 \<le> length n \<and> n ! k = CHR ''-'' \<and> list_all is_digit day \<and> drop (k + 9) n = ''.jsonl'' \<and> CHR 0x0A \<notin> set label
      then Some (label, day) else None)"

definition day_key :: "string \<Rightarrow> string \<Rightarrow> string option" where
  "day_key label n = (case file_key n of Some (l, d) \<Rightarrow> if l = label then Some d else None | None \<Rightarrow> None)"

fun rekey :: "('n \<Rightarrow> 'k option) \<Rightarrow> ('n, 'v) dict \<Rightarrow> ('k, 'v) dict" where
  "rekey key [] = []"
| "rekey key ((n, v) # d) = (case key n of None \<Rightarrow> rekey key d | Some k \<Rightarrow> (k, v) # rekey key d)"

definition dated_files :: "(string, 'l list) dict \<Rightarrow> string \<Rightarrow> (string, 'l list) dict" where
  "dated_files disk label = rekey (day_key label) disk"

text \<open>The files of a label by day: the lines in the order they were received.\<close>

definition recorded_lines :: "(string, 'l list) dict \<Rightarrow> string \<Rightarrow> 'l list" where
  "recorded_lines disk label = concat (map snd (sort_key fst (dated_files disk label)))"

subsection \<open>Names\<close>

definition label_ok :: "string \<Rightarrow> bool" where
  "label_ok l \<longleftrightarrow> l \<noteq> [] \<and> CHR 0x0A \<notin> set l"

lemma day_of_ok: "length (day_of now) = 8" "list_all is_digit (day_of now)"
  by (simp_all add: day_of_def Let_def pad_digits)

lemma file_key_soak_name:
  assumes "label_ok l" "length d = 8" "list_all is_digit d"
  shows "file_key (soak_name l d) = Some (l, d)"
proof -
  have k: "length (soak_name l d) - 15 = length l" "16 \<le> length (soak_name l d)" using assms by (cases l; simp add: soak_name_def label_ok_def)+
  have "drop (length l + 9) (soak_name l d) = ''.jsonl''"
    using assms(2) drop_drop [of 9 "length l" "soak_name l d"] by (simp add: soak_name_def add.commute)
  then show ?thesis using assms k unfolding file_key_def Let_def k(1) by (simp add: soak_name_def label_ok_def)
qed

lemma file_key_Some:
  assumes "file_key n = Some (l, d)"
  shows "n = soak_name l d"
proof -
  let ?k = "length n - 15"
  have h: "16 \<le> length n" "n ! ?k = CHR ''-''" "drop (?k + 9) n = ''.jsonl''" and l: "l = take ?k n" and d: "d = take 8 (drop (Suc ?k) n)"
    using assms by (auto simp: file_key_def Let_def split: if_splits)
  have "n = take ?k n @ n ! ?k # drop (Suc ?k) n" by (rule id_take_nth_drop) (use h(1) in simp)
  then have "n = take ?k n @ [n ! ?k] @ take 8 (drop (Suc ?k) n) @ drop 8 (drop (Suc ?k) n)"
    by (metis append.left_neutral append_Cons append_take_drop_id)
  also have "drop 8 (drop (Suc ?k) n) = ''.jsonl''" using h(3) by (simp add: add.commute)
  finally show ?thesis unfolding soak_name_def l d using h(2) by simp
qed

subsection \<open>Appending to the newest file of a label\<close>

lemma rekey_dset:
  assumes "\<And>n. key n = Some k \<longleftrightarrow> n = name"
  shows "rekey key (dset d name v) = dset (rekey key d) k v"
proof (induction d)
  case Nil
  then show ?case using assms [of name] by simp
next
  case (Cons p d)
  then show ?case using assms [of "fst p"] assms [of name] by (cases p) (auto split: option.splits)
qed

lemma rekey_dset_other: "key name = None \<Longrightarrow> rekey key (dset d name v) = rekey key d"
  by (induction d) (auto split: option.splits)

lemma rekey_keys: "k \<in> fst ` set (rekey key d) \<longleftrightarrow> (\<exists>n \<in> fst ` set d. key n = Some k)"
  by (induction key d rule: rekey.induct) (auto split: option.splits)

lemma dget_rekey:
  assumes "\<And>n. key n = Some k \<longleftrightarrow> n = name"
  shows "dget (rekey key d) k = dget d name"
proof (induction d)
  case (Cons p d)
  then show ?case using assms [of "fst p"] by (cases p) (auto split: option.splits)
qed simp

lemma dwf_rekey: "\<lbrakk>dwf d; \<And>n n' k. \<lbrakk>key n = Some k; key n' = Some k\<rbrakk> \<Longrightarrow> n = n'\<rbrakk> \<Longrightarrow> dwf (rekey key d)"
proof (induction key d rule: rekey.induct)
  case (2 key n v d)
  have wf: "dwf d" "n \<notin> fst ` set d" using "2.prems"(1) by (auto simp: dwf_def)
  show ?case
  proof (cases "key n")
    case (Some k)
    then have "k \<notin> fst ` set (rekey key d)" using rekey_keys [of k key d] wf(2) "2.prems"(2) by blast
    then show ?thesis using 2 wf(1) Some by (simp add: dwf_def)
  qed (use 2 wf in simp)
qed simp

lemma day_key_iff:
  assumes "label_ok l" "length d = 8" "list_all is_digit d"
  shows "day_key l n = Some d \<longleftrightarrow> n = soak_name l d"
  using file_key_soak_name [OF assms] file_key_Some [of n l d] by (auto simp: day_key_def split: option.splits if_splits)

lemma day_key_inj: "\<lbrakk>day_key l n = Some d; day_key l n' = Some d\<rbrakk> \<Longrightarrow> n = n'"
  by (auto simp: day_key_def split: option.splits if_splits dest!: file_key_Some)

lemma dated_files_dset:
  assumes "label_ok l" "length d = 8" "list_all is_digit d"
  shows "dated_files (dset disk (soak_name l d) v) label = (if label = l then dset (dated_files disk l) d v else dated_files disk label)"
proof -
  have "day_key label (soak_name l d) = None" if "label \<noteq> l" using that file_key_soak_name [OF assms] by (simp add: day_key_def)
  then show ?thesis using day_key_iff [OF assms] by (simp add: dated_files_def rekey_dset rekey_dset_other)
qed

lemma dget_dated_files:
  assumes "label_ok l" "length d = 8" "list_all is_digit d"
  shows "dget (dated_files disk l) d = dget disk (soak_name l d)"
  unfolding dated_files_def by (rule dget_rekey) (rule day_key_iff [OF assms])

lemma dwf_dated_files: "dwf disk \<Longrightarrow> dwf (dated_files disk l)"
  unfolding dated_files_def by (rule dwf_rekey) (auto intro: day_key_inj)

lemma insort_key_snoc: "f x < f y \<Longrightarrow> insort_key f x (zs @ [y]) = insort_key f x zs @ [y]"
  by (induction zs) auto

lemma sort_key_snoc: "(\<And>x. x \<in> set xs \<Longrightarrow> f x < f y) \<Longrightarrow> sort_key f (xs @ [y]) = sort_key f xs @ [y]"
  by (induction xs) (auto simp: insort_key_snoc)

lemma sort_key_pair_map:
  assumes "\<And>p. fst (g p) = fst p"
  shows "sort_key fst (map g xs) = map g (sort_key fst xs)"
proof -
  have "insort_key fst (g x) (map g ys) = map g (insort_key fst x ys)" for x ys by (induction ys) (auto simp: assms)
  then show ?thesis by (induction xs) auto
qed

lemma dset_known_map: "\<lbrakk>dwf D; k \<in> fst ` set D\<rbrakk> \<Longrightarrow> dset D k v = map (\<lambda>(k', w). (k', if k' = k then v else w)) D"
proof (induction D)
  case (Cons p D)
  then show ?case by (cases p) (force simp: dwf_def intro!: map_idI [symmetric] split: if_splits)
qed simp

lemma append_newest:
  assumes "dwf D" "\<And>k. k \<in> fst ` set D \<Longrightarrow> k \<le> (day :: 'k::linorder)"
  shows "concat (map snd (sort_key fst (dset D day (dget_or D day [] @ [x])))) = concat (map snd (sort_key fst D)) @ [x]"
proof (cases "day \<in> fst ` set D")
  case False
  then have lt: "\<And>p. p \<in> set D \<Longrightarrow> fst p < day" using assms(2) by (metis image_eqI order_le_imp_less_or_eq)
  have "dget D day = None" using False by (simp add: map_of_eq_None_iff)
  then show ?thesis using False lt by (simp add: dget_or_def dset_fresh sort_key_snoc)
next
  case True
  then obtain ls where ls: "dget D day = Some ls" by (metis image_set map_of_eq_None_iff not_Some_eq list.set_map)
  let ?S = "sort_key fst D" and ?g = "\<lambda>(k', w). (k', if k' = day then ls @ [x] else w)"
  have "(day, ls) \<in> set ?S" using ls by (simp add: map_of_SomeD)
  moreover have "last ?S = (day, ls)"
  proof -
    have ne: "?S \<noteq> []" using \<open>(day, ls) \<in> set ?S\<close> by (auto simp del: set_sort)
    then have "last ?S \<in> set D" by (metis last_in_set set_sort)
    moreover have "fst (last ?S) \<ge> day"
      using ne \<open>(day, ls) \<in> set ?S\<close> sorted_sort_key [of fst D] by (cases ?S rule: rev_cases) (auto simp: sorted_append simp del: set_sort)
    ultimately have "fst (last ?S) = day" using assms(2) by (meson image_eqI order_antisym)
    with \<open>last ?S \<in> set D\<close> ls assms(1) show ?thesis by (metis dwf_mem_iff option.inject prod.collapse)
  qed
  ultimately obtain S where S: "?S = S @ [(day, ls)]" by (metis append_butlast_last_id list.set_cases list.distinct(1))
  have "distinct (map fst ?S)" using assms(1) by (simp add: dwf_def distinct_map)
  then have "day \<notin> fst ` set S" by (simp add: S)
  then have "map ?g S = S" by (intro map_idI) force
  then have "sort_key fst (dset D day (ls @ [x])) = S @ [(day, ls @ [x])]"
    using sort_key_pair_map [of ?g D] dset_known_map [OF assms(1) True] by (simp add: S split: prod.splits)
  then show ?thesis by (simp add: ls dget_or_def S)
qed

subsection \<open>What a call leaves on disk\<close>

text \<open>Up to the day \<open>T\<close>: no file and no handle is newer, and only handles of earlier days are closed.\<close>

definition rec_inv :: "string \<Rightarrow> recorder \<Rightarrow> bool" where
  "rec_inv T rc \<longleftrightarrow> dwf (rc_disk rc) \<and> (\<forall>l d is_open. dget (rc_files rc) l = Some (d, is_open) \<longrightarrow> d \<le> T \<and> (\<not> is_open \<longrightarrow> d < T)) \<and>
     (\<forall>l. \<forall>k \<in> fst ` set (dated_files (rc_disk rc) l). k \<le> T)"

lemma dset_dsetdefault: "dset (dsetdefault d k w) k v = dset d k v"
proof (cases "dget d k")
  case None
  then have "k \<notin> fst ` set d" by (simp add: map_of_eq_None_iff)
  then show ?thesis using None by (simp add: dsetdefault_def dset_fresh) (induction d; auto)
qed (simp add: dsetdefault_def)

lemma recorded_dset:
  assumes "label_ok l" "dwf disk" "\<And>k. k \<in> fst ` set (dated_files disk l) \<Longrightarrow> k \<le> day_of t"
  shows "recorded_lines (dset disk (soak_name l (day_of t)) (dget_or disk (soak_name l (day_of t)) [] @ [x])) label =
    recorded_lines disk label @ (if label = l then [x] else [])"
proof -
  note ok = assms(1) day_of_ok [of t]
  have "dget_or disk (soak_name l (day_of t)) [] = dget_or (dated_files disk l) (day_of t) []"
    by (simp add: dget_or_def dget_dated_files [OF ok])
  then show ?thesis
    using append_newest [OF dwf_dated_files [OF assms(2)] assms(3), of l x]
    by (simp add: recorded_lines_def dated_files_dset [OF ok])
qed

lemma recorded_default:
  assumes "label_ok l" "\<And>k. k \<in> fst ` set (dated_files disk l) \<Longrightarrow> k \<le> day_of t"
  shows "recorded_lines (dsetdefault disk (soak_name l (day_of t)) []) label = recorded_lines disk label"
proof (cases "dget disk (soak_name l (day_of t))")
  case None
  note ok = assms(1) day_of_ok [of t]
  have new: "day_of t \<notin> fst ` set (dated_files disk l)" using None dget_dated_files [OF ok, of disk] by (metis map_of_eq_None_iff)
  then have "\<And>p. p \<in> set (dated_files disk l) \<Longrightarrow> fst p < day_of t" using assms(2) by (metis image_eqI order_le_imp_less_or_eq)
  then show ?thesis using None new by (simp add: dsetdefault_def recorded_lines_def dated_files_dset [OF ok] dset_fresh sort_key_snoc)
qed (simp add: dsetdefault_def)

lemma dated_keys_dset:
  assumes "label_ok l"
  shows "fst ` set (dated_files (dset disk (soak_name l (day_of t)) v) label) =
    (if label = l then insert (day_of t) (fst ` set (dated_files disk l)) else fst ` set (dated_files disk label))"
  using assms by (simp add: dated_files_dset day_of_ok)

lemma dated_keys_default:
  assumes "label_ok l" "k \<in> fst ` set (dated_files (dsetdefault disk (soak_name l (day_of t)) v) label)"
  shows "k = day_of t \<or> k \<in> fst ` set (dated_files disk label)"
  using assms by (auto simp: dsetdefault_def dated_keys_dset split: option.splits if_splits)

lemma roll_file_step:
  assumes "rec_inv T rc" "T \<le> day_of t" "label_ok l" "roll_file fault l (day_of t) rc = (ok, rc')"
  shows "rec_inv (day_of t) rc' \<and> rc_write_errors rc' = rc_write_errors rc \<and> (\<forall>label. recorded_lines (rc_disk rc') label = recorded_lines (rc_disk rc) label) \<and>
    (fault \<noteq> CloseFails \<and> fault \<noteq> OpenFails \<longrightarrow> ok) \<and> (ok \<longrightarrow> dget (rc_files rc') l = Some (day_of t, True))"
proof -
  have keys: "\<And>l k. k \<in> fst ` set (dated_files (rc_disk rc) l) \<Longrightarrow> k \<le> day_of t" and wf: "dwf (rc_disk rc)"
    and files: "\<And>l d b. dget (rc_files rc) l = Some (d, b) \<Longrightarrow> d \<le> day_of t \<and> (\<not> b \<longrightarrow> d < day_of t)"
    using assms(1, 2) unfolding rec_inv_def by (meson order_trans, blast, meson order_trans order_less_le_trans)
  have inv: "rec_inv (day_of t) rc" using keys wf files by (auto simp: rec_inv_def)
  define stale where "stale = (case dget (rc_files rc) l of None \<Rightarrow> True | Some (d, _) \<Rightarrow> d \<noteq> day_of t)"
  define rc1 where "rc1 = (case dget (rc_files rc) l of None \<Rightarrow> rc | Some (d, _) \<Rightarrow> rc\<lparr>rc_files := dset (rc_files rc) l (d, False)\<rparr>)"
  show ?thesis
  proof (cases stale)
    case False
    then have "(ok, rc') = (True, rc)" using assms(4) by (simp add: roll_file_def stale_def Let_def)
    moreover have "dget (rc_files rc) l = Some (day_of t, True)" using False files [of l] by (auto simp: stale_def split: option.splits prod.splits)
    ultimately show ?thesis using inv by simp
  next
    case True
    have rc1: "rec_inv (day_of t) rc1" "rc_write_errors rc1 = rc_write_errors rc" "rc_disk rc1 = rc_disk rc"
      using True inv files by (auto simp: rec_inv_def rc1_def stale_def split: option.splits if_splits dest: order_le_neq_trans)
    let ?rc2 = "rc1\<lparr>rc_files := dset (rc_files rc1) l (day_of t, True), rc_disk := dsetdefault (rc_disk rc1) (soak_name l (day_of t)) []\<rparr>"
    have k2: "k \<le> day_of t" if "k \<in> fst ` set (dated_files (rc_disk ?rc2) label)" for k label
      using dated_keys_default [OF assms(3), of k "rc_disk rc1" t "[]" label] that keys rc1(3) by auto
    have f2: "dget (rc_files ?rc2) label = Some (d, b) \<Longrightarrow> d \<le> day_of t \<and> (\<not> b \<longrightarrow> d < day_of t)" for label d b
      using rc1(1) by (auto simp: rec_inv_def split: if_splits)
    have rc2: "rec_inv (day_of t) ?rc2"
      unfolding rec_inv_def using k2 f2 wf rc1(3) by (auto intro: dwf_dsetdefault)
    have "rc' = rc1 \<and> \<not> ok \<and> (fault = CloseFails \<or> fault = OpenFails) \<or> rc' = ?rc2 \<and> ok"
      using assms(4) True by (auto simp: roll_file_def stale_def rc1_def Let_def split: if_splits option.splits)
    then show ?thesis using rc1 rc2 recorded_default [OF assms(3), of "rc_disk rc" t] keys by auto
  qed
qed

lemma append_line_step:
  fixes fault x
  assumes "rec_inv (day_of t) rc" "label_ok l" "dget (rc_files rc) l = Some (day_of t, True)"
  defines "rc' \<equiv> append_line fault l (day_of t) x rc"
  shows "rec_inv (day_of t) rc' \<and> (if fault = WriteFails
      then rc_write_errors rc' = Suc (rc_write_errors rc) \<and> (\<forall>label. recorded_lines (rc_disk rc') label = recorded_lines (rc_disk rc) label)
      else rc_write_errors rc' = rc_write_errors rc \<and>
        (\<forall>label. recorded_lines (rc_disk rc') label = recorded_lines (rc_disk rc) label @ (if label = l then [x] else [])))"
proof -
  have keys: "\<And>label k. k \<in> fst ` set (dated_files (rc_disk rc) label) \<Longrightarrow> k \<le> day_of t" and wf: "dwf (rc_disk rc)"
    using assms(1) by (auto simp: rec_inv_def)
  let ?d = "dset (rc_disk rc) (soak_name l (day_of t)) (dget_or (rc_disk rc) (soak_name l (day_of t)) [] @ [x])"
  have k: "k \<le> day_of t" if "k \<in> fst ` set (dated_files ?d label)" for k label
    using that keys unfolding dated_keys_dset [OF assms(2)] by (auto split: if_splits)
  have "rec_inv (day_of t) (rc\<lparr>rc_disk := ?d\<rparr>)" using assms(1) k by (auto simp: rec_inv_def intro: dwf_dset)
  moreover have "recorded_lines ?d label = recorded_lines (rc_disk rc) label @ (if label = l then [x] else [])" for label
    by (rule recorded_dset [OF assms(2) wf]) (use keys in auto)
  moreover have "rec_inv (day_of t) (write_error rc)" using assms(1) by (simp add: rec_inv_def write_error_def)
  ultimately show ?thesis using assms(3) by (simp add: rc'_def append_line_def write_error_def)
qed

text \<open>One call either records its line at the end of its label's recording or counts an error, and nothing else changes.\<close>

definition recorded :: "bool \<Rightarrow> string \<Rightarrow> soak_line \<Rightarrow> recorder \<Rightarrow> recorder \<Rightarrow> bool" where
  "recorded ok l x rc rc' \<longleftrightarrow> rc_write_errors rc' = rc_write_errors rc + (if ok then 0 else 1) \<and>
     (\<forall>label. recorded_lines (rc_disk rc') label = recorded_lines (rc_disk rc) label @ (if ok \<and> label = l then [x] else []))"

lemma soak_write_step:
  assumes "rec_inv T rc" "T \<le> day_of (sl_recv x)" "label_ok l"
  shows "rec_inv (day_of (sl_recv x)) (soak_write fault l x rc) \<and>
    (\<exists>ok. recorded ok l x rc (soak_write fault l x rc) \<and> (fault = Works \<longrightarrow> ok))"
proof -
  obtain ok rc1 where r: "roll_file fault l (day_of (sl_recv x)) rc = (ok, rc1)" by (cases "roll_file fault l (day_of (sl_recv x)) rc")
  note s1 = roll_file_step [OF assms r]
  have e: "rec_inv (day_of (sl_recv x)) (write_error rc')" if "rec_inv (day_of (sl_recv x)) rc'" for rc'
    using that by (simp add: rec_inv_def write_error_def)
  have e0: "rec_inv (day_of (sl_recv x)) (write_error rc)"
    using assms(1, 2) unfolding rec_inv_def write_error_def by simp (meson order_trans order_less_le_trans)
  consider "fault = BodyFails" | "fault \<noteq> BodyFails" "\<not> ok" | "fault \<noteq> BodyFails" ok by blast
  then show ?thesis
  proof cases
    case 1
    then show ?thesis using e0 by (intro conjI exI [of _ False]) (simp_all add: soak_write_def recorded_def write_error_def)
  next
    case 2
    then have "soak_write fault l x rc = write_error rc1" by (simp add: soak_write_def r)
    then show ?thesis using 2 s1 e [of rc1] by (intro conjI exI [of _ False]) (auto simp: recorded_def write_error_def)
  next
    case 3
    then have a: "rec_inv (day_of (sl_recv x)) rc1" "dget (rc_files rc1) l = Some (day_of (sl_recv x), True)" using s1 by simp_all
    have "soak_write fault l x rc = append_line fault l (day_of (sl_recv x)) x rc1" using 3 by (simp add: soak_write_def r)
    then show ?thesis using append_line_step [OF a(1) assms(3) a(2), of fault x] s1
      by (cases "fault = WriteFails") (auto simp: recorded_def)
  qed
qed

type_synonym call = "soak_fault \<times> string \<times> soak_line"

definition record_calls :: "call list \<Rightarrow> recorder \<Rightarrow> recorder" where
  "record_calls calls rc = foldl (\<lambda>rc (fault, l, x). soak_write fault l x rc) rc calls"

definition kept_lines :: "string \<Rightarrow> (bool \<times> call) list \<Rightarrow> soak_line list" where
  "kept_lines label cs = map (\<lambda>(_, _, _, x). x) (filter (\<lambda>(ok, _, l, _). ok \<and> l = label) cs)"

lemma record_calls_recorded:
  "\<lbrakk>rec_inv T rc; sorted (T # map (\<lambda>(_, _, x). day_of (sl_recv x)) calls); list_all (\<lambda>(_, l, _). label_ok l) calls\<rbrakk> \<Longrightarrow>
    \<exists>oks. length oks = length calls \<and> list_all (\<lambda>(ok, fault, _). fault = Works \<longrightarrow> ok) (zip oks calls) \<and>
      rc_write_errors (record_calls calls rc) = rc_write_errors rc + length (filter Not oks) \<and>
      (\<forall>label. recorded_lines (rc_disk (record_calls calls rc)) label = recorded_lines (rc_disk rc) label @ kept_lines label (zip oks calls))"
proof (induction calls arbitrary: T rc)
  case Nil
  then show ?case by (simp add: record_calls_def kept_lines_def)
next
  case (Cons c calls)
  obtain fault l x where c: "c = (fault, l, x)" by (cases c) auto
  let ?rc = "soak_write fault l x rc"
  obtain ok where s: "rec_inv (day_of (sl_recv x)) ?rc" "recorded ok l x rc ?rc" "fault = Works \<longrightarrow> ok"
    using soak_write_step [OF Cons.prems(1), of x l fault] Cons.prems(2, 3) by (auto simp: c)
  obtain oks where "length oks = length calls" "list_all (\<lambda>(ok, fault, _). fault = Works \<longrightarrow> ok) (zip oks calls)"
    "rc_write_errors (record_calls calls ?rc) = rc_write_errors ?rc + length (filter Not oks)"
    "\<forall>label. recorded_lines (rc_disk (record_calls calls ?rc)) label = recorded_lines (rc_disk ?rc) label @ kept_lines label (zip oks calls)"
    using Cons.IH [OF s(1)] Cons.prems(2, 3) by (auto simp: c)
  then show ?case using s(2, 3) by (intro exI [of _ "ok # oks"]) (auto simp: c record_calls_def recorded_def kept_lines_def)
qed

text \<open>
  C34.  The recorder loses no line silently and never disturbs a session: whatever fails, each call returns and either
  leaves its line in the recording or counts one write error, and a call in which nothing fails is recorded;
  reading a label's daily files back in name order gives exactly its recorded lines in the order they were
  received, over any number of midnights and after any earlier failures.
\<close>

theorem recording_reads_back:
  fixes full :: bool
  assumes "dwf disk" "\<And>label d. d \<in> fst ` set (dated_files disk label) \<Longrightarrow> d \<le> T"
    and "sorted (T # map (\<lambda>(_, _, x). day_of (sl_recv x)) calls)" "list_all (\<lambda>(_, l, _). label_ok l) calls"
  defines "rc \<equiv> record_calls calls (new_recorder full disk)"
  shows "\<exists>oks. length oks = length calls \<and> list_all (\<lambda>(ok, fault, _). fault = Works \<longrightarrow> ok) (zip oks calls) \<and>
    rc_write_errors rc = length (filter Not oks) \<and>
    (\<forall>label. recorded_lines (rc_disk rc) label = recorded_lines disk label @ kept_lines label (zip oks calls))"
proof -
  have "rec_inv T (new_recorder full disk)" using assms(1, 2) by (auto simp: rec_inv_def new_recorder_def)
  from record_calls_recorded [OF this assms(3, 4)] show ?thesis by (simp add: rc_def new_recorder_def)
qed

definition demo_calls :: "call list" where
  "demo_calls = [(Works, ''uan1'', \<lparr>sl_recv = utc 0, sl_body = Msg ByeMsg\<rparr>), (OpenFails, ''uan2'', \<lparr>sl_recv = utc 0, sl_body = Msg OtherMsg\<rparr>),
     (Works, ''uan2'', \<lparr>sl_recv = utc 0, sl_body = Event ''session_lost'' []\<rparr>)]"

theorem recording_reads_back_witness:
  "\<exists>oks. length oks = 3 \<and> oks ! 0 \<and> oks ! 2 \<and>
    recorded_lines (rc_disk (record_calls demo_calls (new_recorder False []))) ''uan2'' = kept_lines ''uan2'' (zip oks demo_calls)"
proof -
  have "sorted (day_of (utc 0) # map (\<lambda>(_, _, x). day_of (sl_recv x)) demo_calls)" by (simp add: demo_calls_def)
  moreover have "list_all (\<lambda>(_, l, _). label_ok l) demo_calls" by (simp add: demo_calls_def label_ok_def)
  ultimately obtain oks where o: "length oks = length demo_calls" "list_all (\<lambda>(ok, fault, _). fault = Works \<longrightarrow> ok) (zip oks demo_calls)"
    "\<forall>label. recorded_lines (rc_disk (record_calls demo_calls (new_recorder False []))) label = recorded_lines [] label @ kept_lines label (zip oks demo_calls)"
    using recording_reads_back [of "[]" "day_of (utc 0)" demo_calls False] by (auto simp: dated_files_def)
  obtain a b c where "oks = [a, b, c]" using o(1) by (auto simp: demo_calls_def length_Suc_conv numeral_3_eq_3)
  then show ?thesis using o by (intro exI [of _ oks]) (auto simp: demo_calls_def recorded_lines_def dated_files_def)
qed

end
