(* ===== verification/Replay.thy ===== *)
theory Replay
  imports Daemon Soak_Record
begin

text \<open>
  Replaying a recording through the pipelines (\<open>pipeline/replay.py\<close>, \<open>cli/main.py\<close> \<open>soak replay\<close>).  The lines of a
  file are given as the pipeline calls they decode to; a line that does not decode (a torn last line) is \<open>None\<close>.
  Labels hold no character that is special to \<open>glob\<close>.  How often the records of a node have been counted is a
  dictionary by kind.
\<close>

subsection \<open>The files of a label\<close>

text \<open>\<open>sorted(out_dir.glob(f"{label}-*.jsonl"))\<close>: every name that starts and ends so.\<close>

definition globbed :: "string \<Rightarrow> string \<Rightarrow> bool" where
  "globbed label n \<longleftrightarrow> (let p = label @ ''-'' in take (length p) n = p \<and> length p + 6 \<le> length n \<and> drop (length n - 6) n = ''.jsonl'')"

definition capture_lines :: "(string, 'l option list) dict \<Rightarrow> string \<Rightarrow> 'l list" where
  "capture_lines disk label = somes (concat (map snd (sort_key fst (filter (\<lambda>(n, _). globbed label n) disk))))"

subsection \<open>Replaying one node\<close>

fun pipe_call_res :: "pipeline \<Rightarrow> pipe_call \<Rightarrow> (nm_record list \<times> pipeline) res" where
  "pipe_call_res np (OnMessage msg recv) = on_message np msg recv"
| "pipe_call_res np (OnEvent kind detail recv) = on_event np kind detail recv"
| "pipe_call_res np Flush = Inr (flush_pipeline np)"

text \<open>The records handed over until the end or the first call that raises.\<close>

fun replay_calls :: "pipeline \<Rightarrow> pipe_call list \<Rightarrow> nm_record list \<times> py_error option" where
  "replay_calls np [] = ([], None)"
| "replay_calls np (c # cs) =
     (case pipe_call_res np c of
        Inl e \<Rightarrow> ([], Some e)
      | Inr (rs, np) \<Rightarrow> (case replay_calls np cs of (rest, e) \<Rightarrow> (rs @ rest, e)))"

definition count_kinds :: "nm_record list \<Rightarrow> (string, nat) dict" where
  "count_kinds rs = fold (\<lambda>r d. dset d (rkind r) (Suc (dget_or d (rkind r) 0))) rs []"

subsection \<open>Replaying a recording\<close>

record manifest =
  mf_counter_sec :: "rat option"
  mf_census_sec :: "rat option"
  mf_labels :: "string list"

record replay_out =
  ro_records :: "nm_record list"
  ro_counts :: "(string, (string, nat) dict) dict"
  ro_skipped :: "string list"
  ro_error :: "py_error option"

text \<open>The recording's own intervals, where its manifest has numbers, replace the configured ones.\<close>

definition capture_cfg :: "manifest \<Rightarrow> daemon_cfg \<Rightarrow> daemon_cfg" where
  "capture_cfg mf dc =
     dc\<lparr>dc_counter_sec := (case mf_counter_sec mf of None \<Rightarrow> dc_counter_sec dc | Some i \<Rightarrow> i),
        dc_census_sec := (case mf_census_sec mf of None \<Rightarrow> dc_census_sec dc | Some i \<Rightarrow> i)\<rparr>"

fun replay_labels :: "daemon_cfg \<Rightarrow> (string \<Rightarrow> pipe_call list) \<Rightarrow> string list \<Rightarrow> replay_out \<Rightarrow> replay_out" where
  "replay_labels dc calls_of [] ro = ro"
| "replay_labels dc calls_of (l # ls) ro =
     (case dget (dc_nodes dc) l of
        None \<Rightarrow> replay_labels dc calls_of ls (ro\<lparr>ro_skipped := ro_skipped ro @ [l]\<rparr>)
      | Some host \<Rightarrow>
          (case replay_calls (pipeline_for dc (l, host)) (calls_of l @ [Flush]) of (rs, e) \<Rightarrow>
             let ro = ro\<lparr>ro_records := ro_records ro @ rs, ro_counts := dset (ro_counts ro) l (count_kinds rs), ro_error := e\<rparr> in
             if e = None then replay_labels dc calls_of ls ro else ro))"

definition replay_capture :: "manifest \<Rightarrow> daemon_cfg \<Rightarrow> (string, pipe_call option list) dict \<Rightarrow> replay_out" where
  "replay_capture mf dc disk =
     replay_labels (capture_cfg mf dc) (capture_lines disk) (mf_labels mf) \<lparr>ro_records = [], ro_counts = [], ro_skipped = [], ro_error = None\<rparr>"

subsection \<open>Writing the records to the database\<close>

definition BATCH_RECORDS :: nat where "BATCH_RECORDS = 500"
definition MAX_EVENT_ROUNDS :: nat where "MAX_EVENT_ROUNDS = 3"

text \<open>
  \<open>_DatabaseSink\<close>.  \<open>sub\<close> is \<open>BufferedWriter.submit\<close> at the time of the replay: the events it hands back, which go with
  the next batch, or the exception it raises.
\<close>

record 'b sink =
  sk_buffered :: 'b
  sk_pending :: "nm_record list"
  sk_events :: "nm_record list"
  sk_beyond :: "(string, int) dict"

type_synonym 'b submitter = "nm_record list \<Rightarrow> 'b \<Rightarrow> nm_record list res \<times> 'b"

definition tally_detail :: "pyval \<Rightarrow> (string, int) dict \<Rightarrow> (string, int) dict" where
  "tally_detail v d =
     (case v of VDict kv \<Rightarrow> fold (\<lambda>(k, n) d. case n of VInt i \<Rightarrow> dset d k (dget_or d k 0 + i) | _ \<Rightarrow> d) kv d | _ \<Rightarrow> d)"

definition tally_events :: "nm_record list \<Rightarrow> (string, int) dict \<Rightarrow> (string, int) dict" where
  "tally_events evs d =
     fold (\<lambda>r d. if rget (rrow r) ''event_type'' = VStr ''rows_beyond_retention'' then tally_detail (rget (rrow r) ''detail'') d else d) evs d"

definition sink_submit :: "'b submitter \<Rightarrow> 'b sink \<Rightarrow> py_error option \<times> 'b sink" where
  "sink_submit sub sk =
     (case sub (sk_events sk @ sk_pending sk) (sk_buffered sk) of (r, b) \<Rightarrow>
        let sk' = sk\<lparr>sk_buffered := b, sk_pending := [], sk_beyond := tally_events (sk_events sk) (sk_beyond sk)\<rparr> in
        (case r of Inl e \<Rightarrow> (Some e, sk') | Inr evs \<Rightarrow> (None, sk'\<lparr>sk_events := evs\<rparr>)))"

definition sink_add :: "'b submitter \<Rightarrow> nm_record \<Rightarrow> 'b sink \<Rightarrow> py_error option \<times> 'b sink" where
  "sink_add sub r sk =
     (let sk = sk\<lparr>sk_pending := sk_pending sk @ [r]\<rparr> in
      if BATCH_RECORDS \<le> length (sk_pending sk) then sink_submit sub sk else (None, sk))"

fun sink_rounds :: "'b submitter \<Rightarrow> nat \<Rightarrow> 'b sink \<Rightarrow> py_error option \<times> 'b sink" where
  "sink_rounds sub 0 sk = (None, sk)"
| "sink_rounds sub (Suc n) sk =
     (if sk_events sk = [] then (None, sk)
      else case sink_submit sub sk of (Some e, sk) \<Rightarrow> (Some e, sk) | (None, sk) \<Rightarrow> sink_rounds sub n sk)"

definition sink_finish :: "'b submitter \<Rightarrow> 'b sink \<Rightarrow> py_error option \<times> 'b sink" where
  "sink_finish sub sk =
     (case sink_submit sub sk of (Some e, sk) \<Rightarrow> (Some e, sk) | (None, sk) \<Rightarrow> sink_rounds sub MAX_EVENT_ROUNDS sk)"

text \<open>Every record of a replay, then \<open>finish\<close>; the first exception ends it.\<close>

fun sink_all :: "'b submitter \<Rightarrow> nm_record list \<Rightarrow> 'b sink \<Rightarrow> py_error option \<times> 'b sink" where
  "sink_all sub [] sk = sink_finish sub sk"
| "sink_all sub (r # rs) sk = (case sink_add sub r sk of (Some e, sk) \<Rightarrow> (Some e, sk) | (None, sk) \<Rightarrow> sink_all sub rs sk)"

definition new_sink :: "'b \<Rightarrow> 'b sink" where
  "new_sink b = \<lparr>sk_buffered = b, sk_pending = [], sk_events = [], sk_beyond = []\<rparr>"

text \<open>The submitter of \<open>soak replay --write-db\<close>: the buffered writer, at the time the replay began.\<close>

definition db_submitter :: "'db writer_ops \<Rightarrow> fs_env \<Rightarrow> (line \<Rightarrow> nat) \<Rightarrow> (nat \<Rightarrow> rat) \<Rightarrow> datetime \<Rightarrow> 'db buffered submitter" where
  "db_submitter ops env sz clk now batch bw = submit ops env sz clk batch now bw"

text \<open>The exit code of \<open>soak replay --write-db\<close>: 1 while batches are left in the spool.\<close>

definition replay_exit :: "nat \<Rightarrow> nat" where
  "replay_exit spooled_batches = (if spooled_batches = 0 then 0 else 1)"

subsection \<open>A replay emits what the collector would have\<close>

lemma replay_calls_run:
  "replay_calls np cs = (rs, None) \<Longrightarrow> rs = fst (run_calls pipe_step np cs)"
proof (induction cs arbitrary: np rs)
  case (Cons c cs)
  obtain rs1 np1 where c: "pipe_call_res np c = Inr (rs1, np1)" using Cons.prems by (cases "pipe_call_res np c") auto
  obtain rest e where r: "replay_calls np1 cs = (rest, e)" by (cases "replay_calls np1 cs")
  have "pipe_step np c = (rs1, np1)" using c by (cases c) auto
  then show ?case using Cons.prems Cons.IH [of np1 rest] c r by (cases "run_calls pipe_step np1 cs") auto
qed simp

definition known_nodes :: "daemon_cfg \<Rightarrow> string list \<Rightarrow> (string \<times> string) list" where
  "known_nodes dc ls = map (\<lambda>l. (l, the (dget (dc_nodes dc) l))) (filter (\<lambda>l. dget (dc_nodes dc) l \<noteq> None) ls)"

definition collected :: "daemon_cfg \<Rightarrow> (string \<Rightarrow> pipe_call list) \<Rightarrow> string \<times> string \<Rightarrow> nm_record list" where
  "collected dc calls_of node = fst (run_calls pipe_step (pipeline_for dc node) (calls_of (fst node) @ [Flush]))"

lemma replay_labels_none: "ro_error ro = Some e \<Longrightarrow> ro_error (replay_labels dc calls_of ls ro) \<noteq> None \<or> ls \<noteq> []"
  by (cases ls) auto

lemma replay_labels_run:
  "ro_error (replay_labels dc calls_of ls ro) = None \<Longrightarrow> ro_error ro = None \<Longrightarrow> distinct ls \<Longrightarrow>
    ro_records (replay_labels dc calls_of ls ro) = ro_records ro @ concat (map (collected dc calls_of) (known_nodes dc ls)) \<and>
    ro_skipped (replay_labels dc calls_of ls ro) = ro_skipped ro @ filter (\<lambda>l. dget (dc_nodes dc) l = None) ls \<and>
    (\<forall>l. dget (ro_counts (replay_labels dc calls_of ls ro)) l =
       (case dget (dc_nodes dc) l of Some h \<Rightarrow> if l \<in> set ls then Some (count_kinds (collected dc calls_of (l, h))) else dget (ro_counts ro) l
        | None \<Rightarrow> dget (ro_counts ro) l))"
proof (induction ls arbitrary: ro)
  case Nil
  then show ?case by (simp add: known_nodes_def split: option.splits)
next
  case (Cons l ls)
  show ?case
  proof (cases "dget (dc_nodes dc) l")
    case None
    then show ?thesis using Cons by (auto simp: known_nodes_def split: option.splits)
  next
    case (Some host)
    obtain rs e where r: "replay_calls (pipeline_for dc (l, host)) (calls_of l @ [Flush]) = (rs, e)"
      by (cases "replay_calls (pipeline_for dc (l, host)) (calls_of l @ [Flush])")
    have e: "e = None" using Cons.prems(1) Some r by (cases e) (auto simp: Let_def)
    have rs: "rs = collected dc calls_of (l, host)" using replay_calls_run [of "pipeline_for dc (l, host)" _ rs] r e by (simp add: collected_def)
    let ?ro = "ro\<lparr>ro_records := ro_records ro @ rs, ro_counts := dset (ro_counts ro) l (count_kinds rs), ro_error := None\<rparr>"
    have step: "replay_labels dc calls_of (l # ls) ro = replay_labels dc calls_of ls ?ro" using Some r e by (simp add: Let_def)
    have "ro_error (replay_labels dc calls_of ls ?ro) = None" using Cons.prems(1) step by simp
    note ih = Cons.IH [OF this]
    show ?thesis unfolding step using ih Cons.prems(3) Some rs by (auto simp: known_nodes_def split: option.splits)
  qed
qed


subsection \<open>The files of a label and of another whose name it starts\<close>

lemma soak_name_less: "soak_name l d < soak_name l d' \<longleftrightarrow> d < d'" if "length d = length d'"
proof -
  have "d @ ''.jsonl'' < d' @ ''.jsonl'' \<longleftrightarrow> d < d'"
    using less_append_longer [of d d' "''.jsonl''" "''.jsonl''"] less_append_longer [of d' d "''.jsonl''" "''.jsonl''"] that
    by (cases d d' rule: linorder_cases) (auto dest: less_asym)
  then show ?thesis unfolding soak_name_def less_append_same .
qed

lemma sort_key_map_mono:
  assumes "\<And>x y. \<lbrakk>x \<in> set xs; y \<in> set xs\<rbrakk> \<Longrightarrow> f (g x) \<le> f (g y) \<longleftrightarrow> h x \<le> h y"
  shows "sort_key f (map g xs) = map g (sort_key h xs)"
  using assms
proof (induction xs)
  case (Cons x xs)
  have "insort_key f (g x) (map g ys) = map g (insort_key h x ys)" if "set ys \<subseteq> set xs" for ys
    using that Cons.prems by (induction ys) auto
  then show ?case using Cons by simp
qed simp

lemma file_key_day: "file_key n = Some (l, d) \<Longrightarrow> length d = 8"
  by (auto simp: file_key_def Let_def split: if_splits)

lemma globbed_own: "file_key n = Some (l, d) \<Longrightarrow> globbed l n"
  using file_key_Some [of n l d] file_key_day [of n l d] by (simp add: globbed_def soak_name_def)

lemma rekey_filter: "rekey key d = map (\<lambda>(n, v). (the (key n), v)) (filter (\<lambda>(n, _). key n \<noteq> None) d)"
  by (induction key d rule: rekey.induct) (auto split: option.splits)

text \<open>Where no other label continues it with a dash, a label is replayed from its own lines, in the order they were received.\<close>

lemma capture_own_lines:
  assumes "\<And>n. n \<in> fst ` set disk \<Longrightarrow> globbed label n \<Longrightarrow> \<exists>d. file_key n = Some (label, d)"
  shows "capture_lines disk label = somes (recorded_lines disk label)"
proof -
  let ?F = "filter (\<lambda>(n, _). globbed label n) disk"
  have day: "file_key n = Some (label, the (day_key label n))" if "(n, v) \<in> set ?F" for n v
    using assms [of n] that by (force simp: day_key_def)
  have "day_key label n \<noteq> None \<longleftrightarrow> globbed label n" if "(n, v) \<in> set disk" for n v
    using assms [of n] that globbed_own [of n label] by (force simp: day_key_def split: option.splits if_splits)
  then have F: "filter (\<lambda>(n, _). day_key label n \<noteq> None) disk = ?F" by (intro filter_cong) auto
  have "sort_key fst (map (\<lambda>(n, v). (the (day_key label n), v)) ?F) = map (\<lambda>(n, v). (the (day_key label n), v)) (sort_key fst ?F)"
  proof (rule sort_key_map_mono)
    fix x y assume xy: "x \<in> set ?F" "y \<in> set ?F"
    obtain n v n' v' where p: "x = (n, v)" "y = (n', v')" by (cases x, cases y)
    note k = day [OF xy(1) [unfolded p]] day [OF xy(2) [unfolded p]]
    have "n = soak_name label (the (day_key label n))" "n' = soak_name label (the (day_key label n'))" using k file_key_Some by blast+
    moreover have "length (the (day_key label n')) = length (the (day_key label n))" using k file_key_day by metis
    ultimately have "n' < n \<longleftrightarrow> the (day_key label n') < the (day_key label n)" using soak_name_less by metis
    then show "fst (case x of (n, v) \<Rightarrow> (the (day_key label n), v)) \<le> fst (case y of (n, v) \<Rightarrow> (the (day_key label n), v)) \<longleftrightarrow> fst x \<le> fst y"
      by (simp add: p not_less [symmetric])
  qed
  then have "map snd (sort_key fst (dated_files disk label)) = map snd (sort_key fst ?F)"
    unfolding dated_files_def rekey_filter F by (simp add: case_prod_beta comp_def)
  then show ?thesis by (simp add: capture_lines_def recorded_lines_def)
qed

text \<open>
  \<open>glob\<close> also takes the files of a label that continues this one with a dash: a recording of the nodes \<open>login\<close> and
  \<open>login-01\<close> is replayed with the lines of \<open>login-01\<close> fed to the pipeline of \<open>login\<close> as well, while the report keeps them
  apart.
\<close>

theorem replay_mixes_labels:
  "\<exists>disk :: (string, nat option list) dict. recorded_lines disk ''login'' = [Some 1] \<and> recorded_lines disk ''login-01'' = [Some 2] \<and>
     capture_lines disk ''login'' = [2, 1]"
proof -
  let ?disk = "[(''login-20250101.jsonl'', [Some 1]), (''login-01-20250101.jsonl'', [Some 2])] :: (string, nat option list) dict"
  have k: "file_key ''login-20250101.jsonl'' = Some (''login'', ''20250101'')" "file_key ''login-01-20250101.jsonl'' = Some (''login-01'', ''20250101'')"
    by (simp_all add: file_key_def is_digit_def)
  have "recorded_lines ?disk ''login'' = [Some 1]" "recorded_lines ?disk ''login-01'' = [Some 2]"
    by (simp_all add: recorded_lines_def dated_files_def day_key_def k)
  moreover have "capture_lines ?disk ''login'' = [2, 1]" by (simp add: capture_lines_def globbed_def somes_def less_char_def)
  ultimately show ?thesis by blast
qed

subsection \<open>Every record is submitted once\<close>

text \<open>The submits of a run: the events carried over, the records, and the events handed back, which the next one carries.\<close>

type_synonym submitted = "nm_record list \<times> nm_record list \<times> nm_record list"

definition sink_logged :: "'b submitter \<Rightarrow> ((nm_record list \<times> nm_record list res) list \<times> 'b) submitter" where
  "sink_logged sub batch st = (case st of (entries, b) \<Rightarrow> case sub batch b of (r, b) \<Rightarrow> (r, (entries @ [(batch, r)], b)))"

fun linked :: "nm_record list \<Rightarrow> submitted list \<Rightarrow> bool" where
  "linked carried [] = True"
| "linked carried ((e, p, r) # tr) = (e = carried \<and> linked r tr)"

definition handed :: "submitted list \<Rightarrow> nm_record list" where
  "handed tr = (if tr = [] then [] else snd (snd (last tr)))"

definition entry_of :: "submitted \<Rightarrow> nm_record list \<times> nm_record list res" where
  "entry_of x = (case x of (e, p, r) \<Rightarrow> (e @ p, Inr r))"

definition tracked :: "submitted list \<Rightarrow> nm_record list \<Rightarrow> ((nm_record list \<times> nm_record list res) list \<times> 'b) sink \<Rightarrow> bool" where
  "tracked tr rs sk \<longleftrightarrow> fst (sk_buffered sk) = map entry_of tr \<and> linked [] tr \<and> sk_events sk = handed tr \<and>
     concat (map (fst \<circ> snd) tr) @ sk_pending sk = rs \<and> list_all (\<lambda>(_, p, _). length p \<le> BATCH_RECORDS) tr \<and> length (sk_pending sk) < BATCH_RECORDS"

lemma linked_snoc: "linked c (tr @ [(e, p, r)]) \<longleftrightarrow> linked c tr \<and> e = (if tr = [] then c else snd (snd (last tr)))"
  by (induction c tr rule: linked.induct) auto

lemma sink_submit_tracked:
  assumes "fst (sk_buffered sk) = map entry_of tr" "linked [] tr" "sk_events sk = handed tr" "list_all (\<lambda>(_, p, _). length p \<le> BATCH_RECORDS) tr"
    and "concat (map (fst \<circ> snd) tr) @ sk_pending sk = rs" "length (sk_pending sk) \<le> BATCH_RECORDS" "sink_submit (sink_logged sub) sk = (None, sk')"
  shows "\<exists>r. tracked (tr @ [(handed tr, sk_pending sk, r)]) rs sk' \<and> sk_pending sk' = []"
  using assms by (auto simp: sink_submit_def sink_logged_def tracked_def linked_snoc handed_def entry_of_def BATCH_RECORDS_def Let_def
    split: prod.splits sum.splits)

lemma sink_add_tracked:
  assumes "tracked tr rs sk" "sink_add (sink_logged sub) r sk = (None, sk')"
  shows "\<exists>tr'. tracked (tr @ tr') (rs @ [r]) sk'"
proof (cases "BATCH_RECORDS \<le> Suc (length (sk_pending sk))")
  case True
  then have "sink_submit (sink_logged sub) (sk\<lparr>sk_pending := sk_pending sk @ [r]\<rparr>) = (None, sk')" using assms(2) by (simp add: sink_add_def Let_def)
  from sink_submit_tracked [OF _ _ _ _ _ _ this, of tr "rs @ [r]"] assms(1)
  have "\<exists>q. tracked (tr @ [(handed tr, sk_pending sk @ [r], q)]) (rs @ [r]) sk'" by (auto simp: tracked_def)
  then show ?thesis by blast
next
  case False
  then show ?thesis using assms by (intro exI [of _ "[]"]) (auto simp: sink_add_def Let_def tracked_def)
qed

lemma sink_rounds_tracked:
  "\<lbrakk>tracked tr rs sk; sk_pending sk = []; sink_rounds (sink_logged sub) n sk = (None, sk')\<rbrakk> \<Longrightarrow>
    \<exists>tr'. tracked (tr @ tr') rs sk' \<and> sk_pending sk' = [] \<and> length tr' \<le> n \<and> (length tr' < n \<longrightarrow> sk_events sk' = []) \<and>
      concat (map (fst \<circ> snd) tr') = []"
proof (induction n arbitrary: tr sk)
  case 0
  then show ?case by (intro exI [of _ "[]"]) auto
next
  case (Suc n)
  show ?case
  proof (cases "sk_events sk = []")
    case True
    then show ?thesis using Suc.prems by (intro exI [of _ "[]"]) auto
  next
    case False
    then obtain sk1 where s: "sink_submit (sink_logged sub) sk = (None, sk1)" "sink_rounds (sink_logged sub) n sk1 = (None, sk')"
      using Suc.prems(3) by (auto split: prod.splits option.splits)
    obtain r where t: "tracked (tr @ [(handed tr, sk_pending sk, r)]) rs sk1" "sk_pending sk1 = []"
      using sink_submit_tracked [OF _ _ _ _ _ _ s(1), of tr rs] Suc.prems(1) by (auto simp: tracked_def)
    obtain tr' where "tracked ((tr @ [(handed tr, sk_pending sk, r)]) @ tr') rs sk'" "sk_pending sk' = []" "length tr' \<le> n" "length tr' < n \<longrightarrow> sk_events sk' = []"
      "concat (map (fst \<circ> snd) tr') = []"
      using Suc.IH [OF t s(2)] by blast
    then show ?thesis using Suc.prems(2) by (intro exI [of _ "(handed tr, sk_pending sk, r) # tr'"]) auto
  qed
qed

lemma sink_all_tracked:
  "\<lbrakk>tracked tr done sk; sink_all (sink_logged sub) rs sk = (None, sk')\<rbrakk> \<Longrightarrow>
    \<exists>tr1 x tr2. tracked (tr1 @ x # tr2) (done @ rs) sk' \<and> sk_pending sk' = [] \<and> length tr2 \<le> MAX_EVENT_ROUNDS \<and>
      (length tr2 < MAX_EVENT_ROUNDS \<longrightarrow> sk_events sk' = []) \<and> concat (map (fst \<circ> snd) tr2) = []"
proof (induction rs arbitrary: tr "done" sk)
  case Nil
  then obtain sk1 where s: "sink_submit (sink_logged sub) sk = (None, sk1)" "sink_rounds (sink_logged sub) MAX_EVENT_ROUNDS sk1 = (None, sk')"
    by (auto simp: sink_finish_def split: prod.splits option.splits)
  obtain r where t: "tracked (tr @ [(handed tr, sk_pending sk, r)]) done sk1" "sk_pending sk1 = []"
    using sink_submit_tracked [OF _ _ _ _ _ _ s(1), of tr "done"] Nil.prems(1) by (auto simp: tracked_def)
  from sink_rounds_tracked [OF t s(2)] show ?case by (metis append.assoc append_Cons append_Nil append_Nil2)
next
  case (Cons r rs)
  then obtain sk1 where s: "sink_add (sink_logged sub) r sk = (None, sk1)" "sink_all (sink_logged sub) rs sk1 = (None, sk')"
    by (auto split: prod.splits option.splits)
  obtain tr' where "tracked (tr @ tr') (done @ [r]) sk1" using sink_add_tracked [OF Cons.prems(1) s(1)] by blast
  from Cons.IH [OF this s(2)] show ?case by simp
qed

text \<open>
  C37.  Writing a replay to the database submits every record exactly once and in order, in batches of at most five hundred,
  each led by the events that the submit before it handed back; at the end no record is pending, and the closing
  rounds make at most three more submits and stop early only when no event is left.
\<close>

theorem replay_sink_submits_all:
  assumes "sink_all (sink_logged sub) rs (new_sink ([], b)) = (None, sk)"
  shows "\<exists>tr. fst (sk_buffered sk) = map entry_of tr \<and> linked [] tr \<and> concat (map (fst \<circ> snd) tr) = rs \<and>
    list_all (\<lambda>(_, p, _). length p \<le> BATCH_RECORDS) tr \<and>
    (\<exists>tr1 x tr2. tr = tr1 @ x # tr2 \<and> concat (map (fst \<circ> snd) tr2) = [] \<and> length tr2 \<le> 3 \<and> (length tr2 < 3 \<longrightarrow> sk_events sk = []))"
proof -
  have t0: "tracked [] [] (new_sink ([], b))" by (simp add: tracked_def new_sink_def handed_def BATCH_RECORDS_def)
  obtain tr1 x tr2 where t: "tracked (tr1 @ x # tr2) rs sk" "sk_pending sk = []" "length tr2 \<le> 3" "length tr2 < 3 \<longrightarrow> sk_events sk = []"
    "concat (map (fst \<circ> snd) tr2) = []"
    using sink_all_tracked [OF t0 assms] by (auto simp: MAX_EVENT_ROUNDS_def)
  show ?thesis
  proof (rule exI [of _ "tr1 @ x # tr2"], intro conjI)
    show "\<exists>a y c. tr1 @ x # tr2 = a @ y # c \<and> concat (map (fst \<circ> snd) c) = [] \<and> length c \<le> 3 \<and> (length c < 3 \<longrightarrow> sk_events sk = [])"
      using t(3-5) by blast
  qed (use t(1, 2) in \<open>simp_all only: tracked_def append_Nil2\<close>)
qed

subsection \<open>Examples\<close>

theorem replay_sink_submits_all_witness:
  "\<exists>sk tr. sink_all (sink_logged (\<lambda>_ b. (Inr [], b))) [Record LIVE_NODE []] (new_sink ([], ())) = (None, sk) \<and>
     fst (sk_buffered sk) = map entry_of tr \<and> concat (map (fst \<circ> snd) tr) = [Record LIVE_NODE []]"
proof -
  obtain sk where sk: "sink_all (sink_logged (\<lambda>_ b. (Inr [], b))) [Record LIVE_NODE []] (new_sink ([], ())) = (None, sk)"
    by (simp add: sink_add_def sink_finish_def sink_submit_def sink_logged_def new_sink_def BATCH_RECORDS_def MAX_EVENT_ROUNDS_def numeral_3_eq_3)
  with replay_sink_submits_all [OF sk] show ?thesis by blast
qed


end
