(* ===== verification/Fleet.thy ===== *)
theory Fleet
  imports Py_Text
begin

text \<open>
  Shipping the probe to a node and running the sessions (\<open>collector/bootstrap.py\<close>, \<open>collector/ssh.py\<close>,
  \<open>collector/fleet.py\<close>).  Text is a list of code points and bytes are numbers below 256; the JSON encoder and
  decoder of the header are arguments, and so is the rendering of the connection timeout.
\<close>

subsection \<open>UTF-8\<close>

definition utf8_char :: "nat \<Rightarrow> nat list" where
  "utf8_char c =
     (if c < 128 then [c]
      else if c < 2048 then [192 + c div 64, 128 + c mod 64]
      else if c < 65536 then [224 + c div 4096, 128 + c div 64 mod 64, 128 + c mod 64]
      else [240 + c div 262144, 128 + c div 4096 mod 64, 128 + c div 64 mod 64, 128 + c mod 64])"

definition utf8_encode :: "nat list \<Rightarrow> nat list" where
  "utf8_encode t = concat (map utf8_char t)"

fun utf8_decode :: "nat list \<Rightarrow> nat list option" where
  "utf8_decode [] = Some []"
| "utf8_decode (a # bs) =
     (if a < 128 then map_option (Cons a) (utf8_decode bs)
      else if a < 192 then None
      else if a < 224 then (case bs of b # bs \<Rightarrow> map_option (Cons ((a - 192) * 64 + (b - 128))) (utf8_decode bs) | _ \<Rightarrow> None)
      else if a < 240 then
        (case bs of b # c # bs \<Rightarrow> map_option (Cons ((a - 224) * 4096 + (b - 128) * 64 + (c - 128))) (utf8_decode bs) | _ \<Rightarrow> None)
      else
        (case bs of b # c # d # bs \<Rightarrow> map_option (Cons ((a - 240) * 262144 + (b - 128) * 4096 + (c - 128) * 64 + (d - 128))) (utf8_decode bs)
         | _ \<Rightarrow> None))"

subsection \<open>The payload\<close>

definition build_payload :: "(nat \<times> row \<Rightarrow> nat list) \<Rightarrow> nat list \<Rightarrow> row \<Rightarrow> nat list" where
  "build_payload dumps source cfg = (let body = utf8_encode source in dumps (length body, cfg) @ [10] @ body)"

text \<open>\<open>BOOTSTRAP_CODE\<close> on the node: the header line, then as many bytes as it says; the rest of stdin stays open.\<close>

definition bootstrap_reads :: "(nat list \<Rightarrow> (nat \<times> row) option) \<Rightarrow> nat list \<Rightarrow> (nat list \<times> row \<times> nat list) option" where
  "bootstrap_reads loads stdin =
     (let header = takeWhile (\<lambda>b. b \<noteq> 10) stdin; rest = drop (Suc (length header)) stdin in
      case loads header of
        None \<Rightarrow> None
      | Some (n, cfg) \<Rightarrow> map_option (\<lambda>src. (src, cfg, drop n rest)) (utf8_decode (take n rest)))"

definition probe_config :: "row \<Rightarrow> row \<Rightarrow> row" where
  "probe_config collection classification =
     [(''counter_interval_sec'', rget collection ''counter_interval_sec''), (''census_interval_sec'', rget collection ''census_interval_sec''),
      (''active_cpu_seconds_per_min'', rget classification ''active_cpu_seconds_per_min''), (''gpu'', VBool True),
      (''probe_rss_limit_mb'', rget collection ''probe_rss_limit_mb'')]"

subsection \<open>The remote command\<close>

definition safe_char :: "char \<Rightarrow> bool" where
  "safe_char c \<longleftrightarrow> (let n = of_char c :: nat in 48 \<le> n \<and> n \<le> 57 \<or> 65 \<le> n \<and> n \<le> 90 \<or> 97 \<le> n \<and> n \<le> 122) \<or>
     c \<in> {CHR ''_'', CHR ''@'', CHR ''%'', CHR ''+'', CHR ''='', CHR '':'', CHR '','', CHR ''.'', CHR ''/'', CHR ''-''}"

definition SQ :: char where "SQ = CHR 0x27"
definition DQ :: char where "DQ = CHR 0x22"

definition shlex_quote :: "string \<Rightarrow> string" where
  "shlex_quote s =
     (if s = [] then [SQ, SQ]
      else if list_all safe_char s then s
      else [SQ] @ concat (map (\<lambda>c. if c = SQ then [SQ, DQ, SQ, DQ, SQ] else [c]) s) @ [SQ])"

definition shlex_join :: "string list \<Rightarrow> string" where
  "shlex_join ws = join '' '' (map shlex_quote ws)"

definition remote_command :: "string \<Rightarrow> string \<Rightarrow> string" where
  "remote_command bootstrap_code probe_python =
     shlex_join [''env'', ''-u'', ''LD_PRELOAD'', probe_python, ''-u'', ''-c'', bootstrap_code]"

subsection \<open>ssh\<close>

definition ssh_argv :: "string \<Rightarrow> string \<Rightarrow> string \<Rightarrow> string \<Rightarrow> string list" where
  "ssh_argv ssh_binary config_path target command = [ssh_binary, ''-F'', config_path, ''-o'', ''BatchMode=yes'', target, command]"

definition ssh_config_lines :: "string \<Rightarrow> string \<Rightarrow> string option \<Rightarrow> string list" where
  "ssh_config_lines sock_dir timeout identity =
     [''Host *'', ''   BatchMode yes'', ''   ControlMaster auto'', ''   ControlPersist 60s'', ''   ControlPath '' @ sock_dir @ ''/cm-%C'',
      ''   ConnectTimeout '' @ timeout, ''   ServerAliveInterval 10'', ''   ServerAliveCountMax 3''] @
     (case identity of Some (c # f) \<Rightarrow> [''   IdentityFile '' @ c # f, ''   IdentitiesOnly yes''] | _ \<Rightarrow> [])"

text \<open>The state directory while the file is written: its mode, and each file's mode and content.\<close>

datatype ssh_fault = AllWorks | WriteBreaks string | ReplaceBreaks

record ssh_dir =
  sd_mode :: nat
  sd_sock_mode :: nat
  sd_entries :: "(string, nat \<times> string) dict"

definition write_ssh_config :: "string \<Rightarrow> ssh_fault \<Rightarrow> string list \<Rightarrow> ssh_dir \<Rightarrow> bool \<times> ssh_dir" where
  "write_ssh_config tmp fault lines d =
     (let d = d\<lparr>sd_mode := 448, sd_sock_mode := 448, sd_entries := dpop (sd_entries d) tmp\<rparr>;
          content = join [CHR 0x0A] lines @ [CHR 0x0A];
          written = dset (sd_entries d) tmp (384, case fault of WriteBreaks part \<Rightarrow> part | _ \<Rightarrow> content)
      in if fault = AllWorks then (True, d\<lparr>sd_entries := dset (dpop written tmp) ''ssh_config'' (384, content)\<rparr>)
         else (False, d\<lparr>sd_entries := dpop written tmp\<rparr>))"

subsection \<open>One session per node\<close>

record session_plan =
  sp_label :: string
  sp_argv :: "string list"
  sp_probe_cfg :: row
  sp_silence_timeout :: pyval
  sp_max_lifetime :: pyval
  sp_backoff :: pyval

text \<open>\<open>str\<close> of the override is an argument; it is a string in every caller.\<close>

definition node_probe_cfg :: "row \<Rightarrow> row \<Rightarrow> (pyval \<Rightarrow> string) \<Rightarrow> string \<Rightarrow> row" where
  "node_probe_cfg cfg overrides str_of label =
     (let cfg = dmerge cfg overrides in
      case dget cfg ''lock_path'' of None \<Rightarrow> cfg | Some p \<Rightarrow> dset cfg ''lock_path'' (VStr (str_of p @ ''.'' @ label)))"

definition build_sessions :: "string \<Rightarrow> string \<Rightarrow> string \<Rightarrow> (pyval \<Rightarrow> string) \<Rightarrow> row \<Rightarrow> row \<Rightarrow> row \<Rightarrow> (string \<times> string) list \<Rightarrow> (string, session_plan) dict" where
  "build_sessions ssh_binary ssh_config command str_of collection classification overrides nodes =
     fold (\<lambda>(label, target) d. dset d label
       \<lparr>sp_label = label, sp_argv = ssh_argv ssh_binary ssh_config target command,
        sp_probe_cfg = node_probe_cfg (probe_config collection classification) overrides str_of label,
        sp_silence_timeout = rget collection ''session_silence_timeout_sec'', sp_max_lifetime = rget collection ''session_max_lifetime_sec'',
        sp_backoff = rget collection ''reconnect_backoff_sec''\<rparr>) nodes []"

subsection \<open>Running and stopping them\<close>

text \<open>
  \<open>run_sessions\<close> and \<open>_stop_all\<close> as a transition system.  A session task runs, is being cancelled, or has ended.  The caller
  waits; then it stops every session in turn, without giving up control; then it waits for all of them.  The caller
  may be cancelled while it waits, first or last.
\<close>

datatype task = Runs | Cancelling | Ended

datatype fleet_phase = Waiting | Stopping "string list" | Draining | Returned

record fleet =
  fl_tasks :: "(string, task) dict"
  fl_phase :: fleet_phase
  fl_stopped :: "string list"
  fl_crashes :: "string list"
  fl_cut_short :: bool

definition all_ended :: "fleet \<Rightarrow> bool" where
  "all_ended f \<longleftrightarrow> list_all (\<lambda>(_, t). t = Ended) (fl_tasks f)"

definition awaits :: "fleet \<Rightarrow> bool" where
  "awaits f \<longleftrightarrow> fl_phase f = Waiting \<or> fl_phase f = Draining"

definition new_fleet :: "string list \<Rightarrow> fleet" where
  "new_fleet ls = \<lparr>fl_tasks = map (\<lambda>l. (l, Runs)) ls, fl_phase = Waiting, fl_stopped = [], fl_crashes = [], fl_cut_short = False\<rparr>"

definition end_task :: "string \<Rightarrow> fleet \<Rightarrow> fleet" where
  "end_task l f = f\<lparr>fl_tasks := dset (fl_tasks f) l Ended\<rparr>"

definition stop_failed :: "string \<Rightarrow> fleet \<Rightarrow> fleet" where
  "stop_failed l f = (if dget (fl_tasks f) l = Some Runs then f\<lparr>fl_tasks := dset (fl_tasks f) l Cancelling\<rparr> else f)"

inductive fleet_step :: "fleet \<Rightarrow> fleet \<Rightarrow> bool" where
  session_ends: "\<lbrakk>awaits f; dget (fl_tasks f) l \<in> {Some Runs, Some Cancelling}\<rbrakk> \<Longrightarrow> fleet_step f (end_task l f)"
| session_raises: "\<lbrakk>awaits f; dget (fl_tasks f) l \<in> {Some Runs, Some Cancelling}\<rbrakk> \<Longrightarrow>
    fleet_step f ((end_task l f)\<lparr>fl_crashes := fl_crashes f @ [l]\<rparr>)"
| stop_or_timeout: "fl_phase f = Waiting \<Longrightarrow> fleet_step f (f\<lparr>fl_phase := Stopping (dkeys (fl_tasks f))\<rparr>)"
| caller_cancelled: "fl_phase f = Waiting \<Longrightarrow> fleet_step f (f\<lparr>fl_phase := Stopping (dkeys (fl_tasks f))\<rparr>)"
| stop_one: "fl_phase f = Stopping (l # ls) \<Longrightarrow> fleet_step f (f\<lparr>fl_phase := Stopping ls, fl_stopped := fl_stopped f @ [l]\<rparr>)"
| stop_raises: "fl_phase f = Stopping (l # ls) \<Longrightarrow>
    fleet_step f ((stop_failed l f)\<lparr>fl_phase := Stopping ls, fl_stopped := fl_stopped f @ [l]\<rparr>)"
| all_stopped: "fl_phase f = Stopping [] \<Longrightarrow> fleet_step f (f\<lparr>fl_phase := (if fl_tasks f = [] then Returned else Draining)\<rparr>)"
| drained: "\<lbrakk>fl_phase f = Draining; all_ended f\<rbrakk> \<Longrightarrow> fleet_step f (f\<lparr>fl_phase := Returned\<rparr>)"
| cancelled_again: "fl_phase f = Draining \<Longrightarrow> fleet_step f (f\<lparr>fl_phase := Returned, fl_cut_short := True\<rparr>)"

inductive fleet_reaches :: "fleet \<Rightarrow> fleet \<Rightarrow> bool" where
  fleet_start: "fleet_reaches f f"
| fleet_next: "\<lbrakk>fleet_reaches f g; fleet_step g h\<rbrakk> \<Longrightarrow> fleet_reaches f h"

inductive_cases fleet_stepE: "fleet_step f g"

subsection \<open>The payload arrives\<close>

definition scalar :: "nat \<Rightarrow> bool" where
  "scalar c \<longleftrightarrow> c < 1114112"

lemma base64_digits:
  fixes c :: nat
  shows "c div 64 * 64 + c mod 64 = c" "c div 4096 * 4096 + c div 64 mod 64 * 64 + c mod 64 = c"
    "c div 262144 * 262144 + c div 4096 mod 64 * 4096 + c div 64 mod 64 * 64 + c mod 64 = c"
proof -
  have e: "c div 4096 = c div 64 div 64" "c div 262144 = c div 64 div 64 div 64" by (simp_all add: div_mult2_eq [symmetric])
  have d: "c div 64 * 64 + c mod 64 = c" "c div 64 div 64 * 64 + c div 64 mod 64 = c div 64"
    "c div 64 div 64 div 64 * 64 + c div 64 div 64 mod 64 = c div 64 div 64" by (rule div_mult_mod_eq)+
  show "c div 64 * 64 + c mod 64 = c" by (rule d(1))
  show "c div 4096 * 4096 + c div 64 mod 64 * 64 + c mod 64 = c" unfolding e using d(1, 2) by linarith
  show "c div 262144 * 262144 + c div 4096 mod 64 * 4096 + c div 64 mod 64 * 64 + c mod 64 = c" unfolding e using d by linarith
qed

lemma utf8_char_decode: "scalar c \<Longrightarrow> utf8_decode (utf8_char c @ bs) = map_option (Cons c) (utf8_decode bs)"
proof -
  assume c: "scalar c"
  consider "c < 128" | "128 \<le> c" "c < 2048" | "2048 \<le> c" "c < 65536" | "65536 \<le> c" by linarith
  then show ?thesis
  proof cases
    case 2
    define q where "q = c div 64"
    have "q < 32" "q * 64 + c mod 64 = c" using 2 base64_digits(1) [of c] by (auto simp: q_def)
    then show ?thesis using 2 by (simp add: utf8_char_def q_def [symmetric])
  next
    case 3
    define q where "q = c div 4096"
    have "q < 16" "q * 4096 + c div 64 mod 64 * 64 + c mod 64 = c" using 3 base64_digits(2) [of c] by (auto simp: q_def)
    then show ?thesis using 3 by (simp add: utf8_char_def q_def [symmetric])
  next
    case 4
    then show ?thesis using base64_digits(3) [of c] by (simp add: utf8_char_def)
  qed (simp add: utf8_char_def)
qed

lemma utf8_roundtrip: "list_all scalar t \<Longrightarrow> utf8_decode (utf8_encode t) = Some t"
  by (induction t) (simp_all add: utf8_encode_def utf8_char_decode)

text \<open>
  C38.  The node receives exactly what the collector ships: reading the header line and then as many bytes as it says gives
  back the probe's source and its configuration, and leaves every later byte of stdin unread, whatever characters
  the source has.  (The JSON encoder writes one line, and the decoder undoes it.)
\<close>

theorem payload_arrives:
  assumes "list_all scalar source" "loads (dumps (length (utf8_encode source), cfg)) = Some (length (utf8_encode source), cfg)"
    and "10 \<notin> set (dumps (length (utf8_encode source), cfg))"
  shows "bootstrap_reads loads (build_payload dumps source cfg @ later) = Some (source, cfg, later)"
proof -
  let ?h = "dumps (length (utf8_encode source), cfg)"
  have p: "build_payload dumps source cfg @ later = ?h @ 10 # utf8_encode source @ later" by (simp add: build_payload_def Let_def)
  have h: "takeWhile (\<lambda>b. b \<noteq> 10) (?h @ 10 # utf8_encode source @ later) = ?h"
    using assms(3) by (subst takeWhile_append2) auto
  show ?thesis unfolding bootstrap_reads_def p h Let_def using assms(2) utf8_roundtrip [OF assms(1)] by simp
qed

theorem payload_arrives_witness:
  "bootstrap_reads (\<lambda>h. if h = [123] then Some (3, []) else None) (build_payload (\<lambda>_. [123]) [105, 233] [] @ [7]) = Some ([105, 233], [], [7])"
  by (rule payload_arrives) (simp_all add: scalar_def utf8_encode_def utf8_char_def)

subsection \<open>The remote shell sees the words\<close>

text \<open>
  A reader of the part of the shell language the command may use: words separated by blanks, single quotes, and double
  quotes without expansion.  Any other character that the shell treats specially ends it.
\<close>

datatype sh_mode = Bare | Single | Double

fun sh_read :: "sh_mode \<Rightarrow> string option \<Rightarrow> string list \<Rightarrow> string \<Rightarrow> string list option" where
  "sh_read Bare cur ws [] = Some (ws @ (case cur of None \<Rightarrow> [] | Some w \<Rightarrow> [w]))"
| "sh_read m cur ws [] = None"
| "sh_read Bare cur ws (c # s) =
     (if c = CHR '' '' then sh_read Bare None (ws @ (case cur of None \<Rightarrow> [] | Some w \<Rightarrow> [w])) s
      else if c = SQ then sh_read Single (Some (case cur of None \<Rightarrow> [] | Some w \<Rightarrow> w)) ws s
      else if c = DQ then sh_read Double (Some (case cur of None \<Rightarrow> [] | Some w \<Rightarrow> w)) ws s
      else if safe_char c then sh_read Bare (Some ((case cur of None \<Rightarrow> [] | Some w \<Rightarrow> w) @ [c])) ws s
      else None)"
| "sh_read Single cur ws (c # s) = (if c = SQ then sh_read Bare cur ws s else sh_read Single (map_option (\<lambda>w. w @ [c]) cur) ws s)"
| "sh_read Double cur ws (c # s) =
     (if c = DQ then sh_read Bare cur ws s
      else if c = CHR ''$'' \<or> c = CHR 0x60 \<or> c = CHR 0x5C then None
      else sh_read Double (map_option (\<lambda>w. w @ [c]) cur) ws s)"

definition sh_split :: "string \<Rightarrow> string list option" where
  "sh_split s = sh_read Bare None [] s"

lemma safe_char_plain: "safe_char c \<Longrightarrow> c \<noteq> CHR '' '' \<and> c \<noteq> SQ \<and> c \<noteq> DQ"
  by (auto simp: safe_char_def SQ_def DQ_def)

lemma sh_read_safe: "list_all safe_char s \<Longrightarrow> sh_read Bare (Some w) ws (s @ r) = sh_read Bare (Some (w @ s)) ws r"
  by (induction s arbitrary: w) (simp_all add: safe_char_plain)

lemma sh_read_quoted:
  "sh_read Single (Some w) ws (concat (map (\<lambda>c. if c = SQ then [SQ, DQ, SQ, DQ, SQ] else [c]) s) @ SQ # r) = sh_read Bare (Some (w @ s)) ws r"
proof (induction s arbitrary: w)
  case (Cons c s)
  then show ?case by (cases "c = SQ") (simp_all add: SQ_def DQ_def)
qed simp

lemma sh_read_word: "sh_read Bare None ws (shlex_quote s @ r) = sh_read Bare (Some s) ws r"
proof -
  consider "s = []" | "s \<noteq> []" "list_all safe_char s" | "s \<noteq> []" "\<not> list_all safe_char s" by blast
  then show ?thesis
  proof cases
    case 1
    then show ?thesis by (simp add: shlex_quote_def SQ_def)
  next
    case 2
    then obtain c t where "s = c # t" by (cases s) auto
    then show ?thesis using 2 sh_read_safe [of t "[c]" ws r] by (simp add: shlex_quote_def safe_char_plain)
  next
    case 3
    then show ?thesis using sh_read_quoted [of "[]" ws s r] by (simp add: shlex_quote_def SQ_def)
  qed
qed

lemma sh_read_join: "vs \<noteq> [] \<Longrightarrow> sh_read Bare None ws (shlex_join vs) = Some (ws @ vs)"
proof (induction vs arbitrary: ws)
  case (Cons v vs)
  show ?case
  proof (cases vs)
    case Nil
    then show ?thesis using sh_read_word [of ws v "[]"] by (simp add: shlex_join_def)
  next
    case (Cons u us)
    then have j: "shlex_join (v # vs) = shlex_quote v @ CHR '' '' # shlex_join vs" by (simp add: shlex_join_def)
    show ?thesis unfolding j sh_read_word using Cons.IH [of "ws @ [v]"] Cons by simp
  qed
qed simp

text \<open>
  Whatever interpreter path the configuration names, the remote shell runs exactly the intended argument vector: splitting the
  command into words gives \<open>env -u LD_PRELOAD\<close>, the path as one word, and the bootstrap code as one word; no part of
  either is interpreted by the shell.
\<close>

theorem remote_command_words:
  "sh_split (remote_command code python) = Some [''env'', ''-u'', ''LD_PRELOAD'', python, ''-u'', ''-c'', code]"
  unfolding sh_split_def remote_command_def by (subst sh_read_join) simp_all

subsection \<open>Locks are per node\<close>

lemma fold_dset_get:
  "distinct (map fst xs) \<Longrightarrow> dget (fold (\<lambda>(k, v) d. dset d k (f k v)) xs d) k = (case dget xs k of Some v \<Rightarrow> Some (f k v) | None \<Rightarrow> dget d k)"
  by (induction xs arbitrary: d) (auto split: option.splits dest!: map_of_SomeD intro: rev_image_eqI)

lemma build_sessions_lock:
  assumes "distinct (map fst nodes)" "dget (build_sessions b c cmd str_of coll cls ov nodes) l = Some p" "dwf ov" "dget ov ''lock_path'' = Some v"
  shows "dget (sp_probe_cfg p) ''lock_path'' = Some (VStr (str_of v @ ''.'' @ l))"
  using assms by (auto simp: build_sessions_def fold_dset_get node_probe_cfg_def dget_dmerge Let_def split: option.splits)

subsection \<open>Every session is stopped and awaited\<close>

lemma dkeys_dset_known: "k \<in> set (dkeys d) \<Longrightarrow> dkeys (dset d k v) = dkeys d"
  by (simp add: dkeys_dset)

definition fleet_inv :: "string list \<Rightarrow> fleet \<Rightarrow> bool" where
  "fleet_inv ls f \<longleftrightarrow> dkeys (fl_tasks f) = ls \<and> distinct (fl_crashes f) \<and> (\<forall>l \<in> set (fl_crashes f). dget (fl_tasks f) l = Some Ended) \<and>
     (case fl_phase f of
        Waiting \<Rightarrow> fl_stopped f = [] \<and> \<not> fl_cut_short f
      | Stopping rest \<Rightarrow> fl_stopped f @ rest = ls \<and> \<not> fl_cut_short f
      | Draining \<Rightarrow> fl_stopped f = ls \<and> \<not> fl_cut_short f
      | Returned \<Rightarrow> fl_stopped f = ls \<and> (fl_cut_short f \<or> all_ended f))"

lemma dget_known: "dget d k = Some v \<Longrightarrow> k \<in> set (dkeys d)"
  by (metis image_eqI fst_conv map_of_SomeD list.set_map)

lemma fleet_inv_step: "\<lbrakk>fleet_inv ls f; fleet_step f g\<rbrakk> \<Longrightarrow> fleet_inv ls g"
proof (erule fleet_stepE, goal_cases)
  case (6 l ls')
  then have "dkeys (fl_tasks (stop_failed l f)) = dkeys (fl_tasks f)" "fl_crashes (stop_failed l f) = fl_crashes f" "fl_stopped (stop_failed l f) = fl_stopped f"
    "fl_cut_short (stop_failed l f) = fl_cut_short f" "\<And>k. dget (fl_tasks f) k = Some Ended \<Longrightarrow> dget (fl_tasks (stop_failed l f)) k = Some Ended"
    using dget_known [of "fl_tasks f" l Runs] by (auto simp: stop_failed_def dkeys_dset_known simp del: set_map)
  then show ?case using 6 by (simp add: fleet_inv_def)
qed (auto simp: fleet_inv_def end_task_def awaits_def all_ended_def dkeys_dset_known simp del: set_map dest: dget_known split: fleet_phase.splits)

lemma fleet_reachable_inv: "\<lbrakk>fleet_reaches f g; fleet_inv ls f\<rbrakk> \<Longrightarrow> fleet_inv ls g"
  by (induction rule: fleet_reaches.induct) (auto intro: fleet_inv_step)

text \<open>
  C39.  However sessions end, raise or fail to stop, and whether a stop, a timeout or a cancellation of the caller ended the wait: when
  \<open>run_sessions\<close> returns, every session has been told to stop in order, and unless the caller is cancelled while it waits for
  them at the end, every session task has ended; a crash is reported at most once per session, and only for a session that has
  ended.
\<close>

theorem fleet_stops_every_session:
  assumes "fleet_reaches (new_fleet ls) f" "fl_phase f = Returned"
  shows "fl_stopped f = ls \<and> (fl_cut_short f \<or> (\<forall>l \<in> set ls. \<forall>t. (l, t) \<in> set (fl_tasks f) \<longrightarrow> t = Ended)) \<and>
    distinct (fl_crashes f) \<and> (\<forall>l \<in> set (fl_crashes f). dget (fl_tasks f) l = Some Ended)"
proof -
  have "fleet_inv ls (new_fleet ls)" by (simp add: fleet_inv_def new_fleet_def comp_def)
  from fleet_reachable_inv [OF assms(1) this] assms(2) show ?thesis by (auto simp: fleet_inv_def all_ended_def list_all_iff)
qed

text \<open>
  Cancelled while it waits for the sessions at the end, the caller returns although a session still runs: \<open>asyncio.wait\<close>
  gives up at once.
\<close>

theorem fleet_cut_short_leaves_session:
  "\<exists>f. fleet_reaches (new_fleet [''a'']) f \<and> fl_phase f = Returned \<and> dget (fl_tasks f) ''a'' = Some Runs"
proof -
  let ?f0 = "new_fleet [''a'']"
  let ?f1 = "?f0\<lparr>fl_phase := Stopping [''a'']\<rparr>"
  let ?f2 = "?f1\<lparr>fl_phase := Stopping [], fl_stopped := [''a'']\<rparr>"
  let ?f3 = "?f2\<lparr>fl_phase := Draining\<rparr>"
  let ?f4 = "?f3\<lparr>fl_phase := Returned, fl_cut_short := True\<rparr>"
  have "fleet_step ?f0 ?f1" using fleet_step.stop_or_timeout [of ?f0] by (simp add: new_fleet_def)
  moreover have "fleet_step ?f1 ?f2" using fleet_step.stop_one [of ?f1 "''a''" "[]"] by (simp add: new_fleet_def)
  moreover have "fleet_step ?f2 ?f3" using fleet_step.all_stopped [of ?f2] by (simp add: new_fleet_def)
  moreover have "fleet_step ?f3 ?f4" using fleet_step.cancelled_again [of ?f3] by (simp add: new_fleet_def)
  ultimately have "fleet_reaches ?f0 ?f4" by (meson fleet_reaches.intros)
  then show ?thesis by (intro exI [of _ ?f4]) (simp add: new_fleet_def)
qed

theorem fleet_stops_every_session_witness:
  "\<exists>f. fleet_reaches (new_fleet [''a'']) f \<and> fl_phase f = Returned \<and> fl_stopped f = [''a''] \<and> \<not> fl_cut_short f \<and> fl_crashes f = [''a'']"
proof -
  let ?f0 = "new_fleet [''a'']"
  let ?f1 = "(end_task ''a'' ?f0)\<lparr>fl_crashes := [''a'']\<rparr>"
  let ?f2 = "?f1\<lparr>fl_phase := Stopping [''a'']\<rparr>"
  let ?f3 = "?f2\<lparr>fl_phase := Stopping [], fl_stopped := [''a'']\<rparr>"
  let ?f4 = "?f3\<lparr>fl_phase := Draining\<rparr>"
  let ?f5 = "?f4\<lparr>fl_phase := Returned\<rparr>"
  have "fleet_step ?f0 ?f1" using fleet_step.session_raises [of ?f0 "''a''"] by (simp add: new_fleet_def awaits_def)
  moreover have "fleet_step ?f1 ?f2" using fleet_step.caller_cancelled [of ?f1] by (simp add: new_fleet_def end_task_def)
  moreover have "fleet_step ?f2 ?f3" using fleet_step.stop_one [of ?f2 "''a''" "[]"] by (simp add: new_fleet_def end_task_def)
  moreover have "fleet_step ?f3 ?f4" using fleet_step.all_stopped [of ?f3] by (simp add: new_fleet_def end_task_def)
  moreover have "fleet_step ?f4 ?f5" using fleet_step.drained [of ?f4] by (simp add: new_fleet_def end_task_def all_ended_def)
  ultimately have r: "fleet_reaches ?f0 ?f5" by (meson fleet_reaches.intros)
  have ph: "fl_phase ?f5 = Returned" "\<not> fl_cut_short ?f5" "fl_crashes ?f5 = [''a'']" by (simp_all add: new_fleet_def end_task_def)
  with fleet_stops_every_session [OF r ph(1)] r show ?thesis by blast
qed

subsection \<open>The ssh configuration is replaced as a whole\<close>

lemma write_ssh_config_atomic:
  assumes "write_ssh_config tmp fault lines d = (ok, d')" "tmp \<noteq> ''ssh_config''"
  shows "sd_mode d' = 448 \<and> dget (sd_entries d') tmp = None \<and>
    dget (sd_entries d') ''ssh_config'' = (if ok then Some (384, join [CHR 0x0A] lines @ [CHR 0x0A]) else dget (sd_entries d) ''ssh_config'') \<and>
    (ok \<longleftrightarrow> fault = AllWorks)"
  using assms by (auto simp: write_ssh_config_def Let_def split: if_splits)

end
