(* ===== verification/Db_Bootstrap.thy ===== *)
theory Db_Bootstrap
  imports Regex Records
begin

text \<open>
  Creating the roles, the database and the schema (\<open>database/bootstrap.py\<close>), and the owner check of \<open>database migrate\<close>
  (\<open>cli/main.py\<close>).  The server is state: its roles, its databases with who may connect and their settings, and
  in each schema the tables with who may read them.  Statements run in autocommit, so a run that fails keeps what it has
  done.  Rewriting the connection URL to name the database is left out.
\<close>

subsection \<open>The server\<close>

record db_table =
  dt_name :: string
  dt_owner :: string
  dt_select :: "string list"

record db_schema =
  dn_owner :: string
  dn_usage :: "string list"
  dn_default_select :: "(string \<times> string) list"
  dn_tables :: "db_table list"

record pg_database =
  pd_owner :: string
  pd_connect :: "string list"
  pd_public_connect :: bool
  pd_public_temp :: bool
  pd_search_path :: "string option"
  pd_timezone :: "string option"
  pd_schemas :: "(string, db_schema) dict"

record server =
  sv_roles :: "string list"
  sv_dbs :: "(string, pg_database) dict"

definition SCHEMA :: string where "SCHEMA = ''node_monitor''"

text \<open>\<open>^[a-z_][a-z0-9_]*$\<close>, where the dollar also matches before a last newline.\<close>

definition lower_or_us :: "char \<Rightarrow> bool" where
  "lower_or_us c \<longleftrightarrow> (let n = of_char c :: nat in 97 \<le> n \<and> n \<le> 122) \<or> c = CHR ''_''"

definition plain_name :: "string \<Rightarrow> bool" where
  "plain_name s \<longleftrightarrow> (case s of [] \<Rightarrow> False | c # t \<Rightarrow> lower_or_us c \<and> list_all (\<lambda>c. lower_or_us c \<or> (let n = of_char c :: nat in 48 \<le> n \<and> n \<le> 57)) t)"

definition check_name :: "string \<Rightarrow> bool" where
  "check_name s \<longleftrightarrow> plain_name s \<or> s \<noteq> [] \<and> last s = CHR 0x0A \<and> plain_name (butlast s)"

subsection \<open>Statements\<close>

definition add_once :: "'a \<Rightarrow> 'a list \<Rightarrow> 'a list" where
  "add_once x xs = (if x \<in> set xs then xs else xs @ [x])"

definition on_db :: "string \<Rightarrow> (pg_database \<Rightarrow> pg_database) \<Rightarrow> server \<Rightarrow> server" where
  "on_db name f sv = (case dget (sv_dbs sv) name of None \<Rightarrow> sv | Some d \<Rightarrow> sv\<lparr>sv_dbs := dset (sv_dbs sv) name (f d)\<rparr>)"

definition on_schema :: "(db_schema \<Rightarrow> db_schema) \<Rightarrow> pg_database \<Rightarrow> pg_database" where
  "on_schema f d = (case dget (pd_schemas d) SCHEMA of None \<Rightarrow> d | Some n \<Rightarrow> d\<lparr>pd_schemas := dset (pd_schemas d) SCHEMA (f n)\<rparr>)"

datatype statement =
    CreateRole string
  | CreateDatabase string string
  | RevokePublic string
  | GrantConnect string string
  | SetSearchPath string
  | SetTimezone string
  | CreateSchema string string
  | GrantUsage string string
  | DefaultSelect string string string
  | GrantSelect string string

text \<open>A new database lets everybody connect and make temporary tables.\<close>

definition fresh_database :: "string \<Rightarrow> pg_database" where
  "fresh_database owner = \<lparr>pd_owner = owner, pd_connect = [], pd_public_connect = True, pd_public_temp = True, pd_search_path = None,
     pd_timezone = None, pd_schemas = []\<rparr>"

fun execute :: "statement \<Rightarrow> server \<Rightarrow> server \<times> string list" where
  "execute (CreateRole r) sv =
     (if r \<in> set (sv_roles sv) then (sv, []) else (sv\<lparr>sv_roles := sv_roles sv @ [r]\<rparr>, [''created role '' @ r]))"
| "execute (CreateDatabase db own) sv =
     (case dget (sv_dbs sv) db of
        Some _ \<Rightarrow> (sv, [])
      | None \<Rightarrow> (sv\<lparr>sv_dbs := dset (sv_dbs sv) db (fresh_database own)\<rparr>, [''created database '' @ db]))"
| "execute (RevokePublic db) sv = (on_db db (\<lambda>d. d\<lparr>pd_public_connect := False, pd_public_temp := False\<rparr>) sv, [])"
| "execute (GrantConnect db r) sv = (on_db db (\<lambda>d. d\<lparr>pd_connect := add_once r (pd_connect d)\<rparr>) sv, [])"
| "execute (SetSearchPath db) sv = (on_db db (\<lambda>d. d\<lparr>pd_search_path := Some ''node_monitor, public''\<rparr>) sv, [])"
| "execute (SetTimezone db) sv = (on_db db (\<lambda>d. d\<lparr>pd_timezone := Some ''UTC''\<rparr>) sv, [])"
| "execute (CreateSchema db own) sv =
     (case dget (sv_dbs sv) db of
        None \<Rightarrow> (sv, [])
      | Some d \<Rightarrow>
          (case dget (pd_schemas d) SCHEMA of
             Some _ \<Rightarrow> (sv, [])
           | None \<Rightarrow> (on_db db (\<lambda>d. d\<lparr>pd_schemas := dset (pd_schemas d) SCHEMA \<lparr>dn_owner = own, dn_usage = [], dn_default_select = [], dn_tables = []\<rparr>\<rparr>) sv,
               [''created schema '' @ SCHEMA])))"
| "execute (GrantUsage db r) sv = (on_db db (on_schema (\<lambda>n. n\<lparr>dn_usage := add_once r (dn_usage n)\<rparr>)) sv, [])"
| "execute (DefaultSelect db own r) sv = (on_db db (on_schema (\<lambda>n. n\<lparr>dn_default_select := add_once (own, r) (dn_default_select n)\<rparr>)) sv, [])"
| "execute (GrantSelect db r) sv =
     (on_db db (on_schema (\<lambda>n. n\<lparr>dn_tables := map (\<lambda>t. t\<lparr>dt_select := add_once r (dt_select t)\<rparr>) (dn_tables n)\<rparr>)) sv, [])"

definition bootstrap_plan :: "string \<Rightarrow> string \<Rightarrow> string \<Rightarrow> statement list" where
  "bootstrap_plan db own rd =
     [CreateRole own, CreateRole rd, CreateDatabase db own, RevokePublic db, GrantConnect db own, GrantConnect db rd,
      SetSearchPath db, SetTimezone db, CreateSchema db own, GrantUsage db rd, DefaultSelect db own rd, GrantSelect db rd]"

text \<open>A script: its steps in order, each with what it reports.\<close>

fun run_script :: "('s \<Rightarrow> 'v \<Rightarrow> 'v \<times> 'a list) \<Rightarrow> 's list \<Rightarrow> 'v \<Rightarrow> 'v \<times> 'a list" where
  "run_script exec [] v = (v, [])"
| "run_script exec (s # ss) v = (case exec s v of (v, a) \<Rightarrow> case run_script exec ss v of (v, b) \<Rightarrow> (v, a @ b))"

definition execute_all :: "statement list \<Rightarrow> server \<Rightarrow> server \<times> string list" where
  "execute_all ss sv = run_script execute ss sv"

text \<open>A run in which the statement after the first \<open>k\<close> fails; with enough of them it completes.\<close>

definition bootstrap :: "nat \<Rightarrow> string \<Rightarrow> string \<Rightarrow> string \<Rightarrow> server \<Rightarrow> (server \<times> string list) res" where
  "bootstrap k db own rd sv =
     (if \<not> (check_name db \<and> check_name own \<and> check_name rd) then Inl (ValueError ''invalid name'')
      else Inr (execute_all (take k (bootstrap_plan db own rd)) sv))"

subsection \<open>Migrating as the owner\<close>

text \<open>\<open>_check_schema_owner\<close>: a message to refuse with, or nothing.\<close>

definition check_schema_owner :: "string \<Rightarrow> pg_database \<Rightarrow> string option" where
  "check_schema_owner user d =
     (case dget (pd_schemas d) SCHEMA of
        None \<Rightarrow> Some (''schema '' @ SCHEMA @ '' does not exist; run `node-monitor database bootstrap` first'')
      | Some n \<Rightarrow>
          if dn_owner n \<noteq> user
          then Some (''database migrate must run as the owner of schema '' @ SCHEMA @ '' ('' @ dn_owner n @ ''), not '' @ user @
            '': use the owner-role URL in database.url'')
          else None)"

text \<open>A table created by a role gets the default privileges that role has set.\<close>

definition create_table :: "string \<Rightarrow> string \<Rightarrow> db_schema \<Rightarrow> db_schema" where
  "create_table user name n =
     n\<lparr>dn_tables := dn_tables n @ [\<lparr>dt_name = name, dt_owner = user, dt_select = map snd (filter (\<lambda>(o', _). o' = user) (dn_default_select n))\<rparr>]\<rparr>"

definition migrate_tables :: "string \<Rightarrow> string list \<Rightarrow> pg_database \<Rightarrow> string + pg_database" where
  "migrate_tables user names d =
     (case check_schema_owner user d of Some m \<Rightarrow> Inl m | None \<Rightarrow> Inr (on_schema (\<lambda>n. fold (create_table user) names n) d))"

subsection \<open>What each statement establishes\<close>

definition db_has :: "string \<Rightarrow> (pg_database \<Rightarrow> bool) \<Rightarrow> server \<Rightarrow> bool" where
  "db_has name P sv \<longleftrightarrow> (case dget (sv_dbs sv) name of None \<Rightarrow> False | Some d \<Rightarrow> P d)"

definition schema_has :: "(db_schema \<Rightarrow> bool) \<Rightarrow> pg_database \<Rightarrow> bool" where
  "schema_has P d \<longleftrightarrow> (case dget (pd_schemas d) SCHEMA of None \<Rightarrow> False | Some n \<Rightarrow> P n)"

fun established :: "statement \<Rightarrow> server \<Rightarrow> bool" where
  "established (CreateRole r) sv \<longleftrightarrow> r \<in> set (sv_roles sv)"
| "established (CreateDatabase db _) sv \<longleftrightarrow> db_has db (\<lambda>_. True) sv"
| "established (RevokePublic db) sv \<longleftrightarrow> db_has db (\<lambda>d. \<not> pd_public_connect d \<and> \<not> pd_public_temp d) sv"
| "established (GrantConnect db r) sv \<longleftrightarrow> db_has db (\<lambda>d. r \<in> set (pd_connect d)) sv"
| "established (SetSearchPath db) sv \<longleftrightarrow> db_has db (\<lambda>d. pd_search_path d = Some ''node_monitor, public'') sv"
| "established (SetTimezone db) sv \<longleftrightarrow> db_has db (\<lambda>d. pd_timezone d = Some ''UTC'') sv"
| "established (CreateSchema db _) sv \<longleftrightarrow> db_has db (schema_has (\<lambda>_. True)) sv"
| "established (GrantUsage db r) sv \<longleftrightarrow> db_has db (schema_has (\<lambda>n. r \<in> set (dn_usage n))) sv"
| "established (DefaultSelect db own r) sv \<longleftrightarrow> db_has db (schema_has (\<lambda>n. (own, r) \<in> set (dn_default_select n))) sv"
| "established (GrantSelect db r) sv \<longleftrightarrow> db_has db (schema_has (\<lambda>n. list_all (\<lambda>t. r \<in> set (dt_select t)) (dn_tables n))) sv"

lemma dset_same: "dget d k = Some v \<Longrightarrow> dset d k v = d"
  by (induction d) auto

lemma set_add_once [simp]: "set (add_once x xs) = insert x (set xs)"
  by (auto simp: add_once_def)

lemma db_has_on_db: "db_has name P (on_db name' f sv) \<longleftrightarrow> (if name = name' then db_has name (\<lambda>d. P (f d)) sv else db_has name P sv)"
  by (auto simp: db_has_def on_db_def split: option.splits)

lemma on_db_same: "db_has name (\<lambda>d. f d = d) sv \<Longrightarrow> on_db name f sv = sv"
  by (auto simp: db_has_def on_db_def dset_same split: option.splits)

lemma on_schema_same: "schema_has (\<lambda>n. f n = n) d \<Longrightarrow> on_schema f d = d"
  by (auto simp: schema_has_def on_schema_def dset_same split: option.splits)

lemma schema_has_on_schema: "schema_has P (on_schema f d) \<longleftrightarrow> schema_has (\<lambda>n. P (f n)) d"
  by (auto simp: schema_has_def on_schema_def split: option.splits)

lemma db_has_mono: "db_has name P sv \<Longrightarrow> (\<And>d. P d \<Longrightarrow> Q d) \<Longrightarrow> db_has name Q sv"
  by (auto simp: db_has_def split: option.splits)

lemma schema_has_mono: "schema_has P d \<Longrightarrow> (\<And>n. P n \<Longrightarrow> Q n) \<Longrightarrow> schema_has Q d"
  by (auto simp: schema_has_def split: option.splits)

lemma established_noop: "established s sv \<Longrightarrow> execute s sv = (sv, [])"
proof (cases s)
  case (GrantSelect db r)
  assume "established s sv"
  then have "db_has db (schema_has (\<lambda>n. n\<lparr>dn_tables := map (\<lambda>t. t\<lparr>dt_select := add_once r (dt_select t)\<rparr>) (dn_tables n)\<rparr> = n)) sv"
    unfolding GrantSelect established.simps by (elim db_has_mono schema_has_mono) (auto simp: list_all_iff add_once_def map_idI)
  then show ?thesis unfolding GrantSelect execute.simps by (subst on_db_same) (auto elim: db_has_mono intro: on_schema_same)
qed (auto simp: db_has_def schema_has_def on_db_def on_schema_def add_once_def dset_same split: option.splits)

lemma execute_preserves: "established s sv \<Longrightarrow> established s (fst (execute s' sv))"
proof (cases s')
  case (CreateRole r)
  assume "established s sv"
  then show ?thesis using CreateRole by (cases s) (auto simp: db_has_def)
next
  case (CreateDatabase db own)
  assume "established s sv"
  then show ?thesis using CreateDatabase by (cases s) (auto simp: db_has_def split: option.splits)
next
  case (CreateSchema db own)
  assume "established s sv"
  then show ?thesis using CreateSchema by (cases s) (auto simp: db_has_def schema_has_def on_db_def split: option.splits)
next
  case (GrantSelect db r)
  assume "established s sv"
  then show ?thesis using GrantSelect
    by (cases s) (auto simp: db_has_def schema_has_def on_db_def on_schema_def list_all_iff split: option.splits)
qed (cases s; auto simp: db_has_def schema_has_def on_db_def on_schema_def split: option.splits)+

text \<open>What a statement needs: its database, and for a grant in the schema the schema.\<close>

fun needs :: "statement \<Rightarrow> server \<Rightarrow> bool" where
  "needs (CreateRole _) sv = True"
| "needs (CreateDatabase _ _) sv = True"
| "needs (GrantUsage db _) sv = db_has db (schema_has (\<lambda>_. True)) sv"
| "needs (DefaultSelect db _ _) sv = db_has db (schema_has (\<lambda>_. True)) sv"
| "needs (GrantSelect db _) sv = db_has db (schema_has (\<lambda>_. True)) sv"
| "needs (RevokePublic db) sv = db_has db (\<lambda>_. True) sv"
| "needs (GrantConnect db _) sv = db_has db (\<lambda>_. True) sv"
| "needs (SetSearchPath db) sv = db_has db (\<lambda>_. True) sv"
| "needs (SetTimezone db) sv = db_has db (\<lambda>_. True) sv"
| "needs (CreateSchema db _) sv = db_has db (\<lambda>_. True) sv"

lemma execute_establishes: "needs s sv \<Longrightarrow> established s (fst (execute s sv))"
  by (cases s) (auto simp: db_has_def schema_has_def on_db_def on_schema_def list_all_iff split: option.splits)

subsection \<open>Scripts that can be resumed\<close>

text \<open>
  What makes a script safe to repeat: each step establishes a fact, given what it needs; no step undoes a fact; and a
  step whose fact holds does nothing and reports nothing.
\<close>

locale resumable =
  fixes exec :: "'s \<Rightarrow> 'v \<Rightarrow> 'v \<times> 'a list"
    and holds :: "'s \<Rightarrow> 'v \<Rightarrow> bool"
    and requires :: "'s \<Rightarrow> 'v \<Rightarrow> bool"
  assumes noop: "holds s v \<Longrightarrow> exec s v = (v, [])"
    and keeps: "holds s v \<Longrightarrow> holds s (fst (exec s' v))"
    and makes: "requires s v \<Longrightarrow> holds s (fst (exec s v))"
begin

lemma run_append:
  "run_script exec (a @ b) v = (case run_script exec a v of (v, x) \<Rightarrow> case run_script exec b v of (v, y) \<Rightarrow> (v, x @ y))"
  by (induction a arbitrary: v) (auto split: prod.splits)

lemma run_noop: "(\<And>s. s \<in> set ss \<Longrightarrow> holds s v) \<Longrightarrow> run_script exec ss v = (v, [])"
  by (induction ss) (simp_all add: noop)

fun ordered :: "'s list \<Rightarrow> 's list \<Rightarrow> bool" where
  "ordered seen [] = True"
| "ordered seen (s # ss) = ((\<forall>v. (\<forall>t \<in> set seen. holds t v) \<longrightarrow> requires s v) \<and> ordered (s # seen) ss)"

lemma ordered_take: "ordered seen ss \<Longrightarrow> ordered seen (take k ss)"
  by (induction seen ss arbitrary: k rule: ordered.induct) (auto simp: take_Cons split: nat.splits)

lemma run_makes:
  "\<lbrakk>ordered seen ss; \<forall>t \<in> set seen. holds t v\<rbrakk> \<Longrightarrow> \<forall>t \<in> set seen \<union> set ss. holds t (fst (run_script exec ss v))"
proof (induction ss arbitrary: seen v)
  case (Cons s ss)
  have "\<forall>t \<in> set (s # seen). holds t (fst (exec s v))" using Cons.prems by (auto intro: makes keeps)
  with Cons.IH [of "s # seen" "fst (exec s v)"] Cons.prems(1) show ?case by (auto split: prod.splits)
qed simp

lemma resumes:
  assumes "run_script exec (take k ss) v = (v1, a1)" "run_script exec ss v1 = (v2, a2)" "ordered [] ss"
  shows "run_script exec ss v = (v2, a1 @ a2)" "run_script exec ss v2 = (v2, [])"
proof -
  have "\<forall>t \<in> set (take k ss). holds t v1" using run_makes [OF ordered_take [OF assms(3)], of v k] assms(1) by simp
  then have "run_script exec (take k ss) v1 = (v1, [])" by (intro run_noop) auto
  then have "run_script exec (drop k ss) v1 = (v2, a2)"
    using assms(2) run_append [of "take k ss" "drop k ss" v1] by (auto split: prod.splits)
  then show "run_script exec ss v = (v2, a1 @ a2)" using assms(1) run_append [of "take k ss" "drop k ss" v] by simp
  have "\<forall>t \<in> set ss. holds t v2" using run_makes [OF assms(3), of v1] assms(2) by simp
  then show "run_script exec ss v2 = (v2, [])" by (intro run_noop) auto
qed

end

interpretation pg: resumable execute established needs
  by unfold_locales (auto intro: established_noop execute_preserves execute_establishes)

lemma bootstrap_plan_ordered: "pg.ordered [] (bootstrap_plan db own rd)"
  by (simp add: bootstrap_plan_def)

text \<open>What the collector and its readers rely on.\<close>

definition usable_schema :: "string \<Rightarrow> string \<Rightarrow> db_schema \<Rightarrow> bool" where
  "usable_schema own rd n \<longleftrightarrow> rd \<in> set (dn_usage n) \<and> (own, rd) \<in> set (dn_default_select n) \<and> list_all (\<lambda>t. rd \<in> set (dt_select t)) (dn_tables n)"

definition usable_db :: "string \<Rightarrow> string \<Rightarrow> pg_database \<Rightarrow> bool" where
  "usable_db own rd d \<longleftrightarrow> \<not> pd_public_connect d \<and> own \<in> set (pd_connect d) \<and> rd \<in> set (pd_connect d) \<and> schema_has (usable_schema own rd) d"

lemma plan_usable: "list_all (\<lambda>s. established s sv) (bootstrap_plan db own rd) \<Longrightarrow>
    own \<in> set (sv_roles sv) \<and> rd \<in> set (sv_roles sv) \<and> db_has db (usable_db own rd) sv"
  by (auto simp: bootstrap_plan_def db_has_def schema_has_def usable_db_def usable_schema_def split: option.splits)

text \<open>
  C40.  \<open>database bootstrap\<close> can be repeated and resumed: a run that fails after any number of statements, followed by a complete run, leaves
  the server exactly as one complete run would and reports together the same creations; running it once more changes nothing
  and reports nothing; and afterwards both roles exist, the public cannot connect, and the reader may read every table that
  exists and every table the owner will create.
\<close>

theorem bootstrap_resumable:
  assumes "bootstrap k db own rd sv = Inr (sv1, a1)" "bootstrap 12 db own rd sv1 = Inr (sv2, a2)"
  shows "bootstrap 12 db own rd sv = Inr (sv2, a1 @ a2) \<and> bootstrap 12 db own rd sv2 = Inr (sv2, []) \<and>
    own \<in> set (sv_roles sv2) \<and> rd \<in> set (sv_roles sv2) \<and> db_has db (usable_db own rd) sv2"
proof -
  let ?ss = "bootstrap_plan db own rd"
  have all: "take 12 ?ss = ?ss" by (simp add: bootstrap_plan_def)
  have ok: "check_name db \<and> check_name own \<and> check_name rd" using assms(1) by (auto simp: bootstrap_def split: if_splits)
  have e: "execute_all (take k ?ss) sv = (sv1, a1)" "execute_all ?ss sv1 = (sv2, a2)" using assms ok by (auto simp: bootstrap_def all)
  note r = pg.resumes [OF e [unfolded execute_all_def] bootstrap_plan_ordered]
  have "list_all (\<lambda>s. established s sv2) ?ss"
    using pg.run_makes [OF bootstrap_plan_ordered, of sv1 db own rd] e(2) by (simp add: list_all_iff execute_all_def)
  from plan_usable [OF this] r ok show ?thesis by (simp add: bootstrap_def all execute_all_def)
qed

theorem bootstrap_resumable_witness:
  "\<exists>sv. bootstrap 12 ''nm'' ''own'' ''rd'' \<lparr>sv_roles = [''own''], sv_dbs = []\<rparr> =
      Inr (sv, [''created role rd'', ''created database nm'', ''created schema node_monitor'']) \<and> db_has ''nm'' (usable_db ''own'' ''rd'') sv"
proof -
  let ?s = "\<lparr>sv_roles = [''own''], sv_dbs = []\<rparr>"
  let ?s1 = "\<lparr>sv_roles = [''own'', ''rd''], sv_dbs = [(''nm'', fresh_database ''own'')]\<rparr>"
  have names: "check_name ''nm'' \<and> check_name ''own'' \<and> check_name ''rd''"
    by (simp add: check_name_def plain_name_def lower_or_us_def)
  have a: "bootstrap 3 ''nm'' ''own'' ''rd'' ?s = Inr (?s1, [''created role rd'', ''created database nm''])"
    using names by (simp add: bootstrap_def execute_all_def bootstrap_plan_def numeral_3_eq_3)
  obtain sv where b: "bootstrap 12 ''nm'' ''own'' ''rd'' ?s1 = Inr (sv, [''created schema node_monitor''])"
    using names by (simp add: bootstrap_def execute_all_def bootstrap_plan_def fresh_database_def on_db_def SCHEMA_def)
  from bootstrap_resumable [OF a b] show ?thesis by auto
qed

lemma create_tables_usable: "usable_schema own rd n \<Longrightarrow> usable_schema own rd (fold (create_table own) names n)"
proof (induction names arbitrary: n)
  case (Cons a names)
  have "usable_schema own rd (create_table own a n)" using Cons.prems by (force simp: usable_schema_def create_table_def)
  with Cons.IH show ?case by simp
qed simp

text \<open>
  Migrations run after a bootstrap never hide a table from the readers: \<open>database migrate\<close> refuses to run as anybody but the owner of
  the schema, and the tables the owner creates are readable by the reader role without a further grant.
\<close>

theorem migrated_tables_readable:
  assumes "usable_db own rd d" "schema_has (\<lambda>n. dn_owner n = own) d"
  shows "(\<forall>user d'. migrate_tables user names d = Inr d' \<longrightarrow> user = own \<and> usable_db own rd d') \<and>
    (\<forall>user. user \<noteq> own \<longrightarrow> (\<exists>m. migrate_tables user names d = Inl m)) \<and> (\<exists>d'. migrate_tables own names d = Inr d')"
proof -
  obtain n where n: "dget (pd_schemas d) SCHEMA = Some n" "dn_owner n = own" "usable_schema own rd n"
    using assms by (auto simp: usable_db_def schema_has_def split: option.splits)
  have "usable_db own rd (on_schema (\<lambda>n. fold (create_table own) names n) d)"
    using assms(1) create_tables_usable [of own rd _ names]
    by (auto simp: usable_db_def schema_has_on_schema elim: schema_has_mono) (auto simp: on_schema_def n)
  then show ?thesis using n by (auto simp: migrate_tables_def check_schema_owner_def split: if_splits option.splits)
qed

definition demo_schema :: db_schema where
  "demo_schema = \<lparr>dn_owner = ''own'', dn_usage = [''rd''], dn_default_select = [(''own'', ''rd'')], dn_tables = []\<rparr>"

theorem migrated_tables_readable_witness:
  "let d = (fresh_database ''own'')\<lparr>pd_connect := [''own'', ''rd''], pd_public_connect := False, pd_schemas := [(SCHEMA, demo_schema)]\<rparr> in
   (\<exists>m. migrate_tables ''eve'' [''t''] d = Inl m) \<and> (\<exists>d'. migrate_tables ''own'' [''t''] d = Inr d' \<and> usable_db ''own'' ''rd'' d')"
proof -
  let ?d = "(fresh_database ''own'')\<lparr>pd_connect := [''own'', ''rd''], pd_public_connect := False, pd_schemas := [(SCHEMA, demo_schema)]\<rparr>"
  have "usable_db ''own'' ''rd'' ?d" "schema_has (\<lambda>n. dn_owner n = ''own'') ?d"
    by (simp_all add: usable_db_def schema_has_def usable_schema_def demo_schema_def)
  from migrated_tables_readable [OF this, of "[''t'']"] show ?thesis unfolding Let_def by auto
qed

end
