(* ===== verification/Queries.thy ===== *)
theory Queries
  imports Records "HOL-Library.List_Lexorder" "HOL-Library.Char_ord"
begin

text \<open>
  The read queries (\<open>database/queries.py\<close>).  The live tables are lists of rows in the order the server scans
  them, with \<open>NULL\<close> as \<open>None\<close>; numbers are exact, and a time is its instant in microseconds.  A \<open>WHERE\<close> clause
  keeps a row when it is true, so an unknown condition drops it; text is compared by code point (the database
  is created with the \<open>C.UTF-8\<close> locale).  The database's clock \<open>now()\<close> is an argument.
\<close>

subsection \<open>Tables\<close>

record live_process =
  lp_system :: string
  lp_node :: string
  lp_ts :: int
  lp_pid :: int
  lp_start_time :: int
  lp_username :: "string option"
  lp_cmdline :: "string option"
  lp_category :: "string option"
  lp_activity :: "string option"
  lp_state :: "string option"
  lp_threads :: "int option"
  lp_rss_kb :: "int option"
  lp_cpu_seconds :: "rat option"
  lp_cpu_state :: "string option"
  lp_gpu_mem_mb :: "rat option"
  lp_idle_for_sec :: "rat option"
  lp_idle_lower :: "bool option"
  lp_idle_bucket :: "string option"
  lp_presence :: "string option"
  lp_is_user :: "bool option"

record node_live_row =
  ln_system :: string
  ln_node :: string
  ln_label :: "string option"
  ln_updated_at :: int
  ln_session_state :: string
  ln_boot_id :: "string option"
  ln_probe_version :: "int option"
  ln_load1 :: "rat option"
  ln_mem_used_kb :: "int option"
  ln_mem_total_kb :: "int option"
  ln_procs_total :: "int option"
  ln_last_census_at :: "int option"

record heartbeat_row =
  hr_system :: string
  hr_collector_host :: string
  hr_version :: string
  hr_started_at :: int
  hr_last_seen :: int
  hr_status :: "row option"

record live_db =
  ld_processes :: "live_process list"
  ld_snapshots :: "((string \<times> string) \<times> int) list"
  ld_live_nodes :: "node_live_row list"
  ld_nodes :: "((string \<times> string) \<times> string option) list"
  ld_heartbeats :: "heartbeat_row list"

definition heartbeat_query :: "live_db \<Rightarrow> string \<Rightarrow> heartbeat_row option" where
  "heartbeat_query db system = find (\<lambda>h. hr_system h = system) (ld_heartbeats db)"

subsection \<open>Joins and conditions\<close>

text \<open>\<open>LEFT JOIN\<close> on the primary key \<open>(system, node)\<close>.\<close>

definition live_label :: "live_db \<Rightarrow> string \<Rightarrow> string \<Rightarrow> string option" where
  "live_label db system node =
     (case find (\<lambda>r. ln_system r = system \<and> ln_node r = node) (ld_live_nodes db) of None \<Rightarrow> None | Some r \<Rightarrow> ln_label r)"

definition inventory_label :: "live_db \<Rightarrow> string \<Rightarrow> string \<Rightarrow> string option" where
  "inventory_label db system node = (case dget (ld_nodes db) (system, node) of None \<Rightarrow> None | Some l \<Rightarrow> l)"

fun coalesce :: "'a option list \<Rightarrow> 'a option" where
  "coalesce [] = None"
| "coalesce (None # xs) = coalesce xs"
| "coalesce (Some x # xs) = Some x"

text \<open>\<open>COALESCE(ln.label, n.label)\<close>, and with \<open>p.node\<close> as the last resort.\<close>

definition known_label :: "live_db \<Rightarrow> string \<Rightarrow> string \<Rightarrow> string option" where
  "known_label db system node = coalesce [live_label db system node, inventory_label db system node]"

definition shown_label :: "live_db \<Rightarrow> string \<Rightarrow> string \<Rightarrow> string" where
  "shown_label db system node = the (coalesce [live_label db system node, inventory_label db system node, Some node])"

text \<open>An SQL equality with a parameter is true only of a value that is not null.\<close>

definition is_value :: "'a option \<Rightarrow> 'a \<Rightarrow> bool" where
  "is_value x v \<longleftrightarrow> x = Some v"

definition on_node :: "live_db \<Rightarrow> string \<Rightarrow> live_process \<Rightarrow> bool" where
  "on_node db node p \<longleftrightarrow> lp_node p = node \<or> is_value (known_label db (lp_system p) (lp_node p)) node"

definition fresh :: "live_db \<Rightarrow> int \<Rightarrow> rat \<Rightarrow> live_process \<Rightarrow> bool" where
  "fresh db now max_age p \<longleftrightarrow>
     list_ex (\<lambda>(k, ts). k = (lp_system p, lp_node p) \<and> of_int now - max_age * 1000000 \<le> of_int ts) (ld_snapshots db)"

subsection \<open>Stale nodes\<close>

definition stale_process_nodes :: "live_db \<Rightarrow> int \<Rightarrow> string \<Rightarrow> rat \<Rightarrow> string option \<Rightarrow> string list" where
  "stale_process_nodes db now system max_age node =
     sort (remdups (map (\<lambda>p. shown_label db (lp_system p) (lp_node p))
       (filter (\<lambda>p. lp_system p = system \<and> \<not> fresh db now max_age p \<and> (case node of None \<Rightarrow> True | Some n \<Rightarrow> on_node db n p))
         (ld_processes db))))"

subsection \<open>Node states\<close>

record node_state_row =
  ns_row :: node_live_row
  ns_label :: string
  ns_user_processes :: nat
  ns_users :: nat

definition user_procs :: "live_db \<Rightarrow> string \<Rightarrow> string \<Rightarrow> live_process list" where
  "user_procs db system node =
     filter (\<lambda>p. lp_is_user p = Some True \<and> lp_system p = system \<and> lp_node p = node) (ld_processes db)"

text \<open>\<open>count(DISTINCT x)\<close> leaves out nulls.\<close>

definition count_distinct :: "'a option list \<Rightarrow> nat" where
  "count_distinct xs = length (remdups (filter (\<lambda>x. x \<noteq> None) xs))"

definition node_states :: "live_db \<Rightarrow> string \<Rightarrow> node_state_row list" where
  "node_states db system =
     sort_key ns_label (sort_key (\<lambda>r. ln_node (ns_row r))
       (map (\<lambda>r. let ps = user_procs db (ln_system r) (ln_node r) in
           \<lparr>ns_row = r, ns_label = the (coalesce [ln_label r, inventory_label db (ln_system r) (ln_node r), Some (ln_node r)]),
            ns_user_processes = length ps, ns_users = count_distinct (map lp_username ps)\<rparr>)
         (filter (\<lambda>r. ln_system r = system) (ld_live_nodes db))))"

subsection \<open>Sorting\<close>

definition PROCESS_SORTS :: "(string, live_process \<Rightarrow> rat option) dict" where
  "PROCESS_SORTS = [(''cpu'', lp_cpu_seconds), (''rss'', \<lambda>p. map_option of_int (lp_rss_kb p)), (''idle'', lp_idle_for_sec),
     (''threads'', \<lambda>p. map_option of_int (lp_threads p)), (''gpu'', lp_gpu_mem_mb)]"

text \<open>\<open>ORDER BY c DESC NULLS LAST\<close> (or \<open>ASC\<close>) keeps the order of equals, so earlier keys are sorted last.\<close>

definition order_by :: "bool \<Rightarrow> ('a \<Rightarrow> rat option) \<Rightarrow> 'a list \<Rightarrow> 'a list" where
  "order_by ascending f xs =
     sort_key (\<lambda>x. if ascending then the (f x) else - the (f x)) (filter (\<lambda>x. f x \<noteq> None) xs) @ filter (\<lambda>x. f x = None) xs"

definition sort_column :: "(string, 'a \<Rightarrow> rat option) dict \<Rightarrow> string \<Rightarrow> ('a \<Rightarrow> rat option) res" where
  "sort_column sorts k =
     (case dget sorts k of None \<Rightarrow> Inl (ValueError (''unknown sort '' @ k)) | Some f \<Rightarrow> Inr f)"

definition limited :: "nat option \<Rightarrow> 'a list \<Rightarrow> 'a list" where
  "limited limit xs = (case limit of None \<Rightarrow> xs | Some n \<Rightarrow> take n xs)"

subsection \<open>Processes\<close>

record process_query =
  pq_user :: "string option"
  pq_node :: "string option"
  pq_category :: "string option"
  pq_user_only :: bool
  pq_idle_min :: "rat option"
  pq_presence :: "string option"
  pq_sort :: string
  pq_reverse :: bool
  pq_limit :: "nat option"
  pq_max_age :: "rat option"

definition process_where :: "live_db \<Rightarrow> int \<Rightarrow> string \<Rightarrow> process_query \<Rightarrow> live_process \<Rightarrow> bool" where
  "process_where db now system q p \<longleftrightarrow>
     lp_system p = system \<and>
     (pq_user_only q \<longrightarrow> lp_is_user p = Some True) \<and>
     (case pq_user q of None \<Rightarrow> True | Some u \<Rightarrow> is_value (lp_username p) u) \<and>
     (case pq_node q of None \<Rightarrow> True | Some n \<Rightarrow> on_node db n p) \<and>
     (case pq_category q of None \<Rightarrow> True | Some c \<Rightarrow> is_value (lp_category p) c) \<and>
     (case pq_presence q of None \<Rightarrow> True | Some o' \<Rightarrow> is_value (lp_presence p) o') \<and>
     (case pq_idle_min q of None \<Rightarrow> True
      | Some m \<Rightarrow> is_value (lp_cpu_state p) ''idle'' \<and> (case lp_idle_for_sec p of None \<Rightarrow> False | Some s \<Rightarrow> m \<le> s)) \<and>
     (case pq_max_age q of None \<Rightarrow> True | Some a \<Rightarrow> fresh db now a p)"

text \<open>A result row is the process with its label.\<close>

definition processes :: "live_db \<Rightarrow> int \<Rightarrow> string \<Rightarrow> process_query \<Rightarrow> (string \<times> live_process) list res" where
  "processes db now system q =
     (case sort_column PROCESS_SORTS (pq_sort q) of
        Inl e \<Rightarrow> Inl e
      | Inr f \<Rightarrow> Inr (map (\<lambda>p. (shown_label db (lp_system p) (lp_node p), p))
          (limited (pq_limit q) (order_by (pq_reverse q) f (sort_key lp_node (sort_key lp_pid
            (filter (process_where db now system q) (ld_processes db))))))))"

subsection \<open>Users\<close>

record user_row =
  ur_username :: string
  ur_processes :: nat
  ur_nodes :: nat
  ur_cpu_seconds :: "rat option"
  ur_rss_kb :: "int option"
  ur_gpu_mem_mb :: "rat option"
  ur_idle_processes :: nat
  ur_top_category :: "string option"

definition USER_SORTS :: "(string, user_row \<Rightarrow> rat option) dict" where
  "USER_SORTS = [(''rss'', \<lambda>r. map_option of_int (ur_rss_kb r)), (''cpu'', ur_cpu_seconds), (''procs'', \<lambda>r. Some (of_nat (ur_processes r))),
     (''gpu'', ur_gpu_mem_mb), (''idle'', \<lambda>r. Some (of_nat (ur_idle_processes r)))]"

text \<open>\<open>sum(x)\<close> leaves out nulls, and is null without any value.\<close>

definition sql_sum :: "'a::comm_monoid_add option list \<Rightarrow> 'a option" where
  "sql_sum xs = (let vs = map the (filter (\<lambda>x. x \<noteq> None) xs) in if vs = [] then None else Some (sum_list vs))"

definition null_zero :: "int option \<Rightarrow> int" where
  "null_zero x = (case x of None \<Rightarrow> 0 | Some v \<Rightarrow> v)"

definition category_rss :: "live_process list \<Rightarrow> string option \<Rightarrow> int" where
  "category_rss ps c = sum_list (map (\<lambda>p. null_zero (lp_rss_kb p)) (filter (\<lambda>p. lp_category p = c) ps))"

text \<open>\<open>DISTINCT ON (username) ... ORDER BY username, rss DESC, category NULLS LAST\<close>\<close>

definition top_category :: "live_process list \<Rightarrow> string option" where
  "top_category ps =
     (let cats = remdups (map lp_category ps);
          named = sort_key the (filter (\<lambda>c. c \<noteq> None) cats) @ filter (\<lambda>c. c = None) cats
      in hd (sort_key (\<lambda>c. - category_rss ps c) named))"

definition user_totals :: "live_process list \<Rightarrow> string \<Rightarrow> user_row" where
  "user_totals ps u =
     (let mine = filter (\<lambda>p. lp_username p = Some u) ps in
      \<lparr>ur_username = u, ur_processes = length mine, ur_nodes = length (remdups (map lp_node mine)),
       ur_cpu_seconds = sql_sum (map lp_cpu_seconds mine), ur_rss_kb = sql_sum (map lp_rss_kb mine),
       ur_gpu_mem_mb = sql_sum (map lp_gpu_mem_mb mine),
       ur_idle_processes = length (filter (\<lambda>p. lp_cpu_state p = Some ''idle'') mine), ur_top_category = top_category mine\<rparr>)"

record user_query =
  uq_node :: "string option"
  uq_category :: "string option"
  uq_sort :: string
  uq_reverse :: bool
  uq_limit :: "nat option"
  uq_max_age :: "rat option"

definition user_where :: "live_db \<Rightarrow> int \<Rightarrow> string \<Rightarrow> user_query \<Rightarrow> live_process \<Rightarrow> bool" where
  "user_where db now system q p \<longleftrightarrow>
     lp_system p = system \<and> lp_is_user p = Some True \<and> lp_username p \<noteq> None \<and>
     (case uq_node q of None \<Rightarrow> True | Some n \<Rightarrow> on_node db n p) \<and>
     (case uq_category q of None \<Rightarrow> True | Some c \<Rightarrow> is_value (lp_category p) c) \<and>
     (case uq_max_age q of None \<Rightarrow> True | Some a \<Rightarrow> fresh db now a p)"

definition users :: "live_db \<Rightarrow> int \<Rightarrow> string \<Rightarrow> user_query \<Rightarrow> user_row list res" where
  "users db now system q =
     (case sort_column USER_SORTS (uq_sort q) of
        Inl e \<Rightarrow> Inl e
      | Inr f \<Rightarrow>
          let ps = filter (user_where db now system q) (ld_processes db) in
          Inr (limited (uq_limit q) (order_by (uq_reverse q) f
            (sort_key ur_username (map (user_totals ps) (remdups (map (\<lambda>p. the (lp_username p)) ps)))))))"

subsection \<open>Order and content of the process view\<close>

text \<open>How a row may stand before another: nulls last, larger first (or smaller first in reverse).\<close>

definition ranked :: "bool \<Rightarrow> ('a \<Rightarrow> rat option) \<Rightarrow> 'a \<Rightarrow> 'a \<Rightarrow> bool" where
  "ranked ascending f x y \<longleftrightarrow>
     (case f y of None \<Rightarrow> True | Some b \<Rightarrow> (case f x of None \<Rightarrow> False | Some a \<Rightarrow> if ascending then a \<le> b else b \<le> a))"

lemma sort_key_wrt:
  assumes "\<And>x y. \<lbrakk>x \<in> set xs; y \<in> set xs; k x \<le> k y\<rbrakk> \<Longrightarrow> P x y"
  shows "sorted_wrt P (sort_key k xs)"
proof -
  have "sorted_wrt (\<lambda>x y. k x \<le> k y) (sort_key k xs)" using sorted_sort_key [of k xs] by (simp add: sorted_map)
  then show ?thesis by (rule sorted_wrt_mono_rel [rotated]) (simp add: assms)
qed

lemma order_by_ranked: "sorted_wrt (ranked ascending f) (order_by ascending f xs)"
proof -
  have "sorted_wrt (ranked ascending f) (sort_key (\<lambda>x. if ascending then the (f x) else - the (f x)) (filter (\<lambda>x. f x \<noteq> None) xs))"
    by (rule sort_key_wrt) (auto simp: ranked_def split: if_splits)
  moreover have "sorted_wrt (ranked ascending f) (filter (\<lambda>x. f x = None) xs)"
    by (induction xs) (auto simp: ranked_def)
  ultimately show ?thesis by (auto simp: order_by_def sorted_wrt_append ranked_def)
qed

lemma mset_order_by [simp]: "mset (order_by ascending f xs) = mset xs"
proof -
  have "mset (filter (\<lambda>x. f x \<noteq> None) xs) + mset (filter (\<lambda>x. f x = None) xs) = mset xs" by (induction xs) auto
  then show ?thesis by (simp add: order_by_def)
qed

lemma set_order_by [simp]: "set (order_by ascending f xs) = set xs"
  by (rule mset_eq_setD) simp

lemma processes_Inr:
  "processes db now system q = Inr rows \<longleftrightarrow>
     (\<exists>f. dget PROCESS_SORTS (pq_sort q) = Some f \<and>
       rows = map (\<lambda>p. (shown_label db (lp_system p) (lp_node p), p))
         (limited (pq_limit q) (order_by (pq_reverse q) f (sort_key lp_node (sort_key lp_pid
           (filter (process_where db now system q) (ld_processes db)))))))"
  by (auto simp: processes_def sort_column_def split: option.splits)

text \<open>
  The process view returns exactly the processes that satisfy every given condition, each once with its node's
  label, largest first (smallest first in reverse) and those without the sort column last; a limit keeps a
  prefix of that order; an unknown sort key is refused.
\<close>

theorem processes_sorted_matches:
  "(\<forall>f. dget PROCESS_SORTS (pq_sort q) = Some f \<longrightarrow> (\<exists>ps. processes db now system q = Inr (map (\<lambda>p. (shown_label db (lp_system p) (lp_node p), p)) (limited (pq_limit q) ps)) \<and>
      mset ps = filter_mset (process_where db now system q) (mset (ld_processes db)) \<and> sorted_wrt (ranked (pq_reverse q) f) ps))
   \<and> (dget PROCESS_SORTS (pq_sort q) = None \<longrightarrow> is_err (processes db now system q))"
proof (intro conjI allI impI)
  fix f assume "dget PROCESS_SORTS (pq_sort q) = Some f"
  then show "\<exists>ps. processes db now system q = Inr (map (\<lambda>p. (shown_label db (lp_system p) (lp_node p), p)) (limited (pq_limit q) ps)) \<and>
      mset ps = filter_mset (process_where db now system q) (mset (ld_processes db)) \<and> sorted_wrt (ranked (pq_reverse q) f) ps"
    by (intro exI [of _ "order_by (pq_reverse q) f (sort_key lp_node (sort_key lp_pid (filter (process_where db now system q) (ld_processes db))))"])
      (simp add: processes_Inr order_by_ranked mset_filter)
qed (simp add: processes_def sort_column_def)

subsection \<open>The user view\<close>

lemma sql_sum_mset: "mset xs = mset ys \<Longrightarrow> sql_sum xs = sql_sum ys"
proof -
  assume "mset xs = mset ys"
  then have "mset (map the (filter (\<lambda>x. x \<noteq> None) xs)) = mset (map the (filter (\<lambda>x. x \<noteq> None) ys))"
    by (simp add: mset_filter)
  then show ?thesis unfolding sql_sum_def Let_def by (metis mset_zero_iff sum_mset_sum_list)
qed

text \<open>The process query that shows what a user's row sums up.\<close>

definition drill_down :: "user_query \<Rightarrow> string \<Rightarrow> process_query" where
  "drill_down q u = \<lparr>pq_user = Some u, pq_node = uq_node q, pq_category = uq_category q, pq_user_only = True, pq_idle_min = None,
     pq_presence = None, pq_sort = ''rss'', pq_reverse = False, pq_limit = None, pq_max_age = uq_max_age q\<rparr>"

lemma drill_down_where:
  "process_where db now system (drill_down q u) p \<longleftrightarrow> user_where db now system q p \<and> lp_username p = Some u"
  by (auto simp: process_where_def user_where_def drill_down_def is_value_def split: option.splits)

lemma drill_down_rows:
  "\<exists>rows. processes db now system (drill_down q u) = Inr rows \<and>
     mset (map snd rows) = mset (filter (\<lambda>p. lp_username p = Some u) (filter (user_where db now system q) (ld_processes db)))"
proof -
  let ?w = "process_where db now system (drill_down q u)"
  obtain rows where rows: "processes db now system (drill_down q u) = Inr rows"
    and f: "\<exists>f. rows = map (\<lambda>p. (shown_label db (lp_system p) (lp_node p), p))
      (order_by False f (sort_key lp_node (sort_key lp_pid (filter ?w (ld_processes db)))))"
    by (auto simp: processes_Inr drill_down_def PROCESS_SORTS_def limited_def)
  have "mset (map snd rows) = mset (filter ?w (ld_processes db))"
    using f by (elim exE) (simp only: map_map comp_def snd_conv map_ident mset_order_by mset_sort)
  moreover have "filter ?w (ld_processes db) = filter (\<lambda>p. lp_username p = Some u) (filter (user_where db now system q) (ld_processes db))"
    by (auto simp: drill_down_where intro!: filter_cong)
  ultimately show ?thesis using rows by (simp only:) blast
qed

lemma user_row_is_drill_down:
  assumes "processes db now system (drill_down q u) = Inr rows"
  defines "r \<equiv> user_totals (filter (user_where db now system q) (ld_processes db)) u"
  shows "ur_processes r = length rows" "ur_rss_kb r = sql_sum (map (lp_rss_kb \<circ> snd) rows)"
    "ur_cpu_seconds r = sql_sum (map (lp_cpu_seconds \<circ> snd) rows)" "ur_gpu_mem_mb r = sql_sum (map (lp_gpu_mem_mb \<circ> snd) rows)"
    "ur_nodes r = card (lp_node ` snd ` set rows)"
    "ur_idle_processes r = length (filter (\<lambda>p. lp_cpu_state (snd p) = Some ''idle'') rows)"
proof -
  let ?mine = "filter (\<lambda>p. lp_username p = Some u) (filter (user_where db now system q) (ld_processes db))"
  have m: "mset (map snd rows) = mset ?mine" using drill_down_rows [of db now system q u] assms by auto
  have r: "r = \<lparr>ur_username = u, ur_processes = length ?mine, ur_nodes = length (remdups (map lp_node ?mine)),
       ur_cpu_seconds = sql_sum (map lp_cpu_seconds ?mine), ur_rss_kb = sql_sum (map lp_rss_kb ?mine),
       ur_gpu_mem_mb = sql_sum (map lp_gpu_mem_mb ?mine),
       ur_idle_processes = length (filter (\<lambda>p. lp_cpu_state p = Some ''idle'') ?mine), ur_top_category = top_category ?mine\<rparr>"
    by (simp only: r_def user_totals_def Let_def)
  have sums: "sql_sum (map f ?mine) = sql_sum (map (f \<circ> snd) rows)" for f :: "live_process \<Rightarrow> 'b::comm_monoid_add option"
    by (rule sql_sum_mset) (metis m map_map mset_map)
  show "ur_processes r = length rows" using mset_eq_length [OF m] by (simp add: r)
  show "ur_rss_kb r = sql_sum (map (lp_rss_kb \<circ> snd) rows)" "ur_cpu_seconds r = sql_sum (map (lp_cpu_seconds \<circ> snd) rows)"
    "ur_gpu_mem_mb r = sql_sum (map (lp_gpu_mem_mb \<circ> snd) rows)"
    unfolding r using sums by simp_all
  show "ur_nodes r = card (lp_node ` snd ` set rows)"
    using mset_eq_setD [OF m] by (simp only: r user_row.simps length_remdups_card_conv set_map)
  have "length (filter (\<lambda>p. lp_cpu_state p = Some ''idle'') (map snd rows)) = length (filter (\<lambda>p. lp_cpu_state p = Some ''idle'') ?mine)"
    by (rule mset_eq_length) (simp only: mset_filter m)
  then show "ur_idle_processes r = length (filter (\<lambda>p. lp_cpu_state (snd p) = Some ''idle'') rows)"
    by (simp add: r filter_map comp_def)
qed


subsection \<open>Stale nodes are named\<close>

lemma stale_or_shown:
  assumes "p \<in> set (ld_processes db)" "process_where db now system (q\<lparr>pq_max_age := None\<rparr>) p"
  shows "process_where db now system (q\<lparr>pq_max_age := Some a\<rparr>) p \<or>
    shown_label db (lp_system p) (lp_node p) \<in> set (stale_process_nodes db now system a (pq_node q))"
  using assms by (auto simp: process_where_def stale_process_nodes_def)

lemma stale_nodes_excluded:
  assumes "l \<in> set (stale_process_nodes db now system a node)"
  shows "\<exists>p \<in> set (ld_processes db). lp_system p = system \<and> shown_label db system (lp_node p) = l \<and> \<not> fresh db now a p"
  using assms by (auto simp: stale_process_nodes_def)

lemma processes_set:
  "processes db now system q = Inr rows \<Longrightarrow> pq_limit q = None \<Longrightarrow>
    set rows = (\<lambda>p. (shown_label db (lp_system p) (lp_node p), p)) ` {p \<in> set (ld_processes db). process_where db now system q p}"
  by (auto simp: processes_Inr limited_def)

subsection \<open>Examples\<close>

definition demo_process :: "string \<Rightarrow> int \<Rightarrow> string \<Rightarrow> int option \<Rightarrow> live_process" where
  "demo_process node pid user rss =
     \<lparr>lp_system = ''aurora'', lp_node = node, lp_ts = 0, lp_pid = pid, lp_start_time = 5, lp_username = Some user,
      lp_cmdline = Some ''python'', lp_category = Some ''analysis'', lp_activity = None, lp_state = Some ''R'', lp_threads = Some 1,
      lp_rss_kb = rss, lp_cpu_seconds = None, lp_cpu_state = Some ''idle'', lp_gpu_mem_mb = None, lp_idle_for_sec = Some 60,
      lp_idle_lower = Some False, lp_idle_bucket = None, lp_presence = Some ''absent'', lp_is_user = Some True\<rparr>"

definition demo_db :: live_db where
  "demo_db = \<lparr>ld_processes = [demo_process ''n1'' 3 ''ada'' (Some 10), demo_process ''n2'' 4 ''ada'' None, demo_process ''n2'' 5 ''bob'' (Some 30)],
     ld_snapshots = [((''aurora'', ''n1''), 0), ((''aurora'', ''n2''), 500000000)], ld_live_nodes = [],
     ld_nodes = [((''aurora'', ''n1''), Some ''uan1'')], ld_heartbeats = []\<rparr>"

definition demo_query :: process_query where
  "demo_query = \<lparr>pq_user = None, pq_node = None, pq_category = None, pq_user_only = True, pq_idle_min = None, pq_presence = None,
     pq_sort = ''rss'', pq_reverse = False, pq_limit = None, pq_max_age = None\<rparr>"

theorem processes_sorted_matches_witness:
  "is_err (processes demo_db 0 ''aurora'' (demo_query\<lparr>pq_sort := ''pid''\<rparr>)) \<and>
   (\<exists>ps. processes demo_db 0 ''aurora'' demo_query = Inr (map (\<lambda>p. (shown_label demo_db (lp_system p) (lp_node p), p)) ps) \<and>
     size (mset ps) = 3 \<and> sorted_wrt (ranked False (\<lambda>p. map_option of_int (lp_rss_kb p))) ps)"
proof -
  have n: "size (filter_mset (process_where demo_db 0 ''aurora'' demo_query) (mset (ld_processes demo_db))) = 3"
    by (simp add: demo_db_def demo_process_def process_where_def demo_query_def)
  have f: "dget PROCESS_SORTS (pq_sort demo_query) = Some (\<lambda>p. map_option of_int (lp_rss_kb p))" and l: "pq_limit demo_query = None" "pq_reverse demo_query = False"
    by (simp_all add: PROCESS_SORTS_def demo_query_def)
  obtain ps where "processes demo_db 0 ''aurora'' demo_query = Inr (map (\<lambda>p. (shown_label demo_db (lp_system p) (lp_node p), p)) (limited None ps))"
    "mset ps = filter_mset (process_where demo_db 0 ''aurora'' demo_query) (mset (ld_processes demo_db))"
    "sorted_wrt (ranked False (\<lambda>p. map_option of_int (lp_rss_kb p))) ps"
    using conjunct1 [OF processes_sorted_matches [of demo_query demo_db 0 "''aurora''"], rule_format, OF f] unfolding l by blast
  moreover have "is_err (processes demo_db 0 ''aurora'' (demo_query\<lparr>pq_sort := ''pid''\<rparr>))"
    by (rule conjunct2 [OF processes_sorted_matches, rule_format]) (simp add: PROCESS_SORTS_def)
  ultimately show ?thesis using n by (intro conjI exI [of _ ps]) (simp_all only: limited_def option.case)
qed


end
