(* ===== verification/Output.thy ===== *)
theory Output
  imports Codec Py_Text
begin

text \<open>
  Rendering rows (\<open>cli/output.py\<close>).  Output text is a list of Unicode code points.  \<open>str.isprintable\<close>, the
  \<open>str\<close> of values other than strings, the JSON encoder and the layout of \<open>rich\<close> tables are arguments; of a
  table the model keeps the cells.
\<close>

type_synonym points = "nat list"

definition lit :: "string \<Rightarrow> points" where
  "lit s = map of_char s"

subsection \<open>Visible text\<close>

text \<open>Unicode category \<open>Cc\<close>.\<close>

definition is_control :: "nat \<Rightarrow> bool" where
  "is_control c \<longleftrightarrow> c < 32 \<or> 127 \<le> c \<and> c < 160"

definition hex_digit :: "nat \<Rightarrow> nat" where
  "hex_digit d = (if d < 10 then 48 + d else 87 + d)"

definition escape_char :: "nat \<Rightarrow> points" where
  "escape_char c = (if c = 10 then [92, 110] else if c = 9 then [92, 116] else if c = 13 then [92, 114]
     else [92, 120, hex_digit (c div 16), hex_digit (c mod 16)])"

definition visible :: "(nat \<Rightarrow> bool) \<Rightarrow> points \<Rightarrow> points" where
  "visible printable t =
     (if list_all printable t then t else concat (map (\<lambda>c. if is_control c then escape_char c else [c]) t))"

subsection \<open>CSV\<close>

definition FORMULA_START :: points where "FORMULA_START = [61, 43, 45, 64]"

definition csv_text :: "(nat \<Rightarrow> bool) \<Rightarrow> points \<Rightarrow> points" where
  "csv_text printable t =
     (let s = visible printable t in case s of [] \<Rightarrow> [] | c # _ \<Rightarrow> if c \<in> set FORMULA_START then 39 # s else s)"

text \<open>
  A row holds values of the database and, in the columns that the command line adds for display, text of any code
  points.  A CSV cell: nothing for null, the ISO form of a time, safe text for a string, and \<open>str\<close> of any
  other value.
\<close>

datatype rcell = Val pyval | Text points

type_synonym cells = "(string, rcell) dict"

definition cget :: "cells \<Rightarrow> string \<Rightarrow> rcell" where
  "cget r k = dget_or r k (Val VNone)"

fun csv_cell :: "(nat \<Rightarrow> bool) \<Rightarrow> (pyval \<Rightarrow> points) \<Rightarrow> rcell \<Rightarrow> points" where
  "csv_cell printable str_of (Text t) = csv_text printable t"
| "csv_cell printable str_of (Val v) =
     (case v of
        VNone \<Rightarrow> []
      | VTime t \<Rightarrow> csv_text printable (lit (isoformat t))
      | VStr s \<Rightarrow> csv_text printable (lit s)
      | _ \<Rightarrow> str_of v)"

text \<open>\<open>csv.writer\<close> with its default dialect and \<open>lineterminator="\n"\<close>.\<close>

definition csv_quote :: "points \<Rightarrow> points" where
  "csv_quote f =
     (if list_ex (\<lambda>c. c \<in> {44, 34, 10, 13}) f then [34] @ concat (map (\<lambda>c. if c = 34 then [34, 34] else [c]) f) @ [34] else f)"

fun csv_fields :: "points list \<Rightarrow> points" where
  "csv_fields [] = []"
| "csv_fields [f] = csv_quote f"
| "csv_fields (f # fs) = csv_quote f @ [44] @ csv_fields fs"

definition csv_line :: "points list \<Rightarrow> points" where
  "csv_line fs = (if fs = [[]] then [34, 34] else csv_fields fs) @ [10]"

subsection \<open>Rendering\<close>

record column =
  co_key :: string
  co_header :: string
  co_fmt :: "(rcell \<Rightarrow> points) option"
  co_right :: bool

datatype rendered = Json "cells list" | Csv points | Table "string list" "points list list"

definition table_cell :: "(nat \<Rightarrow> bool) \<Rightarrow> (pyval \<Rightarrow> points) \<Rightarrow> column \<Rightarrow> rcell \<Rightarrow> points" where
  "table_cell printable str_of c v =
     (case co_fmt c of
        Some f \<Rightarrow> visible printable (f v)
      | None \<Rightarrow>
          (case v of
             Text t \<Rightarrow> visible printable t
           | Val VNone \<Rightarrow> lit ''-''
           | Val (VStr s) \<Rightarrow> visible printable (lit s)
           | Val v \<Rightarrow> visible printable (str_of v)))"

definition pick :: "column list \<Rightarrow> cells \<Rightarrow> cells" where
  "pick columns r = foldl (\<lambda>d c. dset d (co_key c) (cget r (co_key c))) [] columns"

definition render :: "(nat \<Rightarrow> bool) \<Rightarrow> (pyval \<Rightarrow> points) \<Rightarrow> cells list \<Rightarrow> column list \<Rightarrow> string \<Rightarrow> rendered res" where
  "render printable str_of rows columns fmt =
     (if fmt = ''json'' then Inr (Json (map (pick columns) rows))
      else if fmt = ''csv'' then
        Inr (Csv (concat (map csv_line (map (\<lambda>c. lit (co_key c)) columns #
          map (\<lambda>r. map (\<lambda>c. csv_cell printable str_of (cget r (co_key c))) columns) rows))))
      else if fmt = ''table'' then
        Inr (Table (map co_header columns) (map (\<lambda>r. map (\<lambda>c. table_cell printable str_of c (cget r (co_key c))) columns) rows))
      else Inl (ValueError (''unknown format '' @ fmt)))"

subsection \<open>Formatters\<close>

text \<open>\<open>f"{x:.nf}"\<close>\<close>

definition fixed :: "nat \<Rightarrow> rat \<Rightarrow> string" where
  "fixed n x =
     (let m = round_even (\<bar>x\<bar> * 10 ^ n); w = nat m div 10 ^ n; f = nat m mod 10 ^ n
      in (if x < 0 then ''-'' else []) @ show_nat w @ (if n = 0 then [] else CHR ''.'' # pad n f))"

definition fmt_kb :: "rat option \<Rightarrow> string" where
  "fmt_kb kb =
     (case kb of
        None \<Rightarrow> ''-''
      | Some kb \<Rightarrow>
          if kb < 1024 then fixed 0 kb @ '' KiB''
          else if kb / 1024 < 1024 then fixed 1 (kb / 1024) @ '' MiB''
          else fixed 1 (kb / 1024 / 1024) @ '' GiB'')"

definition GE_SIGN :: nat where "GE_SIGN = 8805"

definition truncate_int :: "rat \<Rightarrow> int" where
  "truncate_int x = (if x \<ge> 0 then \<lfloor>x\<rfloor> else \<lceil>x\<rceil>)"

definition duration_text :: "nat \<Rightarrow> string" where
  "duration_text sec =
     (if sec < 60 then show_nat sec @ ''s''
      else if sec < 3600 then show_nat (sec div 60) @ ''m''
      else if sec < 86400 then show_nat (sec div 3600) @ ''h'' @ pad 2 (sec mod 3600 div 60) @ ''m''
      else show_nat (sec div 86400) @ ''d'')"

definition fmt_duration :: "rat option \<Rightarrow> bool \<Rightarrow> points" where
  "fmt_duration sec lower_bound =
     (case sec of None \<Rightarrow> lit ''-''
      | Some s \<Rightarrow> (if lower_bound then [GE_SIGN] else []) @ lit (duration_text (nat (max 0 (truncate_int s)))))"

definition fmt_age :: "datetime option \<Rightarrow> datetime \<Rightarrow> points" where
  "fmt_age ts now = (case ts of None \<Rightarrow> lit ''-'' | Some t \<Rightarrow> fmt_duration (Some (secs_between now t)) False)"

definition fmt_pct :: "rat option \<Rightarrow> string" where
  "fmt_pct x = (case x of None \<Rightarrow> ''-'' | Some x \<Rightarrow> fixed 1 x @ ''%'')"

subsection \<open>Text that cannot drive a terminal or a spreadsheet\<close>

definition no_control :: "points \<Rightarrow> bool" where
  "no_control t \<longleftrightarrow> list_all (\<lambda>c. \<not> is_control c) t"

lemma escape_no_control: "c < 256 \<Longrightarrow> no_control (escape_char c)"
proof -
  assume "c < 256"
  then have "c div 16 < 16" by simp
  then show ?thesis by (auto simp: escape_char_def no_control_def is_control_def hex_digit_def)
qed

lemma visible_no_control:
  assumes "\<And>c. is_control c \<Longrightarrow> \<not> printable c"
  shows "no_control (visible printable t)"
proof (cases "list_all printable t")
  case True
  then show ?thesis using assms by (auto simp: visible_def no_control_def list_all_iff)
next
  case False
  define f where "f c = (if is_control c then escape_char c else [c])" for c
  have "no_control (f c)" for c
    using escape_no_control [of c] by (simp add: f_def is_control_def no_control_def)
  then have "no_control (concat (map f t))"
    by (induction t) (simp_all add: no_control_def)
  then have "no_control (concat (map (\<lambda>c. if is_control c then escape_char c else [c]) t))"
    by (simp add: f_def [abs_def])
  then show ?thesis using False by (simp add: visible_def)
qed

subsection \<open>Reading the CSV back\<close>

text \<open>A reader of the default dialect: fields separated by commas, quoted fields with doubled quotes.\<close>

datatype csv_state = Start | Plain | Quoted | Closing

fun csv_read :: "csv_state \<Rightarrow> points \<Rightarrow> points list \<Rightarrow> points \<Rightarrow> (points list \<times> points) option" where
  "csv_read st cur fs [] = None"
| "csv_read Quoted cur fs (c # cs) = (if c = 34 then csv_read Closing cur fs cs else csv_read Quoted (cur @ [c]) fs cs)"
| "csv_read st cur fs (c # cs) =
     (if c = 44 then csv_read Start [] (fs @ [cur]) cs
      else if c = 10 then Some (fs @ [cur], cs)
      else if c = 34 \<and> st = Start then csv_read Quoted cur fs cs
      else if c = 34 \<and> st = Closing then csv_read Quoted (cur @ [34]) fs cs
      else csv_read Plain (cur @ [c]) fs cs)"

fun csv_rows :: "nat \<Rightarrow> points \<Rightarrow> points list list option" where
  "csv_rows n [] = Some []"
| "csv_rows 0 _ = None"
| "csv_rows (Suc n) t = (case csv_read Start [] [] t of None \<Rightarrow> None | Some (fs, rest) \<Rightarrow> map_option ((#) fs) (csv_rows n rest))"

definition ends_field :: "points \<Rightarrow> bool" where
  "ends_field r \<longleftrightarrow> r \<noteq> [] \<and> (hd r = 44 \<or> hd r = 10)"

lemma csv_read_quoted:
  "csv_read Quoted cur fs (concat (map (\<lambda>c. if c = 34 then [34, 34] else [c]) f) @ 34 # r) = csv_read Closing (cur @ f) fs r"
proof (induction f arbitrary: cur)
  case (Cons c f)
  then show ?case by (cases "c = 34") simp_all
qed simp

lemma csv_read_bare:
  "\<lbrakk>list_all (\<lambda>c. c \<notin> {44, 34, 10, 13}) f; st = Start \<or> st = Plain; ends_field r\<rbrakk>
    \<Longrightarrow> csv_read st cur fs (f @ r) = csv_read Plain (cur @ f) fs r"
proof (induction f arbitrary: cur st)
  case Nil
  then show ?case by (cases r) (auto simp: ends_field_def)
next
  case (Cons c f)
  then show ?case by auto
qed

lemma csv_read_closing: "ends_field r \<Longrightarrow> csv_read Closing cur fs r = csv_read Plain cur fs r"
  by (cases r) (auto simp: ends_field_def)

lemma csv_read_field:
  assumes "ends_field r"
  shows "csv_read Start [] fs (csv_quote f @ r) = csv_read Plain f fs r"
proof (cases "list_ex (\<lambda>c. c \<in> {44, 34, 10, 13}) f")
  case True
  then show ?thesis using assms by (simp add: csv_quote_def csv_read_quoted csv_read_closing)
next
  case False
  then have "list_all (\<lambda>c. c \<notin> {44, 34, 10, 13}) f" by (auto simp: list_all_iff list_ex_iff)
  then show ?thesis using csv_read_bare [of f Start r "[]" fs] assms False by (simp add: csv_quote_def)
qed

lemma csv_read_fields: "gs \<noteq> [] \<Longrightarrow> csv_read Start [] fs (csv_fields gs @ 10 # r) = Some (fs @ gs, r)"
  by (induction gs arbitrary: fs rule: csv_fields.induct) (simp_all add: csv_read_field ends_field_def)

lemma csv_read_line: "fs \<noteq> [] \<Longrightarrow> csv_read Start [] [] (csv_line fs @ r) = Some (fs, r)"
  using csv_read_fields [of fs "[]" r] by (simp add: csv_line_def)

lemma csv_rows_lines:
  "\<lbrakk>list_all (\<lambda>fs. fs \<noteq> []) lines; length lines \<le> n\<rbrakk> \<Longrightarrow> csv_rows n (concat (map csv_line lines)) = Some lines"
proof (induction lines arbitrary: n)
  case (Cons fs lines)
  then obtain m where n: "n = Suc m" by (cases n) auto
  have "csv_line fs \<noteq> []" by (simp add: csv_line_def)
  then obtain c cs where t: "concat (map csv_line (fs # lines)) = c # cs" by (cases "concat (map csv_line (fs # lines))") auto
  have "csv_read Start [] [] (concat (map csv_line (fs # lines))) = Some (fs, concat (map csv_line lines))"
    using Cons.prems csv_read_line by simp
  then show ?case using Cons n by (simp only: t csv_rows.simps) simp
qed simp

definition safe_cell :: "points \<Rightarrow> bool" where
  "safe_cell t \<longleftrightarrow> no_control t \<and> (t = [] \<or> hd t \<notin> set FORMULA_START)"

lemma csv_text_safe:
  assumes "\<And>c. is_control c \<Longrightarrow> \<not> printable c"
  shows "safe_cell (csv_text printable t)"
  using visible_no_control [of printable t, OF assms]
  by (cases "visible printable t")
    (simp_all add: csv_text_def Let_def safe_cell_def FORMULA_START_def no_control_def is_control_def)

definition textual :: "rcell \<Rightarrow> bool" where
  "textual c \<longleftrightarrow> (case c of Text _ \<Rightarrow> True | Val v \<Rightarrow> (case v of VNone \<Rightarrow> True | VStr _ \<Rightarrow> True | VTime _ \<Rightarrow> True | _ \<Rightarrow> False))"

lemma csv_cell_safe:
  assumes "\<And>c. is_control c \<Longrightarrow> \<not> printable c" "textual v"
  shows "safe_cell (csv_cell printable str_of v)"
  using assms(2) csv_text_safe [of printable, OF assms(1)]
  by (auto simp: textual_def safe_cell_def no_control_def split: rcell.splits pyval.splits)

text \<open>
  C31.  The CSV output loses nothing and cannot attack its reader: a CSV reader gives back exactly the column keys and, for
  every row, the cells of the columns in order, and every cell made from text or a time has no control character and
  does not start like a spreadsheet formula, whatever the database holds.
\<close>

theorem csv_output_roundtrip:
  assumes "columns \<noteq> []" and "\<And>c. is_control c \<Longrightarrow> \<not> printable c"
  shows "\<exists>t. render printable str_of rows columns ''csv'' = Inr (Csv t)
    \<and> csv_rows (Suc (length rows)) t = Some (map (\<lambda>c. lit (co_key c)) columns #
         map (\<lambda>r. map (\<lambda>c. csv_cell printable str_of (cget r (co_key c))) columns) rows)
    \<and> (\<forall>r \<in> set rows. \<forall>c \<in> set columns. textual (cget r (co_key c)) \<longrightarrow>
         safe_cell (csv_cell printable str_of (cget r (co_key c))))"
proof -
  let ?lines = "map (\<lambda>c. lit (co_key c)) columns #
    map (\<lambda>r. map (\<lambda>c. csv_cell printable str_of (cget r (co_key c))) columns) rows"
  have "csv_rows (Suc (length rows)) (concat (map csv_line ?lines)) = Some ?lines"
    using assms(1) by (intro csv_rows_lines) (auto simp: list_all_iff)
  then show ?thesis using csv_cell_safe [OF assms(2)] by (simp add: render_def)
qed

theorem csv_output_roundtrip_witness:
  "\<exists>t. render (\<lambda>c. 32 \<le> c \<and> c < 127) (\<lambda>_. []) [[(''comm'', Val (VStr ''=a,b''))]] [\<lparr>co_key = ''comm'', co_header = ''C'', co_fmt = None, co_right = False\<rparr>] ''csv''
      = Inr (Csv t) \<and> csv_rows 2 t = Some [[lit ''comm''], [[39, 61, 97, 44, 98]]]"
proof -
  have "\<And>c. is_control c \<Longrightarrow> \<not> (32 \<le> c \<and> c < 127)" by (auto simp: is_control_def)
  note csv_output_roundtrip [of "[\<lparr>co_key = ''comm'', co_header = ''C'', co_fmt = None, co_right = False\<rparr>]"
    "\<lambda>c. 32 \<le> c \<and> c < 127", OF _ this, of "\<lambda>_. []" "[[(''comm'', Val (VStr ''=a,b''))]]"]
  moreover have "csv_cell (\<lambda>c. 32 \<le> c \<and> c < 127) (\<lambda>_. []) (cget [(''comm'', Val (VStr ''=a,b''))] ''comm'') = [39, 61, 97, 44, 98]"
    by code_simp
  ultimately show ?thesis by (auto simp: numeral_2_eq_2)
qed

end
