(* ===== verification/Live.thy ===== *)
theory Live
  imports Queries Output
begin

text \<open>
  The commands that read the live tables (\<open>cli/live.py\<close>).  A command is a function of the loaded configuration, of
  what the database answers, of the two clocks (the database's and the reader's) and of its options; its result
  is the message of a \<open>ClickException\<close>, or the notices it prints on stderr, what it prints on stdout and its exit
  code.  The queries of a command run one after the other outside a transaction, so each has its own state of the
  tables and its own time; of a query that fails only the message is kept.
\<close>

definition STALE_AFTER_SEC :: rat where "STALE_AFTER_SEC = 120"
definition HEARTBEAT_STALE_SEC :: rat where "HEARTBEAT_STALE_SEC = 180"

record view_env =
  ve_system :: string
  ve_url :: string
  ve_source_path :: string
  ve_now :: datetime
  ve_printable :: "nat \<Rightarrow> bool"
  ve_str_of :: "pyval \<Rightarrow> points"

type_synonym answer = "live_db \<times> int"

datatype access = ConnectFails string | QueryFails string | Reads answer answer

record collector =
  cl_host :: string
  cl_version :: string
  cl_last_seen :: datetime
  cl_age_sec :: rat
  cl_stale :: bool
  cl_stopped :: bool
  cl_state :: pyval
  cl_connected :: pyval
  cl_spooled_batches :: pyval
  cl_outage_since :: pyval

datatype out = Line points | Rendered rendered | StatusJson "collector option" "cells list"

record shown =
  sh_notices :: "points list"
  sh_out :: "out list"
  sh_exit :: nat

datatype failure = Click "points list" string | Escapes py_error

type_synonym command = "failure + shown"

text \<open>\<open>_reader\<close>: an unset URL, an unreachable database and a failing query are each one line.\<close>

definition reader :: "view_env \<Rightarrow> access \<Rightarrow> (answer \<Rightarrow> answer \<Rightarrow> command) \<Rightarrow> command" where
  "reader ve a body =
     (if ve_url ve = [] then Inl (Click [] (''web.database_url is not set in '' @ ve_source_path ve))
      else case a of
        ConnectFails r \<Rightarrow> Inl (Click [] (''database unreachable: '' @ r))
      | QueryFails r \<Rightarrow> Inl (Click [] (''database error: '' @ r))
      | Reads first second \<Rightarrow> body first second)"

definition show_rows :: "view_env \<Rightarrow> points list \<Rightarrow> out list \<Rightarrow> cells list \<Rightarrow> column list \<Rightarrow> string \<Rightarrow> nat \<Rightarrow> command" where
  "show_rows ve notices pre rows columns fmt code =
     (case render (ve_printable ve) (ve_str_of ve) rows columns fmt of
        Inl e \<Rightarrow> Inl (Escapes e)
      | Inr r \<Rightarrow> Inr \<lparr>sh_notices = notices, sh_out = pre @ [Rendered r], sh_exit = code\<rparr>)"

subsection \<open>Node states\<close>

definition node_state :: "node_state_row \<Rightarrow> datetime \<Rightarrow> string" where
  "node_state r now =
     (if STALE_AFTER_SEC < secs_between now (utc (ln_updated_at (ns_row r))) then ''stale'' else ln_session_state (ns_row r))"

definition vopt :: "('a \<Rightarrow> pyval) \<Rightarrow> 'a option \<Rightarrow> rcell" where
  "vopt f x = Val (of_opt f x)"

text \<open>A row of \<open>node_states\<close> by column name, with its \<open>state\<close> (\<open>_with_state\<close>).\<close>

definition with_state :: "datetime \<Rightarrow> node_state_row \<Rightarrow> cells" where
  "with_state now r =
     (let n = ns_row r in
      [(''node'', Val (VStr (ln_node n))), (''label'', Val (VStr (ns_label r))), (''session_state'', Val (VStr (ln_session_state n))),
       (''updated_at'', Val (VTime (utc (ln_updated_at n)))), (''last_census_at'', vopt (VTime \<circ> utc) (ln_last_census_at n)),
       (''load1'', vopt vnum (ln_load1 n)), (''mem_used_kb'', vopt VInt (ln_mem_used_kb n)), (''mem_total_kb'', vopt VInt (ln_mem_total_kb n)),
       (''procs_total'', vopt VInt (ln_procs_total n)), (''probe_version'', vopt VInt (ln_probe_version n)), (''boot_id'', vopt VStr (ln_boot_id n)),
       (''user_processes'', Val (VInt (int (ns_user_processes r)))), (''users'', Val (VInt (int (ns_users r)))),
       (''state'', Val (VStr (node_state r now)))])"

definition cell_num :: "rcell \<Rightarrow> rat option" where
  "cell_num c = (case c of Val (VInt i) \<Rightarrow> Some (of_int i) | Val (VFloat (Fin q)) \<Rightarrow> Some q | _ \<Rightarrow> None)"

definition cell_time :: "rcell \<Rightarrow> datetime option" where
  "cell_time c = (case c of Val (VTime t) \<Rightarrow> Some t | _ \<Rightarrow> None)"

definition ages :: "datetime \<Rightarrow> rcell \<Rightarrow> points" where
  "ages now c = fmt_age (cell_time c) now"

definition plain_col :: "string \<Rightarrow> string \<Rightarrow> column" where
  "plain_col k h = \<lparr>co_key = k, co_header = h, co_fmt = None, co_right = False\<rparr>"

definition right_col :: "string \<Rightarrow> string \<Rightarrow> (rcell \<Rightarrow> points) option \<Rightarrow> column" where
  "right_col k h f = \<lparr>co_key = k, co_header = h, co_fmt = f, co_right = True\<rparr>"

subsection \<open>\<open>status\<close>\<close>

definition collector_of :: "heartbeat_row option \<Rightarrow> datetime \<Rightarrow> collector option" where
  "collector_of h now =
     (case h of
        None \<Rightarrow> None
      | Some h \<Rightarrow>
          let age = secs_between now (utc (hr_last_seen h)); st = (case hr_status h of None \<Rightarrow> [] | Some s \<Rightarrow> s) in
          Some \<lparr>cl_host = hr_collector_host h, cl_version = hr_version h, cl_last_seen = utc (hr_last_seen h), cl_age_sec = age,
            cl_stale = HEARTBEAT_STALE_SEC < age, cl_stopped = (rget st ''state'' = VStr ''stopped''), cl_state = rget st ''state'',
            cl_connected = rget st ''connected'', cl_spooled_batches = rget st ''spooled_batches'', cl_outage_since = rget st ''outage_since''\<rparr>)"

definition status_columns :: "datetime \<Rightarrow> column list" where
  "status_columns now = [plain_col ''label'' ''Node'', plain_col ''state'' ''State'', right_col ''updated_at'' ''Updated'' (Some (ages now)),
     right_col ''last_census_at'' ''Census'' (Some (ages now)), plain_col ''probe_version'' ''Probe'']"

text \<open>\<open>x or '-'\<close> of a JSON value.\<close>

definition falsy :: "pyval \<Rightarrow> bool" where
  "falsy v \<longleftrightarrow> v \<in> {VNone, VBool False, VInt 0, VFloat (Fin 0), VStr [], VList [], VDict []}"

definition or_dash :: "(pyval \<Rightarrow> points) \<Rightarrow> pyval \<Rightarrow> points" where
  "or_dash str_of v = (if falsy v then lit ''-'' else str_of v)"

definition status_lines :: "view_env \<Rightarrow> collector \<Rightarrow> out list" where
  "status_lines ve c =
     (let vis = visible (ve_printable ve); str = ve_str_of ve in
      [Line (lit ''collector: '' @ vis (lit (cl_host c)) @ lit ''  version '' @ vis (lit (cl_version c)) @ lit ''  state '' @
         vis (or_dash str (cl_state c)) @ lit ''  last seen '' @ fmt_age (Some (cl_last_seen c)) (ve_now ve) @ lit '' ago'' @
         lit (if cl_stale c then ''  STALE'' else []) @ lit (if cl_stopped c then ''  STOPPED'' else [])),
       Line (lit ''  connected: '' @ str (cl_connected c) @ lit ''  spooled batches: '' @ str (cl_spooled_batches c) @
         lit ''  outage since: '' @ or_dash str (cl_outage_since c))])"

definition down :: "collector option \<Rightarrow> bool" where
  "down c \<longleftrightarrow> (case c of None \<Rightarrow> True | Some c \<Rightarrow> cl_stale c \<or> cl_stopped c)"

definition status :: "view_env \<Rightarrow> access \<Rightarrow> string \<Rightarrow> command" where
  "status ve a fmt =
     reader ve a (\<lambda>first second.
       let c = collector_of (heartbeat_query (fst first) (ve_system ve)) (ve_now ve);
           rows = map (with_state (ve_now ve)) (node_states (fst second) (ve_system ve));
           columns = status_columns (ve_now ve);
           code = (if down c then 1 else 0);
           head = (case c of None \<Rightarrow> [Line (lit ''collector: no heartbeat recorded for system '' @ lit (ve_system ve))]
                   | Some c \<Rightarrow> if fmt = ''table'' then status_lines ve c else [])
       in if fmt = ''json'' then Inr \<lparr>sh_notices = [], sh_out = [StatusJson c (map (pick columns) rows)], sh_exit = code\<rparr>
          else show_rows ve [] (head @ (if fmt = ''table'' then [Line []] else [])) rows columns fmt code)"

subsection \<open>\<open>nodes\<close>\<close>

definition mem_pct :: "cells \<Rightarrow> rat option" where
  "mem_pct r =
     (case (cell_num (cget r ''mem_used_kb''), cell_num (cget r ''mem_total_kb'')) of
        (Some used, Some all) \<Rightarrow> if all = 0 then None else Some (100 * used / all)
      | _ \<Rightarrow> None)"

definition fixed_or_dash :: "nat \<Rightarrow> rcell \<Rightarrow> points" where
  "fixed_or_dash n c = lit (case cell_num c of None \<Rightarrow> ''-'' | Some q \<Rightarrow> fixed n q)"

definition kb_cell :: "rcell \<Rightarrow> points" where
  "kb_cell c = lit (fmt_kb (cell_num c))"

definition node_columns :: "datetime \<Rightarrow> column list" where
  "node_columns now = [plain_col ''label'' ''Node'', plain_col ''state'' ''State'', right_col ''load1'' ''Load'' (Some (fixed_or_dash 2)),
     right_col ''mem_used_kb'' ''Mem used'' (Some kb_cell), right_col ''mem_total_kb'' ''Mem total'' (Some kb_cell),
     right_col ''mem_pct'' ''Mem'' (Some (\<lambda>c. lit (fmt_pct (cell_num c)))), right_col ''procs_total'' ''Procs'' None,
     right_col ''user_processes'' ''User procs'' None, right_col ''users'' ''Users'' None, right_col ''last_census_at'' ''Census'' (Some (ages now))]"

definition nodes :: "view_env \<Rightarrow> access \<Rightarrow> string \<Rightarrow> command" where
  "nodes ve a fmt =
     reader ve a (\<lambda>first _.
       let rows = map (with_state (ve_now ve)) (node_states (fst first) (ve_system ve)) in
       show_rows ve [] [] (map (\<lambda>r. dset r ''mem_pct'' (vopt vnum (mem_pct r))) rows) (node_columns (ve_now ve)) fmt 0)"

subsection \<open>Options\<close>

definition UNIT_SECONDS :: "(char, nat) dict" where
  "UNIT_SECONDS = [(CHR ''s'', 1), (CHR ''m'', 60), (CHR ''h'', 3600), (CHR ''d'', 86400)]"

text \<open>\<open>IdleDuration.convert\<close>; Python's \<open>int\<close> refuses more than 4300 digits.\<close>

definition idle_duration :: "string \<Rightarrow> nat res" where
  "idle_duration value =
     (let t = map lower (strip value);
          unit = (if t = [] then None else dget UNIT_SECONDS (last t));
          digits = (if unit \<noteq> None then butlast t else t)
      in if digits = [] \<or> \<not> list_all is_digit digits then Inl (OtherError (value @ '' is not a duration such as 30m, 2h, 1d, 90s or 45''))
         else if 4300 < length digits then Inl (ValueError ''int'')
         else Inr (parse_digits digits * (case unit of None \<Rightarrow> 1 | Some n \<Rightarrow> n)))"

definition COMMAND_WIDTH :: nat where "COMMAND_WIDTH = 60"

definition ELLIPSIS :: nat where "ELLIPSIS = 8230"

definition truncated :: "(nat \<Rightarrow> bool) \<Rightarrow> nat \<Rightarrow> points \<Rightarrow> points" where
  "truncated printable w t =
     (let v = visible printable t in if length v \<le> w then v else take (w - 1) v @ [ELLIPSIS])"

text \<open>\<open>limit or None\<close>\<close>

definition limit_of :: "nat \<Rightarrow> nat option" where
  "limit_of n = (if n = 0 then None else Some n)"

subsection \<open>The process views\<close>

definition process_cells :: "string \<times> live_process \<Rightarrow> cells" where
  "process_cells r =
     (case r of (label, p) \<Rightarrow>
      [(''node'', Val (VStr (lp_node p))), (''label'', Val (VStr label)), (''username'', vopt VStr (lp_username p)), (''pid'', Val (VInt (lp_pid p))),
       (''category'', vopt VStr (lp_category p)), (''activity'', vopt VStr (lp_activity p)), (''cpu_seconds'', vopt vnum (lp_cpu_seconds p)),
       (''rss_kb'', vopt VInt (lp_rss_kb p)), (''gpu_mem_mb'', vopt vnum (lp_gpu_mem_mb p)), (''threads'', vopt VInt (lp_threads p)),
       (''state'', vopt VStr (lp_state p)), (''cpu_state'', vopt VStr (lp_cpu_state p)), (''idle_for_sec'', vopt vnum (lp_idle_for_sec p)),
       (''idle_for_is_lower_bound'', vopt VBool (lp_idle_lower p)), (''idle_bucket'', vopt VStr (lp_idle_bucket p)),
       (''owner_presence'', vopt VStr (lp_presence p)), (''cmdline'', vopt VStr (lp_cmdline p)), (''ts'', Val (VTime (utc (lp_ts p))))])"

definition display_row :: "(nat \<Rightarrow> bool) \<Rightarrow> string \<times> live_process \<Rightarrow> cells" where
  "display_row printable r =
     process_cells r @
       [(''idle'', Text (fmt_duration (lp_idle_for_sec (snd r)) (lp_idle_lower (snd r) = Some True))),
        (''command'', case lp_cmdline (snd r) of None \<Rightarrow> Val VNone | Some c \<Rightarrow> Text (truncated printable COMMAND_WIDTH (lit c)))]"

definition ID_COLUMNS :: "column list" where
  "ID_COLUMNS = [plain_col ''label'' ''Node'', plain_col ''username'' ''User'', right_col ''pid'' ''PID'' None]"

definition CPU_COLUMN :: column where "CPU_COLUMN = right_col ''cpu_seconds'' ''CPU s/min'' (Some (fixed_or_dash 0))"
definition RSS_COLUMN :: column where "RSS_COLUMN = right_col ''rss_kb'' ''RSS'' (Some kb_cell)"

definition TOP_RAW :: "column list" where
  "TOP_RAW = ID_COLUMNS @ [plain_col ''category'' ''Category'', plain_col ''activity'' ''Activity'', CPU_COLUMN, RSS_COLUMN, plain_col ''state'' ''State'',
     plain_col ''idle_for_sec'' ''Idle'', plain_col ''idle_for_is_lower_bound'' ''Idle lower bound'', plain_col ''owner_presence'' ''Presence'',
     plain_col ''cmdline'' ''Command'', plain_col ''ts'' ''Snapshot'']"

definition TOP_TABLE :: "column list" where
  "TOP_TABLE = ID_COLUMNS @ [plain_col ''category'' ''Category'', plain_col ''activity'' ''Activity'', CPU_COLUMN, RSS_COLUMN, plain_col ''state'' ''State'',
     right_col ''idle'' ''Idle'' None, plain_col ''owner_presence'' ''Presence'', plain_col ''command'' ''Command'']"

definition IDLE_RAW :: "column list" where
  "IDLE_RAW = ID_COLUMNS @ [plain_col ''category'' ''Category'', plain_col ''activity'' ''Activity'', plain_col ''idle_for_sec'' ''Idle'',
     plain_col ''idle_for_is_lower_bound'' ''Idle lower bound'', RSS_COLUMN, plain_col ''owner_presence'' ''Presence'', plain_col ''cmdline'' ''Command'',
     plain_col ''ts'' ''Snapshot'']"

definition IDLE_TABLE :: "column list" where
  "IDLE_TABLE = ID_COLUMNS @ [plain_col ''category'' ''Category'', plain_col ''activity'' ''Activity'', right_col ''idle'' ''Idle'' None, RSS_COLUMN,
     plain_col ''owner_presence'' ''Presence'', plain_col ''command'' ''Command'']"

definition cols :: "string \<Rightarrow> column list \<Rightarrow> column list \<Rightarrow> column list" where
  "cols fmt tab raw_cols = (if fmt = ''table'' then tab else raw_cols)"

fun join_points :: "points \<Rightarrow> points list \<Rightarrow> points" where
  "join_points sep [] = []"
| "join_points sep [f] = f"
| "join_points sep (f # fs) = f @ sep @ join_points sep fs"

text \<open>\<open>_max_age\<close>: the age limit, and the notice that names the nodes it leaves out.\<close>

definition max_age :: "view_env \<Rightarrow> answer \<Rightarrow> bool \<Rightarrow> string option \<Rightarrow> rat option \<times> points list" where
  "max_age ve ans include_stale node =
     (if include_stale then (None, [])
      else let stale = stale_process_nodes (fst ans) (snd ans) (ve_system ve) STALE_AFTER_SEC node in
        (Some STALE_AFTER_SEC,
         if stale = [] then []
         else [lit ''excluded stale nodes: '' @ join_points (lit '', '') (map (\<lambda>l. visible (ve_printable ve) (lit l)) stale) @ lit '' (use --include-stale)'']))"

record view_options =
  vo_fmt :: string
  vo_node :: "string option"
  vo_include_stale :: bool
  vo_category :: "string option"
  vo_sort :: string
  vo_reverse :: bool
  vo_limit :: nat

definition base_query :: "view_options \<Rightarrow> rat option \<Rightarrow> process_query" where
  "base_query vo age = \<lparr>pq_user = None, pq_node = vo_node vo, pq_category = vo_category vo, pq_user_only = True, pq_idle_min = None,
     pq_presence = None, pq_sort = vo_sort vo, pq_reverse = vo_reverse vo, pq_limit = limit_of (vo_limit vo), pq_max_age = age\<rparr>"

definition with_processes :: "view_env \<Rightarrow> answer \<Rightarrow> process_query \<Rightarrow> ((string \<times> live_process) list \<Rightarrow> command) \<Rightarrow> command" where
  "with_processes ve ans q body =
     (case processes (fst ans) (snd ans) (ve_system ve) q of Inl e \<Rightarrow> Inl (Escapes e) | Inr rows \<Rightarrow> body rows)"

definition top :: "view_env \<Rightarrow> access \<Rightarrow> view_options \<Rightarrow> string option \<Rightarrow> command" where
  "top ve a vo user =
     reader ve a (\<lambda>first second. case max_age ve first (vo_include_stale vo) (vo_node vo) of (age, notices) \<Rightarrow>
       with_processes ve second ((base_query vo age)\<lparr>pq_user := user\<rparr>) (\<lambda>rows.
         show_rows ve notices [] (map (display_row (ve_printable ve)) rows) (cols (vo_fmt vo) TOP_TABLE TOP_RAW) (vo_fmt vo) 0))"

definition user_cells :: "user_row \<Rightarrow> cells" where
  "user_cells r =
     [(''username'', Val (VStr (ur_username r))), (''processes'', Val (VInt (int (ur_processes r)))), (''nodes'', Val (VInt (int (ur_nodes r)))),
      (''cpu_seconds'', vopt vnum (ur_cpu_seconds r)), (''rss_kb'', vopt VInt (ur_rss_kb r)), (''gpu_mem_mb'', vopt vnum (ur_gpu_mem_mb r)),
      (''idle_processes'', Val (VInt (int (ur_idle_processes r)))), (''top_category'', vopt VStr (ur_top_category r))]"

definition user_columns :: "column list" where
  "user_columns = [plain_col ''username'' ''User'', right_col ''processes'' ''Procs'' None, right_col ''nodes'' ''Nodes'' None, CPU_COLUMN, RSS_COLUMN,
     right_col ''gpu_mem_mb'' ''GPU MiB'' None, right_col ''idle_processes'' ''Idle procs'' None, plain_col ''top_category'' ''Top category'']"

definition users_cmd :: "view_env \<Rightarrow> access \<Rightarrow> view_options \<Rightarrow> command" where
  "users_cmd ve a vo =
     reader ve a (\<lambda>first second. case max_age ve first (vo_include_stale vo) (vo_node vo) of (age, notices) \<Rightarrow>
       (case users (fst second) (snd second) (ve_system ve) \<lparr>uq_node = vo_node vo, uq_category = vo_category vo, uq_sort = vo_sort vo, uq_reverse = vo_reverse vo,
              uq_limit = limit_of (vo_limit vo), uq_max_age = age\<rparr> of
          Inl e \<Rightarrow> Inl (Escapes e)
        | Inr rows \<Rightarrow> show_rows ve notices [] (map user_cells rows) user_columns (vo_fmt vo) 0))"

definition user_summary :: "string \<Rightarrow> (string \<times> live_process) list \<Rightarrow> points" where
  "user_summary username rows =
     lit (username @ '': '' @ show_nat (length rows) @ '' processes on '' @ show_nat (length (remdups (map (lp_node \<circ> snd) rows))) @
       '' nodes, total RSS '' @ fmt_kb (Some (of_int (sum_list (map (null_zero \<circ> lp_rss_kb \<circ> snd) rows)))))"

definition user_cmd :: "view_env \<Rightarrow> access \<Rightarrow> view_options \<Rightarrow> string \<Rightarrow> command" where
  "user_cmd ve a vo username =
     reader ve a (\<lambda>first second. case max_age ve first (vo_include_stale vo) (vo_node vo) of (age, notices) \<Rightarrow>
       with_processes ve second ((base_query vo age)\<lparr>pq_user := Some username, pq_user_only := False, pq_limit := None\<rparr>) (\<lambda>rows.
         if rows = [] then Inl (Click notices (''no live processes for '' @ username))
         else show_rows ve notices (if vo_fmt vo = ''table'' then [Line (user_summary username rows)] else [])
           (map (display_row (ve_printable ve)) (limited (limit_of (vo_limit vo)) rows)) (cols (vo_fmt vo) TOP_TABLE TOP_RAW) (vo_fmt vo) 0))"

definition idle :: "view_env \<Rightarrow> access \<Rightarrow> view_options \<Rightarrow> nat \<Rightarrow> bool \<Rightarrow> command" where
  "idle ve a vo min_idle any_presence =
     reader ve a (\<lambda>first second. case max_age ve first (vo_include_stale vo) (vo_node vo) of (age, notices) \<Rightarrow>
       with_processes ve second ((base_query vo age)\<lparr>pq_idle_min := Some (of_nat min_idle), pq_presence := if any_presence then None else Some ''absent''\<rparr>) (\<lambda>rows.
         show_rows ve notices [] (map (display_row (ve_printable ve)) rows) (cols (vo_fmt vo) IDLE_TABLE IDLE_RAW) (vo_fmt vo) 0))"

subsection \<open>What a view leaves out\<close>

lemma join_points_sublist: "x \<in> set xs \<Longrightarrow> sublist x (join_points sep xs)"
proof (induction sep xs rule: join_points.induct)
  case (3 sep f g fs)
  then show ?case by (auto simp: sublist_append) 
qed auto

lemma notice_names_stale:
  assumes "max_age ve ans False node = (age, notices)" "l \<in> set (stale_process_nodes (fst ans) (snd ans) (ve_system ve) STALE_AFTER_SEC node)"
  shows "\<exists>t \<in> set notices. sublist (visible (ve_printable ve) (lit l)) t"
proof -
  let ?stale = "stale_process_nodes (fst ans) (snd ans) (ve_system ve) STALE_AFTER_SEC node"
  have "?stale \<noteq> []" using assms(2) by auto
  then have n: "notices = [lit ''excluded stale nodes: '' @ join_points (lit '', '') (map (\<lambda>l. visible (ve_printable ve) (lit l)) ?stale) @ lit '' (use --include-stale)'']"
    using assms(1) by (simp add: max_age_def Let_def)
  have "sublist (visible (ve_printable ve) (lit l)) (join_points (lit '', '') (map (\<lambda>l. visible (ve_printable ve) (lit l)) ?stale))"
    by (rule join_points_sublist) (use assms(2) in auto)
  then show ?thesis unfolding n by (auto simp: sublist_append)
qed

lemma max_age_limit: "max_age ve ans include_stale node = (age, notices) \<Longrightarrow> age = (if include_stale then None else Some STALE_AFTER_SEC)"
  by (auto simp: max_age_def Let_def split: if_splits)

text \<open>The queries that the views \<open>top\<close>, \<open>user\<close> and \<open>idle\<close> make, as functions of the age limit.\<close>

lemma view_accounts:
  assumes "max_age ve (db, n) (vo_include_stale vo) (pq_node q) = (age, notices)"
    and "processes db n (ve_system ve) (q\<lparr>pq_max_age := age\<rparr>) = Inr rows" "pq_limit q = None"
    and "p \<in> set (ld_processes db)" "process_where db n (ve_system ve) (q\<lparr>pq_max_age := None\<rparr>) p"
  defines "l \<equiv> shown_label db (lp_system p) (lp_node p)"
  shows "(l, p) \<in> set rows \<or> (\<exists>t \<in> set notices. sublist (visible (ve_printable ve) (lit l)) t)"
proof -
  have rows: "set rows = (\<lambda>p. (shown_label db (lp_system p) (lp_node p), p)) ` {p \<in> set (ld_processes db). process_where db n (ve_system ve) (q\<lparr>pq_max_age := age\<rparr>) p}"
    using processes_set [OF assms(2)] assms(3) by simp
  note age = max_age_limit [OF assms(1)]
  show ?thesis
  proof (cases "vo_include_stale vo")
    case True
    then show ?thesis using rows age assms(4, 5) by (auto simp: l_def)
  next
    case False
    then have m: "max_age ve (db, n) False (pq_node q) = (age, notices)" using assms(1) by simp
    from stale_or_shown [OF assms(4, 5), of STALE_AFTER_SEC] show ?thesis
      using rows age False assms(4) notice_names_stale [OF m] by (auto simp: l_def)
  qed
qed

lemma show_rows_Inr:
  "show_rows ve notices pre rows columns fmt code = Inr sh \<longleftrightarrow>
     (\<exists>r. render (ve_printable ve) (ve_str_of ve) rows columns fmt = Inr r \<and> sh = \<lparr>sh_notices = notices, sh_out = pre @ [Rendered r], sh_exit = code\<rparr>)"
  by (auto simp: show_rows_def split: sum.splits)

lemma top_Inr:
  assumes "top ve (Reads (db, n) (db, n)) vo user = Inr sh"
  shows "\<exists>age rows r. max_age ve (db, n) (vo_include_stale vo) (vo_node vo) = (age, sh_notices sh) \<and>
    processes db n (ve_system ve) ((base_query vo None)\<lparr>pq_user := user, pq_max_age := age\<rparr>) = Inr rows \<and> sh_out sh = [Rendered r] \<and>
    render (ve_printable ve) (ve_str_of ve) (map (display_row (ve_printable ve)) rows) (cols (vo_fmt vo) TOP_TABLE TOP_RAW) (vo_fmt vo) = Inr r"
proof -
  have q: "(base_query vo age)\<lparr>pq_user := user\<rparr> = (base_query vo None)\<lparr>pq_user := user, pq_max_age := age\<rparr>" for age
    by (simp add: base_query_def)
  show ?thesis using assms unfolding top_def reader_def q [symmetric]
    by (auto simp: with_processes_def show_rows_Inr split: if_splits prod.splits sum.splits)
qed


subsection \<open>The exit code of \<open>status\<close>\<close>

lemma render_known: "fmt \<in> {''table'', ''csv'', ''json''} \<Longrightarrow> \<exists>r. render printable str_of rows columns fmt = Inr r"
  by (auto simp: render_def)

lemma show_rows_exit:
  assumes "fmt \<in> {''table'', ''csv'', ''json''}"
  shows "\<exists>sh. show_rows ve notices pre rows columns fmt code = Inr sh \<and> sh_exit sh = code"
proof -
  obtain r where "render (ve_printable ve) (ve_str_of ve) rows columns fmt = Inr r" using render_known [OF assms] by blast
  then show ?thesis by (simp add: show_rows_def)
qed

text \<open>
  \<open>status\<close> exits with 0 exactly when the system has a heartbeat that is at most three minutes old and was not
  written by a shutdown, in every output format; it exits with 1 otherwise, and an unset URL, an unreachable
  database or a failing query is reported as a one-line error.
\<close>

theorem status_exit_tells_health:
  assumes "fmt \<in> {''table'', ''csv'', ''json''}" "ve_url ve \<noteq> []"
  shows "(\<exists>sh. status ve (Reads (db, n) (db', n')) fmt = Inr sh \<and> sh_exit sh \<in> {0, 1} \<and>
      (sh_exit sh = 0 \<longleftrightarrow> (\<exists>h. heartbeat_query db (ve_system ve) = Some h \<and> secs_between (ve_now ve) (utc (hr_last_seen h)) \<le> 180 \<and>
         (\<forall>st. hr_status h = Some st \<longrightarrow> rget st ''state'' \<noteq> VStr ''stopped''))))
    \<and> (\<exists>m. status ve (ConnectFails e) fmt = Inl (Click [] m)) \<and> (\<exists>m. status ve (QueryFails e) fmt = Inl (Click [] m))"
proof -
  have d: "\<not> down (collector_of (heartbeat_query db (ve_system ve)) (ve_now ve)) \<longleftrightarrow>
     (\<exists>h. heartbeat_query db (ve_system ve) = Some h \<and> secs_between (ve_now ve) (utc (hr_last_seen h)) \<le> 180 \<and>
         (\<forall>st. hr_status h = Some st \<longrightarrow> rget st ''state'' \<noteq> VStr ''stopped''))"
    by (auto simp: down_def collector_of_def Let_def HEARTBEAT_STALE_SEC_def rget_def dget_or_def split: option.splits)
  have "\<exists>sh. status ve (Reads (db, n) (db', n')) fmt = Inr sh \<and> sh_exit sh = (if down (collector_of (heartbeat_query db (ve_system ve)) (ve_now ve)) then 1 else 0)"
    using assms(2) show_rows_exit [OF assms(1)] unfolding status_def reader_def Let_def by simp
  moreover have "\<exists>m. status ve (ConnectFails e) fmt = Inl (Click [] m)" "\<exists>m. status ve (QueryFails e) fmt = Inl (Click [] m)"
    using assms(2) by (simp_all add: status_def reader_def)
  ultimately show ?thesis using d by (auto split: if_splits)
qed

text \<open>Without a heartbeat the CSV output is not CSV: a sentence is printed on stdout before the header line.\<close>

theorem status_csv_has_prose:
  assumes "heartbeat_query db (ve_system ve) = None" "ve_url ve \<noteq> []" "status ve (Reads (db, n) (db', n')) ''csv'' = Inr sh"
  shows "\<exists>t r. sh_out sh = [Line (lit ''collector: no heartbeat recorded for system '' @ lit (ve_system ve)), Rendered r] \<and> t \<noteq> [] \<and> r = Csv t"
  using assms by (auto simp: status_def reader_def collector_of_def show_rows_Inr render_def Let_def csv_line_def)

subsection \<open>Examples\<close>

definition demo_env :: view_env where
  "demo_env = \<lparr>ve_system = ''aurora'', ve_url = ''postgresql://db'', ve_source_path = ''c.yaml'', ve_now = utc 500000000,
     ve_printable = (\<lambda>c. 32 \<le> c \<and> c < 127), ve_str_of = (\<lambda>_. [])\<rparr>"

definition demo_options :: view_options where
  "demo_options = \<lparr>vo_fmt = ''table'', vo_node = None, vo_include_stale = False, vo_category = None, vo_sort = ''rss'', vo_reverse = False, vo_limit = 0\<rparr>"


theorem status_exit_tells_health_witness:
  "\<exists>sh. status demo_env (Reads (demo_db, 0) (demo_db, 0)) ''csv'' = Inr sh \<and> sh_exit sh = 1"
proof -
  have "heartbeat_query demo_db (ve_system demo_env) = None" by (simp add: heartbeat_query_def demo_db_def)
  with status_exit_tells_health [of "''csv''" demo_env demo_db 0 demo_db 0 "[]"] show ?thesis by (auto simp: demo_env_def)
qed

end
