(* ===== verification/Migrate.thy ===== *)
theory Migrate
  imports Regex Calendar
begin

text \<open>
  Schema migrations (\<open>database/migrate.py\<close>).  The directory listing is an argument; what a file's SQL
  does to the schema is the function \<open>run\<close>, and which files fail in a run is an argument of that run (a
  bad statement, a lost connection).  The advisory lock makes concurrent runs one after the other.
\<close>

subsection \<open>Discovery\<close>

text \<open>\<open>^(\d{4})_\w+\.sql$\<close>; the dollar also matches before a final newline.\<close>

definition ends_sql :: "string \<Rightarrow> bool" where
  "ends_sql s \<longleftrightarrow> 5 \<le> length s \<and> drop (length s - 4) s = ''.sql'' \<and> list_all is_word (take (length s - 4) s)"

definition file_version :: "string \<Rightarrow> nat option" where
  "file_version name =
     (if 5 \<le> length name \<and> list_all is_digit (take 4 name) \<and> name ! 4 = CHR ''_'' \<and>
         (ends_sql (drop 5 name) \<or> last name = CHR 0x0A \<and> ends_sql (drop 5 (butlast name)))
      then Some (parse_digits (take 4 name)) else None)"

fun discover_loop :: "string list \<Rightarrow> (nat, string) dict \<Rightarrow> (nat, string) dict res" where
  "discover_loop [] found = Inr found"
| "discover_loop (name # names) found =
     (case file_version name of
        None \<Rightarrow> discover_loop names found
      | Some v \<Rightarrow>
          if v = 0 then Inl (RuntimeError (''migration '' @ name @ '': versions start at 0001''))
          else (case dget found v of
                  Some other \<Rightarrow> Inl (RuntimeError (''migrations '' @ other @ '' and '' @ name @ '' share a version''))
                | None \<Rightarrow> discover_loop names (dset found v name)))"

definition discover :: "string list \<Rightarrow> (nat \<times> string) list res" where
  "discover names = (case discover_loop names [] of Inl e \<Rightarrow> Inl e | Inr found \<Rightarrow> Inr (sort_key fst found))"

definition required_version :: "(nat \<times> string) list \<Rightarrow> nat" where
  "required_version ms = (if ms = [] then 0 else fst (last ms))"

subsection \<open>Applying\<close>

record 'c schema =
  sc_versions :: "(nat \<times> string) list option"
  sc_content :: 'c

text \<open>\<open>current_version\<close>: 0 without the table or without rows.\<close>

definition current_version :: "'c schema \<Rightarrow> nat" where
  "current_version db = (case sc_versions db of None \<Rightarrow> 0 | Some vs \<Rightarrow> fold max (map fst vs) 0)"

definition check_schema :: "(nat \<times> string) list \<Rightarrow> 'c schema \<Rightarrow> bool" where
  "check_schema ms db \<longleftrightarrow> \<not> current_version db < required_version ms"

text \<open>One migration in its transaction: the file, then its version; either failing undoes both.\<close>

definition apply_one :: "(string \<Rightarrow> 'c \<Rightarrow> 'c) \<Rightarrow> (string \<Rightarrow> bool) \<Rightarrow> nat \<times> string \<Rightarrow> 'c schema \<Rightarrow> 'c schema option" where
  "apply_one run fails m db =
     (if fails (snd m) then None
      else case sc_versions db of
        None \<Rightarrow> None
      | Some vs \<Rightarrow> if fst m \<in> fst ` set vs then None else Some \<lparr>sc_versions = Some (vs @ [m]), sc_content = run (snd m) (sc_content db)\<rparr>)"

fun apply_loop :: "(string \<Rightarrow> 'c \<Rightarrow> 'c) \<Rightarrow> (string \<Rightarrow> bool) \<Rightarrow> nat set \<Rightarrow> (nat \<times> string) list \<Rightarrow> 'c schema \<Rightarrow> bool \<times> nat list \<times> 'c schema" where
  "apply_loop run fails done [] db = (True, [], db)"
| "apply_loop run fails done (m # ms) db =
     (if fst m \<in> done then apply_loop run fails done ms db
      else case apply_one run fails m db of
        None \<Rightarrow> (False, [], db)
      | Some db \<Rightarrow> (case apply_loop run fails done ms db of (ok, applied, db) \<Rightarrow> (ok, fst m # applied, db)))"

definition create_version_table :: "'c schema \<Rightarrow> 'c schema" where
  "create_version_table db = (case sc_versions db of None \<Rightarrow> db\<lparr>sc_versions := Some []\<rparr> | Some _ \<Rightarrow> db)"

text \<open>\<open>migrate\<close> on an idle connection: whether it returned, the versions it applied, the schema.\<close>

definition migrate :: "(string \<Rightarrow> 'c \<Rightarrow> 'c) \<Rightarrow> (nat \<times> string) list \<Rightarrow> (string \<Rightarrow> bool) \<Rightarrow> 'c schema \<Rightarrow> bool \<times> nat list \<times> 'c schema" where
  "migrate run ms fails db =
     (let db = create_version_table db in apply_loop run fails (fst ` set (the (sc_versions db))) ms db)"

subsection \<open>What a schema looks like\<close>

definition ordered :: "(nat \<times> string) list \<Rightarrow> bool" where
  "ordered ms \<longleftrightarrow> sorted_wrt (<) (map fst ms) \<and> list_all (\<lambda>m. 0 < fst m) ms"

lemma discover_loop_inv:
  "discover_loop names found = Inr found' \<Longrightarrow> dwf found \<Longrightarrow> list_all (\<lambda>m. 0 < fst m) found \<Longrightarrow> dwf found' \<and> list_all (\<lambda>m. 0 < fst m) found'"
proof (induction names arbitrary: found)
  case (Cons name names)
  show ?case
  proof (cases "file_version name")
    case None
    with Cons show ?thesis by simp
  next
    case (Some v)
    with Cons.prems(1) have v: "0 < v" "dget found v = None" "discover_loop names (dset found v name) = Inr found'"
      by (auto split: if_splits option.splits)
    have "list_all (\<lambda>m. 0 < fst m) (dset found v name)"
      using Cons.prems(3) v(1,2) by (simp add: dset_fresh map_of_eq_None_iff)
    with Cons.IH [OF v(3)] Cons.prems(2) show ?thesis by (simp add: dwf_dset)
  qed
qed simp

lemma discover_ordered: "discover names = Inr ms \<Longrightarrow> ordered ms"
proof -
  assume "discover names = Inr ms"
  then obtain found where f: "discover_loop names [] = Inr found" and ms: "ms = sort_key fst found"
    by (auto simp: discover_def split: sum.splits)
  from discover_loop_inv [OF f] have wf: "distinct (map fst found)" and pos: "list_all (\<lambda>m. 0 < fst m) found" by (simp_all add: dwf_def)
  have "distinct (map fst ms)" using wf ms by (simp add: distinct_map) 
  moreover have "sorted (map fst ms)" by (simp add: ms)
  ultimately show ?thesis using pos by (simp add: ordered_def ms list_all_iff strict_sorted_iff)
qed

text \<open>The schema holds the first \<open>k\<close> migrations, applied in order and each once.\<close>

definition holds_prefix :: "(string \<Rightarrow> 'c \<Rightarrow> 'c) \<Rightarrow> (nat \<times> string) list \<Rightarrow> 'c \<Rightarrow> nat \<Rightarrow> 'c schema \<Rightarrow> bool" where
  "holds_prefix run ms c0 k db \<longleftrightarrow> k \<le> length ms \<and>
     (case sc_versions db of None \<Rightarrow> k = 0 | Some vs \<Rightarrow> vs = take k ms) \<and> sc_content db = foldl (\<lambda>c m. run (snd m) c) c0 (take k ms)"

lemma apply_loop_from:
  assumes "ordered ms" "holds_prefix run ms c0 k db" "sc_versions db \<noteq> None" "done \<inter> fst ` set (drop k ms) = {}"
  shows "\<exists>j db'. apply_loop run fails done (drop k ms) db = (k + j = length ms, map fst (take j (drop k ms)), db') \<and>
    holds_prefix run ms c0 (k + j) db' \<and> (k + j < length ms \<longrightarrow> fails (snd (ms ! (k + j))))"
  using assms
proof (induction "length ms - k" arbitrary: k db)
  case 0
  then show ?case by (intro exI [of _ 0] exI [of _ db]) (auto simp: holds_prefix_def)
next
  case (Suc n)
  then have k: "k < length ms" by simp
  define m where "m = ms ! k"
  have dr: "drop k ms = m # drop (Suc k) ms" using k by (simp add: m_def Cons_nth_drop_Suc)
  have tk: "take (Suc k) ms = take k ms @ [m]" using k by (simp add: m_def take_Suc_conv_app_nth)
  have vs: "sc_versions db = Some (take k ms)" using Suc.prems(2,3) by (auto simp: holds_prefix_def split: option.splits)
  have "distinct (map fst ms)" using Suc.prems(1) by (simp add: ordered_def strict_sorted_iff)
  then have fresh: "fst m \<notin> fst ` set (take k ms)"
    by (metis append_take_drop_id distinct_append dr list.set_intros(1) list.set_map map_append disjoint_iff imageI)
  have nd: "fst m \<notin> done" using Suc.prems(4) by (auto simp: dr)
  show ?case
  proof (cases "fails (snd m)")
    case True
    then show ?thesis using Suc.prems(2) k nd
      by (intro exI [of _ 0] exI [of _ db]) (simp add: dr apply_one_def, simp add: m_def)
  next
    case False
    let ?db = "\<lparr>sc_versions = Some (take k ms @ [m]), sc_content = run (snd m) (sc_content db)\<rparr>"
    have one: "apply_one run fails m db = Some ?db" using False vs fresh by (simp add: apply_one_def)
    have h: "holds_prefix run ms c0 (Suc k) ?db" using Suc.prems(2) k by (simp add: holds_prefix_def tk)
    have "n = length ms - Suc k" using Suc.hyps(2) by simp
    from Suc.hyps(1) [OF this Suc.prems(1) h] Suc.prems(4) obtain j db' where
      j: "apply_loop run fails done (drop (Suc k) ms) ?db = (Suc k + j = length ms, map fst (take j (drop (Suc k) ms)), db')"
      "holds_prefix run ms c0 (Suc k + j) db'" "Suc k + j < length ms \<longrightarrow> fails (snd (ms ! (Suc k + j)))" by (auto simp: dr)
    then show ?thesis using nd one by (intro exI [of _ "Suc j"] exI [of _ db']) (simp add: dr)
  qed
qed

lemma apply_loop_skip: "fst ` set xs \<subseteq> done \<Longrightarrow> apply_loop run fails done (xs @ ms) db = apply_loop run fails done ms db"
  by (induction xs) auto

lemma migrate_prefix:
  assumes "ordered ms" "holds_prefix run ms c0 k db"
  shows "\<exists>j db'. migrate run ms fails db = (k + j = length ms, map fst (take j (drop k ms)), db') \<and>
    holds_prefix run ms c0 (k + j) db' \<and> (k + j < length ms \<longrightarrow> fails (snd (ms ! (k + j))))"
proof -
  let ?db = "create_version_table db"
  have h: "holds_prefix run ms c0 k ?db" and vs: "sc_versions ?db = Some (take k ms)"
    using assms(2) by (auto simp: holds_prefix_def create_version_table_def split: option.splits)
  have "distinct (map fst (take k ms @ drop k ms))" using assms(1) by (simp add: ordered_def strict_sorted_iff)
  then have dis: "fst ` set (take k ms) \<inter> fst ` set (drop k ms) = {}" by (simp only: map_append distinct_append list.set_map)
  have "migrate run ms fails db = apply_loop run fails (fst ` set (take k ms)) (take k ms @ drop k ms) ?db"
    by (simp add: migrate_def vs)
  also have "\<dots> = apply_loop run fails (fst ` set (take k ms)) (drop k ms) ?db" by (rule apply_loop_skip) simp
  finally show ?thesis using apply_loop_from [OF assms(1) h _ dis] vs by simp
qed

lemma fold_max_sorted: "sorted xs \<Longrightarrow> fold max xs (a :: nat) = (if xs = [] then a else max a (last xs))"
  by (induction xs arbitrary: a) (auto simp: max_def dest: last_in_set)

lemma check_schema_prefix:
  assumes "ordered ms" "holds_prefix run ms c0 k db"
  shows "check_schema ms db \<longleftrightarrow> k = length ms"
proof -
  have k: "k \<le> length ms" using assms(2) by (simp add: holds_prefix_def)
  have sorted: "sorted_wrt (<) (map fst ms)" and pos: "list_all (\<lambda>m. 0 < fst m) ms" using assms(1) by (simp_all add: ordered_def)
  have "sorted (map fst (take k ms))" using sorted by (metis strict_sorted_iff sorted_wrt_take take_map)
  then have cur: "current_version db = (if k = 0 \<or> ms = [] then 0 else fst (last (take k ms)))"
    using assms(2) by (auto simp: current_version_def holds_prefix_def fold_max_sorted last_map split: option.splits)
  show ?thesis
  proof (cases "k = length ms")
    case True
    then show ?thesis using cur by (auto simp: check_schema_def required_version_def)
  next
    case False
    with k have lt: "k < length ms" by simp
    then have ne: "ms \<noteq> []" by auto
    have last: "fst (last ms) = map fst ms ! (length ms - 1)" using ne by (simp add: last_conv_nth)
    have "current_version db < fst (last ms)"
    proof (cases k)
      case 0
      then show ?thesis using cur pos ne by (simp add: list_all_iff)
    next
      case (Suc i)
      then have "current_version db = map fst ms ! i" using cur lt ne by (simp add: last_conv_nth)
      moreover have "map fst ms ! i < map fst ms ! (length ms - 1)" 
        using sorted_wrt_nth_less [OF sorted, of i "length ms - 1"] lt Suc by simp
      ultimately show ?thesis using last by simp
    qed
    then show ?thesis using False ne by (simp add: check_schema_def required_version_def)
  qed
qed

definition migrate_runs :: "(string \<Rightarrow> 'c \<Rightarrow> 'c) \<Rightarrow> (nat \<times> string) list \<Rightarrow> (string \<Rightarrow> bool) list \<Rightarrow> 'c schema \<Rightarrow> 'c schema" where
  "migrate_runs run ms runs db = foldl (\<lambda>db fails. snd (snd (migrate run ms fails db))) db runs"

lemma migrate_runs_prefix:
  "ordered ms \<Longrightarrow> holds_prefix run ms c0 k db \<Longrightarrow> \<exists>k'. holds_prefix run ms c0 k' (migrate_runs run ms runs db)"
proof (induction runs arbitrary: k db)
  case (Cons fails runs)
  from migrate_prefix [OF Cons.prems, of fails] obtain j db' where m: "snd (snd (migrate run ms fails db)) = db'" "holds_prefix run ms c0 (k + j) db'" by auto
  from Cons.IH [OF Cons.prems(1) m(2)] show ?case by (simp add: migrate_runs_def m(1))
qed (auto simp: migrate_runs_def)

text \<open>
  C30.  Whatever runs of \<open>migrate\<close> failed before and at which file, the schema holds a prefix of the migrations,
  each applied exactly once and in order.  The next run goes on from there; it returns exactly when it has
  applied the rest, otherwise it stops at a file that failed; and \<open>check_schema\<close> accepts the schema
  exactly when all migrations are in it.
\<close>

theorem migrations_applied_once:
  assumes "discover names = Inr ms" "migrate run ms fails (migrate_runs run ms runs \<lparr>sc_versions = None, sc_content = c0\<rparr>) = (ok, applied, db)"
  shows "\<exists>k n. holds_prefix run ms c0 k (migrate_runs run ms runs \<lparr>sc_versions = None, sc_content = c0\<rparr>) \<and>
    holds_prefix run ms c0 n db \<and> k \<le> n \<and> applied = map fst (drop k (take n ms)) \<and> (ok \<longleftrightarrow> n = length ms) \<and>
    (\<not> ok \<longrightarrow> fails (snd (ms ! n))) \<and> (check_schema ms db \<longleftrightarrow> ok)"
proof -
  note o = discover_ordered [OF assms(1)]
  have "holds_prefix run ms c0 0 \<lparr>sc_versions = None, sc_content = c0\<rparr>" by (simp add: holds_prefix_def)
  from migrate_runs_prefix [OF o this] obtain k where k: "holds_prefix run ms c0 k (migrate_runs run ms runs \<lparr>sc_versions = None, sc_content = c0\<rparr>)" by blast
  from migrate_prefix [OF o k, of fails] assms(2) obtain j where
    j: "ok \<longleftrightarrow> k + j = length ms" "applied = map fst (take j (drop k ms))" "holds_prefix run ms c0 (k + j) db"
    "k + j < length ms \<longrightarrow> fails (snd (ms ! (k + j)))" by auto
  have "k + j \<le> length ms" using j(3) by (simp add: holds_prefix_def)
  with k j check_schema_prefix [OF o j(3)] show ?thesis
    by (intro exI [of _ k] exI [of _ "k + j"]) (auto simp: take_drop add.commute)
qed

definition ex_names :: "string list" where
  "ex_names = [''0002_live.sql'', ''README.md'', ''0001_base.sql'', ''__init__.py'', ''0003_heartbeat.sql'']"

theorem migrations_applied_once_witness:
  "discover ex_names = Inr [(1, ''0001_base.sql''), (2, ''0002_live.sql''), (3, ''0003_heartbeat.sql'')] \<and>
   (let ms = [(1, ''0001_base.sql''), (2, ''0002_live.sql''), (3, ''0003_heartbeat.sql'')];
        db0 = \<lparr>sc_versions = None, sc_content = []\<rparr>; run = (\<lambda>f c. c @ [f]);
        db = migrate_runs run ms [(\<lambda>f. f = ''0002_live.sql'')] db0
    in sc_content db = [''0001_base.sql''] \<and> \<not> check_schema ms db \<and>
       (\<exists>n. holds_prefix run ms [] n (snd (snd (migrate run ms (\<lambda>_. False) db))) \<and> n = length ms))"
proof -
  let ?ms = "[(1, ''0001_base.sql''), (2, ''0002_live.sql''), (3, ''0003_heartbeat.sql'')] :: (nat \<times> string) list"
  let ?run = "\<lambda>f c. c @ [f]" and ?db0 = "\<lparr>sc_versions = None, sc_content = []\<rparr> :: string list schema"
  let ?db = "migrate_runs ?run ?ms [(\<lambda>f. f = ''0002_live.sql'')] ?db0"
  have d: "discover ex_names = Inr ?ms" by code_simp
  have run1: "sc_content ?db = [''0001_base.sql'']" "\<not> check_schema ?ms ?db"
    by (simp_all add: migrate_runs_def migrate_def create_version_table_def apply_one_def check_schema_def required_version_def current_version_def)
  obtain ok applied db where m: "migrate ?run ?ms (\<lambda>_. False) ?db = (ok, applied, db)" by (metis prod_cases3)
  from migrations_applied_once [OF d m] obtain n where n: "holds_prefix ?run ?ms [] n db" "ok \<longleftrightarrow> n = length ?ms" "\<not> ok \<longrightarrow> False" by blast
  then show ?thesis using d run1 m by (simp add: Let_def)
qed

end
