(* ===== verification/Soak_Report.thy ===== *)
theory Soak_Report
  imports Soak_Record
begin

text \<open>
  The report on a recording (\<open>collector/soak.py\<close>, \<open>_NodeSummary\<close> and \<open>summarize\<close>): each node's lines are folded, in
  the order they were received, into a few counters.  Numbers are exact.
\<close>

subsection \<open>The folded state\<close>

record loss =
  lo_recv :: datetime
  lo_reason :: pyval
  lo_exit_code :: pyval
  lo_stderr_tail :: string

record summary =
  su_first :: "datetime option"
  su_last :: "datetime option"
  su_counters :: nat
  su_last_counter_at :: "datetime option"
  su_max_gap :: "rat option"
  su_losses :: "(pyval, nat) dict"
  su_loss_timeline :: "loss list"
  su_started :: nat
  su_rotations :: nat
  su_reboots :: nat
  su_crashed :: nat
  su_malformed :: nat
  su_stderr :: nat
  su_errors_by_where :: "(string, nat) dict"
  su_cpu_total :: rat
  su_session_cpu :: "(rat \<times> rat) option"
  su_maxrss :: rat
  su_rss_max :: "rat option"
  su_rss_series :: "(rat \<times> rat) list list"
  su_session_start :: "datetime option"
  su_rss_points :: "(rat \<times> rat) list"
  su_rss_next_hour :: int
  su_rss_unsampled :: "(rat \<times> rat) option"
  su_rotation_reasons :: "(pyval, nat) dict"
  su_byes :: nat
  su_scans :: "rat list"
  su_census :: nat
  su_size_total :: nat
  su_proc_total :: nat
  su_gpu_status :: "(string, nat) dict"
  su_cpu_min :: "rat option"
  su_cpu_max :: "rat option"
  su_idle_max :: "rat option"

definition new_summary :: summary where
  "new_summary = \<lparr>su_first = None, su_last = None, su_counters = 0, su_last_counter_at = None, su_max_gap = None, su_losses = [],
     su_loss_timeline = [], su_started = 0, su_rotations = 0, su_reboots = 0, su_crashed = 0, su_malformed = 0, su_stderr = 0,
     su_errors_by_where = [], su_cpu_total = 0, su_session_cpu = None, su_maxrss = 0, su_rss_max = None, su_rss_series = [],
     su_session_start = None, su_rss_points = [], su_rss_next_hour = 0, su_rss_unsampled = None, su_rotation_reasons = [], su_byes = 0,
     su_scans = [], su_census = 0, su_size_total = 0, su_proc_total = 0, su_gpu_status = [], su_cpu_min = None, su_cpu_max = None,
     su_idle_max = None\<rparr>"

text \<open>\<open>_min\<close>, \<open>_max\<close> and \<open>defaultdict(int)[k] += 1\<close>\<close>

definition opt_min :: "rat option \<Rightarrow> rat option \<Rightarrow> rat option" where
  "opt_min current v = (case current of None \<Rightarrow> v | Some c \<Rightarrow> (case v of None \<Rightarrow> current | Some x \<Rightarrow> if x < c then v else current))"

definition opt_max :: "rat option \<Rightarrow> rat option \<Rightarrow> rat option" where
  "opt_max current v = (case current of None \<Rightarrow> v | Some c \<Rightarrow> (case v of None \<Rightarrow> current | Some x \<Rightarrow> if x > c then v else current))"

definition count_key :: "('k, nat) dict \<Rightarrow> 'k \<Rightarrow> ('k, nat) dict" where
  "count_key d k = dset d k (Suc (dget_or d k 0))"

subsection \<open>Sessions and memory\<close>

definition close_session :: "summary \<Rightarrow> summary" where
  "close_session s =
     (let points = su_rss_points s @ (case su_rss_unsampled s of None \<Rightarrow> [] | Some p \<Rightarrow> [p]) in
      s\<lparr>su_cpu_total := su_cpu_total s + (case su_session_cpu s of None \<Rightarrow> 0 | Some (a, b) \<Rightarrow> b - a), su_session_cpu := None,
        su_rss_series := su_rss_series s @ (if points = [] then [] else [points]), su_session_start := None, su_rss_unsampled := None,
        su_rss_points := [], su_rss_next_hour := 0\<rparr>)"

definition truncate_rat :: "rat \<Rightarrow> int" where
  "truncate_rat x = (if 0 \<le> x then \<lfloor>x\<rfloor> else \<lceil>x\<rceil>)"

definition add_rss :: "datetime \<Rightarrow> rat \<Rightarrow> summary \<Rightarrow> summary" where
  "add_rss at' rss s =
     (let start = (case su_session_start s of None \<Rightarrow> at' | Some t \<Rightarrow> t);
          hours = secs_between at' start / 3600;
          point = (round_digits 1 hours, rss);
          s = s\<lparr>su_rss_max := opt_max (su_rss_max s) (Some rss), su_session_start := Some start\<rparr>
      in if su_rss_points s = [] \<or> of_int (su_rss_next_hour s) \<le> hours
         then s\<lparr>su_rss_points := su_rss_points s @ [point], su_rss_next_hour := truncate_rat hours + 1, su_rss_unsampled := None\<rparr>
         else s\<lparr>su_rss_unsampled := Some point\<rparr>)"

subsection \<open>Events\<close>

definition STDERR_TAIL_REPORT_CHARS :: nat where "STDERR_TAIL_REPORT_CHARS = 200"

definition tail_of :: "pyval \<Rightarrow> string" where
  "tail_of v = (case v of VStr t \<Rightarrow> take STDERR_TAIL_REPORT_CHARS t | _ \<Rightarrow> [])"

definition loss_of :: "datetime \<Rightarrow> row \<Rightarrow> loss" where
  "loss_of recv detail =
     \<lparr>lo_recv = recv, lo_reason = rget detail ''reason'', lo_exit_code = rget detail ''exit_code'', lo_stderr_tail = tail_of (rget detail ''stderr_tail'')\<rparr>"

definition rotation_reason :: "row \<Rightarrow> pyval" where
  "rotation_reason detail = (if rget detail ''reason'' \<in> {VNone, VStr []} then VStr ''max_lifetime'' else rget detail ''reason'')"

definition add_event :: "datetime \<Rightarrow> string \<Rightarrow> row \<Rightarrow> summary \<Rightarrow> summary" where
  "add_event recv ev detail s =
     (if ev = ''session_started'' then
        (close_session (s\<lparr>su_started := Suc (su_started s)\<rparr>))\<lparr>su_session_start := Some recv\<rparr>
      else if ev = ''session_lost'' then
        s\<lparr>su_losses := count_key (su_losses s) (dget_or detail ''reason'' (VStr ''unknown'')),
          su_loss_timeline := su_loss_timeline s @ [loss_of recv detail]\<rparr>
      else if ev = ''session_rotated'' then
        s\<lparr>su_rotations := Suc (su_rotations s), su_rotation_reasons := count_key (su_rotation_reasons s) (rotation_reason detail)\<rparr>
      else if ev = ''node_rebooted'' then s\<lparr>su_reboots := Suc (su_reboots s)\<rparr>
      else if ev = ''session_crashed'' then s\<lparr>su_crashed := Suc (su_crashed s)\<rparr>
      else if ev = ''malformed_line'' then s\<lparr>su_malformed := Suc (su_malformed s)\<rparr>
      else if ev = ''probe_stderr'' then s\<lparr>su_stderr := Suc (su_stderr s)\<rparr>
      else s)"

subsection \<open>Messages\<close>

definition or_zero :: "rat option \<Rightarrow> rat" where
  "or_zero x = (case x of None \<Rightarrow> 0 | Some v \<Rightarrow> v)"

definition add_self :: "datetime \<Rightarrow> self_part \<Rightarrow> summary \<Rightarrow> summary" where
  "add_self at' ps s =
     (let cpu = or_zero (ps_cpu ps) + or_zero (ps_children_cpu ps);
          s = s\<lparr>su_session_cpu := Some (case su_session_cpu s of None \<Rightarrow> cpu | Some (a, _) \<Rightarrow> a, cpu), su_maxrss := max (su_maxrss s) (or_zero (ps_maxrss ps))\<rparr>
      in case ps_rss ps of None \<Rightarrow> s | Some rss \<Rightarrow> add_rss at' rss s)"

definition sum_counters :: "datetime \<Rightarrow> self_part option \<Rightarrow> summary \<Rightarrow> summary" where
  "sum_counters at' ps s =
     (let s = s\<lparr>su_counters := Suc (su_counters s), su_last_counter_at := Some at',
                su_max_gap := (case su_last_counter_at s of None \<Rightarrow> su_max_gap s | Some t \<Rightarrow> opt_max (su_max_gap s) (Some (secs_between at' t)))\<rparr>
      in case ps of None \<Rightarrow> s | Some ps \<Rightarrow> add_self at' ps s)"

definition census_facts :: "(soak_census \<Rightarrow> nat) \<Rightarrow> soak_census \<Rightarrow> nat \<times> nat \<times> rat option \<times> rat option \<times> rat option" where
  "census_facts size_of c =
     (case ce_body c of
        Shaped sh \<Rightarrow> (sh_process_count sh, sh_bytes sh, sh_cpu_min sh, sh_cpu_max sh, sh_idle_for_max sh)
      | Processes ps \<Rightarrow> (length ps, size_of c, list_min (somes (map so_cpu_seconds ps)), list_max (somes (map so_cpu_seconds ps)),
          list_max (somes (map so_idle_for_sec ps))))"

definition sum_census :: "(soak_census \<Rightarrow> nat) \<Rightarrow> soak_census \<Rightarrow> summary \<Rightarrow> summary" where
  "sum_census size_of c s =
     (case census_facts size_of c of (n, bytes, cpu_min, cpu_max, idle_max) \<Rightarrow>
      s\<lparr>su_census := Suc (su_census s), su_scans := su_scans s @ (case ce_scan_seconds c of None \<Rightarrow> [] | Some x \<Rightarrow> [x]),
        su_gpu_status := (case ce_gpu_status c of None \<Rightarrow> su_gpu_status s | Some g \<Rightarrow> count_key (su_gpu_status s) g),
        su_proc_total := su_proc_total s + n, su_size_total := su_size_total s + bytes,
        su_cpu_min := opt_min (su_cpu_min s) cpu_min, su_cpu_max := opt_max (su_cpu_max s) cpu_max,
        su_idle_max := opt_max (su_idle_max s) idle_max\<rparr>)"

definition add_message :: "(soak_census \<Rightarrow> nat) \<Rightarrow> datetime \<Rightarrow> soak_msg \<Rightarrow> summary \<Rightarrow> summary" where
  "add_message size_of recv m s =
     (case m of
        CountersMsg ps \<Rightarrow> sum_counters recv ps s
      | CensusMsg c \<Rightarrow> sum_census size_of c s
      | ErrorMsg w \<Rightarrow> s\<lparr>su_errors_by_where := count_key (su_errors_by_where s) (case w of None \<Rightarrow> ''unknown'' | Some w \<Rightarrow> w)\<rparr>
      | ByeMsg \<Rightarrow> s\<lparr>su_byes := Suc (su_byes s)\<rparr>
      | OtherMsg \<Rightarrow> s)"

definition add_line :: "(soak_census \<Rightarrow> nat) \<Rightarrow> soak_line \<Rightarrow> summary \<Rightarrow> summary" where
  "add_line size_of line s =
     (let s = s\<lparr>su_first := (case su_first s of None \<Rightarrow> Some (sl_recv line) | f \<Rightarrow> f), su_last := Some (sl_recv line)\<rparr> in
      case sl_body line of Event ev detail \<Rightarrow> add_event (sl_recv line) ev detail s | Msg m \<Rightarrow> add_message size_of (sl_recv line) m s)"

subsection \<open>The result\<close>

text \<open>\<open>_percentile\<close>: the nearest rank; \<open>-(-n * pct // 100)\<close> rounds up.\<close>

definition percentile :: "rat list \<Rightarrow> nat \<Rightarrow> rat option" where
  "percentile values pct =
     (if values = [] then None else Some (sort values ! (nat (max 1 (- ((- int (length values) * int pct) div 100))) - 1)))"

definition ratio :: "rat \<Rightarrow> rat \<Rightarrow> rat option" where
  "ratio a b = (if b = 0 then None else Some (a / b))"

record report =
  re_first :: datetime
  re_last :: datetime
  re_hours :: rat
  re_counters_received :: nat
  re_counters_expected :: rat
  re_coverage_pct :: "rat option"
  re_census_received :: nat
  re_census_expected :: "rat option"
  re_census_coverage_pct :: "rat option"
  re_cpu_sec_per_hour :: "rat option"
  re_scan_p50 :: "rat option"
  re_scan_p95 :: "rat option"
  re_scan_max :: "rat option"
  re_census_bytes_avg :: "rat option"
  re_process_count_avg :: "rat option"
  re_folded :: summary

definition summary_result :: "rat \<Rightarrow> rat option \<Rightarrow> summary \<Rightarrow> report res" where
  "summary_result counter_interval census_interval s =
     (case (su_first s, su_last s) of
        (Some a, Some b) \<Rightarrow>
          if counter_interval = 0 then Inl (OtherError ''ZeroDivisionError'')
          else
            let s = close_session s; hours = secs_between b a / 3600; expected = hours * 3600 / counter_interval;
                census_expected = (case census_interval of None \<Rightarrow> None | Some i \<Rightarrow> ratio (hours * 3600) i) in
            Inr \<lparr>re_first = a, re_last = b, re_hours = hours, re_counters_received = su_counters s, re_counters_expected = expected,
              re_coverage_pct = (if 0 < expected then Some (100 * of_nat (su_counters s) / expected) else None),
              re_census_received = su_census s, re_census_expected = census_expected,
              re_census_coverage_pct = (case census_expected of None \<Rightarrow> None | Some e \<Rightarrow> ratio (100 * of_nat (su_census s)) e),
              re_cpu_sec_per_hour = (if 0 < hours then Some (su_cpu_total s / hours) else None),
              re_scan_p50 = percentile (su_scans s) 50, re_scan_p95 = percentile (su_scans s) 95, re_scan_max = list_max (su_scans s),
              re_census_bytes_avg = ratio (of_nat (su_size_total s)) (of_nat (su_census s)),
              re_process_count_avg = ratio (of_nat (su_proc_total s)) (of_nat (su_census s)), re_folded = s\<rparr>
      | _ \<Rightarrow> Inl (OtherError ''TypeError''))"

subsection \<open>\<open>summarize\<close>\<close>

text \<open>A line that does not decode to a dictionary with its receipt time is \<open>None\<close>, and is left out.\<close>

definition summarize_node :: "(soak_census \<Rightarrow> nat) \<Rightarrow> rat \<Rightarrow> rat option \<Rightarrow> soak_line option list \<Rightarrow> report res option" where
  "summarize_node size_of counter_interval census_interval lines =
     (let s = fold (add_line size_of) (somes lines) new_summary in
      if su_first s = None then None else Some (summary_result counter_interval census_interval s))"

fun collect_reports :: "(string \<times> report res option) list \<Rightarrow> (string, report) dict res" where
  "collect_reports [] = Inr []"
| "collect_reports ((l, None) # rs) = collect_reports rs"
| "collect_reports ((l, Some (Inl e)) # rs) = Inl e"
| "collect_reports ((l, Some (Inr r)) # rs) = (case collect_reports rs of Inl e \<Rightarrow> Inl e | Inr d \<Rightarrow> Inr ((l, r) # d))"

definition labels :: "(string, 'l list) dict \<Rightarrow> string list" where
  "labels disk = sort (remdups (map fst (somes (map (file_key \<circ> fst) disk))))"

definition summarize :: "(soak_census \<Rightarrow> nat) \<Rightarrow> rat \<Rightarrow> rat option \<Rightarrow> (string, soak_line option list) dict \<Rightarrow> (string, report) dict res" where
  "summarize size_of counter_interval census_interval disk =
     collect_reports (map (\<lambda>l. (l, summarize_node size_of counter_interval census_interval (recorded_lines disk l))) (labels disk))"

subsection \<open>The compact recording\<close>

definition compact :: "(soak_census \<Rightarrow> nat) \<Rightarrow> soak_line \<Rightarrow> soak_line" where
  "compact size_of line = (case sl_body line of Msg m \<Rightarrow> line\<lparr>sl_body := Msg (shape size_of False m)\<rparr> | Event _ _ \<Rightarrow> line)"

lemma census_facts_compact:
  "ce_body c = Processes ps \<Longrightarrow> census_facts size_of (c\<lparr>ce_body := Shaped (shape_of size_of c ps)\<rparr>) = census_facts size_of c"
  by (simp add: census_facts_def shape_of_def)

lemma add_message_compact: "add_message size_of recv (shape size_of False m) s = add_message size_of recv m s"
proof (cases m)
  case (CensusMsg c)
  then show ?thesis by (cases "ce_body c") (simp_all add: shape_def add_message_def sum_census_def census_facts_compact)
qed (simp_all add: shape_def)

lemma add_line_compact: "add_line size_of (compact size_of line) s = add_line size_of line s"
  by (cases "sl_body line"; cases "su_first s") (simp_all add: add_line_def compact_def add_message_compact)

lemma fold_compact: "fold (add_line size_of) (map (compact size_of) ls) s = fold (add_line size_of) ls s"
  by (induction ls arbitrary: s) (simp_all add: add_line_compact)

lemma somes_map: "somes (map (map_option f) xs) = map f (somes xs)"
  by (induction xs) (auto simp: somes_def)

lemma dated_files_map: "dated_files (map (\<lambda>(n, ls). (n, f ls)) disk) l = map (\<lambda>(d, ls). (d, f ls)) (dated_files disk l)"
proof -
  have "rekey key (map (\<lambda>(n, ls). (n, f ls)) d) = map (\<lambda>(k, ls). (k, f ls)) (rekey key d)" for key :: "string \<Rightarrow> string option" and d
    by (induction key d rule: rekey.induct) (auto split: option.splits)
  then show ?thesis by (simp add: dated_files_def)
qed

lemma recorded_lines_map: "recorded_lines (map (\<lambda>(n, ls). (n, map f ls)) disk) l = map f (recorded_lines disk l)"
proof -
  have "sort_key fst (map (\<lambda>(d, ls). (d, map f ls)) D) = map (\<lambda>(d, ls). (d, map f ls)) (sort_key fst D)" for D :: "(string \<times> 'b list) list"
    by (rule sort_key_pair_map) auto
  then show ?thesis by (simp add: recorded_lines_def dated_files_map map_concat comp_def case_prod_beta)
qed

text \<open>
  C35.  Leaving the processes out of a recording does not change the report: summarizing the recording that keeps, for each
  census, only counts, extremes and size gives the same report, or the same error, for every node as summarizing the full
  recording of the same messages.
\<close>

theorem compact_recording_same_report:
  "summarize size_of ci cei (map (\<lambda>(n, ls). (n, map (map_option (compact size_of)) ls)) disk) = summarize size_of ci cei disk"
proof -
  have "labels (map (\<lambda>(n, ls). (n, map (map_option (compact size_of)) ls)) disk) = labels disk"
    by (simp add: labels_def comp_def case_prod_beta)
  then show ?thesis
    by (simp add: summarize_def summarize_node_def recorded_lines_map somes_map fold_compact)
qed

subsection \<open>Percentiles\<close>

lemma ceil_div_bounds:
  fixes n p :: int
  assumes "0 < n" "0 < p" "p \<le> 100"
  defines "c \<equiv> - ((- n * p) div 100)"
  shows "1 \<le> c" "c \<le> n" "n * p \<le> 100 * c" "100 * (c - 1) < n * p"
proof -
  define m where "m = n * p"
  have np: "0 < n * p" using assms by simp
  define r where "r = (- m) mod 100"
  have "- c = (- m) div 100" by (simp add: c_def m_def)
  then have "100 * (- c) + r = - m" unfolding r_def by (metis mult_div_mod_eq)
  moreover have "0 \<le> r" "r < 100" by (simp_all add: r_def)
  ultimately have "n * p \<le> 100 * c \<and> 100 * (c - 1) < n * p" unfolding m_def [symmetric] by auto
  then show b: "n * p \<le> 100 * c" "100 * (c - 1) < n * p" by simp_all
  show "1 \<le> c" using b(1) np by linarith
  have "n * p \<le> n * 100" using assms by (intro mult_left_mono) auto
  then have "100 * (c - 1) < 100 * n" using b(2) by linarith
  then show "c \<le> n" by simp
qed

lemma sorted_rank_counts:
  assumes "sorted ys" "k < length ys"
  shows "Suc k \<le> length (filter (\<lambda>y. y \<le> ys ! k) ys)" "length (filter (\<lambda>y. y < ys ! k) ys) \<le> k"
proof -
  have sp: "ys = take (Suc k) ys @ drop (Suc k) ys" by simp
  have "filter (\<lambda>y. y \<le> ys ! k) (take (Suc k) ys) = take (Suc k) ys"
    using assms by (auto simp: filter_id_conv in_set_conv_nth sorted_iff_nth_mono)
  then have "length (filter (\<lambda>y. y \<le> ys ! k) (take (Suc k) ys)) = Suc k" using assms(2) by simp
  then show "Suc k \<le> length (filter (\<lambda>y. y \<le> ys ! k) ys)" by (subst sp) (simp only: filter_append length_append)
  have "filter (\<lambda>y. y < ys ! k) (drop k ys) = []"
    using assms by (auto simp: filter_empty_conv in_set_conv_nth sorted_iff_nth_mono leD)
  then have "filter (\<lambda>y. y < ys ! k) ys = filter (\<lambda>y. y < ys ! k) (take k ys)"
    by (metis append_Nil2 append_take_drop_id filter_append)
  then show "length (filter (\<lambda>y. y < ys ! k) ys) \<le> k" by (metis length_filter_le length_take le_trans min.cobounded2)
qed

text \<open>
  A reported percentile is a measured value at the nearest rank: at least that share of the values is not larger,
  and fewer than that share are smaller; without values there is none.
\<close>

theorem percentile_nearest_rank:
  assumes "0 < pct" "pct \<le> 100"
  shows "(percentile xs pct = None \<longleftrightarrow> xs = []) \<and> (\<forall>v. percentile xs pct = Some v \<longrightarrow> v \<in> set xs \<and>
    pct * length xs \<le> 100 * length (filter (\<lambda>x. x \<le> v) xs) \<and> 100 * length (filter (\<lambda>x. x < v) xs) < pct * length xs)"
proof (intro conjI allI impI)
  show "percentile xs pct = None \<longleftrightarrow> xs = []" by (simp add: percentile_def)
next
  fix v assume "percentile xs pct = Some v"
  then have ne: "xs \<noteq> []" and v: "v = sort xs ! (nat (max 1 (- ((- int (length xs) * int pct) div 100))) - 1)"
    by (auto simp: percentile_def split: if_splits)
  define c where "c = - ((- int (length xs) * int pct) div 100)"
  have c: "1 \<le> c" "c \<le> int (length xs)" "int (length xs) * int pct \<le> 100 * c" "100 * (c - 1) < int (length xs) * int pct"
    unfolding c_def using ceil_div_bounds [of "int (length xs)" "int pct"] assms ne by simp_all
  define k where "k = nat c - 1"
  have "v = sort xs ! k" using v c(1) unfolding c_def [symmetric] k_def by (simp only: max_absorb2)
  then have k: "k < length (sort xs)" "v = sort xs ! k" using c(1, 2) by (auto simp: k_def)
  note r = sorted_rank_counts [OF sorted_sort k(1)]
  have ms: "length (filter P (sort xs)) = length (filter P xs)" for P by (metis mset_eq_length mset_filter mset_sort)
  have "Suc k = nat c" using c(1) by (simp add: k_def)
  then have sk: "int (Suc k) = c" using c(1) by simp
  show "v \<in> set xs" using k by (metis nth_mem set_sort)
  have "int (pct * length xs) \<le> int (100 * length (filter (\<lambda>x. x \<le> v) xs))"
    using r(1) c(3) sk unfolding k(2) [symmetric] ms by (simp add: mult.commute)
  then show "pct * length xs \<le> 100 * length (filter (\<lambda>x. x \<le> v) xs)" by linarith
  have "int (100 * length (filter (\<lambda>x. x < v) xs)) < int (pct * length xs)"
    using r(2) c(4) sk unfolding k(2) [symmetric] ms by (simp add: mult.commute)
  then show "100 * length (filter (\<lambda>x. x < v) xs) < pct * length xs" by linarith
qed

theorem percentile_nearest_rank_witness:
  "percentile [3, 1, 2] 50 = Some 2 \<and> 100 * length (filter (\<lambda>x. x < 2) [3, 1, 2 :: rat]) < 50 * 3"
proof -
  have "sort [3, 1, 2 :: rat] = [1, 2, 3]" by simp
  then have p: "percentile [3, 1, 2] 50 = Some 2" by (simp add: percentile_def)
  then show ?thesis using percentile_nearest_rank [of 50 "[3, 1, 2]"] by simp
qed

subsection \<open>The memory series stays small\<close>

text \<open>While the clock does not run back behind the session's start, a session keeps at most one point per whole hour.\<close>

definition rss_inv :: "summary \<Rightarrow> bool" where
  "rss_inv s \<longleftrightarrow> int (length (su_rss_points s)) \<le> su_rss_next_hour s"

lemma rss_inv_new: "rss_inv new_summary" "rss_inv (close_session s)"
  by (simp_all add: rss_inv_def new_summary_def close_session_def Let_def)

lemma rss_inv_add:
  assumes "rss_inv s" "\<And>t. su_session_start s = Some t \<Longrightarrow> 0 \<le> secs_between now t"
  shows "rss_inv (add_rss now rss s)"
proof -
  define h where "h = secs_between now (case su_session_start s of None \<Rightarrow> now | Some t \<Rightarrow> t) / 3600"
  have "0 \<le> h" using assms(2) by (auto simp: h_def secs_between_def split: option.splits)
  then have "su_rss_next_hour s \<le> truncate_rat h" if "of_int (su_rss_next_hour s) \<le> h"
    using that by (simp add: truncate_rat_def le_floor_iff)
  moreover have "0 \<le> truncate_rat h" using \<open>0 \<le> h\<close> by (simp add: truncate_rat_def)
  ultimately show ?thesis using assms(1) unfolding rss_inv_def add_rss_def Let_def h_def [symmetric] by fastforce
qed

end
