(* ===== verification/Commands.thy ===== *)
theory Commands
  imports Live Writer Migrate Soak_Report
begin

text \<open>
  The commands that start, stop and inspect the daemon and the database (\<open>cli/main.py\<close>), the connection parameters
  (\<open>database/connect.py\<close>) and the version string (\<open>version.py\<close>).  What the operating system and the database
  answer is an argument of each command: a command that polls takes the answers of its polls in order, each with the
  monotonic clock read after it.
\<close>

datatype ending = Returns | Exits nat | ClickError string

subsection \<open>Connection parameters\<close>

definition SESSION_OPTIONS :: string where "SESSION_OPTIONS = ''-c search_path=node_monitor,public -c TimeZone=UTC''"

text \<open>The options of the URL come first; libpq takes whole seconds, at least one.\<close>

definition connect_options :: "string option \<Rightarrow> string option \<Rightarrow> string" where
  "connect_options url_options lock_timeout =
     (let own = SESSION_OPTIONS @ (case lock_timeout of None \<Rightarrow> [] | Some t \<Rightarrow> '' -c lock_timeout='' @ t) in
      case url_options of Some (c # o') \<Rightarrow> (c # o') @ '' '' @ own | _ \<Rightarrow> own)"

definition connect_timeout :: "rat \<Rightarrow> int" where
  "connect_timeout sec = max 1 \<lceil>sec\<rceil>"

definition run_database :: "db_exn + 'a \<Rightarrow> (db_exn + string) + 'a" where
  "run_database r =
     (case r of
        Inr x \<Rightarrow> Inr x
      | Inl (PgError op st m) \<Rightarrow> Inl (Inr ((if is_unavailable (PgError op st m) then ''database unavailable: '' else ''database error: '') @ m))
      | Inl (PyExn (ValueError m)) \<Rightarrow> Inl (Inr (''database error: '' @ m))
      | Inl e \<Rightarrow> Inl (Inl e))"

subsection \<open>Waiting for the database\<close>

datatype wait_attempt = Connected | NotConnected string

text \<open>
  \<open>database wait\<close>: after a failed attempt at clock \<open>t\<close> it sleeps for at most two seconds, and never past the deadline.  The result
  is \<open>None\<close> while it still waits, with the sleeps made so far; \<open>given\<close> is the timeout as the message shows it.
\<close>

fun database_wait :: "string \<Rightarrow> rat \<Rightarrow> (wait_attempt \<times> rat) list \<Rightarrow> ending option \<times> rat list" where
  "database_wait given deadline [] = (None, [])"
| "database_wait given deadline ((Connected, _) # as) = (Some Returns, [])"
| "database_wait given deadline ((NotConnected r, t) # as) =
     (if deadline - t \<le> 0 then (Some (ClickError (''database not reachable after '' @ given @ ''s: '' @ r)), [])
      else case database_wait given deadline as of (e, sleeps) \<Rightarrow> (e, min 2 (deadline - t) # sleeps))"

subsection \<open>Ages and versions\<close>

definition age_text :: "rat \<Rightarrow> string" where
  "age_text seconds =
     (let s = nat (max 0 (truncate_int seconds)) in
      if s < 120 then show_nat s @ ''s''
      else if s < 7200 then show_nat (s div 60) @ ''m''
      else if s < 172800 then show_nat (s div 3600) @ ''h''
      else show_nat (s div 86400) @ ''d'')"

text \<open>\<open>_git\<close>: what the command printed, if it ran and succeeded and printed anything.\<close>

definition git_output :: "(int \<times> string) option \<Rightarrow> string option" where
  "git_output r = (case r of None \<Rightarrow> None | Some (code, out) \<Rightarrow> if code = 0 \<and> strip out \<noteq> [] then Some (strip out) else None)"

definition version_text :: "string \<Rightarrow> (int \<times> string) option \<Rightarrow> string" where
  "version_text version r = (case git_output r of None \<Rightarrow> version | Some g \<Rightarrow> version @ ''+'' @ g)"

subsection \<open>Schema commands\<close>

text \<open>\<open>database migrate\<close> once the owner check has passed, and \<open>database status\<close>.\<close>

definition migrate_message :: "nat list \<Rightarrow> string" where
  "migrate_message applied = (if applied = [] then ''up to date'' else ''applied: '' @ join '', '' (map (show_padded 4) applied))"

definition pending_migrations :: "(nat \<times> string) list \<Rightarrow> nat \<Rightarrow> string list" where
  "pending_migrations ms version = map snd (filter (\<lambda>(v, _). version < v) ms)"

definition partition_line :: "string \<times> string option \<times> string \<Rightarrow> string" where
  "partition_line p =
     (case p of (parent, None, _) \<Rightarrow> ''partition '' @ parent @ '': none'' | (parent, Some child, bound) \<Rightarrow> ''partition '' @ parent @ ''.'' @ child @ '': '' @ bound)"

definition database_status :: "(nat \<times> string) list \<Rightarrow> nat \<Rightarrow> (string \<times> string option \<times> string) list \<Rightarrow> string list \<times> ending" where
  "database_status ms version partitions =
     (let pending = pending_migrations ms version in
      ([''current version: '' @ show_nat version, ''required version: '' @ show_nat (required_version ms),
        ''pending: '' @ (if pending = [] then ''none'' else join '', '' pending)] @ map partition_line partitions,
       if pending = [] then Returns else Exits 1))"

subsection \<open>Writing the configuration template\<close>

datatype open_result = Opened | AlreadyExists | OpenError string

definition config_create :: "bool \<Rightarrow> string \<Rightarrow> open_result \<Rightarrow> string \<Rightarrow> string option \<Rightarrow> ending \<times> string option" where
  "config_create create target opened template old =
     (if \<not> create then (ClickError ''nothing to do; use --create [PATH]'', old)
      else case opened of
        AlreadyExists \<Rightarrow> (ClickError (target @ '' already exists; not overwriting''), old)
      | OpenError e \<Rightarrow> (ClickError (''cannot write '' @ target @ '': '' @ e), old)
      | Opened \<Rightarrow> (Returns, Some template))"

subsection \<open>The daemon\<close>

record daemon_info =
  di_pid :: int
  di_host :: string
  di_started_at :: datetime

datatype kill_result = Sent | NoSuchProcess | NotPermitted string

record stop_run =
  st_signals :: "int list"
  st_cleared :: bool
  st_lines :: "string list"
  st_end :: "ending option"

text \<open>Polls of the lock after the signal, each with the clock read when the lock is still held.\<close>

fun await_exit :: "string \<Rightarrow> int \<Rightarrow> rat \<Rightarrow> (bool \<times> rat) list \<Rightarrow> ending option" where
  "await_exit given pid deadline [] = None"
| "await_exit given pid deadline ((held, t) # polls) =
     (if \<not> held then Some Returns
      else if deadline \<le> t then Some (ClickError (''daemon (pid '' @ show_int pid @ '') still running after '' @ given @ ''s''))
      else await_exit given pid deadline polls)"

definition daemon_stop :: "string \<Rightarrow> daemon_info option \<Rightarrow> int option \<Rightarrow> kill_result \<Rightarrow> string \<Rightarrow> rat \<Rightarrow> (bool \<times> rat) list \<Rightarrow> stop_run" where
  "daemon_stop nodename info stale killed given deadline polls =
     (case info of
        None \<Rightarrow>
          \<lparr>st_signals = [], st_cleared = True,
           st_lines = [''daemon not running'' @ (case stale of None \<Rightarrow> [] | Some p \<Rightarrow> '' (removed stale daemon.json from pid '' @ show_int p @ '')'')],
           st_end = Some Returns\<rparr>
      | Some i \<Rightarrow>
          if di_host i \<noteq> nodename then
            \<lparr>st_signals = [], st_cleared = False, st_lines = [],
             st_end = Some (ClickError (''daemon is running on '' @ di_host i @ '' (pid '' @ show_int (di_pid i) @ ''); stop it there''))\<rparr>
          else (case killed of
            NoSuchProcess \<Rightarrow> \<lparr>st_signals = [], st_cleared = False, st_lines = [''daemon not running''], st_end = Some Returns\<rparr>
          | NotPermitted e \<Rightarrow>
              \<lparr>st_signals = [], st_cleared = False, st_lines = [], st_end = Some (ClickError (''cannot signal pid '' @ show_int (di_pid i) @ '': '' @ e))\<rparr>
          | Sent \<Rightarrow>
              (let e = await_exit given (di_pid i) deadline polls in
               \<lparr>st_signals = [di_pid i], st_cleared = False,
                st_lines = (if e = Some Returns then [''daemon stopped (pid '' @ show_int (di_pid i) @ '')''] else []), st_end = e\<rparr>)))"

definition HEARTBEAT_FRESH_SEC :: rat where "HEARTBEAT_FRESH_SEC = 180"

datatype heartbeat_answer = NoUrl | DbUnreachable string | Heartbeat "heartbeat_row option"

definition local_line :: "string \<Rightarrow> datetime \<Rightarrow> daemon_info option \<Rightarrow> int option \<Rightarrow> bool \<times> string" where
  "local_line nodename now info stale =
     (case info of
        Some i \<Rightarrow>
          if di_host i = nodename
          then (True, ''local process: running (pid '' @ show_int (di_pid i) @ '' on '' @ di_host i @ '', up '' @ age_text (secs_between now (di_started_at i)) @ '')'')
          else (False, ''local process: not running'')
      | None \<Rightarrow> (False, ''local process: not running'' @
          (case stale of None \<Rightarrow> [] | Some p \<Rightarrow> '' (stale daemon.json from pid '' @ show_int p @ '' removed)'')))"

definition hb_stopped :: "heartbeat_row \<Rightarrow> bool" where
  "hb_stopped h \<longleftrightarrow> (case hr_status h of None \<Rightarrow> False | Some st \<Rightarrow> rget st ''state'' = VStr ''stopped'')"

definition heartbeat_healthy :: "datetime \<Rightarrow> heartbeat_answer \<Rightarrow> bool" where
  "heartbeat_healthy now a =
     (case a of Heartbeat (Some h) \<Rightarrow> \<not> hb_stopped h \<and> secs_between now (utc (hr_last_seen h)) < HEARTBEAT_FRESH_SEC | _ \<Rightarrow> False)"

definition daemon_status_exit :: "string \<Rightarrow> datetime \<Rightarrow> daemon_info option \<Rightarrow> int option \<Rightarrow> heartbeat_answer \<Rightarrow> nat" where
  "daemon_status_exit nodename now info stale a =
     (if fst (local_line nodename now info stale) \<or> heartbeat_healthy now a then 0 else 1)"

text \<open>\<open>_print_heartbeat\<close>: the lines of the shared row; a missing value is a dash.\<close>

definition or_missing :: "(pyval \<Rightarrow> string) \<Rightarrow> row \<Rightarrow> string \<Rightarrow> string" where
  "or_missing str_of st k = (case dget st k of None \<Rightarrow> ''-'' | Some v \<Rightarrow> str_of v)"

definition session_lines :: "(pyval \<Rightarrow> string) \<Rightarrow> pyval \<Rightarrow> string list" where
  "session_lines str_of v = (case v of VDict d \<Rightarrow> map (\<lambda>(l, s). ''  '' @ l @ '': '' @ str_of s) (sort_key fst d) | _ \<Rightarrow> [])"

definition print_heartbeat :: "(pyval \<Rightarrow> string) \<Rightarrow> heartbeat_row \<Rightarrow> datetime \<Rightarrow> rat \<times> string list" where
  "print_heartbeat str_of h now =
     (let age = secs_between now (utc (hr_last_seen h)); st = (case hr_status h of None \<Rightarrow> [] | Some s \<Rightarrow> s) in
      (age,
       [''heartbeat: last seen '' @ age_text age @ '' ago on '' @ hr_collector_host h,
        ''  version: '' @ hr_version h @ ''  state: '' @ or_missing str_of st ''state'',
        ''  connected: '' @ or_missing str_of st ''connected'',
        ''  spooled batches: '' @ or_missing str_of st ''spooled_batches''] @
       (if falsy (rget st ''outage_since'') then [] else [''  database outage since: '' @ str_of (rget st ''outage_since'')]) @
       session_lines str_of (rget st ''sessions'')))"

definition heartbeat_lines :: "(pyval \<Rightarrow> string) \<Rightarrow> string \<Rightarrow> datetime \<Rightarrow> heartbeat_answer \<Rightarrow> string list" where
  "heartbeat_lines str_of system now a =
     (case a of
        NoUrl \<Rightarrow> [''heartbeat: unavailable (web.database_url is not configured)'']
      | DbUnreachable r \<Rightarrow> [''heartbeat: database unreachable ('' @ r @ '')'']
      | Heartbeat None \<Rightarrow> [''heartbeat: none recorded for system '' @ system]
      | Heartbeat (Some h) \<Rightarrow> snd (print_heartbeat str_of h now) @
          (if hb_stopped h then [''  collector stopped: the last heartbeat was written at shutdown''] else []))"

definition daemon_status_cmd :: "(pyval \<Rightarrow> string) \<Rightarrow> string \<Rightarrow> string \<Rightarrow> datetime \<Rightarrow> daemon_info option \<Rightarrow> int option \<Rightarrow> heartbeat_answer \<Rightarrow> string list \<times> ending" where
  "daemon_status_cmd str_of system nodename now info stale a =
     (snd (local_line nodename now info stale) # heartbeat_lines str_of system now a,
      if daemon_status_exit nodename now info stale a = 0 then Returns else Exits 1)"

text \<open>\<open>daemon start\<close>: refused while a daemon runs; in the background, the child must outlive the grace period.\<close>

definition already_running :: "daemon_info \<Rightarrow> ending" where
  "already_running i = ClickError (''node-monitor daemon already running (pid '' @ show_int (di_pid i) @ '' on '' @ di_host i @ '')'')"

definition start_argv :: "string \<Rightarrow> string option \<Rightarrow> string list" where
  "start_argv executable config_path =
     [executable, ''-m'', ''node_monitor.cli.main'', ''daemon'', ''start'', ''--foreground''] @
     (case config_path of Some (c # p) \<Rightarrow> [''--config'', c # p] | _ \<Rightarrow> [])"

definition log_tail :: "nat \<Rightarrow> string list \<Rightarrow> string" where
  "log_tail n lines = join [CHR 0x0A] (drop (length lines - n) lines)"

definition start_background :: "daemon_info option \<Rightarrow> string \<Rightarrow> int \<Rightarrow> int option \<Rightarrow> string list \<Rightarrow> string list \<times> ending" where
  "start_background info log_path child exited log_lines =
     (case info of
        Some i \<Rightarrow> ([], already_running i)
      | None \<Rightarrow>
          (case exited of
             Some code \<Rightarrow> ([], ClickError (''daemon exited with code '' @ show_int code @ ''; last log lines:'' @ [CHR 0x0A] @ log_tail 20 log_lines))
           | None \<Rightarrow> ([''daemon started (pid '' @ show_int child @ ''); log: '' @ log_path], Returns)))"

datatype daemon_run = RunCode nat | RunConfigError string

definition start_foreground :: "daemon_info option \<Rightarrow> daemon_run \<Rightarrow> ending" where
  "start_foreground holder run =
     (case holder of Some i \<Rightarrow> already_running i | None \<Rightarrow> (case run of RunCode n \<Rightarrow> Exits n | RunConfigError m \<Rightarrow> ClickError m))"

subsection \<open>Private directories\<close>

text \<open>
  \<open>make_private_dir\<close>: directories by their path of components, with their modes; the root exists.  The mode that \<open>mkdir\<close> leaves
  depends on the umask, so every new directory and the last one are set to owner-only.
\<close>

type_synonym dirs = "(string list, nat) dict"

function missing_dirs :: "dirs \<Rightarrow> string list \<Rightarrow> string list list" where
  "missing_dirs fs path = (if path = [] \<or> dget fs path \<noteq> None then [] else path # missing_dirs fs (butlast path))"
  by pat_completeness auto
termination by (relation "measure (\<lambda>(_, p). length p)") auto

declare missing_dirs.simps [simp del]

definition make_private_dir :: "nat \<Rightarrow> string list \<Rightarrow> dirs \<Rightarrow> dirs" where
  "make_private_dir masked path fs =
     (let missing = missing_dirs fs path;
          fs = fold (\<lambda>d fs. dset fs d masked) (rev missing) fs
      in fold (\<lambda>d fs. dset fs d 448) (missing @ [path]) fs)"

subsection \<open>The soak report\<close>

definition fmt_or_dash :: "nat \<Rightarrow> rat option \<Rightarrow> string" where
  "fmt_or_dash n x = (case x of None \<Rightarrow> ''-'' | Some q \<Rightarrow> fixed n q)"

definition REPORT_COLUMNS :: "string list" where
  "REPORT_COLUMNS = [''node'', ''hours'', ''coverage%'', ''census%'', ''errors'', ''max_gap_s'', ''sessions'', ''losses'', ''rotations'', ''reboots'',
     ''cpu_s/h'', ''rss_MB'', ''maxrss_MB'', ''scan_p95_s'', ''procs'']"

definition report_row :: "string \<Rightarrow> report \<Rightarrow> string list" where
  "report_row label r =
     (let s = re_folded r in
      [label, fmt_or_dash 2 (Some (re_hours r)), fmt_or_dash 1 (re_coverage_pct r), fmt_or_dash 1 (re_census_coverage_pct r),
       show_nat (sum_list (dvalues (su_errors_by_where s))), fmt_or_dash 0 (su_max_gap s), show_nat (su_started s),
       show_nat (sum_list (dvalues (su_losses s))), show_nat (su_rotations s), show_nat (su_reboots s), fmt_or_dash 1 (re_cpu_sec_per_hour r),
       fmt_or_dash 1 (map_option (\<lambda>k. k / 1024) (su_rss_max s)), fmt_or_dash 1 (Some (su_maxrss s / 1024)), fmt_or_dash 2 (re_scan_p95 r),
       fmt_or_dash 0 (re_process_count_avg r)])"

definition ljust :: "nat \<Rightarrow> string \<Rightarrow> string" where
  "ljust w s = s @ replicate (w - length s) (CHR '' '')"

definition rjust :: "nat \<Rightarrow> string \<Rightarrow> string" where
  "rjust w s = replicate (w - length s) (CHR '' '') @ s"

definition column_widths :: "string list list \<Rightarrow> nat list" where
  "column_widths rows = map (\<lambda>i. fold max (map (\<lambda>r. length (r ! i)) rows) 0) [0..<length (hd rows)]"

definition report_line :: "nat list \<Rightarrow> string list \<Rightarrow> string" where
  "report_line ws r = join ''  '' (map (\<lambda>(i, c, w). if i = 0 then ljust w c else rjust w c) (zip [0..<length r] (zip r ws)))"

definition soak_report :: "(string, report) dict \<Rightarrow> string list" where
  "soak_report result =
     (let rows = REPORT_COLUMNS # map (\<lambda>(l, r). report_row l r) result in map (report_line (column_widths rows)) rows)"

subsection \<open>Waiting ends\<close>

text \<open>The clock after an attempt is at least that of the attempt before it plus the sleep between them.\<close>

fun clocks_advance :: "rat \<Rightarrow> (wait_attempt \<times> rat) list \<Rightarrow> bool" where
  "clocks_advance deadline ((a, t) # (b, u) # as) = (t + min 2 (deadline - t) \<le> u \<and> clocks_advance deadline ((b, u) # as))"
| "clocks_advance deadline as = True"

lemma database_wait_ends_aux:
  "\<lbrakk>clocks_advance deadline ((a, t) # as); deadline - t \<le> 2 * of_nat k; Suc k \<le> length as\<rbrakk> \<Longrightarrow> fst (database_wait given deadline ((a, t) # as)) \<noteq> None"
proof (induction as arbitrary: a t k)
  case (Cons b as)
  obtain b1 u where b: "b = (b1, u)" by (cases b)
  show ?case
  proof (cases a)
    case (NotConnected r)
    show ?thesis
    proof (cases "deadline - t \<le> 0")
      case False
      have u: "t + min 2 (deadline - t) \<le> u" "clocks_advance deadline ((b1, u) # as)" using Cons.prems(1) b by simp_all
      have "fst (database_wait given deadline ((b1, u) # as)) \<noteq> None"
      proof (cases "deadline - t \<le> 2")
        case True
        then have "deadline - u \<le> 0" using u(1) by (simp add: min_def)
        then show ?thesis by (cases b1) simp_all
      next
        case big: False
        then obtain j where k: "k = Suc j" using Cons.prems(2) by (cases k) auto
        have "deadline - u \<le> 2 * of_nat j" using u(1) big Cons.prems(2) by (simp add: k min_def)
        moreover have "Suc j \<le> length as" using Cons.prems(3) k by simp
        ultimately show ?thesis using Cons.IH [OF u(2)] by blast
      qed
      then show ?thesis using False NotConnected b by (auto split: prod.splits)
    qed (simp add: NotConnected)
  qed simp
qed simp

lemma database_wait_sleeps:
  "clocks_advance deadline ((a, t) # as) \<Longrightarrow> list_all (\<lambda>x. 0 < x \<and> x \<le> 2) (snd (database_wait given deadline ((a, t) # as))) \<and>
    sum_list (snd (database_wait given deadline ((a, t) # as))) \<le> max 0 (deadline - t)"
proof (induction as arbitrary: a t)
  case Nil
  then show ?case by (cases a) (auto simp: min_def max_def)
next
  case (Cons b as)
  obtain b1 u where b: "b = (b1, u)" by (cases b)
  have u: "t + min 2 (deadline - t) \<le> u" "clocks_advance deadline ((b1, u) # as)" using Cons.prems b by simp_all
  note ih = Cons.IH [OF u(2)]
  obtain e sl where r: "database_wait given deadline ((b1, u) # as) = (e, sl)" by (cases "database_wait given deadline ((b1, u) # as)")
  show ?case
  proof (cases a)
    case (NotConnected r')
    then show ?thesis using ih u(1) b r by (auto simp: min_def max_def split: if_splits)
  qed simp
qed

text \<open>
  \<open>database wait\<close> ends: on a clock that runs at least through its own sleeps, it has returned, or reported the last failure at the
  deadline, after at most two attempts more than half the seconds it was given; it never sleeps more than two seconds at
  a time nor, in all, past the deadline; and it returns at the first attempt that connects.
\<close>

theorem database_wait_ends:
  assumes "clocks_advance deadline ((a, t) # as)" "deadline - t \<le> 2 * of_nat k" "Suc k \<le> length as"
  shows "(\<exists>e. fst (database_wait given deadline ((a, t) # as)) = Some e \<and> (e = Returns \<longrightarrow> Connected \<in> fst ` set ((a, t) # as)) \<and>
      (a = Connected \<longrightarrow> e = Returns)) \<and>
    list_all (\<lambda>x. 0 < x \<and> x \<le> 2) (snd (database_wait given deadline ((a, t) # as))) \<and> sum_list (snd (database_wait given deadline ((a, t) # as))) \<le> max 0 (deadline - t)"
proof -
  have c: "fst (database_wait given deadline xs) = Some Returns \<Longrightarrow> Connected \<in> fst ` set xs" for xs
    by (induction given deadline xs rule: database_wait.induct) (auto split: if_splits prod.splits)
  obtain e where "fst (database_wait given deadline ((a, t) # as)) = Some e" using database_wait_ends_aux [OF assms] by blast
  moreover have "a = Connected \<longrightarrow> fst (database_wait given deadline ((a, t) # as)) = Some Returns" by simp
  ultimately show ?thesis using c [of "(a, t) # as"] database_wait_sleeps [OF assms(1)] by auto
qed

theorem database_wait_ends_witness:
  "\<exists>e. fst (database_wait ''3'' 3 [(NotConnected ''refused'', 0), (NotConnected ''refused'', 2), (NotConnected ''refused'', 3), (Connected, 4)]) = Some e \<and> e \<noteq> Returns"
  using database_wait_ends [of 3 "NotConnected ''refused''" 0 "[(NotConnected ''refused'', 2), (NotConnected ''refused'', 3), (Connected, 4)]" 2] by simp

subsection \<open>Stopping the daemon\<close>

lemma await_exit_Returns: "await_exit given pid deadline polls = Some Returns \<Longrightarrow> \<exists>t. (False, t) \<in> set polls"
  by (induction given pid deadline polls rule: await_exit.induct) (auto split: if_splits)

lemma await_exit_ends: "\<lbrakk>(held, t) \<in> set polls; \<not> held \<or> deadline \<le> t\<rbrakk> \<Longrightarrow> await_exit given pid deadline polls \<noteq> None"
  by (induction given pid deadline polls rule: await_exit.induct) auto

text \<open>
  \<open>daemon stop\<close> signals at most one process, and only the one that the running daemon's file names on this very host; it says that the
  daemon has stopped only after the lock was seen free; it removes a leftover file only when no daemon runs; and it ends at the latest
  with the first poll at which the lock is free or the deadline has passed.
\<close>

theorem daemon_stop_safe:
  fixes nodename :: string
  assumes "r = daemon_stop nodename info stale killed given deadline polls"
  shows "(\<forall>pid \<in> set (st_signals r). \<exists>i. info = Some i \<and> di_pid i = pid \<and> di_host i = nodename) \<and> length (st_signals r) \<le> 1 \<and>
    (st_signals r \<noteq> [] \<and> st_end r = Some Returns \<longrightarrow> (\<exists>t. (False, t) \<in> set polls)) \<and>
    (st_cleared r \<longrightarrow> info = None) \<and>
    ((\<exists>held t. (held, t) \<in> set polls \<and> (\<not> held \<or> deadline \<le> t)) \<longrightarrow> st_end r \<noteq> None)"
proof -
  have "(\<exists>held t. (held, t) \<in> set polls \<and> (\<not> held \<or> deadline \<le> t)) \<Longrightarrow> await_exit given pid deadline polls \<noteq> None" for pid
    using await_exit_ends by blast
  then show ?thesis using await_exit_Returns unfolding assms daemon_stop_def Let_def
    by (auto split: option.splits kill_result.splits)
qed

theorem daemon_stop_safe_witness:
  "let r = daemon_stop ''uan1'' (Some \<lparr>di_pid = 7, di_host = ''uan1'', di_started_at = utc 0\<rparr>) None Sent ''60'' 60 [(True, 1), (False, 2)] in
   st_signals r = [7] \<and> st_end r \<noteq> None"
  using daemon_stop_safe [OF refl, of "''uan1''" "Some \<lparr>di_pid = 7, di_host = ''uan1'', di_started_at = utc 0\<rparr>" None Sent "''60''" 60 "[(True, 1), (False, 2)]"]
  by (simp add: daemon_stop_def)

subsection \<open>The table of the report is aligned\<close>

lemma length_join_const:
  "length (join s xs) = sum_list (map length xs) + length s * (length xs - 1)"
  by (induction s xs rule: join.induct) auto

lemma length_justified: "length s \<le> w \<Longrightarrow> length (ljust w s) = w" "length s \<le> w \<Longrightarrow> length (rjust w s) = w"
  by (simp_all add: ljust_def rjust_def)

lemma report_line_length:
  assumes "length r = length ws" "\<And>i. i < length ws \<Longrightarrow> length (r ! i) \<le> ws ! i"
  shows "length (report_line ws r) = sum_list ws + 2 * (length ws - 1)"
proof -
  have "map length (map (\<lambda>(i, c, w). if i = 0 then ljust w c else rjust w c) (zip [0..<length r] (zip r ws))) = ws"
    using assms by (intro nth_equalityI) (auto simp: length_justified)
  then show ?thesis using assms(1) by (simp add: report_line_def length_join_const)
qed

lemma column_widths_cover:
  assumes "r \<in> set rows" "i < length (hd rows)"
  shows "length (r ! i) \<le> column_widths rows ! i"
proof -
  have "x \<in> set xs \<Longrightarrow> x \<le> fold max xs (a :: nat)" for x xs a
  proof (induction xs arbitrary: a)
    case (Cons y ys)
    have "b \<le> fold max zs b" for b :: nat and zs by (induction zs arbitrary: b) (auto intro: order_trans [OF max.cobounded2])
    then show ?case using Cons by (auto intro: order_trans [OF max.cobounded1])
  qed simp
  then show ?thesis using assms by (simp add: column_widths_def)
qed

lemma report_aligned:
  assumes "\<And>r. r \<in> set rows \<Longrightarrow> length r = length (hd rows)" "r \<in> set rows" "r' \<in> set rows"
  shows "length (report_line (column_widths rows) r) = length (report_line (column_widths rows) r')"
proof -
  have w: "length (column_widths rows) = length (hd rows)" by (simp add: column_widths_def)
  show ?thesis using assms column_widths_cover w by (simp add: report_line_length)
qed

lemma soak_report_aligned: "\<forall>a \<in> set (soak_report result). \<forall>b \<in> set (soak_report result). length a = length b"
proof -
  let ?rows = "REPORT_COLUMNS # map (\<lambda>(l, r). report_row l r) result"
  have "length r = length (hd ?rows)" if "r \<in> set ?rows" for r
    using that by (auto simp: REPORT_COLUMNS_def report_row_def Let_def)
  then show ?thesis using report_aligned [of ?rows] by (simp add: soak_report_def Let_def del: list.set set_map) auto
qed

subsection \<open>Directories end private\<close>

lemma fold_dset_const: "dget (fold (\<lambda>d fs. dset fs d m) ds fs) p = (if p \<in> set ds then Some m else dget fs p)"
  by (induction ds arbitrary: fs) auto

text \<open>The directory and everything that had to be made for it are owner-only, whatever the umask; every other directory is as it was.\<close>

lemma make_private_dir_modes:
  "dget (make_private_dir masked path fs) p = (if p \<in> set (missing_dirs fs path) \<or> p = path then Some 448 else dget fs p)"
  by (auto simp: make_private_dir_def Let_def fold_dset_const)

end
