(* ===== verification/Spec2Isabelle.thy ===== *)
theory Spec2Isabelle
  imports Writer_Props Writer_Thread Daemon Config Instance Probe_Signal Probe_Lock Replay Fleet Db_Bootstrap Commands
begin

text \<open>
  A verification library for node-monitor (\<open>src/node_monitor\<close>), a monitor of the login nodes of a cluster.

  \<^bold>\<open>The program.\<close>  A collector daemon keeps one ssh session per node and ships a probe, a single Python file, through
  each of them.  The probe reads \<open>/proc\<close>, \<open>/sys\<close> and \<open>nvidia-smi\<close> and writes one JSON message per line: a hello, node
  counters every few seconds, and a census of the processes every minute.  The session hands the messages and its own
  events to the pipeline of the node, which classifies and redacts the processes and folds counters and censuses into
  one-minute metrics, five-minute usage summaries and live rows.  These records go through a queue to the one writer
  thread, which writes them to PostgreSQL in idempotent transactions and spools them to disk while the database is
  away.  Beside the daemon there are commands that read the live tables, manage the database, and record a soak run,
  report on it and replay it.

  \<^bold>\<open>Theories and sources.\<close>
  \<^item> Prelude: \<open>NM_Prelude\<close> (dictionaries in insertion order, results), \<open>Py_Text\<close> (string methods), \<open>Calendar\<close> and
    \<open>Timestamps\<close> (\<open>datetime\<close>, \<open>pipeline/timestamps.py\<close>), \<open>Regex\<close> (the part of \<open>re\<close> the pipeline uses).
  \<^item> Probe (\<open>probe/probe.py\<close>): \<open>Probe_Host\<close> (reading files), \<open>Probe_Counters\<close>, \<open>Probe_Hardware\<close>, \<open>Probe_Gpu\<close>,
    \<open>Probe_Census\<close>, \<open>Probe_Tracker\<close>, \<open>Probe_Message\<close>, \<open>Probe_Stream\<close> (lines and main loop), \<open>Probe_Signal\<close> (the
    main thread, the watchdog and signals), \<open>Probe_Lock\<close>.
  \<^item> Collector (\<open>collector/\<close>): \<open>Session\<close> (\<open>session.py\<close>), \<open>Fleet\<close> (\<open>fleet.py\<close>, \<open>bootstrap.py\<close>, \<open>ssh.py\<close>), \<open>Record_Queue\<close>,
    \<open>Writer_Thread\<close>, \<open>Upkeep\<close>, \<open>Instance\<close>, \<open>Daemon\<close>, \<open>Soak_Record\<close> and \<open>Soak_Report\<close> (\<open>soak.py\<close>).
  \<^item> Pipeline (\<open>pipeline/\<close>): \<open>Records\<close>, \<open>Schema\<close>, \<open>Process_Rows\<close>, \<open>Rules\<close> (\<open>rules.py\<close>, \<open>classify.py\<close>), \<open>Redact\<close>, \<open>Enrich\<close>,
    \<open>Node_Metrics\<close>, \<open>Usage\<close>, \<open>Node_Pipeline\<close>, \<open>Replay\<close>.
  \<^item> Database (\<open>database/\<close>): \<open>Codec\<close>, \<open>Spool\<close>, \<open>Maintenance\<close>, \<open>Writer\<close> with \<open>Upserts\<close> and \<open>Writer_Props\<close> (\<open>writer.py\<close>,
    \<open>connect.py\<close>), \<open>Buffered\<close>, \<open>Migrate\<close>, \<open>Queries\<close>, \<open>Db_Bootstrap\<close> (\<open>bootstrap.py\<close>).
  \<^item> Commands: \<open>Config\<close> (\<open>config.py\<close>), \<open>Output\<close>, \<open>Live\<close> and \<open>Commands\<close> (\<open>cli/\<close>, \<open>version.py\<close>).

  \<^bold>\<open>What the lemmas show.\<close>
  \<^item> From the queue to the tables nothing durable is lost, repeated or reordered: \<open>Record_Queue\<close> (every interleaving
    of put, take and close), \<open>Buffered\<close> and \<open>Spool\<close> (every batch is committed, spooled, quarantined or reported, and the
    spool is replayed oldest first), \<open>Upserts\<close> and \<open>Writer_Props\<close> (a write is atomic and replaying a batch changes
    nothing), \<open>Writer_Thread\<close> (the thread ends after close and accounts for every record), \<open>Maintenance\<close> (retention
    drops only what has expired), and \<open>Daemon\<close>, which composes all of it into a run of the collector.
  \<^item> What is stored is right: \<open>Usage\<close> (totals are sums over the rows seen, the node's total is that of its users),
    \<open>Node_Metrics\<close> (rows within bounds), \<open>Rules\<close> (the documented priority order), \<open>Redact\<close> (redaction masks and adds
    nothing), \<open>Node_Pipeline\<close> (no row key is emitted twice), and the probe's theories (what the tracker reports is a
    function of a process's history, the schedule does not burst, the lock signals nobody but a probe, and a signal is
    reported after whole lines and ends the probe even when its reader stalls).
  \<^item> Lifecycles: \<open>Session\<close> (the callbacks follow a protocol), \<open>Fleet\<close> (every session is stopped), \<open>Instance\<close> (one daemon,
    under crashes), \<open>Migrate\<close>, \<open>Db_Bootstrap\<close> and \<open>Commands\<close> (interrupted runs resume; waiting ends).
  \<^item> What is shown is what is stored: \<open>Queries\<close>, \<open>Live\<close> and \<open>Output\<close> (views agree with each other, nothing is left out
    unannounced, CSV reads back), \<open>Soak_Record\<close>, \<open>Soak_Report\<close> and \<open>Replay\<close> (a recording reads back, reports the same in
    both forms and replays as it was collected).  \<open>Config\<close> shows what a loaded configuration guarantees.

  \<^bold>\<open>Interfaces.\<close>  \<open>tx_writer\<close> (\<open>Buffered\<close>) is what the buffered writer relies on of the database writer; \<open>Writer_Props\<close>
  interprets it on the writer's model.  \<open>ranked_upsert\<close> (\<open>Upserts\<close>) is the contract of an upsert that the statements of
  the writer share, interpreted on each of them.  \<open>increasing_emitter\<close> (\<open>Node_Pipeline\<close>) is interpreted on the minutes
  and on the intervals of a pipeline, \<open>accounting\<close> (\<open>Writer_Thread\<close>) on the buffered writer, and \<open>resumable\<close>
  (\<open>Db_Bootstrap\<close>) on the statements of the bootstrap.

  \<^bold>\<open>Conventions.\<close>  What the operating system, the database, the clock and other processes do is an argument of the
  operation that meets it, either a value per call or a script of which each interaction consumes an entry, so every
  fault the code handles is a branch of a definition; what interleaves is an \<open>inductive\<close> step relation.  Text is a list
  of code points below 256, in \<open>Output\<close> and \<open>Fleet\<close> a list of code points; floats are exact rationals, so statements on
  them hold up to rounding.  Messages of the probe are typed records by the fields the code computes with; fields that
  are only copied are Python values.  The JSON and YAML readers, the JSON encoder, the URL parser, \<open>str.isprintable\<close> and
  the SQL of a migration file are parameters.  Capture groups inside a look-behind are not recorded by \<open>Regex\<close>.  A host
  of the probe is one moment of the node; what reads at several moments takes several.  After a census that raises, the
  model keeps the cache of user names as it was before.

  \<^bold>\<open>Bounds and fuel.\<close>  Loops are structural recursions over their input or over the script of what they meet, or
  functions with a measure.  Fuel occurs in two places: the repetition of \<open>Regex\<close> gets its lower bound plus
  the length of the rest of the text, and an iteration beyond the lower bound consumes a character, so that more fuel
  changes nothing; the CSV reader of \<open>Output\<close>, which is
  specification, gets one more than the number of rows.  The sink of a replay makes at most three rounds, as the code
  does, and \<open>database_wait\<close> is shown to end within its deadline.

  \<^bold>\<open>Not modelled.\<close>  The declaration of command-line options and their help, logging set-up and log texts, the layout
  that \<open>rich\<close> gives a table, installing signal handlers, and creating processes and threads have no state of their own
  to reason about.  What a session's ssh process and an \<open>nvidia-smi\<close> child do is an argument of the operations that read
  them, so spawning them and killing their process groups is left out.  The manifest file of a recording is written once and read by nobody.
  Rewriting the database URL to name another database is the URL library's work.  Which rows the server accepts is a
  parameter, since the schema is in SQL files.
\<close>

end
